(* ===== verification/Prelude.thy ===== *)
theory Prelude
  imports Main "HOL-Library.Word"
begin

text \<open>
  Shared vocabulary of the development: the machine integers of the i386 build, the
  outcome type in which every stateful C function returns, typed stores for objects that
  live behind pointers, and the generic lemmas on words, lists and stores that the
  component theories use through the collections \<open>run_simps\<close> and \<open>word_ineqs\<close>.
\<close>

unbundle bit_operations_syntax

named_theorems run_simps \<open>one-step evaluation of outcomes and stores\<close>
named_theorems word_ineqs \<open>comparisons and arithmetic of words read through unat\<close>

section \<open>Machine integers\<close>

type_synonym u8 = "8 word"
type_synonym u16 = "16 word"
type_synonym u32 = "32 word"
type_synonym ptr = "32 word"

abbreviation (input) NULL :: ptr where
  "NULL \<equiv> 0"

section \<open>Outcomes of kernel code\<close>

text \<open>
  A C function of the kernel either returns a value, or never returns to its caller:
  \<open>Panic\<close> is a call of \<^verbatim>\<open>panic\<close> (it prints the message and executes \<^verbatim>\<open>cli; hlt\<close>),
  \<open>Fault\<close> is an access through a pointer to which no object belongs, \<open>Iret\<close> is a
  \<^verbatim>\<open>context_switch\<close> or \<^verbatim>\<open>syscall_return\<close> (the kernel stack is abandoned and the machine
  continues in user mode), and \<open>Timeout\<close> is a model run that has used up its fuel.
\<close>

datatype ('a, 's) res = Ret 'a 's | Panic string | Fault ptr | Iret 's | Timeout

fun bindR :: "('a, 's) res \<Rightarrow> ('a \<Rightarrow> 's \<Rightarrow> ('b, 's) res) \<Rightarrow> ('b, 's) res" where
  "bindR (Ret x s) f = f x s"
| "bindR (Panic m) f = Panic m"
| "bindR (Fault p) f = Fault p"
| "bindR (Iret s) f = Iret s"
| "bindR Timeout f = Timeout"

text \<open>A counted loop: the body for each element, as long as it returns.\<close>

fun for_each :: "'i list \<Rightarrow> ('i \<Rightarrow> 's \<Rightarrow> (unit, 's) res) \<Rightarrow> 's \<Rightarrow> (unit, 's) res" where
  "for_each [] body s = Ret () s"
| "for_each (i # is) body s = bindR (body i s) (\<lambda>_ s. for_each is body s)"

section \<open>Typed stores\<close>

text \<open>
  The objects of one C struct type form a map from addresses to records. Reading or
  writing a field through a pointer with no object behind it is a \<open>Fault\<close>: the
  \<^verbatim>\<open>NULL\<close> pointer and a freed object are such pointers. The store is given by its record
  selector and its record update function.
\<close>

definition load :: "('s \<Rightarrow> ptr \<rightharpoonup> 'n) \<Rightarrow> ptr \<Rightarrow> 's \<Rightarrow> ('n, 's) res" where
  "load st p s = (case st s p of None \<Rightarrow> Fault p | Some n \<Rightarrow> Ret n s)"

definition modify ::
  "('s \<Rightarrow> ptr \<rightharpoonup> 'n) \<Rightarrow> (((ptr \<rightharpoonup> 'n) \<Rightarrow> (ptr \<rightharpoonup> 'n)) \<Rightarrow> 's \<Rightarrow> 's) \<Rightarrow>
   ptr \<Rightarrow> ('n \<Rightarrow> 'n) \<Rightarrow> 's \<Rightarrow> (unit, 's) res" where
  "modify st st_upd p f s =
     (case st s p of None \<Rightarrow> Fault p | Some n \<Rightarrow> Ret () (st_upd (\<lambda>h. h(p \<mapsto> f n)) s))"

section \<open>Generic lemmas\<close>

lemmas bindR_simps [run_simps] = bindR.simps

lemma bindR_eq_Ret_conv:
  "bindR m f = Ret y t \<longleftrightarrow> (\<exists>x s. m = Ret x s \<and> f x s = Ret y t)"
  by (cases m) auto

lemma bindR_RetE:
  assumes "bindR m f = Ret y t"
  obtains x s where "m = Ret x s" "f x s = Ret y t"
  using assms by (auto simp: bindR_eq_Ret_conv)

lemma bindR_assoc: "bindR (bindR m f) g = bindR m (\<lambda>x s. bindR (f x s) g)"
  by (cases m) auto

lemma bindR_Ret_right: "bindR m Ret = m"
  by (cases m) auto

lemma bindR_cong [fundef_cong]:
  "m = m' \<Longrightarrow> (\<And>x s. m' = Ret x s \<Longrightarrow> f x s = g x s) \<Longrightarrow> bindR m f = bindR m' g"
  by (cases m') auto

lemma for_each_append:
  "for_each (xs @ ys) body s = bindR (for_each xs body s) (\<lambda>_ s. for_each ys body s)"
  by (induction xs arbitrary: s) (auto simp: bindR_assoc intro!: bindR_cong)

lemma load_Some [run_simps]: "st s p = Some n \<Longrightarrow> load st p s = Ret n s"
  by (simp add: load_def)

lemma load_None: "st s p = None \<Longrightarrow> load st p s = Fault p"
  by (simp add: load_def)

lemma load_eq_Ret_conv: "load st p s = Ret n t \<longleftrightarrow> st s p = Some n \<and> t = s"
  by (auto simp: load_def split: option.splits)

lemma modify_Some [run_simps]:
  "st s p = Some n \<Longrightarrow> modify st u p f s = Ret () (u (\<lambda>h. h(p \<mapsto> f n)) s)"
  by (simp add: modify_def)

lemma modify_None: "st s p = None \<Longrightarrow> modify st u p f s = Fault p"
  by (simp add: modify_def)

lemma modify_eq_Ret_conv:
  "modify st u p f s = Ret x t \<longleftrightarrow> (\<exists>n. st s p = Some n \<and> t = u (\<lambda>h. h(p \<mapsto> f n)) s)"
  by (auto simp: modify_def split: option.splits)

section \<open>Loops that follow pointers\<close>

text \<open>
  \<^verbatim>\<open>for (p = start; ...; p = p->next)\<close> with a body that only reads the state. The body either
  leaves the loop with a result (\<open>Inl\<close>) or goes on with the next pointer (\<open>Inr\<close>). Since the
  body does not change the state, a loop that comes back to a pointer never ends; that is the
  outcome \<open>Timeout\<close>. \<open>V\<close> holds the pointers visited so far.
\<close>

function chase ::
  "ptr set \<Rightarrow> (ptr \<Rightarrow> 's \<Rightarrow> ('r + ptr, 's) res) \<Rightarrow> ptr \<Rightarrow> 's \<Rightarrow> ('r, 's) res" where
  "chase V body p s =
     (if p \<in> V then Timeout
      else (case body p s of
              Ret (Inl r) _ \<Rightarrow> Ret r s
            | Ret (Inr q) _ \<Rightarrow> chase (insert p V) body q s
            | Panic m \<Rightarrow> Panic m | Fault a \<Rightarrow> Fault a | Iret t \<Rightarrow> Iret t | Timeout \<Rightarrow> Timeout))"
  by pat_completeness auto
termination
proof (relation "measure (\<lambda>(V, _). card (- V))", goal_cases)
  case (2 V body p s x1 x2 q)
  then have "- insert p V \<subset> - V" by auto
  then show ?case by (simp add: psubset_card_mono)
qed simp

declare chase.simps [simp del]

text \<open>\<open>hops body s p xs q\<close>: from \<open>p\<close> the loop visits \<open>xs\<close> and arrives at \<open>q\<close>.\<close>

fun hops :: "(ptr \<Rightarrow> 's \<Rightarrow> ('r + ptr, 's) res) \<Rightarrow> 's \<Rightarrow> ptr \<Rightarrow> ptr list \<Rightarrow> ptr \<Rightarrow> bool" where
  "hops body s p [] q \<longleftrightarrow> p = q"
| "hops body s p (x # xs) q \<longleftrightarrow> p = x \<and> (\<exists>r t. body x s = Ret (Inr r) t \<and> hops body s r xs q)"

lemma chase_hops:
  assumes "hops body s p xs q" and "distinct xs" and "set xs \<inter> V = {}"
  shows "chase V body p s = chase (V \<union> set xs) body q s"
  using assms
proof (induction xs arbitrary: p V)
  case (Cons x xs)
  then obtain r t where r: "p = x" "body x s = Ret (Inr r) t" "hops body s r xs q" by auto
  have "chase V body p s = chase (insert x V) body r s"
    using Cons.prems r by (simp add: chase.simps [of V])
  also have "\<dots> = chase (insert x V \<union> set xs) body q s"
    using Cons.prems r by (intro Cons.IH) auto
  finally show ?case by (simp add: Un_commute)
qed simp

lemma chase_exit: "p \<notin> V \<Longrightarrow> body p s = Ret (Inl r) t \<Longrightarrow> chase V body p s = Ret r s"
  by (simp add: chase.simps)

lemma chase_result:
  assumes "hops body s p xs q" and "distinct xs" and "q \<notin> set xs" and "body q s = Ret (Inl r) t"
  shows "chase {} body p s = Ret r s"
  using assms by (simp add: chase_hops [OF assms(1,2)] chase_exit)

text \<open>Invariants of a search: what holds when it leaves the loop.\<close>

lemma chase_Ret_conv:
  "chase V body p s = Ret r t \<longleftrightarrow> p \<notin> V \<and> t = s \<and>
     (\<exists>u. body p s = Ret (Inl r) u) \<or>
   p \<notin> V \<and> (\<exists>q u. body p s = Ret (Inr q) u \<and> chase (insert p V) body q s = Ret r t)"
  by (subst chase.simps) (auto split: res.splits sum.splits)

lemma chase_Ret_state: "chase V body p s = Ret r t \<Longrightarrow> t = s"
proof (induction V body p s rule: chase.induct)
  case (1 V body p s)
  then show ?case by (auto simp: chase_Ret_conv [of V body p s])
qed

lemma chase_inv:
  assumes "chase V body p s = Ret r t" and "I p"
    and "\<And>x y u. I x \<Longrightarrow> body x s = Ret (Inr y) u \<Longrightarrow> I y"
  shows "\<exists>x u. I x \<and> body x s = Ret (Inl r) u"
  using assms
proof (induction V body p s rule: chase.induct)
  case (1 V body p s)
  consider u where "body p s = Ret (Inl r) u"
    | q u where "p \<notin> V" "body p s = Ret (Inr q) u" "chase (insert p V) body q s = Ret r t"
    using "1.prems"(1) by (auto simp: chase_Ret_conv [of V body p s])
  then show ?case
  proof cases
    case 1
    with "1.prems"(2) show ?thesis by blast
  next
    case 2
    then show ?thesis using "1.IH" [OF 2(1,2) refl 2(3)] "1.prems"(2,3) by blast
  qed
qed

text \<open>Words, read as natural numbers.\<close>

lemma unat_add_no_wrap:
  fixes a b :: "'a::len word"
  assumes "unat a + unat b < 2 ^ LENGTH('a)"
  shows "unat (a + b) = unat a + unat b"
  using assms by (simp add: unat_word_ariths)

lemma unat_sub_le:
  fixes a b :: "'a::len word"
  assumes "b \<le> a"
  shows "unat (a - b) = unat a - unat b"
  using assms by (rule unat_sub)

lemma unat_Suc_less:
  fixes i n :: "'a::len word"
  assumes "i < n"
  shows "unat (i + 1) = Suc (unat i)"
proof -
  from assms have "unat i < unat n" by (simp add: word_less_nat_alt)
  moreover have "unat n < 2 ^ LENGTH('a)" by (rule unsigned_less)
  ultimately have "Suc (unat i) < 2 ^ LENGTH('a)" by linarith
  then show ?thesis by (simp add: unat_word_ariths)
qed

lemma unat32_bound: "unat (x :: u32) < 4294967296"
  using unsigned_less [where ?'a = nat and w = x] by simp

lemma unat_of_nat32: "n < 4294967296 \<Longrightarrow> unat (of_nat n :: u32) = n"
  by (simp add: unat_of_nat)

lemma of_nat32_eq: "m < 4294967296 \<Longrightarrow> n < 4294967296 \<Longrightarrow> (of_nat m :: u32) = of_nat n \<longleftrightarrow> m = n"
  by (metis unat_of_nat32)

lemma words_below: "{i :: u32. i < n} = of_nat ` {..< unat n}"
proof (intro equalityI subsetI)
  fix i :: u32 assume "i \<in> {i. i < n}"
  then show "i \<in> of_nat ` {..< unat n}"
    by (intro image_eqI [of _ _ "unat i"]) (auto simp: word_less_nat_alt)
next
  fix i :: u32 assume "i \<in> of_nat ` {..< unat n}"
  then show "i \<in> {i. i < n}"
    using unat32_bound [of n] by (auto simp: word_less_nat_alt unat_of_nat32)
qed

lemma card_words_below: "card {i :: u32. i < n} = unat n"
proof -
  have "inj_on (of_nat :: nat \<Rightarrow> u32) {..< unat n}"
    using unat32_bound [of n] by (auto simp: inj_on_def word_unat_eq_iff unat_of_nat32)
  then show ?thesis by (simp add: words_below card_image)
qed

lemmas word_nat_iffs [word_ineqs] = word_less_nat_alt word_le_nat_alt unat_div unat_mod

end
