(* ===== verification/Dll.thy ===== *)
theory Dll
  imports Prelude
begin

text \<open>
  Doubly linked lists in a typed store. The kernel threads its run queues, its task and
  file trees, its memory regions, its used-region table and its sorted bin through a pair
  of link fields inside the listed objects; this theory relates such a chain to the list of
  addresses it holds. The chain predicate takes the two field selectors, so one library
  serves all of them; the locale adds the two field updates, and every component interprets
  it on its own record.
\<close>

fun first_of :: "ptr \<Rightarrow> ptr list \<Rightarrow> ptr" where
  "first_of q [] = q"
| "first_of q (x # xs) = x"

fun last_of :: "ptr \<Rightarrow> ptr list \<Rightarrow> ptr" where
  "last_of p [] = p"
| "last_of p (x # xs) = last_of x xs"

text \<open>
  \<open>dll nxt prv h p xs q\<close>: the objects at \<open>xs\<close> are linked in that order, the first one's
  back link is \<open>p\<close> and the last one's forward link is \<open>q\<close>.
\<close>

fun dll :: "('n \<Rightarrow> ptr) \<Rightarrow> ('n \<Rightarrow> ptr) \<Rightarrow> (ptr \<rightharpoonup> 'n) \<Rightarrow> ptr \<Rightarrow> ptr list \<Rightarrow> ptr \<Rightarrow> bool" where
  "dll nxt prv h p [] q = True"
| "dll nxt prv h p (x # xs) q =
     (x \<noteq> 0 \<and> (\<exists>n. h x = Some n \<and> prv n = p \<and> nxt n = first_of q xs) \<and>
      dll nxt prv h x xs q)"

text \<open>A chain closed at both ends, with no repeated object: the list of a queue.\<close>

definition dlist :: "('n \<Rightarrow> ptr) \<Rightarrow> ('n \<Rightarrow> ptr) \<Rightarrow> (ptr \<rightharpoonup> 'n) \<Rightarrow> ptr list \<Rightarrow> bool" where
  "dlist nxt prv h xs \<longleftrightarrow> distinct xs \<and> dll nxt prv h 0 xs 0"

section \<open>Ends of a list\<close>

lemma first_of_append [simp]: "first_of q (xs @ ys) = first_of (first_of q ys) xs"
  by (cases xs) auto

lemma last_of_append [simp]: "last_of p (xs @ ys) = last_of (last_of p xs) ys"
  by (induction xs arbitrary: p) auto

lemma first_of_hd: "xs \<noteq> [] \<Longrightarrow> first_of q xs = hd xs"
  by (cases xs) auto

lemma last_of_last: "xs \<noteq> [] \<Longrightarrow> last_of p xs = last xs"
  by (induction xs arbitrary: p) auto

lemma last_of_in: "last_of x xs \<in> set (x # xs)"
  by (induction xs arbitrary: x) auto

lemma find_first: "(\<And>z. z \<in> set ys \<Longrightarrow> \<not> P z) \<Longrightarrow> P x \<Longrightarrow> find P (ys @ x # zs) = Some x"
  by (induction ys) auto

lemma find_split: "find P xs = Some x \<Longrightarrow> \<exists>ys zs. xs = ys @ x # zs \<and> P x \<and> (\<forall>z \<in> set ys. \<not> P z)"
proof (induction xs)
  case (Cons a xs)
  show ?case
  proof (cases "P a")
    case True
    then show ?thesis using Cons.prems by (intro exI [of _ "[]"] exI [of _ xs]) auto
  next
    case False
    then obtain ys zs where "xs = ys @ x # zs" "P x" "\<forall>z \<in> set ys. \<not> P z" using Cons by auto
    then show ?thesis using False by (intro exI [of _ "a # ys"] exI [of _ zs]) auto
  qed
qed simp

section \<open>Chains\<close>

lemma dll_append:
  "dll nxt prv h p (xs @ ys) q \<longleftrightarrow>
     dll nxt prv h p xs (first_of q ys) \<and> dll nxt prv h (last_of p xs) ys q"
  by (induction xs arbitrary: p) auto

lemma dll_cong:
  assumes "\<And>x. x \<in> set xs \<Longrightarrow>
    map_option (\<lambda>n. (nxt n, prv n)) (h x) = map_option (\<lambda>n. (nxt n, prv n)) (h' x)"
  shows "dll nxt prv h p xs q = dll nxt prv h' p xs q"
  using assms
proof (induction xs arbitrary: p)
  case (Cons x xs)
  from Cons.prems [of x]
  have hx: "map_option (\<lambda>n. (nxt n, prv n)) (h x) = map_option (\<lambda>n. (nxt n, prv n)) (h' x)"
    by simp
  have "(\<exists>n. h x = Some n \<and> prv n = p \<and> nxt n = first_of q xs) =
    (\<exists>n. h' x = Some n \<and> prv n = p \<and> nxt n = first_of q xs)"
    using hx by (cases "h x"; cases "h' x") auto
  moreover have "dll nxt prv h x xs q = dll nxt prv h' x xs q"
    using Cons by simp
  ultimately show ?case by simp
qed simp

lemma dll_upd_other [simp]:
  "x \<notin> set xs \<Longrightarrow> dll nxt prv (h(x := v)) p xs q = dll nxt prv h p xs q"
  by (rule dll_cong) auto

lemma dll_nonnull: "dll nxt prv h p xs q \<Longrightarrow> 0 \<notin> set xs"
  by (induction xs arbitrary: p) auto

lemma dll_dom: "dll nxt prv h p xs q \<Longrightarrow> set xs \<subseteq> dom h"
  by (induction xs arbitrary: p) auto

lemma dll_in_dom: "dll nxt prv h p xs q \<Longrightarrow> x \<in> set xs \<Longrightarrow> \<exists>n. h x = Some n"
  using dll_dom by fastforce

lemma dll_mid:
  assumes "dll nxt prv h p (ys @ x # zs) q" and "h x = Some n"
  shows "prv n = last_of p ys" and "nxt n = first_of q zs"
  using assms by (auto simp: dll_append)

text \<open>The forward links alone determine the list.\<close>

lemma dll_unique:
  "dll nxt prv h p xs 0 \<Longrightarrow> dll nxt prv h p' ys 0 \<Longrightarrow>
   first_of 0 xs = first_of 0 ys \<Longrightarrow> xs = ys"
proof (induction xs arbitrary: p p' ys)
  case Nil
  then show ?case by (cases ys) auto
next
  case (Cons x xs)
  then obtain ys' where ys: "ys = x # ys'" by (cases ys) auto
  with Cons.prems have "dll nxt prv h x xs 0" "dll nxt prv h x ys' 0"
    "first_of 0 xs = first_of 0 ys'" by auto
  then have "xs = ys'" by (rule Cons.IH)
  with ys show ?case by simp
qed

text \<open>A search along the forward links is a search in the list.\<close>

lemma chase_list:
  assumes "dll nxt prv h p xs 0" and "distinct xs" and "(set xs \<union> {0}) \<inter> V = {}"
    and "\<And>x n. x \<in> set xs \<Longrightarrow> h x = Some n \<Longrightarrow> body x s = Ret (if P x then Inl (f x) else Inr (nxt n)) s"
    and "body 0 s = Ret (Inl d) s"
  shows "chase V body (first_of 0 xs) s = Ret (case find P xs of None \<Rightarrow> d | Some x \<Rightarrow> f x) s"
  using assms
proof (induction xs arbitrary: V p)
  case Nil
  then show ?case by (simp add: chase_exit)
next
  case (Cons x xs)
  obtain n where n: "h x = Some n" "nxt n = first_of 0 xs" using Cons.prems(1) by auto
  show ?case
  proof (cases "P x")
    case True
    then show ?thesis using Cons.prems(3) Cons.prems(4) [of x n] n by (simp add: chase_exit)
  next
    case False
    then have "chase V body x s = chase (insert x V) body (first_of 0 xs) s"
      using Cons.prems(3) Cons.prems(4) [of x n] n by (simp add: chase.simps [of V])
    also have "\<dots> = Ret (case find P xs of None \<Rightarrow> d | Some x \<Rightarrow> f x) s"
      using Cons.prems by (intro Cons.IH [where p = x]) auto
    finally show ?thesis using False by simp
  qed
qed

section \<open>Link updates\<close>

locale dll_node =
  fixes nxt :: "'n \<Rightarrow> ptr"
    and prv :: "'n \<Rightarrow> ptr"
    and set_nxt :: "ptr \<Rightarrow> 'n \<Rightarrow> 'n"
    and set_prv :: "ptr \<Rightarrow> 'n \<Rightarrow> 'n"
  assumes nxt_set_nxt [simp]: "nxt (set_nxt a n) = a"
    and prv_set_nxt [simp]: "prv (set_nxt a n) = prv n"
    and nxt_set_prv [simp]: "nxt (set_prv a n) = nxt n"
    and prv_set_prv [simp]: "prv (set_prv a n) = a"
begin

lemma relink_last:
  assumes "dll nxt prv h p (xs @ [x]) q" and "h x = Some n" and "x \<notin> set xs"
  shows "dll nxt prv (h(x \<mapsto> set_nxt r n)) p (xs @ [x]) r"
  using assms by (auto simp: dll_append)

lemma relink_first:
  assumes "dll nxt prv h p (x # xs) q" and "h x = Some n" and "x \<notin> set xs"
  shows "dll nxt prv (h(x \<mapsto> set_prv r n)) r (x # xs) q"
  using assms by auto

text \<open>Append \<open>x\<close> behind the last object \<open>l\<close>.\<close>

lemma append_node:
  assumes "dll nxt prv h p (xs @ [l]) q" and "h l = Some nl" and "distinct (xs @ [l])"
    and "x \<noteq> 0" and "x \<notin> set (xs @ [l])" and "nxt nx = 0" and "prv nx = l"
  shows "dll nxt prv (h(l \<mapsto> set_nxt x nl, x \<mapsto> nx)) p (xs @ [l, x]) 0"
  using assms by (auto simp: dll_append)

text \<open>Put \<open>x\<close> in front of the first object \<open>f\<close>.\<close>

lemma prepend_node:
  assumes "dll nxt prv h p (f # xs) q" and "h f = Some nf" and "distinct (f # xs)"
    and "x \<noteq> 0" and "x \<notin> set (f # xs)" and "nxt nx = f" and "prv nx = r"
  shows "dll nxt prv (h(f \<mapsto> set_prv x nf, x \<mapsto> nx)) r (x # f # xs) q"
  using assms by (auto simp: dll_append)

text \<open>Put \<open>x\<close> between the neighbours \<open>a\<close> and \<open>b\<close>.\<close>

lemma insert_node:
  assumes "dll nxt prv h p (ys @ a # b # zs) q" and "h a = Some na" and "h b = Some nb"
    and "distinct (ys @ a # b # zs)" and "x \<noteq> 0" and "x \<notin> set (ys @ a # b # zs)"
    and "nxt nx = b" and "prv nx = a"
  shows "dll nxt prv (h(a \<mapsto> set_nxt x na, b \<mapsto> set_prv x nb, x \<mapsto> nx)) p
    (ys @ a # x # b # zs) q"
  using assms by (auto simp: dll_append)

text \<open>Take \<open>x\<close> out from between the neighbours \<open>a\<close> and \<open>b\<close>.\<close>

lemma remove_mid:
  assumes "dll nxt prv h p (ys @ a # x # b # zs) q" and "h a = Some na" and "h b = Some nb"
    and "distinct (ys @ a # x # b # zs)"
  shows "dll nxt prv (h(a \<mapsto> set_nxt b na, b \<mapsto> set_prv a nb)) p (ys @ a # b # zs) q"
  using assms by (auto simp: dll_append)

end

end
