(* ===== verification/Areas.thy ===== *)
theory Areas
  imports Prelude
begin

text \<open>
  Lists of disjoint areas in ascending order. The vmalloc area and every user address space keep
  such a list; an area is known by its header, and two functions read where it starts and ends.
\<close>

text \<open>\<open>ordered st en lo xs hi\<close>: the areas \<open>xs\<close> follow each other without overlap between \<open>lo\<close> and \<open>hi\<close>.\<close>

fun ordered :: "(ptr \<Rightarrow> nat) \<Rightarrow> (ptr \<Rightarrow> nat) \<Rightarrow> nat \<Rightarrow> ptr list \<Rightarrow> nat \<Rightarrow> bool" where
  "ordered st en lo [] hi \<longleftrightarrow> lo \<le> hi"
| "ordered st en lo (x # xs) hi \<longleftrightarrow> lo \<le> st x \<and> ordered st en (en x) xs hi"

text \<open>Where the space behind \<open>xs\<close> begins, and where the space in front of \<open>xs\<close> ends.\<close>

fun end_of :: "(ptr \<Rightarrow> nat) \<Rightarrow> nat \<Rightarrow> ptr list \<Rightarrow> nat" where
  "end_of en lo [] = lo"
| "end_of en lo (x # xs) = end_of en (en x) xs"

definition start_of :: "(ptr \<Rightarrow> nat) \<Rightarrow> ptr list \<Rightarrow> nat \<Rightarrow> nat" where
  "start_of st xs hi = (case xs of [] \<Rightarrow> hi | x # _ \<Rightarrow> st x)"

lemma ordered_append:
  "ordered st en lo (ys @ zs) hi \<longleftrightarrow> ordered st en lo ys (end_of en lo ys) \<and> ordered st en (end_of en lo ys) zs hi"
  by (induction ys arbitrary: lo) auto

lemma ordered_mono: "ordered st en lo xs hi \<Longrightarrow> hi \<le> hi' \<Longrightarrow> ordered st en lo xs hi'"
  by (induction xs arbitrary: lo) auto

lemma end_of_snoc [simp]: "end_of en lo (ys @ [y]) = en y"
  by (induction ys arbitrary: lo) auto

lemma ordered_cong:
  assumes "\<And>x. x \<in> set xs \<Longrightarrow> st x = st' x \<and> en x = en' x"
  shows "ordered st en lo xs hi = ordered st' en' lo xs hi"
  using assms by (induction xs arbitrary: lo) auto

lemma end_of_cong: "(\<And>x. x \<in> set xs \<Longrightarrow> en x = en' x) \<Longrightarrow> end_of en lo xs = end_of en' lo xs"
  by (induction xs arbitrary: lo) auto

lemma start_of_cong: "(\<And>x. x \<in> set xs \<Longrightarrow> st x = st' x) \<Longrightarrow> start_of st xs hi = start_of st' xs hi"
  by (cases xs) (auto simp: start_of_def)

locale area_list =
  fixes st en :: "ptr \<Rightarrow> nat"
  assumes start_le_end: "st x \<le> en x"
begin

lemma ordered_le: "ordered st en lo xs hi \<Longrightarrow> lo \<le> hi"
proof (induction xs arbitrary: lo)
  case (Cons x xs)
  then have "lo \<le> st x" "en x \<le> hi" by auto
  then show ?case using start_le_end [of x] by linarith
qed simp

lemma ordered_bounds:
  assumes "ordered st en lo xs hi" and "x \<in> set xs"
  shows "lo \<le> st x" and "en x \<le> hi"
proof -
  obtain ys zs where xs: "xs = ys @ x # zs" using assms(2) by (auto dest: split_list)
  have "ordered st en (end_of en lo ys) (x # zs) hi" "ordered st en lo ys (end_of en lo ys)"
    using assms(1) xs by (auto simp: ordered_append)
  then show "lo \<le> st x" "en x \<le> hi" by (auto dest: ordered_le)
qed

text \<open>Two members of the list own disjoint areas.\<close>

lemma ordered_disjoint:
  assumes "ordered st en lo (us @ x # vs) hi" and "y \<in> set (us @ vs)"
  shows "en x \<le> st y \<or> en y \<le> st x"
proof (cases "y \<in> set vs")
  case True
  have "ordered st en (en x) vs hi" using assms(1) by (simp add: ordered_append)
  then show ?thesis using ordered_bounds(1) True by blast
next
  case False
  then have "y \<in> set us" using assms(2) by simp
  moreover have "ordered st en lo us (end_of en lo us)" "end_of en lo us \<le> st x"
    using assms(1) by (auto simp: ordered_append)
  ultimately have "en y \<le> end_of en lo us" using ordered_bounds(2) by blast
  then show ?thesis using \<open>end_of en lo us \<le> st x\<close> by simp
qed

text \<open>What lies between \<open>ys\<close> and \<open>zs\<close> overlaps none of them.\<close>

lemma ordered_outside:
  assumes "ordered st en lo (ys @ zs) hi" and "end_of en lo ys \<le> v" and "v + n \<le> start_of st zs hi"
    and "x \<in> set (ys @ zs)"
  shows "en x \<le> v \<or> v + n \<le> st x"
proof (cases "x \<in> set ys")
  case True
  have "ordered st en lo ys (end_of en lo ys)" using assms(1) by (simp add: ordered_append)
  then have "en x \<le> end_of en lo ys" using True by (rule ordered_bounds(2))
  then show ?thesis using assms(2) by simp
next
  case False
  then have x: "x \<in> set zs" using assms(4) by simp
  have z: "ordered st en (end_of en lo ys) zs hi" using assms(1) by (simp add: ordered_append)
  obtain z zs' where zs: "zs = z # zs'" using x by (cases zs) auto
  have "st z \<le> st x"
  proof (cases "x = z")
    case False
    then have "x \<in> set zs'" using x zs by simp
    moreover have "ordered st en (en z) zs' hi" using z zs by simp
    ultimately have "en z \<le> st x" by (intro ordered_bounds(1))
    then show ?thesis using start_le_end [of z] by linarith
  qed simp
  then show ?thesis using assms(3) zs by (simp add: start_of_def)
qed

lemma ordered_insert:
  assumes "ordered st en lo (ys @ zs) hi" and "end_of en lo ys \<le> st x" and "en x \<le> start_of st zs hi"
  shows "ordered st en lo (ys @ x # zs) hi"
proof -
  have "ordered st en (en x) zs hi"
    using assms(1,3) by (cases zs) (auto simp: ordered_append start_of_def)
  then show ?thesis using assms(1,2) by (simp add: ordered_append)
qed

lemma ordered_remove:
  assumes "ordered st en lo (ys @ x # zs) hi"
  shows "ordered st en lo (ys @ zs) hi"
proof -
  have a: "ordered st en lo ys (end_of en lo ys)" "end_of en lo ys \<le> st x" "ordered st en (en x) zs hi"
    using assms by (auto simp: ordered_append)
  have "end_of en lo ys \<le> en x" using a(2) start_le_end [of x] by linarith
  then have "ordered st en (end_of en lo ys) zs hi" using a(3) by (cases zs) auto
  then show ?thesis using a(1) by (simp add: ordered_append)
qed

text \<open>An area that overlaps no member has a place in the list.\<close>

lemma ordered_place:
  assumes "ordered st en lo xs hi" and "lo \<le> a" and "b \<le> hi"
    and "\<And>y. y \<in> set xs \<Longrightarrow> en y \<le> a \<or> b \<le> st y"
  shows "\<exists>ys zs. xs = ys @ zs \<and> end_of en lo ys \<le> a \<and> b \<le> start_of st zs hi"
  using assms
proof (induction xs arbitrary: lo)
  case Nil
  then show ?case by (simp add: start_of_def)
next
  case (Cons y xs)
  show ?case
  proof (cases "b \<le> st y")
    case True
    then show ?thesis using Cons.prems by (intro exI [of _ "[]"] exI [of _ "y # xs"]) (simp add: start_of_def)
  next
    case False
    then have y: "en y \<le> a" using Cons.prems(4) by auto
    then obtain ys zs where "xs = ys @ zs" "end_of en (en y) ys \<le> a" "b \<le> start_of st zs hi"
      using Cons.IH [of "en y"] Cons.prems by auto
    then show ?thesis by (intro exI [of _ "y # ys"] exI [of _ zs]) simp
  qed
qed

end

end
