(* ===== verification/Transitions.thy ===== *)
theory Transitions
  imports Prelude
begin

text \<open>
  Histories of calls: a component is started in some state and then called again and again, in any order that its
  callers choose. \<open>reach init step\<close> are the states such a history can lead to; an invariant is shown once for the start and
  once for every call.
\<close>

inductive reach :: "('s \<Rightarrow> bool) \<Rightarrow> ('s \<Rightarrow> 's \<Rightarrow> bool) \<Rightarrow> 's \<Rightarrow> bool" for init step where
  reach_start: "init s \<Longrightarrow> reach init step s"
| reach_step: "\<lbrakk>reach init step s; step s s'\<rbrakk> \<Longrightarrow> reach init step s'"

locale guarded_system =
  fixes init :: "'s \<Rightarrow> bool"
    and step :: "'s \<Rightarrow> 's \<Rightarrow> bool"
    and inv :: "'s \<Rightarrow> bool"
  assumes init_inv: "init s \<Longrightarrow> inv s"
    and step_inv: "inv s \<Longrightarrow> step s s' \<Longrightarrow> inv s'"
begin

lemma reach_inv: "reach init step s \<Longrightarrow> inv s"
  by (induction rule: reach.induct) (auto intro: init_inv step_inv)

text \<open>What every call does to a state that satisfies the invariant, it does at any point of a history.\<close>

lemma reach_call:
  assumes "reach init step s" and "step s s'" and "\<And>s. inv s \<Longrightarrow> step s s' \<Longrightarrow> Q s s'"
  shows "Q s s'" and "inv s'"
  using reach_inv [OF assms(1)] assms(2,3) step_inv by blast+

end

end
