(* ===== verification/Ring_Lists.thy ===== *)
theory Ring_Lists
  imports Prelude
begin

text \<open>
  The macros of \<^verbatim>\<open>include/kernel/klib/list.h\<close> for circular lists: a head and its nodes are linked to a ring in both
  directions. No file uses them yet; they stand in the interface of the kernel library.
\<close>

record list_hdr =
  l_prev :: ptr
  l_next :: ptr

type_synonym ring_store = "ptr \<rightharpoonup> list_hdr"

abbreviation (input) get_hdr :: "ptr \<Rightarrow> ring_store \<Rightarrow> (list_hdr, ring_store) res" where
  "get_hdr p s \<equiv> load (\<lambda>s. s) p s"
abbreviation (input) set_hdr :: "ptr \<Rightarrow> (list_hdr \<Rightarrow> list_hdr) \<Rightarrow> ring_store \<Rightarrow> (unit, ring_store) res" where
  "set_hdr p f s \<equiv> modify (\<lambda>s. s) (\<lambda>u s. u s) p f s"

section \<open>The macros\<close>

definition list_empty :: "ptr \<Rightarrow> ring_store \<Rightarrow> (bool, ring_store) res" where
  "list_empty head s = bindR (get_hdr head s) (\<lambda>h s. Ret (l_next h = head) s)"

definition init_list :: "ptr \<Rightarrow> ring_store \<Rightarrow> (unit, ring_store) res" where
  "init_list head s =
     bindR (set_hdr head (l_next_update (\<lambda>_. head)) s) (\<lambda>_ s.
     set_hdr head (l_prev_update (\<lambda>_. head)) s)"

definition append_to_list :: "ptr \<Rightarrow> ptr \<Rightarrow> ring_store \<Rightarrow> (unit, ring_store) res" where
  "append_to_list head node s =
     bindR (get_hdr head s) (\<lambda>h s.
     bindR (set_hdr node (l_prev_update (\<lambda>_. l_prev h)) s) (\<lambda>_ s.
     bindR (set_hdr node (l_next_update (\<lambda>_. head)) s) (\<lambda>_ s.
     bindR (get_hdr node s) (\<lambda>n s.
     bindR (set_hdr (l_prev n) (l_next_update (\<lambda>_. node)) s) (\<lambda>_ s.
     bindR (get_hdr node s) (\<lambda>n s.
     set_hdr (l_next n) (l_prev_update (\<lambda>_. node)) s))))))"

definition remove_from_list :: "ptr \<Rightarrow> ring_store \<Rightarrow> (unit, ring_store) res" where
  "remove_from_list node s =
     bindR (get_hdr node s) (\<lambda>n s.
     bindR (set_hdr (l_prev n) (l_next_update (\<lambda>_. l_next n)) s) (\<lambda>_ s.
     bindR (get_hdr node s) (\<lambda>n s.
     bindR (set_hdr (l_next n) (l_prev_update (\<lambda>_. l_prev n)) s) (\<lambda>_ s.
     bindR (set_hdr node (l_next_update (\<lambda>_. node)) s) (\<lambda>_ s.
     set_hdr node (l_prev_update (\<lambda>_. node)) s)))))"

text \<open>The nodes that the loop visits, from the one behind \<open>i\<close> on; the ring may be broken, so the number of steps is bounded.\<close>

fun for_each_in_list :: "nat \<Rightarrow> ptr \<Rightarrow> ptr \<Rightarrow> ring_store \<Rightarrow> (ptr list, ring_store) res" where
  "for_each_in_list 0 head i s = Timeout"
| "for_each_in_list (Suc fuel) head i s =
     bindR (get_hdr i s) (\<lambda>h s.
     if l_next h = head then Ret [] s
     else bindR (for_each_in_list fuel head (l_next h) s) (\<lambda>xs s. Ret (l_next h # xs) s))"

section \<open>Rings\<close>

fun linked :: "ring_store \<Rightarrow> ptr \<Rightarrow> ptr list \<Rightarrow> ptr \<Rightarrow> bool" where
  "linked s a [] b \<longleftrightarrow> map_option l_next (s a) = Some b \<and> map_option l_prev (s b) = Some a"
| "linked s a (x # xs) b \<longleftrightarrow> map_option l_next (s a) = Some x \<and> map_option l_prev (s x) = Some a \<and> linked s x xs b"

definition ring :: "ring_store \<Rightarrow> ptr \<Rightarrow> ptr list \<Rightarrow> bool" where
  "ring s h xs \<longleftrightarrow> distinct (h # xs) \<and> linked s h xs h"

lemma linked_append: "linked s a (xs @ x # ys) b \<longleftrightarrow> linked s a xs x \<and> linked s x ys b"
  by (induction xs arbitrary: a) auto

lemma linked_cong:
  assumes "\<forall>x \<in> set (a # xs). map_option l_next (s' x) = map_option l_next (s x)"
    and "\<forall>x \<in> set (xs @ [b]). map_option l_prev (s' x) = map_option l_prev (s x)"
  shows "linked s' a xs b = linked s a xs b"
  using assms by (induction xs arbitrary: a) auto

lemma linked_ends:
  assumes "linked s a xs b"
  shows "map_option l_next (s a) = Some (hd (xs @ [b]))" "map_option l_prev (s b) = Some (last (a # xs))"
  using assms by (induction xs arbitrary: a) auto

text \<open>The loop visits the nodes in order and ends.\<close>

lemma for_each_visits:
  assumes "linked s a xs h" and "h \<notin> set xs" and "length xs < fuel"
  shows "for_each_in_list fuel h a s = Ret xs s"
  using assms
proof (induction xs arbitrary: a fuel)
  case Nil
  then show ?case by (cases fuel) (auto simp: load_def)
next
  case (Cons x xs)
  then obtain f where "fuel = Suc f" by (cases fuel) auto
  then show ?case using Cons by (auto simp: load_def)
qed

lemma append_effect:
  assumes "s h = Some H" and "s n = Some N" and "l = l_prev H" and "s l = Some L" and "n \<noteq> h" and "n \<noteq> l"
  shows "\<exists>s'. append_to_list h n s = Ret () s' \<and>
    (\<forall>x. map_option l_next (s' x) = (if x = l then Some n else if x = n then Some h else map_option l_next (s x))) \<and>
    (\<forall>x. map_option l_prev (s' x) = (if x = h then Some n else if x = n then Some l else map_option l_prev (s x)))"
  using assms by (cases "l = h") (auto simp: append_to_list_def load_def modify_def)

lemma remove_effect:
  assumes "s n = Some N" and "p = l_prev N" and "q = l_next N" and "s p = Some P" and "s q = Some R" and "p \<noteq> n" and "q \<noteq> n"
  shows "\<exists>s'. remove_from_list n s = Ret () s' \<and>
    (\<forall>x. map_option l_next (s' x) = (if x = p then Some q else if x = n then Some n else map_option l_next (s x))) \<and>
    (\<forall>x. map_option l_prev (s' x) = (if x = q then Some p else if x = n then Some n else map_option l_prev (s x)))"
  using assms by (cases "p = q") (auto simp: remove_from_list_def load_def modify_def)

lemma init_ring: "s h = Some H \<Longrightarrow> \<exists>s'. init_list h s = Ret () s' \<and> ring s' h [] \<and> (\<forall>x. x \<noteq> h \<longrightarrow> s' x = s x)"
  by (auto simp: init_list_def modify_def ring_def)

lemma append_ring:
  assumes "ring s h xs" and "n \<notin> set (h # xs)" and "s n = Some N"
  shows "\<exists>s'. append_to_list h n s = Ret () s' \<and> ring s' h (xs @ [n])"
proof -
  have lk: "linked s h xs h" using assms(1) by (simp add: ring_def)
  obtain H where H: "s h = Some H" "l_prev H = last (h # xs)" using linked_ends(2) [OF lk] by auto
  have "\<exists>L. s (last (h # xs)) = Some L"
    using lk by (cases xs rule: rev_cases) (auto simp: linked_append)
  then obtain L where "s (last (h # xs)) = Some L" by blast
  moreover have "n \<noteq> last (h # xs)" using assms(2) last_in_set by blast
  ultimately obtain s' where s': "append_to_list h n s = Ret () s'"
    "\<forall>x. map_option l_next (s' x) = (if x = last (h # xs) then Some n else if x = n then Some h else map_option l_next (s x))"
    "\<forall>x. map_option l_prev (s' x) = (if x = h then Some n else if x = n then Some (last (h # xs)) else map_option l_prev (s x))"
    using append_effect [OF H(1) assms(3) H(2) [symmetric]] assms(2) by auto
  have "linked s' h (xs @ [n]) h"
  proof (cases xs rule: rev_cases)
    case Nil
    then show ?thesis using s'(2,3) assms(2) by auto
  next
    case (snoc ys l)
    have d: "l \<notin> set (h # ys)" "h \<notin> set (ys @ [l])" using assms(1) snoc by (auto simp: ring_def)
    have "linked s' h ys l = linked s h ys l" by (rule linked_cong) (use s'(2,3) d assms(2) snoc in auto)
    then have "linked s' h ys l" using lk snoc by (simp add: linked_append)
    then show ?thesis using s'(2,3) snoc assms(2) d by (simp add: linked_append)
  qed
  then show ?thesis using s'(1) assms(1,2) by (auto simp: ring_def)
qed

lemma remove_ring:
  assumes "ring s h (ys @ n # zs)"
  shows "\<exists>s'. remove_from_list n s = Ret () s' \<and> ring s' h (ys @ zs) \<and> ring s' n []"
proof -
  have lk: "linked s h ys n" "linked s n zs h" and d: "distinct (h # ys @ n # zs)"
    using assms by (auto simp: ring_def linked_append)
  let ?p = "last (h # ys)" and ?q = "hd (zs @ [h])"
  obtain N where N: "s n = Some N" "l_prev N = ?p" "l_next N = ?q" using linked_ends(2) [OF lk(1)] linked_ends(1) [OF lk(2)] by auto
  obtain P where P: "s ?p = Some P" using lk(1) by (cases ys rule: rev_cases) (auto simp: linked_append)
  obtain R where R: "s ?q = Some R" using lk(2) by (cases zs) auto
  have pq: "?p \<in> set (h # ys)" "?q \<in> set (zs @ [h])" by (rule last_in_set, simp) (rule hd_in_set, simp)
  then have pn: "?p \<noteq> n" "?q \<noteq> n" using d by auto
  obtain s' where s': "remove_from_list n s = Ret () s'"
    "\<forall>x. map_option l_next (s' x) = (if x = ?p then Some ?q else if x = n then Some n else map_option l_next (s x))"
    "\<forall>x. map_option l_prev (s' x) = (if x = ?q then Some ?p else if x = n then Some n else map_option l_prev (s x))"
    using remove_effect [of s n N ?p ?q P R, OF N(1) N(2) [symmetric] N(3) [symmetric] P R pn] by blast
  have front: "linked s' h ys ?q"
  proof (cases ys rule: rev_cases)
    case Nil
    then show ?thesis using s'(2,3) by simp
  next
    case (snoc us p)
    have "linked s' h us p = linked s h us p" by (rule linked_cong) (use s'(2,3) d pq(2) snoc in auto)
    then show ?thesis using lk(1) s'(2,3) snoc by (simp add: linked_append)
  qed
  have "linked s' h (ys @ zs) h"
  proof (cases zs)
    case Nil
    then show ?thesis using front by simp
  next
    case (Cons q vs)
    have "linked s' q vs h = linked s q vs h" by (rule linked_cong) (use s'(2,3) d pq(1) Cons in auto)
    then show ?thesis using lk(2) front Cons by (simp add: linked_append)
  qed
  moreover have "map_option l_next (s' n) = Some n" "map_option l_prev (s' n) = Some n" using s'(2,3) pn by metis+
  ultimately show ?thesis using s'(1) d by (auto simp: ring_def)
qed

text \<open>
  The list macros keep rings: an initialised head is an empty ring, appending puts a new node behind the last one,
  removing takes exactly the node out and leaves it as an empty ring of its own, and the loop macro visits the
  nodes of a ring once each, in order, and ends.
\<close>

lemma ring_lists_correct:
  "(\<forall>h. s h \<noteq> None \<longrightarrow> (\<exists>s'. init_list h s = Ret () s' \<and> ring s' h [] \<and> list_empty h s' = Ret True s')) \<and>
   (\<forall>h xs n. ring s h xs \<and> n \<notin> set (h # xs) \<and> s n \<noteq> None \<longrightarrow>
      (\<exists>s'. append_to_list h n s = Ret () s' \<and> ring s' h (xs @ [n]) \<and> list_empty h s' = Ret False s')) \<and>
   (\<forall>h ys n zs. ring s h (ys @ n # zs) \<longrightarrow> (\<exists>s'. remove_from_list n s = Ret () s' \<and> ring s' h (ys @ zs) \<and> ring s' n [])) \<and>
   (\<forall>h xs. ring s h xs \<longrightarrow> for_each_in_list (Suc (length xs)) h h s = Ret xs s)"
proof (intro conjI allI impI)
  fix h assume "s h \<noteq> None"
  then obtain s' where "init_list h s = Ret () s'" "ring s' h []" using init_ring by blast
  then show "\<exists>s'. init_list h s = Ret () s' \<and> ring s' h [] \<and> list_empty h s' = Ret True s'" by (auto simp: ring_def list_empty_def load_def)
next
  fix h xs n assume a: "ring s h xs \<and> n \<notin> set (h # xs) \<and> s n \<noteq> None"
  then obtain s' where s': "append_to_list h n s = Ret () s'" "ring s' h (xs @ [n])" using append_ring by blast
  have "list_empty h s' = Ret False s'" using s'(2) by (cases xs) (auto simp: ring_def list_empty_def load_def)
  with s' show "\<exists>s'. append_to_list h n s = Ret () s' \<and> ring s' h (xs @ [n]) \<and> list_empty h s' = Ret False s'" by blast
next
  fix h ys n zs assume "ring s h (ys @ n # zs)"
  then show "\<exists>s'. remove_from_list n s = Ret () s' \<and> ring s' h (ys @ zs) \<and> ring s' n []" by (rule remove_ring)
next
  fix h xs assume "ring s h xs"
  then show "for_each_in_list (Suc (length xs)) h h s = Ret xs s" by (intro for_each_visits) (auto simp: ring_def)
qed

end
