(* ===== verification/Klib.thy ===== *)
theory Klib
  imports Prelude
begin

text \<open>
  The string routines of \<^verbatim>\<open>kernel/klib\<close>. A \<^verbatim>\<open>char *\<close> argument is modelled by the bytes from the
  pointer to the end of the array it points into; \<open>None\<close> is an access behind that end. The
  number printer of \<^verbatim>\<open>kprintf\<close> and the one of the C library's \<^verbatim>\<open>printf\<close> are here too.
\<close>

section \<open>Strings\<close>

fun strlen_from :: "u8 list \<Rightarrow> nat \<Rightarrow> nat option" where
  "strlen_from [] len = None"
| "strlen_from (c # str) len = (if c \<noteq> 0 then strlen_from str (len + 1) else Some len)"

definition strlen :: "u8 list \<Rightarrow> nat option" where
  "strlen str = strlen_from str 0"

fun strcmp_loop :: "nat \<Rightarrow> u8 list \<Rightarrow> u8 list \<Rightarrow> int" where
  "strcmp_loop (Suc n) (a # s1) (b # s2) = (if a \<noteq> b then - 1 else strcmp_loop n s1 s2)"
| "strcmp_loop _ _ _ = 0"

definition strcmp :: "u8 list \<Rightarrow> u8 list \<Rightarrow> int option" where
  "strcmp s1 s2 =
     (case (strlen s1, strlen s2) of
        (Some s1_len, Some s2_len) \<Rightarrow>
          Some (if s1_len \<noteq> s2_len then - 1 else strcmp_loop s1_len s1 s2)
      | _ \<Rightarrow> None)"

text \<open>The first loop of \<^verbatim>\<open>strncpy\<close> copies up to a zero byte, the second one fills up with zeros.\<close>

fun strncpy_loop :: "u8 list \<Rightarrow> u8 list \<Rightarrow> nat \<Rightarrow> u8 list option" where
  "strncpy_loop dst src 0 = Some dst"
| "strncpy_loop (_ # dst) (c # src) (Suc n) =
     (if c \<noteq> 0 then map_option ((#) c) (strncpy_loop dst src n)
      else if n \<le> length dst then Some (0 # replicate n 0 @ drop n dst) else None)"
| "strncpy_loop _ _ (Suc n) = None"

definition strncpy :: "u8 list \<Rightarrow> u8 list \<Rightarrow> nat \<Rightarrow> u8 list option" where
  "strncpy dst src n = strncpy_loop dst src n"

definition memset :: "u8 list \<Rightarrow> u8 \<Rightarrow> nat \<Rightarrow> u8 list option" where
  "memset s c n = (if n \<le> length s then Some (replicate n c @ drop n s) else None)"

definition memcpy :: "u8 list \<Rightarrow> u8 list \<Rightarrow> nat \<Rightarrow> u8 list option" where
  "memcpy dest src count =
     (if count \<le> length dest \<and> count \<le> length src then Some (take count src @ drop count dest) else None)"

text \<open>The text of a C string: its bytes up to the first zero.\<close>

definition cstr :: "u8 list \<Rightarrow> u8 list" where
  "cstr str = takeWhile (\<lambda>c. c \<noteq> 0) str"

lemma cstr_simps [simp]: "cstr [] = []" "cstr (c # s) = (if c = 0 then [] else c # cstr s)"
  by (auto simp: cstr_def)

lemma cstr_append_zero: "0 \<notin> set s \<Longrightarrow> cstr (s @ 0 # t) = s"
  by (induction s) auto

lemma strlen_from_conv: "strlen_from str len = (if 0 \<in> set str then Some (len + length (cstr str)) else None)"
  by (induction str arbitrary: len) auto

lemma strlen_conv: "strlen str = (if 0 \<in> set str then Some (length (cstr str)) else None)"
  by (simp add: strlen_def strlen_from_conv)

lemma strcmp_loop_zero:
  "length (cstr a) = length (cstr b) \<Longrightarrow> strcmp_loop (length (cstr a)) a b = 0 \<longleftrightarrow> cstr a = cstr b"
proof (induction "length (cstr a)" a b rule: strcmp_loop.induct)
  case (1 n a s1 b s2)
  then show ?case by (auto split: if_splits)
qed (auto split: if_splits)

lemma strcmp_zero:
  assumes "0 \<in> set a" and "0 \<in> set b"
  shows "\<exists>r. strcmp a b = Some r \<and> (r = 0 \<longleftrightarrow> cstr a = cstr b)"
  using assms strcmp_loop_zero [of a b] by (auto simp: strcmp_def strlen_conv)

lemma strncpy_loop_conv:
  assumes "n \<le> length dst"
  shows "length (cstr src) < n \<Longrightarrow> 0 \<in> set src \<Longrightarrow>
      strncpy_loop dst src n = Some (cstr src @ replicate (n - length (cstr src)) 0 @ drop n dst)"
    and "n \<le> length (cstr src) \<Longrightarrow> strncpy_loop dst src n = Some (take n src @ drop n dst)"
  using assms
proof (induction dst src n rule: strncpy_loop.induct)
  case (2 x dst c src n)
  { case 1 then show ?case using 2 by auto next
    case 2 then show ?case using "2.IH" by (auto split: if_splits) }
qed (auto split: if_splits)

lemma strncpy_cstr:
  assumes "0 \<in> set src" and "length (cstr src) < n" and "n \<le> length dst"
  shows "\<exists>d. strncpy dst src n = Some d \<and> cstr d = cstr src \<and> length d = length dst \<and> 0 \<in> set d"
proof -
  let ?m = "n - length (cstr src)"
  have z: "0 \<notin> set (cstr src)" by (auto simp: cstr_def dest: set_takeWhileD)
  obtain k where k: "?m = Suc k" using assms(2) by (cases ?m) auto
  have "strncpy dst src n = Some (cstr src @ 0 # replicate k 0 @ drop n dst)"
    using strncpy_loop_conv(1) [OF assms(3,2,1)] k by (simp add: strncpy_def)
  then show ?thesis using cstr_append_zero [OF z] k assms(2,3) by auto
qed

text \<open>
  \<^verbatim>\<open>strcmp\<close> of two terminated strings is zero exactly when they are equal, and \<^verbatim>\<open>strncpy\<close> into an
  array of at least \<open>n\<close> bytes is the text padded with zeros when it is shorter than \<open>n\<close>, and its
  first \<open>n\<close> bytes, without a terminator, otherwise.
\<close>

theorem string_routines_correct:
  assumes "0 \<in> set a" and "0 \<in> set b" and "n \<le> length dst"
  shows "(strcmp a b = Some 0 \<longleftrightarrow> cstr a = cstr b) \<and>
    strlen a = Some (length (cstr a)) \<and>
    strncpy dst a n =
      Some ((if length (cstr a) < n then cstr a @ replicate (n - length (cstr a)) 0 else take n (cstr a)) @ drop n dst)"
proof -
  obtain r where "strcmp a b = Some r" "r = 0 \<longleftrightarrow> cstr a = cstr b" using strcmp_zero [OF assms(1,2)] by blast
  moreover have "take n (cstr a) = take n a" if "n \<le> length (cstr a)"
  proof -
    have "a = cstr a @ dropWhile (\<lambda>c. c \<noteq> 0) a" by (simp add: cstr_def)
    then have "take n a = take n (cstr a) @ take (n - length (cstr a)) (dropWhile (\<lambda>c. c \<noteq> 0) a)"
      by (metis take_append)
    then show ?thesis using that by simp
  qed
  ultimately show ?thesis
    using assms strncpy_loop_conv [OF assms(3), of a] by (auto simp: strlen_conv strncpy_def not_less)
qed

theorem string_routines_correct_witness:
  "strcmp [0x64, 0x65, 0x76, 0] [0x64, 0x65, 0x76, 0, 1] = Some 0 \<and>
   strncpy [9, 9, 9, 9, 9, 9] [0x64, 0x65, 0x76, 0] 4 = Some [0x64, 0x65, 0x76, 0, 9, 9]"
  using string_routines_correct [of "[0x64, 0x65, 0x76, 0]" "[0x64, 0x65, 0x76, 0, 1]" 4 "[9, 9, 9, 9, 9, 9]"]
  by simp

section \<open>Printing numbers\<close>

fun shift_up :: "nat \<Rightarrow> u8 list \<Rightarrow> u8 list" where
  "shift_up 0 dest = dest"
| "shift_up (Suc i) dest = shift_up i (dest[Suc i := dest ! i])"

definition add_to_start :: "u8 list \<Rightarrow> u8 \<Rightarrow> nat \<Rightarrow> u8 list option" where
  "add_to_start dest c last_idx =
     (if last_idx + 1 < length dest then Some ((shift_up last_idx dest)[0 := c, last_idx + 1 := 0]) else None)"

definition digit_char :: "nat \<Rightarrow> u8" where
  "digit_char rest = (if rest > 9 then of_nat (rest + 55) else of_nat (rest + 48))"

text \<open>
  The digit loop of \<^verbatim>\<open>_itoa\<close>; \<open>n\<close> is positive here, so the signed operators are those of the
  naturals. A base below two would divide by zero or never end.
\<close>

function itoa_loop :: "nat \<Rightarrow> nat \<Rightarrow> nat \<Rightarrow> u8 list \<Rightarrow> (nat \<times> u8 list) option" where
  "itoa_loop n base idx dest =
     (if base < 2 then None
      else if n > 0 then
        (case add_to_start dest (digit_char (n mod base)) idx of
           None \<Rightarrow> None
         | Some dest \<Rightarrow> itoa_loop (n div base) base (idx + 1) dest)
      else Some (idx, dest))"
  by pat_completeness auto
termination by (relation "measure (\<lambda>(n, _). n)") auto

declare itoa_loop.simps [simp del]

definition itoa :: "u32 \<Rightarrow> u8 list \<Rightarrow> nat \<Rightarrow> u8 list option" where
  "itoa n dest base =
     (case if n = 0 then add_to_start dest 0x30 0 else Some dest of
        None \<Rightarrow> None
      | Some dest \<Rightarrow>
          (let neg = sint n < 0; n = (if neg then - n else n) in
           case if sint n > 0 then itoa_loop (unat n) base 0 dest else Some (0, dest) of
             None \<Rightarrow> None
           | Some (idx, dest) \<Rightarrow> if neg then add_to_start dest 0x2d idx else Some dest))"

lemma shift_up_conv: "k < length d \<Longrightarrow> shift_up k d = hd d # take k d @ drop (Suc k) d"
proof (induction k arbitrary: d)
  case 0
  then show ?case by (cases d) auto
next
  case (Suc k)
  let ?e = "d[Suc k := d ! k]"
  have "shift_up (Suc k) d = hd ?e # take k ?e @ drop (Suc k) ?e" using Suc by simp
  moreover have "hd ?e = hd d" using Suc.prems by (cases d) auto
  moreover have "drop (Suc k) ?e = d ! k # drop (Suc (Suc k)) d"
    using Suc.prems by (simp add: Cons_nth_drop_Suc [symmetric])
  moreover have "take k ?e @ [d ! k] = take (Suc k) d" using Suc.prems by (simp add: take_Suc_conv_app_nth)
  ultimately show ?case by simp
qed

lemma add_to_start_conv:
  assumes "k + 1 < length d"
  shows "add_to_start d c k = Some (c # take k d @ 0 # drop (k + 2) d)"
proof -
  have "(hd d # take k d @ drop (Suc k) d)[0 := c, k + 1 := 0] = c # (take k d @ drop (Suc k) d)[k := 0]" by simp
  moreover have "drop (Suc k) d = d ! Suc k # drop (k + 2) d" using assms by (simp add: Cons_nth_drop_Suc)
  ultimately show ?thesis using assms by (simp add: add_to_start_def shift_up_conv list_update_append)
qed

text \<open>The digits of a number, most significant first, and the number a digit string denotes.\<close>

function digits :: "nat \<Rightarrow> nat \<Rightarrow> u8 list" where
  "digits base n = (if base < 2 \<or> n = 0 then [] else digits base (n div base) @ [digit_char (n mod base)])"
  by pat_completeness auto
termination by (relation "measure snd") auto

declare digits.simps [simp del]

definition digit_val :: "u8 \<Rightarrow> nat" where
  "digit_val c = (if unat c > 57 then unat c - 55 else unat c - 48)"

definition denotes :: "nat \<Rightarrow> u8 list \<Rightarrow> nat" where
  "denotes base cs = foldl (\<lambda>a c. a * base + digit_val c) 0 cs"

lemma unat_digit_char: "d < 16 \<Longrightarrow> unat (digit_char d) = (if d > 9 then d + 55 else d + 48)"
  by (simp add: digit_char_def unat_of_nat del: of_nat_add)

lemma digit_val_char: "d < 16 \<Longrightarrow> digit_val (digit_char d) = d"
  by (simp add: digit_val_def unat_digit_char)

lemma digit_char_nonzero: "d < 16 \<Longrightarrow> digit_char d \<noteq> 0"
  using unat_digit_char [of d] by (auto simp: word_unat_eq_iff)

lemma mod_base_less: "2 \<le> base \<Longrightarrow> base \<le> 16 \<Longrightarrow> n mod base < (16 :: nat)"
  using mod_less_divisor [of base n] by linarith

lemma denotes_digits: "2 \<le> base \<Longrightarrow> base \<le> 16 \<Longrightarrow> denotes base (digits base n) = n"
proof (induction base n rule: digits.induct)
  case (1 base n)
  show ?case
  proof (cases "n = 0")
    case False
    have "n mod base < 16" using "1.prems" by (rule mod_base_less)
    then show ?thesis
      using False 1 by (subst digits.simps) (simp add: denotes_def digit_val_char)
  qed (simp add: digits.simps denotes_def)
qed

lemma digits_range: "base \<le> 16 \<Longrightarrow> c \<in> set (digits base n) \<Longrightarrow> 48 \<le> unat c"
proof (induction base n rule: digits.induct)
  case (1 base n)
  have r: "\<not> (base < 2 \<or> n = 0)" using "1.prems"(2) by (subst (asm) digits.simps) (simp split: if_splits)
  then have "n mod base < 16" using "1.prems"(1) by (intro mod_base_less) simp_all
  then have "48 \<le> unat (digit_char (n mod base))" by (simp add: unat_digit_char)
  moreover have "c \<in> set (digits base (n div base)) \<or> c = digit_char (n mod base)"
    using "1.prems"(2) r by (subst (asm) digits.simps) auto
  ultimately show ?case using "1.IH" [OF r "1.prems"(1)] by auto
qed

lemma digits_nonzero: "base \<le> 16 \<Longrightarrow> 0 \<notin> set (digits base n)"
  using digits_range [of base 0 n] by auto

lemma length_digits: "n < base ^ k \<Longrightarrow> length (digits base n) \<le> k"
proof (induction k arbitrary: n)
  case 0
  then show ?case by (simp add: digits.simps)
next
  case (Suc k)
  have "length (digits base (n div base)) \<le> k"
    using Suc.prems by (intro Suc.IH) (simp add: less_mult_imp_div_less mult.commute)
  then show ?case by (subst digits.simps) simp
qed

text \<open>The loop puts the digits in front of what the buffer holds.\<close>

lemma itoa_loop_conv:
  assumes "2 \<le> base" and "idx + length (digits base n) < length d"
  shows "\<exists>d'. itoa_loop n base idx d = Some (idx + length (digits base n), d') \<and> length d' = length d \<and>
    take (idx + length (digits base n)) d' = digits base n @ take idx d \<and>
    (n > 0 \<longrightarrow> d' ! (idx + length (digits base n)) = 0)"
  using assms
proof (induction n base idx d rule: itoa_loop.induct)
  case (1 n base idx d)
  show ?case
  proof (cases "n = 0")
    case True
    then show ?thesis using "1.prems"(1) by (simp add: itoa_loop.simps digits.simps)
  next
    case False
    let ?c = "digit_char (n mod base)" and ?q = "digits base (n div base)"
    let ?e = "?c # take idx d @ 0 # drop (idx + 2) d"
    have q: "digits base n = ?q @ [?c]" using False "1.prems"(1) by (subst digits.simps) simp
    have le: "idx + 1 < length d" using "1.prems"(2) q by simp
    note a = add_to_start_conv [OF le, of ?c]
    have le': "length ?e = length d" using le by simp
    have ar: "\<not> base < 2" "0 < n" "idx + 1 + length ?q < length ?e" using False "1.prems" q le' by simp_all
    have "\<exists>d'. itoa_loop (n div base) base (idx + 1) ?e = Some (idx + 1 + length ?q, d') \<and> length d' = length ?e \<and>
      take (idx + 1 + length ?q) d' = ?q @ take (idx + 1) ?e \<and> (n div base > 0 \<longrightarrow> d' ! (idx + 1 + length ?q) = 0)"
      by (rule "1.IH" [OF ar(1,2) a "1.prems"(1) ar(3)])
    then obtain d' where d': "itoa_loop (n div base) base (idx + 1) ?e = Some (idx + 1 + length ?q, d')"
      "length d' = length ?e" "take (idx + 1 + length ?q) d' = ?q @ take (idx + 1) ?e"
      "n div base > 0 \<longrightarrow> d' ! (idx + 1 + length ?q) = 0"
      by (elim exE conjE) (rule that)
    have run: "itoa_loop n base idx d = itoa_loop (n div base) base (idx + 1) ?e"
      using False "1.prems"(1) a by (subst itoa_loop.simps) simp
    have z: "d' ! (idx + 1 + length ?q) = 0"
    proof (cases "n div base > 0")
      case False
      then have "n div base = 0" by simp
      then have "d' = ?e" using d'(1) "1.prems"(1) by (simp add: itoa_loop.simps digits.simps)
      then show ?thesis using \<open>n div base = 0\<close> le by (simp add: digits.simps nth_append)
    qed (use d'(4) in simp)
    have "take (idx + 1) ?e = ?c # take idx d" using le by simp
    then show ?thesis using run d' q z le' by (intro exI [of _ d']) simp
  qed
qed

lemma cstr_take: "k < length d \<Longrightarrow> 0 \<notin> set (take k d) \<Longrightarrow> d ! k = 0 \<Longrightarrow> cstr d = take k d"
  using cstr_append_zero [of "take k d" "drop (Suc k) d"] id_take_nth_drop [of k d] by simp

lemma itoa_loop_cstr:
  assumes "2 \<le> base" and "base \<le> 16" and "length (digits base n) < length d" and "n > 0"
  shows "\<exists>d'. itoa_loop n base 0 d = Some (length (digits base n), d') \<and> length d' = length d \<and> cstr d' = digits base n"
proof -
  obtain d' where d': "itoa_loop n base 0 d = Some (length (digits base n), d')" "length d' = length d"
    "take (length (digits base n)) d' = digits base n" "d' ! length (digits base n) = 0"
    using itoa_loop_conv [of base 0 n d] assms by auto
  then have "cstr d' = digits base n"
    using cstr_take [of "length (digits base n)" d'] digits_nonzero [OF assms(2), of n] assms(3) by simp
  then show ?thesis using d' by blast
qed

text \<open>The number a signed text denotes.\<close>

definition sdenotes :: "nat \<Rightarrow> u8 list \<Rightarrow> int" where
  "sdenotes base cs = (case cs of c # ds \<Rightarrow> if c = 0x2d then - int (denotes base ds) else int (denotes base cs) | [] \<Rightarrow> 0)"

lemma sint_unat: "sint (n :: u32) = (if unat n < 2147483648 then int (unat n) else int (unat n) - 4294967296)"
proof -
  define u where "u = int (unat n)"
  have r: "0 \<le> u" "u < 4294967296" using unat32_bound [of n] unfolding u_def by linarith+
  have "sint n = signed_take_bit 31 (uint n)" by (simp add: sint_uint)
  also have "\<dots> = (u + 2147483648) mod 4294967296 - 2147483648"
    using signed_take_bit_eq_take_bit_shift [of 31 "uint n"] by (simp add: u_def take_bit_eq_mod)
  finally have s: "sint n = (u + 2147483648) mod 4294967296 - 2147483648" .
  have "(u + 2147483648) mod 4294967296 = (if u < 2147483648 then u + 2147483648 else u - 2147483648)"
    using r mod_add_self2 [of "u - 2147483648" "4294967296"] by (cases "u < 2147483648") (simp_all add: add.commute)
  moreover have "u < 2147483648 \<longleftrightarrow> unat n < 2147483648" unfolding u_def by linarith
  ultimately show ?thesis using s unfolding u_def [symmetric] by simp
qed

lemma unat_neg: "n \<noteq> 0 \<Longrightarrow> unat (- n :: u32) = 4294967296 - unat n"
proof -
  assume n: "n \<noteq> 0"
  have "(unat n + unat (- n)) mod 4294967296 = 0" using unat_word_ariths(1) [of n "- n"] by simp
  then obtain q where q: "unat n + unat (- n) = 4294967296 * q" by (auto simp: mod_eq_0_iff_dvd)
  have "0 < unat n" using n by (simp add: unat_gt_0)
  then have "0 < q" "q < 2" using q unat32_bound [of n] unat32_bound [of "- n"] by auto
  then show ?thesis using q by simp
qed

text \<open>
  \<^verbatim>\<open>_itoa\<close> of the kernel writes a text that denotes the number, in base ten and sixteen, and needs
  at most twelve bytes of the buffer. The one exception is the smallest number, whose negation wraps:
  its text is a lone minus sign.
\<close>

theorem itoa_correct:
  assumes "base = 10 \<or> base = 16" and "length dest \<ge> 13"
  shows "\<exists>d. itoa n dest base = Some d \<and> length d = length dest \<and>
    (if n = 0x80000000 then cstr d = [0x2d] else sdenotes base (cstr d) = sint n)"
proof -
  have b: "2 \<le> base" "base \<le> 16" using assms(1) by auto
  have len: "length (digits base m) \<le> 10" if "m < 2147483648" for m
    by (rule length_digits) (use that assms(1) in auto)
  have loop: "\<exists>d. itoa_loop m base 0 dest = Some (length (digits base m), d) \<and> length d = length dest \<and> cstr d = digits base m"
    if "m < 2147483648" "m > 0" for m
    using itoa_loop_cstr [OF b, of m dest] that len [OF that(1)] assms(2) by simp
  have den: "digits base m \<noteq> [] \<and> hd (digits base m) \<noteq> 0x2d \<and> denotes base (digits base m) = m" if "m > 0" for m
  proof -
    have "digits base m \<noteq> []" using that b by (subst digits.simps) simp
    then show ?thesis using digits_range [OF b(2), of "hd (digits base m)" m] denotes_digits [OF b, of m] by auto
  qed
  have neg: "0 < sint (- n) \<and> sint (- n) = - sint n" if "sint n < 0" "n \<noteq> 0x80000000"
  proof -
    have u: "unat n > 2147483648" using that sint_unat [of n] by (auto simp: word_unat_eq_iff split: if_splits)
    then have "unat (- n) = 4294967296 - unat n" using unat_neg [of n] by fastforce
    then have "int (unat (- n)) = 4294967296 - int (unat n)" "unat (- n) < 2147483648" using unat32_bound [of n] u by linarith+
    then show ?thesis using that(1) sint_unat [of n] sint_unat [of "- n"] u by simp
  qed
  have nz: "n = 0" if "sint n = 0" using that sint_unat [of n] unat32_bound [of n] by (auto simp: uint_0_iff split: if_splits)
  consider "n = 0" | "n \<noteq> 0" "0 < sint n" | "n = 0x80000000" | "sint n < 0" "n \<noteq> 0x80000000"
    using nz by linarith
  then show ?thesis
  proof cases
    case 1
    have "add_to_start dest 0x30 0 = Some (0x30 # 0 # drop 2 dest)" using assms(2) using add_to_start_conv [of 0 dest] by (simp add: numeral_2_eq_2)
    then show ?thesis
      using 1 assms(2) by (simp add: itoa_def sdenotes_def denotes_def digit_val_def)
  next
    case 2
    then have m: "sint n = int (unat n)" "unat n < 2147483648" "unat n > 0" using sint_unat [of n] unat32_bound [of n] by (auto simp: unat_gt_0 split: if_splits)
    then obtain d where d: "itoa_loop (unat n) base 0 dest = Some (length (digits base (unat n)), d)" "length d = length dest"
      "cstr d = digits base (unat n)" using loop by blast
    then have "itoa n dest base = Some d" using 2 by (simp add: itoa_def)
    moreover have "sdenotes base (cstr d) = sint n" using d(3) den [OF m(3)] m(1) by (auto simp: sdenotes_def split: list.splits)
    ultimately show ?thesis using d 2 by auto
  next
    case 3
    have "add_to_start dest 0x2d 0 = Some (0x2d # 0 # drop 2 dest)" using assms(2) using add_to_start_conv [of 0 dest] by (simp add: numeral_2_eq_2)
    then show ?thesis using 3 assms(2) by (simp add: itoa_def sint_unat)
  next
    case 4
    let ?m = "unat (- n)"
    note 4 = 4 neg [OF 4]
    have m: "sint (- n) = int ?m" "?m < 2147483648" "?m > 0" 
      using 4 sint_unat [of "- n"] unat32_bound [of "- n"] by (auto simp: unat_gt_0 split: if_splits)
    then obtain d where d: "itoa_loop ?m base 0 dest = Some (length (digits base ?m), d)" "length d = length dest"
      "cstr d = digits base ?m" using loop by blast
    let ?k = "length (digits base ?m)"
    have k: "?k + 1 < length d" using len [OF m(2)] assms(2) d(2) by simp
    have t: "take ?k d = digits base ?m" using d(3) by (metis cstr_def takeWhile_eq_take)
    let ?d = "0x2d # take ?k d @ 0 # drop (?k + 2) d"
    have "itoa n dest base = Some ?d" 
      using 4 d(1) add_to_start_conv [OF k] by (cases "n = 0") (simp_all add: itoa_def Let_def)
    moreover have "cstr ?d = 0x2d # digits base ?m"
      using t cstr_append_zero [OF digits_nonzero [OF b(2), of ?m]] by simp
    ultimately show ?thesis using 4 m den [OF m(3)] k d(2) by (simp add: sdenotes_def)
  qed
qed

theorem itoa_correct_witness:
  "\<exists>d. itoa 0xffffff85 (replicate 20 0) 10 = Some d \<and> length d = 20 \<and> sdenotes 10 (cstr d) = - 123"
  using itoa_correct [of 10 "replicate 20 0" "0xffffff85"] by (simp add: sint_unat)

end
