(* ===== verification/Pmm.thy ===== *)
theory Pmm
  imports Prelude
begin

text \<open>
  The physical memory manager, \<^verbatim>\<open>kernel/memory/pmm.c\<close>: a bitmap with one bit per frame,
  two search hints and the public counters. The record holds the file's static variables
  and \<open>pmm_global\<close>; later theories extend it with the state of the components built on top,
  so every operation is polymorphic in the rest of the kernel state.
\<close>

record pmm =
  total_frames :: u32
  free_frames :: u32
  pmm_bitmap :: "u32 \<Rightarrow> u8"
  kernel_end_idx :: u32
  last_free_idx :: u32

abbreviation (input) FRAME_SIZE :: u32 where
  "FRAME_SIZE \<equiv> 4096"

section \<open>Operations\<close>

definition IDX_TO_ADDR :: "u32 \<Rightarrow> u32" where
  "IDX_TO_ADDR idx = idx * FRAME_SIZE"

definition ADDR_TO_IDX :: "u32 \<Rightarrow> u32" where
  "ADDR_TO_IDX addr = addr div FRAME_SIZE"

definition bit_set :: "u32 \<Rightarrow> u8 \<Rightarrow> (u32 \<Rightarrow> u8) \<Rightarrow> (u32 \<Rightarrow> u8)" where
  "bit_set idx value bm =
     (let byte = bm (idx div 8);
          bit = unat (idx mod 8);
          mask = drop_bit bit (0x80 :: u8);
          byte = byte AND NOT mask;
          byte = byte OR drop_bit bit (push_bit 7 (if mask \<noteq> 0 \<and> value \<noteq> 0 then 1 else 0))
      in bm(idx div 8 := byte))"

definition bit_get :: "u32 \<Rightarrow> (u32 \<Rightarrow> u8) \<Rightarrow> u8" where
  "bit_get idx bm = bm (idx div 8) AND drop_bit (unat (idx mod 8)) (0x80 :: u8)"

definition IDX_SET :: "u32 \<Rightarrow> 'a pmm_scheme \<Rightarrow> 'a pmm_scheme" where
  "IDX_SET idx s =
     s\<lparr>pmm_bitmap := bit_set idx 1 (pmm_bitmap s), free_frames := free_frames s - 1\<rparr>"

definition IDX_UNSET :: "u32 \<Rightarrow> 'a pmm_scheme \<Rightarrow> 'a pmm_scheme" where
  "IDX_UNSET idx s =
     s\<lparr>pmm_bitmap := bit_set idx 0 (pmm_bitmap s), free_frames := free_frames s + 1\<rparr>"

text \<open>
  The reservation loop of \<^verbatim>\<open>pmm_init\<close> advances its 32-bit counter by a frame; it does not
  stop when the end address lies in the last frame of the address space, since the counter
  wraps. A run that stops visits at most \<open>2 ^ 20\<close> frame addresses, which bounds the fuel.
\<close>

fun pmm_init_loop :: "nat \<Rightarrow> u32 \<Rightarrow> u32 \<Rightarrow> 'a pmm_scheme \<Rightarrow> (unit, 'a pmm_scheme) res" where
  "pmm_init_loop 0 i reserved_end s = Timeout"
| "pmm_init_loop (Suc fuel) i reserved_end s =
     (if i < reserved_end then
        (let s = IDX_SET (ADDR_TO_IDX i) s;
             s = s\<lparr>last_free_idx := last_free_idx s + 1\<rparr>
         in pmm_init_loop fuel (i + FRAME_SIZE) reserved_end s)
      else Ret () s)"

definition pmm_init ::
  "u32 \<Rightarrow> u32 \<Rightarrow> u32 \<Rightarrow> 'a pmm_scheme \<Rightarrow> (unit, 'a pmm_scheme) res" where
  "pmm_init total_memory reserved_start reserved_end s =
     (let s = s\<lparr>total_frames := total_memory div FRAME_SIZE\<rparr>;
          s = s\<lparr>free_frames := total_frames s\<rparr>;
          s = s\<lparr>last_free_idx := 0\<rparr>
      in bindR (pmm_init_loop (2 ^ 20 + 1) reserved_start reserved_end s) (\<lambda>_ s.
         Ret () (s\<lparr>kernel_end_idx := last_free_idx s - 1\<rparr>)))"

text \<open>The search loop of \<^verbatim>\<open>pmm_get_frame\<close>: the first clear bit from \<open>i\<close> on.\<close>

function scan_free :: "(u32 \<Rightarrow> u8) \<Rightarrow> u32 \<Rightarrow> u32 \<Rightarrow> u32 option" where
  "scan_free bm i n =
     (if i < n then (if bit_get i bm = 0 then Some i else scan_free bm (i + 1) n) else None)"
  by pat_completeness auto
termination
  by (relation "measure (\<lambda>(bm, i, n). unat n - unat i)")
    (auto simp: unat_Suc_less word_less_nat_alt)

text \<open>
  \<^verbatim>\<open>pmm_get_frame\<close> calls itself when the search brought no usable address. It either
  stops within four calls or never does, which \<open>pmm_get_frame_stuck\<close> below shows.
\<close>

fun pmm_get_frame_fuel :: "nat \<Rightarrow> 'a pmm_scheme \<Rightarrow> (u32, 'a pmm_scheme) res" where
  "pmm_get_frame_fuel 0 s = Timeout"
| "pmm_get_frame_fuel (Suc fuel) s =
     (if free_frames s = 0 then Panic ''[PMM] System run out of memory!''
      else
        (let (new_frame_addr, s) =
           (case scan_free (pmm_bitmap s) (last_free_idx s) (total_frames s) of
              None \<Rightarrow> (0, s)
            | Some i \<Rightarrow>
                (let s = IDX_SET i s; s = s\<lparr>last_free_idx := last_free_idx s + 1\<rparr>
                 in (IDX_TO_ADDR i, s)))
         in if new_frame_addr = 0
            then pmm_get_frame_fuel fuel (s\<lparr>last_free_idx := kernel_end_idx s\<rparr>)
            else Ret new_frame_addr s))"

definition pmm_get_frame :: "'a pmm_scheme \<Rightarrow> (u32, 'a pmm_scheme) res" where
  "pmm_get_frame s = pmm_get_frame_fuel 4 s"

definition pmm_free_frame :: "u32 \<Rightarrow> 'a pmm_scheme \<Rightarrow> 'a pmm_scheme" where
  "pmm_free_frame addr s =
     (let frame_idx = ADDR_TO_IDX addr
      in if frame_idx < total_frames s
         then (IDX_UNSET frame_idx s)\<lparr>last_free_idx := frame_idx\<rparr> else s)"

text \<open>
  The pool search keeps the start, the end and the length of the current run of free
  frames; \<open>pool_end_idx\<close> has no initial value in the C code, hence the option.
\<close>

function pool_search ::
  "(u32 \<Rightarrow> u8) \<Rightarrow> u32 \<Rightarrow> u32 \<Rightarrow> u32 \<Rightarrow> u32 \<Rightarrow> u32 option \<Rightarrow> u32 \<Rightarrow> bool \<Rightarrow>
   u32 \<times> u32 option \<times> u32" where
  "pool_search bm i n frames pool_start_idx pool_end_idx frame_counter is_first =
     (if i < n then
        (if bit_get i bm = 0 then
           (let pool_start_idx = (if is_first then i else pool_start_idx);
                frame_counter = frame_counter + 1
            in if frame_counter = frames then (pool_start_idx, Some i, frame_counter)
               else pool_search bm (i + 1) n frames pool_start_idx pool_end_idx
                      frame_counter False)
         else pool_search bm (i + 1) n frames 0 (Some 0) 0 True)
      else (pool_start_idx, pool_end_idx, frame_counter))"
  by pat_completeness auto
termination
  by (relation "measure (\<lambda>(bm, i, n, _). unat n - unat i)")
    (auto simp: unat_Suc_less word_less_nat_alt)

definition pmm_get_pool :: "u32 \<Rightarrow> 'a pmm_scheme \<Rightarrow> (u32, 'a pmm_scheme) res" where
  "pmm_get_pool frames s =
     (case pool_search (pmm_bitmap s) (kernel_end_idx s) (total_frames s) frames 0 None 0 True of
        (pool_start_idx, pool_end_idx, frame_counter) \<Rightarrow>
          if frame_counter = frames then
            (case pool_end_idx of
               None \<Rightarrow> Fault 0
             | Some pool_end_idx \<Rightarrow>
                 Ret (IDX_TO_ADDR pool_start_idx)
                   (fold (\<lambda>i. IDX_SET (of_nat i)) [unat pool_start_idx ..< Suc (unat pool_end_idx)] s))
          else Ret 0 s)"

definition free_pool_step :: "u32 \<Rightarrow> 'a pmm_scheme \<Rightarrow> 'a pmm_scheme" where
  "free_pool_step j s =
     (if j < total_frames s then (IDX_UNSET j s)\<lparr>last_free_idx := j\<rparr> else s)"

definition pmm_free_pool :: "u32 \<Rightarrow> u32 \<Rightarrow> 'a pmm_scheme \<Rightarrow> 'a pmm_scheme" where
  "pmm_free_pool start_of_pool frames s =
     fold (\<lambda>i. free_pool_step (ADDR_TO_IDX start_of_pool + of_nat i)) [0 ..< unat frames] s"

declare scan_free.simps [simp del] pool_search.simps [simp del]
  pmm_get_frame_fuel.simps(2) [simp del]

section \<open>The bitmap as a set of frames\<close>

text \<open>The abstract view: the frame numbers below the memory size whose bit is clear.\<close>

definition free_set :: "'a pmm_scheme \<Rightarrow> u32 set" where
  "free_set s = {i. i < total_frames s \<and> bit_get i (pmm_bitmap s) = 0}"

text \<open>
  The counter is the number of clear bits, frame 0 is never handed out, and every bit
  index stays inside the bitmap (\<^verbatim>\<open>BITMAP_SIZE\<close> bytes, \<open>2 ^ 20\<close> bits).
\<close>

definition pmm_inv :: "'a pmm_scheme \<Rightarrow> bool" where
  "pmm_inv s \<longleftrightarrow>
     unat (free_frames s) = card (free_set s) \<and> 0 \<notin> free_set s \<and> total_frames s < 2 ^ 20"

lemma bit_0x80: "bit (0x80 :: u8) n \<longleftrightarrow> n = 7"
proof -
  have "bit ((2 :: u8) ^ 7) n \<longleftrightarrow> n = 7" by (auto simp only: bit_exp_iff possible_bit_word) simp
  then show ?thesis by simp
qed

lemma bit_mask_byte: "k < 8 \<Longrightarrow> bit (drop_bit k (0x80 :: u8)) n \<longleftrightarrow> n = 7 - k"
  unfolding bit_drop_bit_eq comp_def bit_0x80 by arith

lemma mask_byte_nonzero: "k < 8 \<Longrightarrow> drop_bit k (0x80 :: u8) \<noteq> 0"
  using bit_mask_byte [of k "7 - k"] by auto

lemma unat_mod_8: "unat (i mod 8 :: u32) < 8"
  by (simp add: unat_mod)

lemma bit_get_iff: "bit_get i bm = 0 \<longleftrightarrow> \<not> bit (bm (i div 8)) (7 - unat (i mod 8))"
proof -
  have "bit_get i bm = 0 \<longleftrightarrow> (\<forall>n. \<not> bit (bit_get i bm) n)"
    by (metis bit_0_eq bot_apply bot_bool_def bit_word_eqI)
  then show ?thesis
    by (auto simp: bit_get_def bit_and_iff bit_mask_byte [OF unat_mod_8])
qed

lemma div_mod_8_inj: "i div 8 = j div 8 \<Longrightarrow> unat (i mod 8) = unat (j mod 8) \<Longrightarrow> i = (j :: u32)"
  by (metis div_mult_mod_eq unsigned_word_eqI)

lemma bit_get_set [simp]:
  "bit_get j (bit_set i v bm) = 0 \<longleftrightarrow> (if j = i then v = 0 else bit_get j bm = 0)"
proof (cases "j div 8 = i div 8")
  case False
  then have "j \<noteq> i" by auto
  with False show ?thesis by (simp add: bit_get_iff bit_set_def Let_def)
next
  case True
  let ?k = "unat (i mod 8)" and ?l = "unat (j mod 8)"
  have kl: "?k < 8" "?l < 8" by (rule unat_mod_8)+
  have eq: "7 - ?l = 7 - ?k \<longleftrightarrow> j = i"
    using kl div_mod_8_inj [OF True] by auto
  have one: "bit (drop_bit ?k (push_bit 7 (if P then 1 else 0) :: u8)) n \<longleftrightarrow> P \<and> n = 7 - ?k" for P n
    using bit_mask_byte [OF kl(1), of n] by simp
  show ?thesis
    using True kl eq mask_byte_nonzero [OF kl(1)]
    by (auto simp: bit_get_iff bit_set_def Let_def bit_or_iff bit_and_iff bit_not_iff one
        bit_mask_byte [OF kl(1)])
qed

lemma finite_free_set [simp]: "finite (free_set s)"
  by simp

lemma free_set_IDX_SET: "free_set (IDX_SET i s) = free_set s - {i}"
  by (auto simp: free_set_def IDX_SET_def)

lemma free_set_IDX_UNSET:
  "free_set (IDX_UNSET i s) = (if i < total_frames s then insert i (free_set s) else free_set s)"
  by (auto simp: free_set_def IDX_UNSET_def)

lemma free_set_hint [simp]:
  "free_set (s\<lparr>last_free_idx := k\<rparr>) = free_set s"
  "free_set (s\<lparr>kernel_end_idx := k\<rparr>) = free_set s"
  by (simp_all add: free_set_def)

lemma pmm_inv_hint [simp]:
  "pmm_inv (s\<lparr>last_free_idx := k\<rparr>) = pmm_inv s"
  by (simp add: pmm_inv_def)

section \<open>Searching\<close>

lemma word_Suc_le: "i < n \<Longrightarrow> i \<le> k \<Longrightarrow> k \<noteq> i \<Longrightarrow> i + 1 \<le> (k :: u32)"
  by (metis inc_le order_le_less)

lemma scan_free_Some:
  "scan_free bm i n = Some j \<Longrightarrow> i \<le> j \<and> j < n \<and> bit_get j bm = 0"
proof (induction bm i n rule: scan_free.induct)
  case (1 bm i n)
  show ?case
  proof (cases "i < n \<and> bit_get i bm \<noteq> 0")
    case True
    with "1.prems" have "scan_free bm (i + 1) n = Some j"
      by (simp add: scan_free.simps [of bm i n])
    with True "1.IH" have IH: "i + 1 \<le> j \<and> j < n \<and> bit_get j bm = 0" by simp
    moreover from True have "i \<le> i + 1" by (simp add: word_le_nat_alt unat_Suc_less [of i n])
    ultimately show ?thesis by auto
  next
    case False
    with "1.prems" show ?thesis by (auto simp: scan_free.simps [of bm i n] split: if_splits)
  qed
qed

lemma scan_free_None:
  "scan_free bm i n = None \<Longrightarrow> i \<le> k \<Longrightarrow> k < n \<Longrightarrow> bit_get k bm \<noteq> 0"
proof (induction bm i n rule: scan_free.induct)
  case (1 bm i n)
  then have i: "i < n" by simp
  with "1.prems" have b: "bit_get i bm \<noteq> 0" and r: "scan_free bm (i + 1) n = None"
    by (auto simp: scan_free.simps [of bm i n] split: if_splits)
  show ?case
  proof (cases "k = i")
    case False
    with i "1.prems" have "i + 1 \<le> k" by (intro word_Suc_le)
    with "1.IH" i b r "1.prems" show ?thesis by simp
  qed (use b in simp)
qed

section \<open>Allocation and release of one frame\<close>

lemma card_free_set_le: "card (free_set s) \<le> unat (total_frames s)"
proof -
  have "inj_on unat (free_set s)" by (simp add: inj_on_def unsigned_word_eqI)
  then have "card (free_set s) = card (unat ` free_set s)" by (simp add: card_image)
  also have "\<dots> \<le> card {..<unat (total_frames s)}"
    by (rule card_mono) (auto simp: free_set_def word_less_nat_alt)
  finally show ?thesis by simp
qed

lemma IDX_TO_ADDR_unat:
  assumes "i < 2 ^ 20"
  shows "unat (IDX_TO_ADDR i) = unat i * 4096"
proof -
  from assms have "unat i < 2 ^ 20" by (simp add: word_less_nat_alt)
  then show ?thesis by (simp add: IDX_TO_ADDR_def unat_word_ariths)
qed

lemma IDX_TO_ADDR_zero: "i < 2 ^ 20 \<Longrightarrow> IDX_TO_ADDR i = 0 \<longleftrightarrow> i = 0"
  using IDX_TO_ADDR_unat [of i] by (auto simp: IDX_TO_ADDR_def unat_eq_0)

lemma ADDR_TO_IDX_inverse: "i < 2 ^ 20 \<Longrightarrow> ADDR_TO_IDX (IDX_TO_ADDR i) = i"
  using IDX_TO_ADDR_unat [of i] by (simp add: word_unat_eq_iff ADDR_TO_IDX_def unat_div)

lemma free_set_less: "pmm_inv s \<Longrightarrow> i \<in> free_set s \<Longrightarrow> i < 2 ^ 20 \<and> i \<noteq> 0"
  unfolding pmm_inv_def free_set_def by (auto dest: less_trans)

lemma pmm_inv_IDX_SET:
  assumes "pmm_inv s" and "i \<in> free_set s"
  shows "pmm_inv (IDX_SET i s)"
proof -
  have "card (free_set s) > 0" using assms(2) by (auto simp: card_gt_0_iff)
  with assms(1) have "unat (free_frames s - 1) = unat (free_frames s) - 1"
    by (intro unat_minus_one) (auto simp: pmm_inv_def)
  with assms show ?thesis
    by (auto simp: pmm_inv_def free_set_IDX_SET) (auto simp: IDX_SET_def)
qed

lemma pmm_inv_IDX_UNSET:
  assumes "pmm_inv s" and "i < total_frames s" and "i \<notin> free_set s" and "i \<noteq> 0"
  shows "pmm_inv (IDX_UNSET i s)"
proof -
  have "unat (free_frames s) < 2 ^ 20"
    using assms(1) card_free_set_le [of s] by (auto simp: pmm_inv_def word_less_nat_alt)
  then have "unat (free_frames s + 1) = unat (free_frames s) + 1"
    by (simp add: unat_word_ariths)
  with assms show ?thesis
    by (auto simp: pmm_inv_def free_set_IDX_UNSET) (auto simp: IDX_UNSET_def)
qed

lemma IDX_SET_frame [simp]:
  "total_frames (IDX_SET i s) = total_frames s"
  "kernel_end_idx (IDX_SET i s) = kernel_end_idx s"
  "last_free_idx (IDX_SET i s) = last_free_idx s"
  "pmm.more (IDX_SET i s) = pmm.more s"
  by (simp_all add: IDX_SET_def)

lemma IDX_UNSET_frame [simp]:
  "total_frames (IDX_UNSET i s) = total_frames s"
  "kernel_end_idx (IDX_UNSET i s) = kernel_end_idx s"
  "last_free_idx (IDX_UNSET i s) = last_free_idx s"
  "pmm.more (IDX_UNSET i s) = pmm.more s"
  by (simp_all add: IDX_UNSET_def)

text \<open>One call of the search, without the address-zero detour.\<close>

lemma pmm_get_frame_step:
  assumes "pmm_inv s"
  shows "pmm_get_frame_fuel (Suc n) s =
    (if free_frames s = 0 then Panic ''[PMM] System run out of memory!''
     else case scan_free (pmm_bitmap s) (last_free_idx s) (total_frames s) of
            None \<Rightarrow> pmm_get_frame_fuel n (s\<lparr>last_free_idx := kernel_end_idx s\<rparr>)
          | Some i \<Rightarrow> Ret (IDX_TO_ADDR i) ((IDX_SET i s)\<lparr>last_free_idx := last_free_idx s + 1\<rparr>))"
proof (cases "scan_free (pmm_bitmap s) (last_free_idx s) (total_frames s)")
  case (Some i)
  then have "i \<in> free_set s" using scan_free_Some by (auto simp: free_set_def)
  then have "IDX_TO_ADDR i \<noteq> 0" using free_set_less [OF assms] IDX_TO_ADDR_zero by blast
  with Some show ?thesis by (simp add: Let_def pmm_get_frame_fuel.simps(2))
qed (simp add: Let_def pmm_get_frame_fuel.simps(2))

lemma pmm_get_frame_fuel_Ret:
  "pmm_inv s \<Longrightarrow> pmm_get_frame_fuel n s = Ret a s' \<Longrightarrow>
   \<exists>i \<in> free_set s. \<exists>k. a = IDX_TO_ADDR i \<and> s' = (IDX_SET i s)\<lparr>last_free_idx := k\<rparr>"
proof (induction n arbitrary: s)
  case (Suc n)
  show ?case
  proof (cases "scan_free (pmm_bitmap s) (last_free_idx s) (total_frames s)")
    case None
    with Suc.prems pmm_get_frame_step [OF Suc.prems(1), of n]
    have "pmm_get_frame_fuel n (s\<lparr>last_free_idx := kernel_end_idx s\<rparr>) = Ret a s'"
      by (auto split: if_splits)
    from Suc.IH [OF _ this] Suc.prems(1) show ?thesis
      by (auto simp: IDX_SET_def)
  next
    case (Some i)
    then have "i \<in> free_set s" using scan_free_Some by (auto simp: free_set_def)
    with Some Suc.prems pmm_get_frame_step [OF Suc.prems(1), of n] show ?thesis
      by (auto split: if_splits)
  qed
qed simp

lemma pmm_get_frame_Ret:
  assumes "pmm_inv s" and "pmm_get_frame s = Ret a s'"
  shows "\<exists>i \<in> free_set s. \<exists>k. a = IDX_TO_ADDR i \<and> s' = (IDX_SET i s)\<lparr>last_free_idx := k\<rparr>"
  using pmm_get_frame_fuel_Ret [OF assms(1), of 4] assms(2) by (auto simp: pmm_get_frame_def)

lemma pmm_get_frame_pmm_inv: "pmm_inv s \<Longrightarrow> pmm_get_frame s = Ret a s' \<Longrightarrow> pmm_inv s'"
  using pmm_get_frame_Ret by (fastforce intro: pmm_inv_IDX_SET)

lemma IDX_TO_ADDR_aligned: "IDX_TO_ADDR i AND 0xfff = 0"
proof -
  have "IDX_TO_ADDR i = push_bit 12 i" by (simp add: IDX_TO_ADDR_def push_bit_eq_mult)
  then have "IDX_TO_ADDR i AND mask 12 = 0"
    by (simp only:) (rule bit_word_eqI, auto simp: bit_simps)
  then show ?thesis by (simp add: mask_eq_exp_minus_1)
qed

lemma pmm_get_frame_nonzero: "pmm_inv s \<Longrightarrow> pmm_get_frame s = Ret a s' \<Longrightarrow> a \<noteq> 0"
  using pmm_get_frame_Ret [of s a s'] free_set_less [of s] by (auto simp: IDX_TO_ADDR_zero)

lemma pmm_free_frame_unused:
  "ADDR_TO_IDX a \<ge> total_frames s \<Longrightarrow> pmm_free_frame a s = s"
  by (simp add: pmm_free_frame_def Let_def)

text \<open>When a search from the end of the kernel finds nothing, every further call repeats it.\<close>

lemma pmm_get_frame_loops:
  assumes "pmm_inv s" and "free_frames s \<noteq> 0" and "last_free_idx s = kernel_end_idx s"
    and "scan_free (pmm_bitmap s) (kernel_end_idx s) (total_frames s) = None"
  shows "pmm_get_frame_fuel n s = Timeout"
  using assms
proof (induction n arbitrary: s)
  case (Suc n)
  then have "s\<lparr>last_free_idx := kernel_end_idx s\<rparr> = s" by simp
  with Suc pmm_get_frame_step [OF Suc.prems(1), of n] show ?case by simp
qed simp

text \<open>
  C1: a frame handed out by \<^verbatim>\<open>pmm_get_frame\<close> was free, is page aligned and not address 0, is
  the only frame that becomes used, the counter stays exact, and nothing outside the
  manager's own state changes.
\<close>

theorem pmm_get_frame_correct:
  assumes "pmm_inv s" and "pmm_get_frame s = Ret a s'"
  shows "\<exists>i \<in> free_set s. a = IDX_TO_ADDR i \<and> a \<noteq> 0 \<and> a AND 0xfff = 0 \<and>
    free_set s' = free_set s - {i} \<and> pmm_inv s' \<and>
    total_frames s' = total_frames s \<and> kernel_end_idx s' = kernel_end_idx s \<and>
    pmm.more s' = pmm.more s"
proof -
  obtain i k where "i \<in> free_set s" "a = IDX_TO_ADDR i"
    "s' = (IDX_SET i s)\<lparr>last_free_idx := k\<rparr>"
    using pmm_get_frame_Ret [OF assms] by blast
  then show ?thesis
    using pmm_get_frame_nonzero [OF assms] pmm_inv_IDX_SET [OF assms(1)] IDX_TO_ADDR_aligned
    by (auto simp: free_set_IDX_SET intro!: bexI [of _ i])
qed

text \<open>Two calls decide: the first search, then the search from the end of the kernel.\<close>

lemma pmm_get_frame_two_calls:
  assumes "pmm_inv s"
  shows "pmm_get_frame_fuel (Suc (Suc n)) s =
    (if free_frames s = 0 then Panic ''[PMM] System run out of memory!''
     else case scan_free (pmm_bitmap s) (last_free_idx s) (total_frames s) of
            Some i \<Rightarrow> Ret (IDX_TO_ADDR i) ((IDX_SET i s)\<lparr>last_free_idx := last_free_idx s + 1\<rparr>)
          | None \<Rightarrow>
              (case scan_free (pmm_bitmap s) (kernel_end_idx s) (total_frames s) of
                 Some i \<Rightarrow> Ret (IDX_TO_ADDR i) ((IDX_SET i s)\<lparr>last_free_idx := kernel_end_idx s + 1\<rparr>)
               | None \<Rightarrow> Timeout))"
proof -
  let ?t = "s\<lparr>last_free_idx := kernel_end_idx s\<rparr>"
  have t: "pmm_inv ?t" using assms by simp
  have set: "(IDX_SET i ?t)\<lparr>last_free_idx := k\<rparr> = (IDX_SET i s)\<lparr>last_free_idx := k\<rparr>" for i k
    by (simp add: IDX_SET_def)
  show ?thesis
    using pmm_get_frame_loops [OF t, of n]
    by (simp add: pmm_get_frame_step [OF assms] pmm_get_frame_step [OF t] set split: option.split)
qed

lemma pmm_get_frame_outcomes:
  assumes "pmm_inv s"
  shows "pmm_get_frame s \<noteq> Fault p" and "pmm_get_frame s \<noteq> Iret s'"
proof -
  have four: "(4 :: nat) = Suc (Suc 2)" by simp
  show "pmm_get_frame s \<noteq> Fault p" "pmm_get_frame s \<noteq> Iret s'"
    unfolding pmm_get_frame_def four pmm_get_frame_two_calls [OF assms] by (auto split: option.split)
qed

text \<open>
  C2: \<^verbatim>\<open>pmm_get_frame\<close> returns whenever a frame at or above \<^verbatim>\<open>kernel_end_idx\<close> is free; it
  panics exactly when the counter is zero; and when four calls of its recursion were not
  enough, no number of calls is (the C function then recurses for ever).
\<close>

theorem pmm_get_frame_total:
  assumes "pmm_inv s"
  shows "((\<exists>i \<in> free_set s. kernel_end_idx s \<le> i) \<longrightarrow> (\<exists>a s'. pmm_get_frame s = Ret a s')) \<and>
    (free_frames s = 0 \<longleftrightarrow> pmm_get_frame s = Panic ''[PMM] System run out of memory!'') \<and>
    (pmm_get_frame s = Timeout \<longrightarrow> (\<forall>n. pmm_get_frame_fuel n s = Timeout))"
proof (intro conjI impI allI)
  have four: "(4 :: nat) = Suc (Suc 2)" by simp
  note two = pmm_get_frame_two_calls [OF assms]
  assume "\<exists>i \<in> free_set s. kernel_end_idx s \<le> i"
  then obtain i where i: "i \<in> free_set s" "kernel_end_idx s \<le> i" by blast
  then have "free_frames s \<noteq> 0"
    using assms by (auto simp: pmm_inv_def card_gt_0_iff unat_eq_0)
  moreover have "scan_free (pmm_bitmap s) (kernel_end_idx s) (total_frames s) \<noteq> None"
    using i scan_free_None [of "pmm_bitmap s" "kernel_end_idx s" "total_frames s" i]
    by (auto simp: free_set_def)
  ultimately show "\<exists>a s'. pmm_get_frame s = Ret a s'"
    unfolding pmm_get_frame_def four two by (auto split: option.split)
next
  have four: "(4 :: nat) = Suc (Suc 2)" by simp
  show "free_frames s = 0 \<longleftrightarrow> pmm_get_frame s = Panic ''[PMM] System run out of memory!''"
    unfolding pmm_get_frame_def four pmm_get_frame_two_calls [OF assms]
    by (auto split: option.split)
next
  fix n
  have four: "(4 :: nat) = Suc (Suc 2)" by simp
  assume "pmm_get_frame s = Timeout"
  then have T: "pmm_get_frame_fuel (Suc (Suc m)) s = Timeout" for m
    unfolding pmm_get_frame_def four pmm_get_frame_two_calls [OF assms]
    by (auto split: option.splits if_splits)
  show "pmm_get_frame_fuel n s = Timeout"
  proof (cases n)
    case (Suc m)
    then show ?thesis
      using T pmm_get_frame_step [OF assms, of m] pmm_get_frame_step [OF assms, of "Suc m"]
        pmm_get_frame_two_calls [OF assms, of 0]
      by (cases m) (auto split: option.splits if_splits)
  qed simp
qed

text \<open>
  C4: releasing an allocated frame makes exactly that frame free again and keeps the counter
  exact; an allocation followed by the release of its frame restores the set of free frames.
\<close>

theorem pmm_free_frame_correct:
  assumes "pmm_inv s" and "ADDR_TO_IDX a < total_frames s"
    and "ADDR_TO_IDX a \<notin> free_set s" and "ADDR_TO_IDX a \<noteq> 0"
  shows "free_set (pmm_free_frame a s) = insert (ADDR_TO_IDX a) (free_set s) \<and>
    pmm_inv (pmm_free_frame a s) \<and> pmm.more (pmm_free_frame a s) = pmm.more s \<and>
    (\<forall>b s'. pmm_get_frame s = Ret b s' \<longrightarrow> free_set (pmm_free_frame b s') = free_set s)"
proof (intro conjI allI impI)
  show "pmm_inv (pmm_free_frame a s)"
    using assms pmm_inv_IDX_UNSET [OF assms(1,2)] by (simp add: pmm_free_frame_def Let_def)
next
  fix b s' assume "pmm_get_frame s = Ret b s'"
  then obtain i k where i: "i \<in> free_set s" "b = IDX_TO_ADDR i"
    "s' = (IDX_SET i s)\<lparr>last_free_idx := k\<rparr>"
    using pmm_get_frame_Ret [OF assms(1)] by blast
  then have "ADDR_TO_IDX b = i" using free_set_less [OF assms(1) i(1)] ADDR_TO_IDX_inverse by simp
  moreover have "i < total_frames s" using i by (simp add: free_set_def)
  ultimately show "free_set (pmm_free_frame b s') = free_set s"
    using i by (auto simp: pmm_free_frame_def Let_def free_set_IDX_UNSET free_set_IDX_SET)
qed (use assms in \<open>auto simp: pmm_free_frame_def Let_def free_set_IDX_UNSET\<close>)

text \<open>
  releasing a frame that is already free leaves the bitmap view unchanged but counts the
  frame a second time, so the counter promises a frame that does not exist.
\<close>

theorem pmm_double_free_overcounts:
  assumes "pmm_inv s" and "ADDR_TO_IDX a \<in> free_set s"
  shows "free_set (pmm_free_frame a s) = free_set s \<and>
    unat (free_frames (pmm_free_frame a s)) = card (free_set s) + 1 \<and>
    \<not> pmm_inv (pmm_free_frame a s)"
proof -
  have ff: "unat (free_frames s) < 2 ^ 20"
    using assms(1) card_free_set_le [of s] by (auto simp: pmm_inv_def word_less_nat_alt)
  have "ADDR_TO_IDX a < total_frames s" using assms(2) by (simp add: free_set_def)
  then have eq: "pmm_free_frame a s = (IDX_UNSET (ADDR_TO_IDX a) s)\<lparr>last_free_idx := ADDR_TO_IDX a\<rparr>"
    and set: "free_set (pmm_free_frame a s) = free_set s"
    using assms(2) by (auto simp: pmm_free_frame_def Let_def free_set_IDX_UNSET)
  have "unat (free_frames (pmm_free_frame a s)) = card (free_set s) + 1"
    unfolding eq using assms(1) ff
    by (simp add: IDX_UNSET_def pmm_inv_def unat_word_ariths)
  with set show ?thesis by (simp add: pmm_inv_def)
qed

section \<open>Initialisation\<close>

definition reserve_step :: "nat \<Rightarrow> 'a pmm_scheme \<Rightarrow> 'a pmm_scheme" where
  "reserve_step j s = (IDX_SET (of_nat j) s)\<lparr>last_free_idx := last_free_idx s + 1\<rparr>"

lemma init_loop_fold:
  assumes "N = (unat re + 4095) div 4096" and "N < 2 ^ 20" and "k \<le> N" and "N - k < fuel"
  shows "pmm_init_loop fuel (of_nat (k * 4096)) re s = Ret () (fold reserve_step [k ..< N] s)"
  using assms(3,4)
proof (induction fuel arbitrary: k s)
  case (Suc fuel)
  let ?i = "of_nat (k * 4096) :: u32"
  have ui: "unat ?i = k * 4096" by (rule unat_of_nat32) (use Suc.prems assms(2) in simp)
  have lt: "?i < re \<longleftrightarrow> k < N"
    unfolding word_less_nat_alt ui using assms(1) by linarith
  show ?case
  proof (cases "k < N")
    case False
    then have "k = N" using Suc.prems by simp
    with lt show ?thesis by simp
  next
    case True
    have "ADDR_TO_IDX ?i = of_nat k"
      using Suc.prems assms(2) ui
      by (simp add: word_unat_eq_iff ADDR_TO_IDX_def unat_div unat_of_nat)
    then have st: "(IDX_SET (ADDR_TO_IDX ?i) s)\<lparr>last_free_idx := last_free_idx s + 1\<rparr> = reserve_step k s"
      by (simp add: reserve_step_def)
    have nxt: "?i + FRAME_SIZE = of_nat (Suc k * 4096)" by simp
    have "pmm_init_loop (Suc fuel) ?i re s =
      pmm_init_loop fuel (of_nat (Suc k * 4096)) re (reserve_step k s)"
      using lt True by (simp only: pmm_init_loop.simps if_True Let_def IDX_SET_frame st nxt)
    also have "\<dots> = Ret () (fold reserve_step [Suc k ..< N] (reserve_step k s))"
      using Suc.prems True by (intro Suc.IH) auto
    finally show ?thesis using True by (simp add: upt_conv_Cons)
  qed
qed simp

lemma fold_reserve:
  assumes "N < 2 ^ 20" and "k \<le> N" and "\<forall>j \<in> {k ..< N}. of_nat j \<in> free_set s"
    and "unat (free_frames s) = card (free_set s)"
  shows "free_set (fold reserve_step [k ..< N] s) = free_set s - of_nat ` {k ..< N} \<and>
    unat (free_frames (fold reserve_step [k ..< N] s)) =
      card (free_set (fold reserve_step [k ..< N] s)) \<and>
    last_free_idx (fold reserve_step [k ..< N] s) = last_free_idx s + of_nat (N - k) \<and>
    total_frames (fold reserve_step [k ..< N] s) = total_frames s \<and>
    pmm.more (fold reserve_step [k ..< N] s) = pmm.more s"
  using assms(2,3,4)
proof (induction "N - k" arbitrary: k s)
  case (Suc d)
  then have k: "k < N" by linarith
  let ?t = "reserve_step k s"
  have in_s: "of_nat k \<in> free_set s" using Suc.prems(2) k by simp
  have inj: "(of_nat j :: u32) \<noteq> of_nat k" if "j \<in> {Suc k ..< N}" for j
    using that assms(1) by (auto simp: word_unat_eq_iff unat_of_nat)
  have ft: "free_set ?t = free_set s - {of_nat k}"
    by (simp add: reserve_step_def free_set_IDX_SET)
  have "card (free_set s) > 0" using in_s by (auto simp: card_gt_0_iff)
  then have "unat (free_frames s - 1) = unat (free_frames s) - 1"
    using Suc.prems(3) by (intro unat_minus_one) auto
  then have ct: "unat (free_frames ?t) = card (free_set ?t)"
    using Suc.prems(3) in_s by (simp add: ft) (simp add: reserve_step_def IDX_SET_def)
  have IH: "free_set (fold reserve_step [Suc k ..< N] ?t) = free_set ?t - of_nat ` {Suc k ..< N} \<and>
    unat (free_frames (fold reserve_step [Suc k ..< N] ?t)) =
      card (free_set (fold reserve_step [Suc k ..< N] ?t)) \<and>
    last_free_idx (fold reserve_step [Suc k ..< N] ?t) = last_free_idx ?t + of_nat (N - Suc k) \<and>
    total_frames (fold reserve_step [Suc k ..< N] ?t) = total_frames ?t \<and>
    pmm.more (fold reserve_step [Suc k ..< N] ?t) = pmm.more ?t"
    using Suc k ft ct inj by (intro Suc.hyps(1)) auto
  have fold: "fold reserve_step [k ..< N] s = fold reserve_step [Suc k ..< N] ?t"
    using k by (simp add: upt_conv_Cons)
  have "{k ..< N} = insert k {Suc k ..< N}" using k by auto
  then have "free_set ?t - of_nat ` {Suc k ..< N} = free_set s - of_nat ` {k ..< N}"
    using ft by auto
  moreover have "last_free_idx ?t + of_nat (N - Suc k) = last_free_idx s + of_nat (N - k)"
    using k by (simp add: reserve_step_def Suc_diff_Suc [symmetric])
  moreover have "total_frames ?t = total_frames s" "pmm.more ?t = pmm.more s"
    by (simp_all add: reserve_step_def)
  ultimately show ?case using IH unfolding fold by metis
qed simp

text \<open>
  After boot, with a zeroed bitmap and the memory from address 0 up to \<open>reserved_end\<close>
  reserved, exactly the frames above the reserved ones are free, the counter is exact and
  the search restarts at the last reserved frame.
\<close>

theorem pmm_init_correct:
  assumes "pmm_bitmap s = (\<lambda>_. 0)" and "0 < re"
    and "(unat re + 4095) div 4096 \<le> unat tm div 4096"
  shows "\<exists>s'. pmm_init tm 0 re s = Ret () s' \<and> pmm_inv s' \<and>
    free_set s' = {i. i < tm div FRAME_SIZE \<and> (unat re + 4095) div 4096 \<le> unat i} \<and>
    unat (kernel_end_idx s') = (unat re + 4095) div 4096 - 1 \<and> pmm.more s' = pmm.more s"
proof -
  let ?N = "(unat re + 4095) div 4096"
  define u where "u = s\<lparr>total_frames := tm div FRAME_SIZE, free_frames := tm div FRAME_SIZE,
    last_free_idx := 0\<rparr>"
  define v where "v = fold reserve_step [0 ..< ?N] u"
  have tb: "unat tm div 4096 < 2 ^ 20" using unat32_bound [of tm] by simp
  have tf: "unat (tm div FRAME_SIZE) = unat tm div 4096" by (simp add: unat_div)
  have N: "?N < 2 ^ 20" "0 < ?N" using assms(2,3) tb by (auto simp: word_less_nat_alt)
  have fu: "free_set u = {i. i < tm div FRAME_SIZE}"
    using assms(1) by (auto simp: free_set_def u_def bit_get_def)
  have "card (free_set u) = unat tm div 4096" by (simp only: fu card_words_below tf)
  then have cu: "unat (free_frames u) = card (free_set u)" by (simp add: u_def tf)
  have in_u: "\<forall>j \<in> {0 ..< ?N}. of_nat j \<in> free_set u"
    unfolding fu using assms(3) N(1) by (auto simp: word_less_nat_alt tf unat_of_nat32)
  have v: "free_set v = free_set u - of_nat ` {0 ..< ?N}" "unat (free_frames v) = card (free_set v)"
    "last_free_idx v = of_nat ?N" "total_frames v = tm div FRAME_SIZE" "pmm.more v = pmm.more s"
    using fold_reserve [OF N(1) _ in_u cu] by (simp_all add: v_def) (simp_all add: u_def)
  have run: "pmm_init tm 0 re s = Ret () (v\<lparr>kernel_end_idx := last_free_idx v - 1\<rparr>)"
    using init_loop_fold [OF refl N(1), of 0 "2 ^ 20 + 1" u] N(1)
    by (simp add: pmm_init_def Let_def u_def [symmetric] v_def)
  have img: "i \<in> of_nat ` {0 ..< ?N} \<longleftrightarrow> unat i < ?N" for i :: u32
  proof
    assume "unat i < ?N"
    then show "i \<in> of_nat ` {0 ..< ?N}" by (intro image_eqI [of _ _ "unat i"]) auto
  qed (use N(1) in \<open>auto simp: unat_of_nat32\<close>)
  have fv: "free_set v = {i. i < tm div FRAME_SIZE \<and> ?N \<le> unat i}"
    unfolding v(1) fu by (simp only: set_eq_iff Diff_iff img mem_Collect_eq not_less) blast
  have "unat (last_free_idx v - 1) = ?N - 1"
    unfolding v(3) using N by (subst unat_minus_one) (auto simp: unat_of_nat32 word_unat_eq_iff)
  moreover have "pmm_inv (v\<lparr>kernel_end_idx := last_free_idx v - 1\<rparr>)"
    using v(2,4) fv N(2) tb by (auto simp: pmm_inv_def word_less_nat_alt tf)
  ultimately show ?thesis using run fv v(5) by simp
qed

section \<open>Pools\<close>

text \<open>
  The search loop's invariant over natural numbers: the last \<open>c\<close> frames before \<open>u\<close> are the
  longest free run ending there, and no run of \<open>m\<close> free frames lies in \<open>[k, u)\<close>.
\<close>

definition run_inv :: "(nat \<Rightarrow> bool) \<Rightarrow> nat \<Rightarrow> nat \<Rightarrow> nat \<Rightarrow> nat \<Rightarrow> bool" where
  "run_inv F k u m c \<longleftrightarrow>
     k + c \<le> u \<and> c < m \<and> (\<forall>j. u - c \<le> j \<and> j < u \<longrightarrow> F j) \<and>
     (u - c = k \<or> \<not> F (u - c - 1)) \<and>
     (\<forall>p. k \<le> p \<and> p + m \<le> u \<longrightarrow> (\<exists>j. p \<le> j \<and> j < p + m \<and> \<not> F j))"

lemma run_inv_used: "run_inv F k u m c \<Longrightarrow> \<not> F u \<Longrightarrow> run_inv F k (Suc u) m 0"
  unfolding run_inv_def by (auto simp: le_Suc_eq)

lemma run_inv_free:
  assumes "run_inv F k u m c" and "F u" and "Suc c \<noteq> m"
  shows "run_inv F k (Suc u) m (Suc c)"
proof -
  have "\<exists>j. p \<le> j \<and> j < p + m \<and> \<not> F j" if "k \<le> p" "p + m \<le> Suc u" for p
  proof (cases "p + m \<le> u")
    case False
    then have "p + m = Suc u" using that by simp
    with assms(1,3) that have "u - c \<noteq> k" "p \<le> u - c - 1" "u - c - 1 < p + m"
      by (auto simp: run_inv_def)
    with assms(1) show ?thesis by (auto simp: run_inv_def)
  qed (use assms(1) that in \<open>auto simp: run_inv_def\<close>)
  with assms show ?thesis by (auto simp: run_inv_def less_Suc_eq)
qed

lemma pool_search_result:
  assumes "pool_search bm i n frames ps pe fc first = (ps', pe', fc')"
    and "run_inv (\<lambda>j. bit_get (of_nat j) bm = 0) k (unat i) (unat frames) (unat fc)"
    and "first \<longleftrightarrow> fc = 0" and "fc \<noteq> 0 \<Longrightarrow> unat ps = unat i - unat fc"
  shows "if fc' = frames
    then \<exists>e. pe' = Some e \<and> unat e + 1 = unat ps' + unat frames \<and> e < n \<and> k \<le> unat ps' \<and>
      (\<forall>j. unat ps' \<le> j \<and> j \<le> unat e \<longrightarrow> bit_get (of_nat j) bm = 0)
    else \<forall>p. k \<le> p \<and> p + unat frames \<le> unat n \<longrightarrow>
      (\<exists>j. p \<le> j \<and> j < p + unat frames \<and> bit_get (of_nat j) bm \<noteq> 0)"
  using assms
proof (induction bm i n frames ps pe fc first rule: pool_search.induct)
  case (1 bm i n frames ps pe fc first)
  let ?F = "\<lambda>j. bit_get (of_nat j) bm = 0"
  note inv = "1.prems"(2)
  show ?case
  proof (cases "i < n")
    case False
    then have "ps' = ps" "pe' = pe" "fc' = fc"
      using "1.prems"(1) by (auto simp: pool_search.simps [of bm i])
    with False inv show ?thesis by (auto simp: run_inv_def word_less_nat_alt)
  next
    case True
    have ui: "unat (i + 1) = Suc (unat i)" using True by (rule unat_Suc_less)
    have uf: "unat (fc + 1) = Suc (unat fc)"
      by (rule unat_Suc_less [of fc frames]) (use inv in \<open>simp add: run_inv_def word_less_nat_alt\<close>)
    show ?thesis
    proof (cases "bit_get i bm = 0")
      case False
      with True "1.prems"(1) have "pool_search bm (i + 1) n frames 0 (Some 0) 0 True = (ps', pe', fc')"
        by (simp add: pool_search.simps [of bm i])
      moreover have "run_inv ?F k (unat (i + 1)) (unat frames) (unat (0 :: u32))"
        using run_inv_used [OF inv] False by (simp add: ui)
      ultimately show ?thesis using "1.IH"(2) True False by simp
    next
      case F: True
      let ?ps = "if first then i else ps"
      have ps: "unat ?ps = unat (i + 1) - unat (fc + 1)"
        using "1.prems"(3,4) by (auto simp: ui uf)
      show ?thesis
      proof (cases "fc + 1 = frames")
        case fin: True
        with True F "1.prems"(1) have res: "ps' = ?ps" "pe' = Some i" "fc' = frames"
          by (auto simp: pool_search.simps [of bm i] Let_def)
        have m: "unat frames = Suc (unat fc)" using fin uf by simp
        have "\<forall>j. unat i - unat fc \<le> j \<and> j \<le> unat i \<longrightarrow> ?F j"
          using inv F by (auto simp: run_inv_def le_less)
        with inv ps res m True show ?thesis by (auto simp: ui uf run_inv_def)
      next
        case go: False
        with True F "1.prems"(1) have eq:
          "pool_search bm (i + 1) n frames ?ps pe (fc + 1) False = (ps', pe', fc')"
          by (simp add: pool_search.simps [of bm i] Let_def)
        have "Suc (unat fc) \<noteq> unat frames" using go uf by (metis unsigned_word_eqI)
        then have "run_inv ?F k (unat (i + 1)) (unat frames) (unat (fc + 1))"
          using run_inv_free [OF inv] F by (simp add: ui uf)
        moreover have "fc + 1 \<noteq> 0" using uf by (metis Zero_not_Suc unsigned_0)
        ultimately show ?thesis
          using "1.IH"(1) [OF True F refl refl go eq] ps by simp
      qed
    qed
  qed
qed

text \<open>A run of free frames at or above the end of the kernel.\<close>

definition free_run :: "'a pmm_scheme \<Rightarrow> u32 \<Rightarrow> nat \<Rightarrow> bool" where
  "free_run s frames q \<longleftrightarrow>
     unat (kernel_end_idx s) \<le> q \<and> q + unat frames \<le> unat (total_frames s) \<and>
     (\<forall>j \<in> {q ..< q + unat frames}. of_nat j \<in> free_set s)"

lemma fold_IDX_SET:
  assumes "pmm_inv s" and "e < 2 ^ 20" and "\<forall>j \<in> {q ..< e}. of_nat j \<in> free_set s" and "q \<le> e"
  shows "free_set (fold (\<lambda>i. IDX_SET (of_nat i)) [q ..< e] s) = free_set s - of_nat ` {q ..< e} \<and>
    pmm_inv (fold (\<lambda>i. IDX_SET (of_nat i)) [q ..< e] s)"
  using assms
proof (induction "e - q" arbitrary: q s)
  case (Suc d)
  then have q: "q < e" by linarith
  have in_s: "of_nat q \<in> free_set s" using Suc.prems(3) q by simp
  have other: "(of_nat j :: u32) \<noteq> of_nat q" if "j \<in> {Suc q ..< e}" for j
    using that assms(2) by (auto simp: word_unat_eq_iff unat_of_nat32)
  have "free_set (fold (\<lambda>i. IDX_SET (of_nat i)) [Suc q ..< e] (IDX_SET (of_nat q) s)) =
    free_set (IDX_SET (of_nat q) s) - of_nat ` {Suc q ..< e} \<and>
    pmm_inv (fold (\<lambda>i. IDX_SET (of_nat i)) [Suc q ..< e] (IDX_SET (of_nat q) s))"
    using Suc q other pmm_inv_IDX_SET [OF Suc.prems(1) in_s]
    by (intro Suc.hyps(1)) (auto simp: free_set_IDX_SET)
  moreover have "{q ..< e} = insert q {Suc q ..< e}" using q by auto
  ultimately show ?case using q by (auto simp: upt_conv_Cons free_set_IDX_SET)
qed simp

lemma fold_IDX_SET_total: "total_frames (fold (\<lambda>i. IDX_SET (of_nat i)) is s) = total_frames s"
  by (induction "is" arbitrary: s) simp_all

text \<open>What marking a run of free frames does, and the two outcomes of the search.\<close>

definition pool_taken :: "u32 \<Rightarrow> 'a pmm_scheme \<Rightarrow> nat \<Rightarrow> 'a pmm_scheme \<Rightarrow> bool" where
  "pool_taken frames s q s' \<longleftrightarrow> free_run s frames q \<and> IDX_TO_ADDR (of_nat q) \<noteq> 0 \<and> pmm_inv s' \<and>
     free_set s' = free_set s - of_nat ` {q ..< q + unat frames} \<and> total_frames s' = total_frames s"

lemma mark_run:
  assumes "pmm_inv s" and "0 < frames" and "free_run s frames q"
  shows "pool_taken frames s q (fold (\<lambda>i. IDX_SET (of_nat i)) [q ..< q + unat frames] s)"
proof -
  let ?s' = "fold (\<lambda>i. IDX_SET (of_nat i)) [q ..< q + unat frames] s"
  have n: "unat (total_frames s) < 2 ^ 20" using assms(1) by (simp add: pmm_inv_def word_less_nat_alt)
  have "free_set ?s' = free_set s - of_nat ` {q ..< q + unat frames} \<and> pmm_inv ?s'"
    using assms(3) n by (intro fold_IDX_SET [OF assms(1)]) (auto simp: free_run_def)
  moreover have "q \<in> {q ..< q + unat frames}" using assms(2) by (simp add: word_less_nat_alt)
  with assms(3) have "of_nat q \<in> free_set s" unfolding free_run_def by blast
  then have "IDX_TO_ADDR (of_nat q) \<noteq> 0" using free_set_less [OF assms(1)] by (simp add: IDX_TO_ADDR_zero)
  ultimately show ?thesis using assms(3) by (simp add: pool_taken_def fold_IDX_SET_total)
qed

lemma pool_outcome:
  assumes "pmm_inv s" and "0 < frames"
  shows "(pmm_get_pool frames s = Ret 0 s \<and> (\<forall>q. \<not> free_run s frames q)) \<or>
    (\<exists>q s'. pmm_get_pool frames s = Ret (IDX_TO_ADDR (of_nat q)) s' \<and> pool_taken frames s q s')"
proof -
  let ?bm = "pmm_bitmap s" and ?k = "kernel_end_idx s" and ?n = "total_frames s"
  obtain ps pe fc where ps: "pool_search ?bm ?k ?n frames 0 None 0 True = (ps, pe, fc)"
    by (metis prod_cases3)
  have m: "0 < unat frames" using assms(2) by (simp add: word_less_nat_alt)
  have n: "unat ?n < 2 ^ 20" using assms(1) by (simp add: pmm_inv_def word_less_nat_alt)
  have free: "of_nat j \<in> free_set s \<longleftrightarrow> bit_get (of_nat j) ?bm = 0" if "j < unat ?n" for j
    using that n by (auto simp: free_set_def word_less_nat_alt unat_of_nat32)
  have "run_inv (\<lambda>j. bit_get (of_nat j) ?bm = 0) (unat ?k) (unat ?k) (unat frames) (unat (0 :: u32))"
    using m by (auto simp: run_inv_def)
  note res = pool_search_result [OF ps this, simplified]
  show ?thesis
  proof (cases "fc = frames")
    case False
    then have "\<not> free_run s frames q" for q
      using res free unfolding free_run_def by fastforce
    moreover have "pmm_get_pool frames s = Ret 0 s"
      using False ps by (simp add: pmm_get_pool_def)
    ultimately show ?thesis by auto
  next
    case True
    then obtain e where e: "pe = Some e" "unat e + 1 = unat ps + unat frames" "e < ?n"
      "unat ?k \<le> unat ps" "\<forall>j. unat ps \<le> j \<and> j \<le> unat e \<longrightarrow> bit_get (of_nat j) ?bm = 0"
      using res by auto
    have Suc_e: "Suc (unat e) = unat ps + unat frames" using e(2) by simp
    have "unat e < unat ?n" using e(3) by (simp add: word_less_nat_alt)
    then have r: "free_run s frames (unat ps)" unfolding free_run_def using e(4,5) Suc_e free by auto
    have "pmm_get_pool frames s =
        Ret (IDX_TO_ADDR ps) (fold (\<lambda>i. IDX_SET (of_nat i)) [unat ps ..< unat ps + unat frames] s)"
      using True ps e(1) Suc_e by (simp add: pmm_get_pool_def del: upt_Suc)
    then show ?thesis using mark_run [OF assms r] by (intro disjI2 exI [of _ "unat ps"]) simp
  qed
qed

text \<open>
  C3: for a positive request \<^verbatim>\<open>pmm_get_pool\<close> returns 0 and changes nothing exactly when no run
  of that many free frames lies at or above \<^verbatim>\<open>kernel_end_idx\<close>; otherwise it returns the
  address of such a run, marks exactly its frames used and keeps the counter exact.
\<close>

theorem pmm_get_pool_correct:
  assumes "pmm_inv s" and "0 < frames"
  shows "if \<exists>q. free_run s frames q
    then \<exists>q s'. pmm_get_pool frames s = Ret (IDX_TO_ADDR (of_nat q)) s' \<and> free_run s frames q \<and>
      IDX_TO_ADDR (of_nat q) \<noteq> 0 \<and> pmm_inv s' \<and>
      free_set s' = free_set s - of_nat ` {q ..< q + unat frames}
    else pmm_get_pool frames s = Ret 0 s"
  using pool_outcome [OF assms] by (auto simp: pool_taken_def)

section \<open>Releasing a pool\<close>

lemma free_pool_step_eq: "free_pool_step (ADDR_TO_IDX a) s = pmm_free_frame a s"
  by (simp add: free_pool_step_def pmm_free_frame_def Let_def)

lemma free_pool_step_ok:
  assumes "pmm_inv s" and "j < total_frames s" and "j \<notin> free_set s" and "j \<noteq> 0"
  shows "free_set (free_pool_step j s) = insert j (free_set s)" "pmm_inv (free_pool_step j s)"
    "total_frames (free_pool_step j s) = total_frames s"
  using assms pmm_inv_IDX_UNSET [OF assms(1,2)] by (auto simp: free_pool_step_def free_set_IDX_UNSET)

lemma pmm_free_frame_ok:
  assumes "pmm_inv s" and "ADDR_TO_IDX a < total_frames s" and "ADDR_TO_IDX a \<notin> free_set s" and "ADDR_TO_IDX a \<noteq> 0"
  shows "free_set (pmm_free_frame a s) = insert (ADDR_TO_IDX a) (free_set s)" "pmm_inv (pmm_free_frame a s)"
    "total_frames (pmm_free_frame a s) = total_frames s"
  using free_pool_step_ok [OF assms] by (simp_all add: free_pool_step_eq)

lemma pmm_free_pool_ok:
  assumes "pmm_inv s" and "\<forall>i < n. k + of_nat i < total_frames s \<and> k + of_nat i \<notin> free_set s \<and> k + of_nat i \<noteq> 0" and "n < 2 ^ 32"
  shows "free_set (fold (\<lambda>i. free_pool_step (k + of_nat i)) [0 ..< n] s) = free_set s \<union> (\<lambda>i. k + of_nat i) ` {0 ..< n}"
    "pmm_inv (fold (\<lambda>i. free_pool_step (k + of_nat i)) [0 ..< n] s)"
    "total_frames (fold (\<lambda>i. free_pool_step (k + of_nat i)) [0 ..< n] s) = total_frames s"
  using assms(2,3)
proof (induction n)
  case 0
  { case 1 show ?case by simp }
  { case 2 show ?case using assms(1) by simp }
  { case 3 show ?case by simp }
next
  case (Suc n)
  let ?f = "fold (\<lambda>i. free_pool_step (k + of_nat i)) [0 ..< n] s"
  have ih: "free_set ?f = free_set s \<union> (\<lambda>i. k + of_nat i) ` {0 ..< n}" "pmm_inv ?f" "total_frames ?f = total_frames s"
    if "\<forall>i < Suc n. k + of_nat i < total_frames s \<and> k + of_nat i \<notin> free_set s \<and> k + of_nat i \<noteq> 0" "Suc n < 2 ^ 32"
    using that by (auto intro!: Suc.IH)
  have "(of_nat n :: u32) \<noteq> of_nat i" if "Suc n < 2 ^ 32" "i < n" for i
    using that by (simp add: word_unat_eq_iff unat_of_nat32)
  then have new: "k + of_nat n \<notin> (\<lambda>i. k + of_nat i) ` {0 ..< n}" if "Suc n < 2 ^ 32" using that by fastforce
  have step: "free_set (free_pool_step (k + of_nat n) ?f) = insert (k + of_nat n) (free_set ?f)"
    "pmm_inv (free_pool_step (k + of_nat n) ?f)" "total_frames (free_pool_step (k + of_nat n) ?f) = total_frames ?f"
    if h: "\<forall>i < Suc n. k + of_nat i < total_frames s \<and> k + of_nat i \<notin> free_set s \<and> k + of_nat i \<noteq> 0" "Suc n < 2 ^ 32"
    using free_pool_step_ok [OF ih(2) [OF h], of "k + of_nat n"] ih [OF h] h new by auto
  { case 1 then show ?case using step(1) ih(1) by (auto simp: atLeastLessThanSuc) }
  { case 2 then show ?case using step(2) by simp }
  { case 3 then show ?case using step(3) ih(3) by simp }
qed

section \<open>A small machine\<close>

text \<open>Sixteen frames, of which the first four are reserved.\<close>

definition pmm_demo :: pmm where
  "pmm_demo = \<lparr>total_frames = 16, free_frames = 12,
     pmm_bitmap = (\<lambda>i. if i = 0 then 0xf0 else 0), kernel_end_idx = 3, last_free_idx = 4\<rparr>"

lemma free_set_demo: "free_set pmm_demo = {4, 5, 6, 7, 8, 9, 10, 11, 12, 13, 14, 15}"
proof -
  have "{i :: u32. i < 16} = {0, 1, 2, 3, 4, 5, 6, 7, 8, 9, 10, 11, 12, 13, 14, 15}"
    by (simp add: words_below lessThan_nat_numeral lessThan_Suc insert_commute)
  then have "free_set pmm_demo =
    {i \<in> {0, 1, 2, 3, 4, 5, 6, 7, 8, 9, 10, 11, 12, 13, 14, 15}. bit_get i (pmm_bitmap pmm_demo) = 0}"
    by (auto simp: free_set_def pmm_demo_def)
  also have "\<dots> = {4, 5, 6, 7, 8, 9, 10, 11, 12, 13, 14, 15}"
    by (auto simp: bit_get_def pmm_demo_def)
  finally show ?thesis .
qed

lemma pmm_inv_demo: "pmm_inv pmm_demo"
  by (simp add: pmm_inv_def free_set_demo) (simp add: pmm_demo_def)

theorem pmm_get_frame_correct_witness:
  "pmm_inv pmm_demo \<and> (\<exists>a s'. pmm_get_frame pmm_demo = Ret a s' \<and> a = 0x4000 \<and>
     (\<exists>i \<in> free_set pmm_demo. a = IDX_TO_ADDR i \<and> free_set s' = free_set pmm_demo - {i}))"
proof -
  have "\<exists>s'. pmm_get_frame pmm_demo = Ret 0x4000 s'"
    using pmm_get_frame_two_calls [OF pmm_inv_demo, of 2]
    by (simp add: pmm_get_frame_def pmm_demo_def scan_free.simps bit_get_def IDX_TO_ADDR_def)
  then obtain s' where s': "pmm_get_frame pmm_demo = Ret 0x4000 s'" by blast
  from pmm_get_frame_correct [OF pmm_inv_demo this] s' pmm_inv_demo show ?thesis by blast
qed

theorem pmm_get_frame_total_witness:
  "pmm_inv pmm_demo \<and> (\<exists>a s'. pmm_get_frame pmm_demo = Ret a s')"
proof -
  have "\<exists>i \<in> free_set pmm_demo. kernel_end_idx pmm_demo \<le> i"
    by (simp add: free_set_demo) (simp add: pmm_demo_def)
  with pmm_get_frame_total [OF pmm_inv_demo] pmm_inv_demo show ?thesis by blast
qed

theorem pmm_free_frame_correct_witness:
  "free_set (pmm_free_frame 0x3000 pmm_demo) = insert 3 (free_set pmm_demo) \<and>
   pmm_inv (pmm_free_frame 0x3000 pmm_demo)"
  using pmm_free_frame_correct [OF pmm_inv_demo, of "0x3000"]
  by (simp add: free_set_demo ADDR_TO_IDX_def) (simp add: pmm_demo_def)

theorem pmm_double_free_overcounts_witness:
  "ADDR_TO_IDX 0x5000 \<in> free_set pmm_demo \<and> \<not> pmm_inv (pmm_free_frame 0x5000 pmm_demo)"
  using pmm_double_free_overcounts [OF pmm_inv_demo, of "0x5000"]
  by (simp add: free_set_demo ADDR_TO_IDX_def)

theorem pmm_init_correct_witness:
  "\<exists>s'. pmm_init 0x10000 0 0x3801 (pmm_demo\<lparr>pmm_bitmap := (\<lambda>_. 0)\<rparr>) = Ret () s' \<and> pmm_inv s' \<and>
     unat (kernel_end_idx s') = 3"
  using pmm_init_correct [of "pmm_demo\<lparr>pmm_bitmap := (\<lambda>_. 0)\<rparr>" "0x3801" "0x10000"] by auto

theorem pmm_get_pool_correct_witness:
  "free_run pmm_demo 3 4 \<and>
   (\<exists>q s'. pmm_get_pool 3 pmm_demo = Ret (IDX_TO_ADDR (of_nat q)) s' \<and> free_run pmm_demo 3 q \<and>
      free_set s' = free_set pmm_demo - of_nat ` {q ..< q + 3})"
proof -
  have "free_run pmm_demo 3 4"
    by (simp add: free_run_def free_set_demo atLeastLessThan_nat_numeral) (simp add: pmm_demo_def)
  with pmm_get_pool_correct [OF pmm_inv_demo, of 3] show ?thesis by (auto split: if_splits)
qed

end
