(* ===== verification/Frame_Histories.thy ===== *)
theory Frame_Histories
  imports Transitions Pmm
begin

text \<open>
  The physical memory manager over time. The state is the manager together with the numbers of the frames that its
  clients hold; a client releases only what it holds.
\<close>

definition pool_frames :: "u32 \<Rightarrow> u32 \<Rightarrow> u32 set" where
  "pool_frames a n = (\<lambda>i. ADDR_TO_IDX a + of_nat i) ` {0 ..< unat n}"

inductive frame_step :: "'a pmm_scheme \<times> u32 set \<Rightarrow> 'a pmm_scheme \<times> u32 set \<Rightarrow> bool" where
  get_frame: "pmm_get_frame s = Ret a s' \<Longrightarrow> frame_step (s, F) (s', insert (ADDR_TO_IDX a) F)"
| get_pool: "\<lbrakk>0 < n; pmm_get_pool n s = Ret a s'; a \<noteq> 0\<rbrakk> \<Longrightarrow> frame_step (s, F) (s', F \<union> pool_frames a n)"
| no_pool: "\<lbrakk>0 < n; pmm_get_pool n s = Ret 0 s'\<rbrakk> \<Longrightarrow> frame_step (s, F) (s', F)"
| free_frame: "ADDR_TO_IDX a \<in> F \<Longrightarrow> frame_step (s, F) (pmm_free_frame a s, F - {ADDR_TO_IDX a})"
| free_pool: "pool_frames a n \<subseteq> F \<Longrightarrow> frame_step (s, F) (pmm_free_pool a n s, F - pool_frames a n)"

definition frame_init :: "'a pmm_scheme \<Rightarrow> 'a pmm_scheme \<times> u32 set \<Rightarrow> bool" where
  "frame_init s0 x \<longleftrightarrow> pmm_inv s0 \<and> x = (s0, {})"

fun frame_inv :: "'a pmm_scheme \<Rightarrow> 'a pmm_scheme \<times> u32 set \<Rightarrow> bool" where
  "frame_inv s0 (s, F) \<longleftrightarrow>
     pmm_inv s0 \<and> pmm_inv s \<and> total_frames s = total_frames s0 \<and> F \<inter> free_set s = {} \<and> F \<union> free_set s = free_set s0"

lemma frame_invD:
  assumes "frame_inv s0 (s, F)" and "j \<in> F"
  shows "j < total_frames s" "j \<notin> free_set s" "j \<noteq> 0"
proof -
  have "j \<in> free_set s0" using assms by auto
  then show "j < total_frames s" "j \<noteq> 0" using assms(1) free_set_less [of s0 j] by (auto simp: free_set_def)
  show "j \<notin> free_set s" using assms by auto
qed

lemma pool_frames_run:
  assumes "pmm_inv s" and "free_run s n q" and "0 < n"
  shows "pool_frames (IDX_TO_ADDR (of_nat q)) n = of_nat ` {q ..< q + unat n}"
proof -
  have "q < 2 ^ 20" using assms by (auto simp: free_run_def pmm_inv_def word_less_nat_alt)
  then have "ADDR_TO_IDX (IDX_TO_ADDR (of_nat q)) = of_nat q" by (intro ADDR_TO_IDX_inverse) (simp add: word_less_nat_alt unat_of_nat32)
  moreover have "of_nat ` {q ..< q + unat n} = (\<lambda>i. of_nat (q + i) :: u32) ` {0 ..< unat n}"
    by (metis (no_types) add_0 image_add_atLeastLessThan image_image add.commute)
  ultimately show ?thesis by (simp add: pool_frames_def)
qed

lemma frame_step_inv:
  assumes "frame_inv s0 (s, F)" and "frame_step (s, F) (s', F')"
  shows "frame_inv s0 (s', F')"
  using assms(2)
proof cases
  case (get_frame a)
  obtain i k where i: "i \<in> free_set s" "a = IDX_TO_ADDR i" "s' = (IDX_SET i s)\<lparr>last_free_idx := k\<rparr>"
    using pmm_get_frame_Ret [of s a s'] get_frame assms(1) by auto
  then have "ADDR_TO_IDX a = i" using free_set_less [of s i] ADDR_TO_IDX_inverse assms(1) by simp
  then show ?thesis using i get_frame assms(1) pmm_inv_IDX_SET [of s i] by (auto simp: free_set_IDX_SET)
next
  case (get_pool n a)
  have inv: "pmm_inv s" using assms(1) by simp
  obtain q where q: "a = IDX_TO_ADDR (of_nat q)" "pool_taken n s q s'" using pool_outcome [OF inv, of n] get_pool by auto
  then have "pool_frames a n = of_nat ` {q ..< q + unat n}" using pool_frames_run [OF inv] get_pool by (simp add: pool_taken_def)
  moreover have "of_nat ` {q ..< q + unat n} \<subseteq> free_set s" using q(2) by (auto simp: pool_taken_def free_run_def)
  ultimately show ?thesis using q(2) get_pool assms(1) by (auto simp: pool_taken_def)
next
  case (no_pool n)
  then show ?thesis using pool_outcome [of s n] assms(1) by (auto simp: pool_taken_def)
next
  case (free_frame a)
  note j = frame_invD [OF assms(1) free_frame(3)]
  show ?thesis using pmm_free_frame_ok [OF _ j] free_frame assms(1) by auto
next
  case (free_pool a n)
  have "\<forall>i < unat n. ADDR_TO_IDX a + of_nat i \<in> F" using free_pool by (auto simp: pool_frames_def)
  then have "\<forall>i < unat n. ADDR_TO_IDX a + of_nat i < total_frames s \<and> ADDR_TO_IDX a + of_nat i \<notin> free_set s \<and> ADDR_TO_IDX a + of_nat i \<noteq> 0"
    using frame_invD [OF assms(1)] by blast
  moreover have "unat n < 2 ^ 32" using unat32_bound by simp
  ultimately show ?thesis using pmm_free_pool_ok [of s "unat n" "ADDR_TO_IDX a"]
      free_pool assms(1) by (auto simp: pmm_free_pool_def pool_frames_def)
qed

interpretation frames: guarded_system "frame_init s0" frame_step "frame_inv s0" for s0
proof unfold_locales
  show "frame_inv s0 x" if "frame_init s0 x" for x using that by (auto simp: frame_init_def)
  show "frame_inv s0 y" if "frame_inv s0 x" "frame_step x y" for x y using that frame_step_inv by (cases x, cases y) blast
qed

text \<open>
  C5: No history of calls to the physical memory manager, in whatever order its clients get and release frames and
  pools, hands a frame out twice or loses one: the frames that are held and the frames that are free are disjoint, together
  they are always the frames that were free at the start, and the counter of free frames is exact.
\<close>

theorem frame_histories_safe:
  assumes "pmm_inv s0" and "reach (frame_init s0) frame_step (s, F)"
  shows "F \<inter> free_set s = {} \<and> F \<union> free_set s = free_set s0 \<and> unat (free_frames s) + card F = unat (free_frames s0) \<and>
    (\<forall>a s'. pmm_get_frame s = Ret a s' \<longrightarrow> ADDR_TO_IDX a \<notin> F)"
proof -
  have inv: "pmm_inv s" "F \<inter> free_set s = {}" "F \<union> free_set s = free_set s0" using frames.reach_inv [OF assms(2)] by simp_all
  have "card (free_set s0) = card F + card (free_set s)"
    using inv(2,3) finite_free_set by (metis card_Un_disjoint finite_Un)
  then have c: "unat (free_frames s) + card F = unat (free_frames s0)" using inv(1) assms(1) by (simp add: pmm_inv_def)
  have "ADDR_TO_IDX a \<notin> F" if get: "pmm_get_frame s = Ret a s'" for a s'
  proof -
    obtain i where i: "i \<in> free_set s" "a = IDX_TO_ADDR i" using pmm_get_frame_Ret [OF inv(1) get] by blast
    then have "ADDR_TO_IDX a = i" using free_set_less [OF inv(1)] ADDR_TO_IDX_inverse by simp
    then show ?thesis using i(1) inv(2) by auto
  qed
  with c inv show ?thesis by blast
qed

theorem frame_histories_safe_witness:
  "\<exists>s F. reach (frame_init pmm_demo) frame_step (s, F) \<and> 4 \<in> F \<and> 4 \<notin> free_set s \<and> unat (free_frames s) + card F = 12"
proof -
  obtain s' where g: "pmm_get_frame pmm_demo = Ret 0x4000 s'"
    using pmm_get_frame_two_calls [OF pmm_inv_demo, of 2]
    by (simp add: pmm_get_frame_def pmm_demo_def scan_free.simps bit_get_def IDX_TO_ADDR_def)
  have "reach (frame_init pmm_demo) frame_step (pmm_demo, {})" by (rule reach_start) (simp add: frame_init_def pmm_inv_demo)
  from reach_step [OF this frame_step.get_frame [OF g]] have r: "reach (frame_init pmm_demo) frame_step (s', {4})" by (simp add: ADDR_TO_IDX_def)
  moreover have "free_frames pmm_demo = 12" by (simp add: pmm_demo_def)
  ultimately show ?thesis using frame_histories_safe [OF pmm_inv_demo r] by (intro exI [of _ s'] exI [of _ "{4}"]) simp
qed

end
