(* ===== verification/Memory.thy ===== *)
theory Memory
  imports Pmm
begin

text \<open>
  The machine below the kernel: byte-addressed physical memory with little-endian 32-bit
  accesses, and the two-level address translation of the i386 (4 KiB pages, no 4 MiB pages,
  supervisor accesses that ignore the write bit because \<^verbatim>\<open>bootstrap.s\<close> leaves \<^verbatim>\<open>CR0.WP\<close>
  clear). The translation look-aside buffer is not modelled: every access walks the tables.
\<close>

record mmu = pmm +
  pmem :: "u32 \<Rightarrow> u8"
  cr3 :: u32
  cr2 :: u32
  kern_pd_paddr :: u32
  errno :: u32

section \<open>Physical memory\<close>

definition ld32 :: "(u32 \<Rightarrow> u8) \<Rightarrow> u32 \<Rightarrow> u32" where
  "ld32 m a = ucast (m a) OR push_bit 8 (ucast (m (a + 1))) OR
     push_bit 16 (ucast (m (a + 2))) OR push_bit 24 (ucast (m (a + 3)))"

definition st32 :: "u32 \<Rightarrow> u32 \<Rightarrow> (u32 \<Rightarrow> u8) \<Rightarrow> (u32 \<Rightarrow> u8)" where
  "st32 a v m = m(a := ucast v, a + 1 := ucast (drop_bit 8 v),
     a + 2 := ucast (drop_bit 16 v), a + 3 := ucast (drop_bit 24 v))"

section \<open>Address translation\<close>

abbreviation (input) PG_PRESENT :: u32 where "PG_PRESENT \<equiv> 1"
abbreviation (input) PG_RW :: u32 where "PG_RW \<equiv> 2"
abbreviation (input) PG_USER :: u32 where "PG_USER \<equiv> 4"
abbreviation (input) PG_ALIGN :: u32 where "PG_ALIGN \<equiv> 0xfffff000"

definition pde_addr :: "u32 \<Rightarrow> u32 \<Rightarrow> u32" where
  "pde_addr pd va = (pd AND PG_ALIGN) + 4 * drop_bit 22 va"

definition pte_addr :: "u32 \<Rightarrow> u32 \<Rightarrow> u32" where
  "pte_addr pde va = (pde AND PG_ALIGN) + 4 * (drop_bit 12 va AND 0x3ff)"

definition walk :: "'a mmu_scheme \<Rightarrow> u32 \<Rightarrow> u32 option" where
  "walk s va =
     (let pde = ld32 (pmem s) (pde_addr (cr3 s) va)
      in if pde AND PG_PRESENT = 0 then None
         else let pte = ld32 (pmem s) (pte_addr pde va)
              in if pte AND PG_PRESENT = 0 then None
                 else Some ((pte AND PG_ALIGN) + (va AND 0xfff)))"

definition vld32 :: "u32 \<Rightarrow> 'a mmu_scheme \<Rightarrow> (u32, 'a mmu_scheme) res" where
  "vld32 va s = (case walk s va of None \<Rightarrow> Fault va | Some pa \<Rightarrow> Ret (ld32 (pmem s) pa) s)"

definition vst32 :: "u32 \<Rightarrow> u32 \<Rightarrow> 'a mmu_scheme \<Rightarrow> (unit, 'a mmu_scheme) res" where
  "vst32 va v s =
     (case walk s va of None \<Rightarrow> Fault va | Some pa \<Rightarrow> Ret () (s\<lparr>pmem := st32 pa v (pmem s)\<rparr>))"

definition vld8 :: "u32 \<Rightarrow> 'a mmu_scheme \<Rightarrow> (u8, 'a mmu_scheme) res" where
  "vld8 va s = (case walk s va of None \<Rightarrow> Fault va | Some pa \<Rightarrow> Ret (pmem s pa) s)"

definition vst8 :: "u32 \<Rightarrow> u8 \<Rightarrow> 'a mmu_scheme \<Rightarrow> (unit, 'a mmu_scheme) res" where
  "vst8 va v s =
     (case walk s va of None \<Rightarrow> Fault va | Some pa \<Rightarrow> Ret () (s\<lparr>pmem := (pmem s)(pa := v)\<rparr>))"

section \<open>Lemmas on 32-bit accesses\<close>

definition aligned4 :: "u32 \<Rightarrow> bool" where
  "aligned4 a \<longleftrightarrow> unat a mod 4 = 0"

lemma ucast8_bit: "bit (ucast (x :: u8) :: u32) n \<longleftrightarrow> n < 8 \<and> bit x n"
  by (simp add: bit_ucast_iff) (use bit_imp_le_length [of x n] in auto)

lemma bytes_join:
  "(ucast (ucast v :: u8) OR push_bit 8 (ucast (ucast (drop_bit 8 v) :: u8)) OR
    push_bit 16 (ucast (ucast (drop_bit 16 v) :: u8)) OR
    push_bit 24 (ucast (ucast (drop_bit 24 v) :: u8))) = (v :: u32)"
proof (rule bit_word_eqI)
  fix n assume "n < LENGTH(32)"
  then have n: "n < 32" by simp
  have p: "bit (push_bit k (x :: u32)) n \<longleftrightarrow> k \<le> n \<and> bit x (n - k)" for k x
    using n by (simp add: bit_push_bit_iff)
  have c: "bit (ucast (x :: u32) :: u8) m \<longleftrightarrow> m < 8 \<and> bit x m" for x m
    by (simp add: bit_ucast_iff)
  have d: "bit (drop_bit k v) m \<longleftrightarrow> bit v (k + m)" for k m
    by (simp add: bit_drop_bit_eq)
  consider "n < 8" | "8 \<le> n" "n < 16" | "16 \<le> n" "n < 24" | "24 \<le> n" by linarith
  then show "bit (ucast (ucast v :: u8) OR push_bit 8 (ucast (ucast (drop_bit 8 v) :: u8)) OR
    push_bit 16 (ucast (ucast (drop_bit 16 v) :: u8)) OR
    push_bit 24 (ucast (ucast (drop_bit 24 v) :: u8)) :: u32) n = bit v n"
    by cases (use n in \<open>auto simp: bit_or_iff p ucast8_bit c d\<close>)
qed

lemma aligned4_off:
  assumes "aligned4 a" and "k < 4"
  shows "unat (a + of_nat k) = unat a + k"
proof -
  have "unat a + k < 4294967296"
    using assms unat32_bound [of a] by (auto simp: aligned4_def)
  then show ?thesis using assms(2) by (simp add: unat_word_ariths unat_of_nat)
qed

lemma aligned4_off_eq:
  assumes "aligned4 a" and "aligned4 b" and "k < 4" and "l < 4"
  shows "a + of_nat k = b + of_nat l \<longleftrightarrow> a = b \<and> k = l"
proof
  assume "a + of_nat k = b + of_nat l"
  then have "unat a + k = unat b + l"
    using aligned4_off [OF assms(1,3)] aligned4_off [OF assms(2,4)] by metis
  with assms have "k = l" "unat a = unat b" by (auto simp: aligned4_def) presburger+
  then show "a = b \<and> k = l" by (simp add: word_unat_eq_iff)
qed simp

lemma ld32_st32:
  assumes "aligned4 a" and "aligned4 b"
  shows "ld32 (st32 a v m) b = (if a = b then v else ld32 m b)"
proof -
  have ne: "(a + of_nat k = b + of_nat l) = (a = b \<and> k = l)" if "k < 4" "l < 4" for k l
    using aligned4_off_eq [OF assms that] .
  have self: "(a + of_nat k = a + of_nat l) = (k = l)" if "k < 4" "l < 4" for k l
    using aligned4_off_eq [OF assms(1,1) that] by simp
  note ne' = ne [of 0 0] ne [of 0 1] ne [of 0 2] ne [of 0 3] ne [of 1 0] ne [of 1 1] ne [of 1 2]
    ne [of 1 3] ne [of 2 0] ne [of 2 1] ne [of 2 2] ne [of 2 3] ne [of 3 0] ne [of 3 1]
    ne [of 3 2] ne [of 3 3]
  note self' = self [of 0 1] self [of 0 2] self [of 0 3] self [of 1 2] self [of 1 3] self [of 2 3]
  show ?thesis
  proof (cases "a = b")
    case True
    with self' show ?thesis by (simp add: ld32_def st32_def bytes_join)
  next
    case False
    with ne' show ?thesis by (simp add: ld32_def st32_def fun_upd_def eq_commute)
  qed
qed

section \<open>Page arithmetic\<close>

lemma align_eq_push: "(b :: u32) AND 0xfffff000 = push_bit 12 (drop_bit 12 b)"
proof -
  have m: "(0xfffff000 :: u32) = push_bit 12 (mask 20)"
    by (simp add: mask_eq_exp_minus_1 push_bit_eq_mult)
  show ?thesis
    unfolding m
    by (rule bit_word_eqI) (auto simp: bit_and_iff bit_push_bit_iff bit_drop_bit_eq bit_mask_iff)
qed

lemma unat_align: "unat ((b :: u32) AND 0xfffff000) = unat b div 4096 * 4096"
proof -
  have "unat b div 4096 * 4096 \<le> unat b" by simp
  then have "unat b div 4096 * 4096 < 4294967296" using unat32_bound [of b] by linarith
  then show ?thesis
    by (simp add: align_eq_push push_bit_eq_mult drop_bit_eq_div unat_word_ariths unat_div)
qed

lemma unat_page_off: "unat ((v :: u32) AND 0xfff) = unat v mod 4096"
proof -
  have "(0xfff :: u32) = mask 12" by (simp add: mask_eq_exp_minus_1)
  then have "v AND 0xfff = take_bit 12 v" by (simp add: take_bit_eq_mask)
  then show ?thesis by (simp add: take_bit_eq_mod unat_mod)
qed

lemma unat_table_idx: "unat ((v :: u32) AND 0x3ff) = unat v mod 1024"
proof -
  have "(0x3ff :: u32) = mask 10" by (simp add: mask_eq_exp_minus_1)
  then have "v AND 0x3ff = take_bit 10 v" by (simp add: take_bit_eq_mask)
  then show ?thesis by (simp add: take_bit_eq_mod unat_mod)
qed

lemma unat_drop12: "unat (drop_bit 12 (v :: u32)) = unat v div 4096"
  by (simp add: drop_bit_eq_div unat_div)

lemma unat_drop22: "unat (drop_bit 22 (v :: u32)) = unat v div 4194304"
  by (simp add: drop_bit_eq_div unat_div)

lemmas page_arith = unat_align unat_page_off unat_table_idx unat_drop12 unat_drop22

lemma page_split: "((b :: u32) AND 0xfffff000) + (b AND 0xfff) = b"
proof -
  have "unat b div 4096 * 4096 + unat b mod 4096 = unat b" by simp
  then have "unat ((b AND 0xfffff000) + (b AND 0xfff)) = unat b"
    using unat32_bound [of b] by (subst unat_add_no_wrap) (simp_all add: page_arith)
  then show ?thesis by (simp add: word_unat_eq_iff)
qed

text \<open>An entry of a table: \<open>i\<close> counts 32-bit words from the base of the frame.\<close>

definition entry :: "u32 \<Rightarrow> u32 \<Rightarrow> u32" where
  "entry base i = (base AND PG_ALIGN) + 4 * i"

lemma unat_entry:
  assumes "i < 1024"
  shows "unat (entry base i) = unat base div 4096 * 4096 + 4 * unat i"
proof -
  have i: "unat i < 1024" using assms by (simp add: word_less_nat_alt)
  then have i4: "unat (4 * i) = 4 * unat i" by (simp add: unat_word_ariths)
  have "unat base div 4096 < 1048576" using unat32_bound [of base] by (simp add: less_mult_imp_div_less)
  then have "unat base div 4096 * 4096 + 4 * unat i < 4294967296" using i by linarith
  then show ?thesis unfolding entry_def by (subst unat_add_no_wrap) (simp_all add: page_arith i4)
qed

lemma aligned4_entry: "i < 1024 \<Longrightarrow> aligned4 (entry base i)"
  unfolding aligned4_def by (simp add: unat_entry)

lemma entry_eq_iff:
  assumes "i < 1024" and "j < 1024"
  shows "entry a i = entry b j \<longleftrightarrow> a AND PG_ALIGN = b AND PG_ALIGN \<and> i = j"
proof
  assume "entry a i = entry b j"
  then have *: "unat a div 4096 * 4096 + 4 * unat i = unat b div 4096 * 4096 + 4 * unat j"
    using unat_entry [OF assms(1), of a] unat_entry [OF assms(2), of b] by simp
  have "unat i < 1024" "unat j < 1024" using assms by (auto simp: word_less_nat_alt)
  with * have q: "unat a div 4096 = unat b div 4096" by linarith
  with * have "unat i = unat j" by simp
  with q show "a AND PG_ALIGN = b AND PG_ALIGN \<and> i = j"
    by (simp add: word_unat_eq_iff unat_align)
qed (simp add: entry_def)

lemma ld32_st32_entry:
  assumes "i < 1024" and "j < 1024"
  shows "ld32 (st32 (entry a i) v m) (entry b j) =
     (if a AND PG_ALIGN = b AND PG_ALIGN \<and> i = j then v else ld32 m (entry b j))"
  using assms by (simp add: ld32_st32 aligned4_entry entry_eq_iff)

lemma pd_idx_less: "drop_bit 22 (v :: u32) < 1024"
  using unat32_bound [of v] by (simp add: word_less_nat_alt unat_drop22 less_mult_imp_div_less)

lemma pt_idx_less: "drop_bit 12 (v :: u32) AND 0x3ff < 1024"
  by (simp add: word_less_nat_alt unat_table_idx)

lemma pde_addr_entry: "pde_addr pd va = entry pd (drop_bit 22 va)"
  by (simp add: pde_addr_def entry_def)

lemma pte_addr_entry: "pte_addr pde va = entry pde (drop_bit 12 va AND 0x3ff)"
  by (simp add: pte_addr_def entry_def)

lemmas walk_entry = walk_def pde_addr_entry pte_addr_entry Let_def

end
