(* ===== verification/Paging.thy ===== *)
theory Paging
  imports Memory
begin

text \<open>
  The paging code, \<^verbatim>\<open>kernel/arch/i386/paging.c\<close>. The current page directory and its tables are
  reached through the recursive slot 1023 (\<open>VM_PAGE_DIR\<close>, \<open>VM_PAGE_TABLES\<close>), those of another
  address space through slot 1022 (\<open>VM_EXPAGE_DIR\<close>, \<open>VM_EXPAGE_TABLES\<close>), exactly as the C code
  does: every array access below is a virtual access of the machine model.
\<close>

abbreviation (input) PAGE_SIZE :: u32 where "PAGE_SIZE \<equiv> 4096"
abbreviation (input) VM_USER_STACK :: u32 where "VM_USER_STACK \<equiv> 0xbffff000"
abbreviation (input) VM_USER_END :: u32 where "VM_USER_END \<equiv> 0xc0000000"
abbreviation (input) VM_KERN_START :: u32 where "VM_KERN_START \<equiv> 0xc0000000"
abbreviation (input) VM_KERN_END :: u32 where "VM_KERN_END \<equiv> 0xe0000000"
abbreviation (input) VM_TMP_MAP :: u32 where "VM_TMP_MAP \<equiv> 0xff7fe000"
abbreviation (input) VM_TMP2_MAP :: u32 where "VM_TMP2_MAP \<equiv> 0xff7ff000"
abbreviation (input) VM_EXPAGE_TABLES :: u32 where "VM_EXPAGE_TABLES \<equiv> 0xff800000"
abbreviation (input) VM_EXPAGE_DIR :: u32 where "VM_EXPAGE_DIR \<equiv> 0xffbff000"
abbreviation (input) VM_PAGE_TABLES :: u32 where "VM_PAGE_TABLES \<equiv> 0xffc00000"
abbreviation (input) VM_PAGE_DIR :: u32 where "VM_PAGE_DIR \<equiv> 0xfffff000"
abbreviation (input) PG_KERN_PAGE_FLAG :: u32 where "PG_KERN_PAGE_FLAG \<equiv> PG_PRESENT OR PG_RW"
abbreviation (input) PG_KERN_PAGE_RO_FLAG :: u32 where "PG_KERN_PAGE_RO_FLAG \<equiv> PG_PRESENT"

section \<open>Operations\<close>

definition IS_ENTRY_PRESENT :: "u32 \<Rightarrow> bool" where
  "IS_ENTRY_PRESENT e \<longleftrightarrow> e AND PG_PRESENT \<noteq> 0"

text \<open>
  The macro \<^verbatim>\<open>_IS_ENTRY_PRESENT(paddr)\<close> expands to \<^verbatim>\<open>(paddr) & PG_PRESENT\<close> without outer
  parentheses. In the conditions \<^verbatim>\<open>! _IS_ENTRY_PRESENT(e)\<close> of \<^verbatim>\<open>pg_map\<close> and \<^verbatim>\<open>pg_map_to\<close> the
  operator \<^verbatim>\<open>!\<close> therefore applies to the whole entry: they read \<^verbatim>\<open>(!e) & 1\<close>, which is true only of
  the entry zero.
\<close>

definition not_IS_ENTRY_PRESENT :: "u32 \<Rightarrow> bool" where
  "not_IS_ENTRY_PRESENT e \<longleftrightarrow> (if e = 0 then 1 else 0 :: u32) AND PG_PRESENT \<noteq> 0"

definition CREATE_PD_ENTRY :: "u32 \<Rightarrow> u32" where
  "CREATE_PD_ENTRY paddr = (paddr AND PG_ALIGN) OR PG_PRESENT OR PG_RW"

definition GET_PD_IDX :: "u32 \<Rightarrow> u32" where
  "GET_PD_IDX addr = drop_bit 22 addr"

definition GET_PT_IDX :: "u32 \<Rightarrow> u32" where
  "GET_PT_IDX addr = drop_bit 12 addr"

text \<open>The four window arrays \<open>current_pd\<close>, \<open>current_pts\<close>, \<open>external_pd\<close>, \<open>external_pts\<close>.\<close>

definition current_pd :: "u32 \<Rightarrow> u32" where "current_pd i = VM_PAGE_DIR + 4 * i"
definition current_pts :: "u32 \<Rightarrow> u32" where "current_pts i = VM_PAGE_TABLES + 4 * i"
definition external_pd :: "u32 \<Rightarrow> u32" where "external_pd i = VM_EXPAGE_DIR + 4 * i"
definition external_pts :: "u32 \<Rightarrow> u32" where "external_pts i = VM_EXPAGE_TABLES + 4 * i"

definition set_expd :: "u32 \<Rightarrow> 'a mmu_scheme \<Rightarrow> (u32, 'a mmu_scheme) res" where
  "set_expd pd s =
     bindR (vld32 (current_pd (GET_PD_IDX VM_EXPAGE_DIR)) s) (\<lambda>old s.
     bindR (vst32 (current_pd (GET_PD_IDX VM_EXPAGE_DIR)) (pd OR PG_PRESENT OR PG_RW) s) (\<lambda>_ s.
     Ret old s))"

definition get_page :: "u32 \<Rightarrow> 'a mmu_scheme \<Rightarrow> (u32, 'a mmu_scheme) res" where
  "get_page vaddr s =
     (let vaddr = vaddr AND PG_ALIGN in
      bindR (vld32 (current_pd (GET_PD_IDX vaddr)) s) (\<lambda>pde s.
      if IS_ENTRY_PRESENT pde then
        bindR (vld32 (current_pts (GET_PT_IDX vaddr)) s) (\<lambda>pte s.
        if IS_ENTRY_PRESENT pte then Ret pte s else Ret 0 s)
      else Ret 0 s))"

definition get_expage :: "u32 \<Rightarrow> 'a mmu_scheme \<Rightarrow> (u32, 'a mmu_scheme) res" where
  "get_expage vaddr s =
     (let vaddr = vaddr AND PG_ALIGN in
      bindR (vld32 (external_pd (GET_PD_IDX vaddr)) s) (\<lambda>pde s.
      if IS_ENTRY_PRESENT pde then
        bindR (vld32 (external_pts (GET_PT_IDX vaddr)) s) (\<lambda>pte s.
        if IS_ENTRY_PRESENT pte then Ret pte s else Ret 0 s)
      else Ret 0 s))"

definition clone_kernel_tables :: "u32 \<Rightarrow> 'a mmu_scheme \<Rightarrow> (unit, 'a mmu_scheme) res" where
  "clone_kernel_tables dst_pd_vaddr s =
     for_each [unat (GET_PD_IDX VM_KERN_START) ..< unat (GET_PD_IDX VM_KERN_END)] (\<lambda>i s.
       bindR (vld32 (kern_pd_paddr s + VM_KERN_START + 4 * of_nat i) s) (\<lambda>e s.
       vst32 (dst_pd_vaddr + 4 * of_nat i) e s)) s"

definition pg_switch_pd :: "u32 \<Rightarrow> 'a mmu_scheme \<Rightarrow> 'a mmu_scheme" where
  "pg_switch_pd new s = s\<lparr>cr3 := new\<rparr>"

definition pg_map :: "u32 \<Rightarrow> u32 \<Rightarrow> u32 \<Rightarrow> 'a mmu_scheme \<Rightarrow> (unit, 'a mmu_scheme) res" where
  "pg_map paddr vaddr flags s =
     bindR (vld32 (current_pd (GET_PD_IDX vaddr)) s) (\<lambda>pde s.
     bindR (if not_IS_ENTRY_PRESENT pde then
              bindR (pmm_get_frame s) (\<lambda>frame s.
              vst32 (current_pd (GET_PD_IDX vaddr)) (CREATE_PD_ENTRY frame) s)
            else Ret () s) (\<lambda>_ s.
     vst32 (current_pts (GET_PT_IDX vaddr)) ((paddr AND PG_ALIGN) OR flags) s))"

definition pg_map_to ::
  "u32 \<Rightarrow> u32 \<Rightarrow> u32 \<Rightarrow> u32 \<Rightarrow> 'a mmu_scheme \<Rightarrow> (unit, 'a mmu_scheme) res" where
  "pg_map_to pd paddr vaddr flags s =
     bindR (set_expd pd s) (\<lambda>old_pd s.
     bindR (vld32 (external_pd (GET_PD_IDX vaddr)) s) (\<lambda>pde s.
     bindR (if not_IS_ENTRY_PRESENT pde then
              bindR (pmm_get_frame s) (\<lambda>frame s.
              vst32 (external_pd (GET_PD_IDX vaddr))
                (if flags AND PG_USER \<noteq> 0 then CREATE_PD_ENTRY frame OR PG_USER
                 else CREATE_PD_ENTRY frame) s)
            else Ret () s) (\<lambda>_ s.
     bindR (vst32 (external_pts (GET_PT_IDX vaddr)) ((paddr AND PG_ALIGN) OR flags) s) (\<lambda>_ s.
     bindR (set_expd old_pd s) (\<lambda>_ s. Ret () s)))))"

definition pg_unmap :: "u32 \<Rightarrow> 'a mmu_scheme \<Rightarrow> (u32, 'a mmu_scheme) res" where
  "pg_unmap vaddr s =
     bindR (get_page vaddr s) (\<lambda>paddr s.
     if paddr \<noteq> 0 then
       bindR (vst32 (current_pts (GET_PT_IDX vaddr)) 0 s) (\<lambda>_ s. Ret (paddr OR PG_ALIGN) s)
     else Ret 0 s)"

definition pg_unmap_from :: "u32 \<Rightarrow> u32 \<Rightarrow> 'a mmu_scheme \<Rightarrow> (u32, 'a mmu_scheme) res" where
  "pg_unmap_from pd vaddr s =
     bindR (set_expd pd s) (\<lambda>old_pd s.
     bindR (get_expage vaddr s) (\<lambda>paddr s.
     if paddr \<noteq> 0 then
       bindR (vst32 (external_pts (GET_PT_IDX vaddr)) 0 s) (\<lambda>_ s.
       bindR (set_expd old_pd s) (\<lambda>_ s. Ret (paddr OR PG_ALIGN) s))
     else Ret 0 s))"

definition pg_get_frame_from :: "u32 \<Rightarrow> u32 \<Rightarrow> 'a mmu_scheme \<Rightarrow> (u32, 'a mmu_scheme) res" where
  "pg_get_frame_from pd vaddr s =
     bindR (set_expd pd s) (\<lambda>old_pd s.
     bindR (get_expage vaddr s) (\<lambda>paddr s.
     bindR (set_expd old_pd s) (\<lambda>_ s. Ret paddr s)))"

definition pg_duplicate_page :: "u32 \<Rightarrow> u32 \<Rightarrow> 'a mmu_scheme \<Rightarrow> (u32, 'a mmu_scheme) res" where
  "pg_duplicate_page pd vaddr s =
     bindR (set_expd pd s) (\<lambda>old_pd s.
     bindR (get_expage vaddr s) (\<lambda>old_frame s.
     if old_frame = 0 then bindR (set_expd old_pd s) (\<lambda>_ s. Ret 0 s)
     else
       bindR (pmm_get_frame s) (\<lambda>new_frame s.
       bindR (pg_unmap VM_TMP_MAP s) (\<lambda>old_tmp s.
       bindR (pg_unmap VM_TMP2_MAP s) (\<lambda>old_tmp2 s.
       bindR (pg_map old_frame VM_TMP_MAP PG_KERN_PAGE_FLAG s) (\<lambda>_ s.
       bindR (pg_map new_frame VM_TMP2_MAP PG_KERN_PAGE_FLAG s) (\<lambda>_ s.
       bindR (for_each [0 ..< 4096] (\<lambda>i s.
                bindR (vld8 (VM_TMP_MAP + of_nat i) s) (\<lambda>b s.
                vst8 (VM_TMP2_MAP + of_nat i) b s)) s) (\<lambda>_ s.
       bindR (pg_unmap VM_TMP_MAP s) (\<lambda>_ s.
       bindR (pg_unmap VM_TMP2_MAP s) (\<lambda>_ s.
       bindR (pg_map old_tmp VM_TMP_MAP PG_KERN_PAGE_FLAG s) (\<lambda>_ s.
       bindR (pg_map old_tmp2 VM_TMP2_MAP PG_KERN_PAGE_FLAG s) (\<lambda>_ s.
       bindR (set_expd old_pd s) (\<lambda>_ s. Ret new_frame s)))))))))))))"

definition pg_create_directory :: "u32 \<Rightarrow> 'a mmu_scheme \<Rightarrow> (u32, 'a mmu_scheme) res" where
  "pg_create_directory parent_pd s =
     bindR (pg_unmap VM_TMP_MAP s) (\<lambda>old_tmp s.
     bindR (pmm_get_frame s) (\<lambda>new_pd s.
     bindR (pg_map new_pd VM_TMP_MAP PG_KERN_PAGE_FLAG s) (\<lambda>_ s.
     bindR (for_each [0 ..< 4096] (\<lambda>i s. vst8 (VM_TMP_MAP + of_nat i) 0 s) s) (\<lambda>_ s.
     bindR (vst32 (VM_TMP_MAP + 4 * 1023) ((new_pd AND PG_ALIGN) OR PG_PRESENT OR PG_RW) s) (\<lambda>_ s.
     bindR (clone_kernel_tables VM_TMP_MAP s) (\<lambda>_ s.
     bindR (pg_map old_tmp VM_TMP_MAP PG_KERN_PAGE_FLAG s) (\<lambda>_ s. Ret new_pd s)))))))"

definition pg_destroy_directory :: "u32 \<Rightarrow> 'a mmu_scheme \<Rightarrow> 'a mmu_scheme" where
  "pg_destroy_directory pd s = pmm_free_frame pd s"

text \<open>
  \<^verbatim>\<open>pg_page_fault_handler\<close> hands a fault taken in user mode to the address-space manager,
  which is given as the argument \<open>user\<close> and modelled with the address spaces; a fault taken in
  kernel mode is served here: the page is backed by a fresh frame.
\<close>

definition pg_page_fault_handler ::
  "(u32 \<Rightarrow> u32 \<Rightarrow> 'a mmu_scheme \<Rightarrow> (unit, 'a mmu_scheme) res) \<Rightarrow> u32 \<Rightarrow> 'a mmu_scheme \<Rightarrow>
   (unit, 'a mmu_scheme) res" where
  "pg_page_fault_handler user err_code s =
     (let vaddr = cr2 s in
      if err_code AND PG_USER \<noteq> 0 then
        (let vmm_err = 0;
             vmm_err = (if err_code AND PG_PRESENT = 0 then vmm_err OR 2 else vmm_err);
             vmm_err = (if err_code AND PG_RW \<noteq> 0 then vmm_err OR 8 else vmm_err OR 4)
         in user vaddr vmm_err s)
      else if vaddr < 0x1000 then Panic ''[BUG] NULL address ussage!''
      else if err_code AND PG_PRESENT = 0 then
        bindR (pmm_get_frame s) (\<lambda>frame s. pg_map frame vaddr PG_KERN_PAGE_FLAG s)
      else Panic '''')"

section \<open>The recursive mapping\<close>

text \<open>
  \<open>slot s i\<close> is entry \<open>i\<close> of the current page directory. The invariant of the paging code:
  slot 1023 refers to the directory itself, a directory entry below the two windows is either
  zero or refers to a page table of its own, and directory and tables occupy frames that the
  physical memory manager has handed out.
\<close>

definition slot :: "'a mmu_scheme \<Rightarrow> u32 \<Rightarrow> u32" where
  "slot s i = ld32 (pmem s) (entry (cr3 s) i)"

definition recursive_pd :: "'a mmu_scheme \<Rightarrow> bool" where
  "recursive_pd s \<longleftrightarrow>
     slot s 1023 AND PG_ALIGN = cr3 s AND PG_ALIGN \<and> slot s 1023 AND PG_PRESENT \<noteq> 0"

definition tables_ok :: "'a mmu_scheme \<Rightarrow> bool" where
  "tables_ok s \<longleftrightarrow>
     (\<forall>i < 1022. slot s i \<noteq> 0 \<longrightarrow>
        slot s i AND PG_PRESENT \<noteq> 0 \<and> slot s i AND PG_ALIGN \<noteq> cr3 s AND PG_ALIGN \<and>
        ADDR_TO_IDX (slot s i) \<notin> free_set s) \<and>
     (\<forall>i < 1022. \<forall>j < 1022. slot s i \<noteq> 0 \<longrightarrow> slot s j \<noteq> 0 \<longrightarrow> i \<noteq> j \<longrightarrow>
        slot s i AND PG_ALIGN \<noteq> slot s j AND PG_ALIGN) \<and>
     ADDR_TO_IDX (cr3 s) \<notin> free_set s"

definition pg_inv :: "'a mmu_scheme \<Rightarrow> bool" where
  "pg_inv s \<longleftrightarrow> pmm_inv s \<and> recursive_pd s \<and> tables_ok s"

lemma walk_slot:
  "walk s v =
     (let pde = slot s (drop_bit 22 v) in
      if pde AND PG_PRESENT = 0 then None
      else let pte = ld32 (pmem s) (entry pde (drop_bit 12 v AND 0x3ff)) in
           if pte AND PG_PRESENT = 0 then None else Some ((pte AND PG_ALIGN) + (v AND 0xfff)))"
  by (simp add: walk_entry slot_def)

lemma unat_window:
  fixes b i :: u32
  assumes "unat b + 4 * unat i < 4294967296" and "unat i < 1073741824"
  shows "unat (b + 4 * i) = unat b + 4 * unat i"
proof -
  have "unat (4 * i) = 4 * unat i" using assms(2) by (simp add: unat_word_ariths)
  with assms(1) show ?thesis by (subst unat_add_no_wrap) simp_all
qed

text \<open>Where an address of the window of tables points: division with the constants of the layout.\<close>

lemma div_shift: "0 < m \<Longrightarrow> (c * m + x) div m = c + x div m" for c m x :: nat
  by simp

lemma mod_shift: "x < m \<Longrightarrow> (c * m + x) mod m = x" for c m x :: nat
  by simp

lemma window_arith:
  fixes n :: nat
  assumes "n < 1024"
  shows "(4294963200 + 4 * n) div 4194304 = 1023" "(4294963200 + 4 * n) div 4096 mod 1024 = 1023"
    "(4294963200 + 4 * n) mod 4096 = 4 * n"
proof -
  show "(4294963200 + 4 * n) div 4194304 = 1023" using assms by simp
  have "(4294963200 + 4 * n) div 4096 = 1048575"
    using div_shift [of 4096 1048575 "4 * n"] assms by simp
  then show "(4294963200 + 4 * n) div 4096 mod 1024 = 1023" by simp
  show "(4294963200 + 4 * n) mod 4096 = 4 * n"
    using mod_shift [of "4 * n" 4096 1048575] assms by simp
qed

lemma window_arith2:
  fixes k :: nat
  assumes "k < 1048576"
  shows "(4290772992 + 4 * k) div 4194304 = 1023"
    "(4290772992 + 4 * k) div 4096 mod 1024 = k div 1024"
    "(4290772992 + 4 * k) mod 4096 = 4 * (k mod 1024)"
proof -
  have *: "4290772992 + 4 * k = 4 * (1047552 * 1024 + k)" by simp
  show "(4290772992 + 4 * k) div 4194304 = 1023" using assms by simp
  have q: "k div 1024 < 1024" using assms by (simp add: less_mult_imp_div_less)
  have "(4290772992 + 4 * k) div 4096 = 1047552 + k div 1024"
    unfolding * using div_mult_mult1 [of 4 "1047552 * 1024 + k" 1024]
      div_shift [of 1024 1047552 k] by simp
  then show "(4290772992 + 4 * k) div 4096 mod 1024 = k div 1024"
    using mod_shift [OF q, of 1023] by simp
  have "(4 * (1047552 * 1024 + k)) mod 4096 = 4 * ((1047552 * 1024 + k) mod 1024)"
    using mult_mod_right [of 4 "1047552 * 1024 + k" 1024] by simp
  also have "\<dots> = 4 * (k mod 1024)" by (simp only: mod_mult_self3)
  finally show "(4290772992 + 4 * k) mod 4096 = 4 * (k mod 1024)" unfolding * .
qed

lemma walk_current_pd:
  assumes "recursive_pd s" and "i < 1024"
  shows "walk s (current_pd i) = Some (entry (cr3 s) i)"
proof -
  have i: "unat i < 1024" using assms(2) by (simp add: word_less_nat_alt)
  have u: "unat (current_pd i) = 4294963200 + 4 * unat i"
    unfolding current_pd_def using i by (subst unat_window) simp_all
  have "drop_bit 22 (current_pd i) = 1023" "drop_bit 12 (current_pd i) AND 0x3ff = 1023"
    "current_pd i AND 0xfff = 4 * i"
    using i window_arith(1,2,3) [of "unat i"]
    by (simp_all add: word_unat_eq_iff page_arith u unat_word_ariths)
  moreover have "ld32 (pmem s) (entry (slot s 1023) 1023) = slot s 1023"
    using assms(1) by (simp add: recursive_pd_def slot_def entry_def)
  ultimately show ?thesis
    using assms(1) by (simp add: walk_slot Let_def recursive_pd_def) (simp add: entry_def)
qed

lemma walk_current_pts:
  assumes "recursive_pd s" and "slot s (drop_bit 22 v) AND PG_PRESENT \<noteq> 0"
  shows "walk s (current_pts (drop_bit 12 v)) =
     Some (entry (slot s (drop_bit 22 v)) (drop_bit 12 v AND 0x3ff))"
proof -
  let ?w = "current_pts (drop_bit 12 v)"
  have i: "unat v div 4096 < 1048576" using unat32_bound [of v] by (simp add: less_mult_imp_div_less)
  have u: "unat ?w = 4290772992 + 4 * (unat v div 4096)"
    unfolding current_pts_def using i by (subst unat_window) (simp_all add: unat_drop12)
  have d: "unat v div 4194304 = unat v div 4096 div 1024" by (simp add: div_mult2_eq [symmetric])
  define k where "k = unat v div 4096"
  have k: "k < 1048576" using i by (simp add: k_def)
  have u': "unat ?w = 4290772992 + 4 * k" using u by (simp add: k_def)
  note arith = window_arith2 [OF k]
  have a: "drop_bit 22 ?w = 1023" using arith(1) by (simp add: word_unat_eq_iff unat_drop22 u')
  have "unat (drop_bit 12 ?w AND 0x3ff) = k div 1024"
    using arith(2) by (simp only: unat_table_idx unat_drop12 u')
  then have b: "drop_bit 12 ?w AND 0x3ff = drop_bit 22 v"
    by (simp only: word_unat_eq_iff unat_drop22 d k_def)
  have m: "unat (4 * (drop_bit 12 v AND 0x3ff)) = 4 * (k mod 1024)"
    by (simp add: unat_word_ariths unat_table_idx unat_drop12 k_def)
  have c: "?w AND 0xfff = 4 * (drop_bit 12 v AND 0x3ff)"
    using arith(3) by (simp only: word_unat_eq_iff unat_page_off u' m)
  have e: "ld32 (pmem s) (entry (slot s 1023) i) = slot s i" for i
    using assms(1) by (simp add: recursive_pd_def slot_def entry_def)
  show ?thesis
    using assms unfolding walk_slot a b c Let_def e
    by (simp add: recursive_pd_def) (simp add: entry_def)
qed

lemma vld32_current_pd: "recursive_pd s \<Longrightarrow> i < 1024 \<Longrightarrow> vld32 (current_pd i) s = Ret (slot s i) s"
  by (simp add: vld32_def walk_current_pd slot_def)

lemma vst32_current_pd:
  "recursive_pd s \<Longrightarrow> i < 1024 \<Longrightarrow>
   vst32 (current_pd i) e s = Ret () (s\<lparr>pmem := st32 (entry (cr3 s) i) e (pmem s)\<rparr>)"
  by (simp add: vst32_def walk_current_pd)

lemma vld32_current_pts:
  "recursive_pd s \<Longrightarrow> slot s (drop_bit 22 v) AND PG_PRESENT \<noteq> 0 \<Longrightarrow> vld32 (current_pts (drop_bit 12 v)) s =
   Ret (ld32 (pmem s) (entry (slot s (drop_bit 22 v)) (drop_bit 12 v AND 0x3ff))) s"
  by (simp add: vld32_def walk_current_pts)

lemma vst32_current_pts:
  "recursive_pd s \<Longrightarrow> slot s (drop_bit 22 v) AND PG_PRESENT \<noteq> 0 \<Longrightarrow> vst32 (current_pts (drop_bit 12 v)) e s =
   Ret () (s\<lparr>pmem := st32 (entry (slot s (drop_bit 22 v)) (drop_bit 12 v AND 0x3ff)) e (pmem s)\<rparr>)"
  by (simp add: vst32_def walk_current_pts)

lemmas window_simps = vld32_current_pd vst32_current_pd vld32_current_pts vst32_current_pts
  GET_PD_IDX_def GET_PT_IDX_def pd_idx_less

text \<open>Writing an entry of the table in slot \<open>i\<close>: the directory stays, one page changes.\<close>

definition set_pte :: "u32 \<Rightarrow> u32 \<Rightarrow> 'a mmu_scheme \<Rightarrow> 'a mmu_scheme" where
  "set_pte vaddr e s = s\<lparr>pmem :=
     st32 (entry (slot s (drop_bit 22 vaddr)) (drop_bit 12 vaddr AND 0x3ff)) e (pmem s)\<rparr>"

lemma set_pte_sels [simp]:
  "cr3 (set_pte va e s) = cr3 s" "free_set (set_pte va e s) = free_set s"
  "pmm_inv (set_pte va e s) = pmm_inv s" "total_frames (set_pte va e s) = total_frames s"
  by (simp_all add: set_pte_def free_set_def pmm_inv_def)

lemma slot_set_pte [simp]:
  assumes "tables_ok s" and "drop_bit 22 va < 1022" and "slot s (drop_bit 22 va) \<noteq> 0" and "i < 1024"
  shows "slot (set_pte va e s) i = slot s i"
  using assms
  by (simp add: slot_def set_pte_def ld32_st32_entry pt_idx_less) (auto simp: tables_ok_def slot_def)

lemma pg_inv_set_pte:
  assumes "pg_inv s" and "drop_bit 22 va < 1022" and "slot s (drop_bit 22 va) \<noteq> 0"
  shows "pg_inv (set_pte va e s)"
proof -
  have "slot (set_pte va e s) i = slot s i" if "i < 1024" for i
    using assms that by (intro slot_set_pte) (auto simp: pg_inv_def)
  moreover have "i < 1024" if "i < 1022" for i :: u32 using that by (simp add: word_less_nat_alt)
  ultimately show ?thesis
    using assms(1) by (simp add: pg_inv_def recursive_pd_def tables_ok_def)
qed

lemma same_page: "drop_bit 22 v = drop_bit 22 w \<Longrightarrow>
   drop_bit 12 v AND 0x3ff = drop_bit 12 w AND 0x3ff \<longleftrightarrow> drop_bit 12 v = drop_bit 12 (w :: u32)"
proof -
  assume "drop_bit 22 v = drop_bit 22 w"
  then have "unat v div 4096 div 1024 = unat w div 4096 div 1024"
    by (simp add: word_unat_eq_iff page_arith div_mult2_eq [symmetric])
  moreover have "unat v div 4096 mod 1024 = unat w div 4096 mod 1024 \<Longrightarrow>
    unat v div 4096 div 1024 = unat w div 4096 div 1024 \<Longrightarrow> unat v div 4096 = unat w div 4096"
    by (metis mult_div_mod_eq)
  ultimately show ?thesis by (auto simp: word_unat_eq_iff page_arith)
qed

lemma same_page_slot: "drop_bit 12 v = drop_bit 12 (w :: u32) \<Longrightarrow> drop_bit 22 v = drop_bit 22 w"
proof -
  assume "drop_bit 12 v = drop_bit 12 w"
  then have "unat v div 4096 div 1024 = unat w div 4096 div 1024"
    by (simp add: word_unat_eq_iff page_arith)
  then show ?thesis by (simp add: word_unat_eq_iff page_arith div_mult2_eq [symmetric])
qed

lemma slot_inj:
  assumes "tables_ok s" and "i < 1022" and "j < 1022" and "slot s i \<noteq> 0" and "slot s j \<noteq> 0"
  shows "slot s i AND PG_ALIGN = slot s j AND PG_ALIGN \<longleftrightarrow> i = j"
  using assms unfolding tables_ok_def by blast

lemma walk_set_pte:
  assumes "tables_ok s" and "drop_bit 22 va < 1022" and "slot s (drop_bit 22 va) \<noteq> 0"
    and "drop_bit 22 v < 1022"
  shows "walk (set_pte va e s) v =
    (if drop_bit 12 v = drop_bit 12 va
     then (if e AND PG_PRESENT = 0 then None else Some ((e AND PG_ALIGN) + (v AND 0xfff)))
     else walk s v)"
proof -
  let ?i = "drop_bit 22 v" and ?j = "drop_bit 22 va"
  have sl: "slot (set_pte va e s) ?i = slot s ?i"
    using assms by (intro slot_set_pte) (auto simp: pd_idx_less)
  have ld: "ld32 (pmem (set_pte va e s)) (entry (slot s ?i) (drop_bit 12 v AND 0x3ff)) =
    (if slot s ?j AND PG_ALIGN = slot s ?i AND PG_ALIGN \<and> drop_bit 12 va AND 0x3ff = drop_bit 12 v AND 0x3ff
     then e else ld32 (pmem s) (entry (slot s ?i) (drop_bit 12 v AND 0x3ff)))"
    by (simp add: set_pte_def ld32_st32_entry pt_idx_less)
  show ?thesis
  proof (cases "slot s ?i = 0")
    case True
    then have "?i \<noteq> ?j" using assms(3) by auto
    then have "drop_bit 12 v \<noteq> drop_bit 12 va" using same_page_slot by blast
    with True show ?thesis by (simp add: walk_slot sl)
  next
    case False
    have pr: "slot s ?i AND PG_PRESENT \<noteq> 0" using False assms by (simp add: tables_ok_def)
    have "slot s ?j AND PG_ALIGN = slot s ?i AND PG_ALIGN \<longleftrightarrow> ?j = ?i"
      by (rule slot_inj [OF assms(1,2,4,3) False])
    then have c: "(slot s ?j AND PG_ALIGN = slot s ?i AND PG_ALIGN \<and>
        drop_bit 12 va AND 0x3ff = drop_bit 12 v AND 0x3ff) = (drop_bit 12 v = drop_bit 12 va)"
      using same_page [of v va] same_page_slot [of v va] by metis
    show ?thesis unfolding walk_slot [of "set_pte va e s"] sl Let_def ld c
      using pr by (simp add: walk_slot Let_def)
  qed
qed

lemma pte_flags:
  assumes "flags AND PG_ALIGN = 0"
  shows "((paddr AND PG_ALIGN) OR flags) AND PG_ALIGN = paddr AND PG_ALIGN"
    and "((paddr AND PG_ALIGN) OR flags) AND PG_PRESENT = flags AND (PG_PRESENT :: u32)"
proof -
  show "((paddr AND PG_ALIGN) OR flags) AND PG_ALIGN = paddr AND PG_ALIGN"
    using assms by (simp add: bit.conj_disj_distrib2 and.assoc)
  show "((paddr AND PG_ALIGN) OR flags) AND PG_PRESENT = flags AND (PG_PRESENT :: u32)"
    by (simp add: bit.conj_disj_distrib2 and.assoc)
qed

lemma not_present_zero: "not_IS_ENTRY_PRESENT e \<longleftrightarrow> e = 0"
  by (simp add: not_IS_ENTRY_PRESENT_def)

lemma slot_present: "tables_ok s \<Longrightarrow> i < 1022 \<Longrightarrow> slot s i \<noteq> 0 \<Longrightarrow> slot s i AND PG_PRESENT \<noteq> 0"
  by (simp add: tables_ok_def)

lemma pg_map_existing:
  assumes "pg_inv s" and "drop_bit 22 vaddr < 1022" and "slot s (drop_bit 22 vaddr) \<noteq> 0"
  shows "pg_map paddr vaddr flags s = Ret () (set_pte vaddr ((paddr AND PG_ALIGN) OR flags) s)"
  using assms slot_present [of s "drop_bit 22 vaddr"]
  by (simp add: pg_map_def pg_inv_def window_simps not_present_zero set_pte_def)

lemma align_eq_idx: "a AND PG_ALIGN = b AND PG_ALIGN \<longleftrightarrow> ADDR_TO_IDX a = ADDR_TO_IDX b"
  by (simp add: word_unat_eq_iff unat_align ADDR_TO_IDX_def unat_div)

lemma CREATE_PD_ENTRY_bits:
  "CREATE_PD_ENTRY f AND PG_ALIGN = f AND PG_ALIGN" "CREATE_PD_ENTRY f AND PG_PRESENT \<noteq> 0"
  "CREATE_PD_ENTRY f \<noteq> 0"
proof -
  show "CREATE_PD_ENTRY f AND PG_ALIGN = f AND PG_ALIGN"
    by (simp add: CREATE_PD_ENTRY_def bit.conj_disj_distrib2 and.assoc)
  show p: "CREATE_PD_ENTRY f AND PG_PRESENT \<noteq> 0"
    by (simp add: CREATE_PD_ENTRY_def bit.conj_disj_distrib2 and.assoc)
  then show "CREATE_PD_ENTRY f \<noteq> 0" by auto
qed

text \<open>A directory entry is filled with a frame that was free: the tables stay apart.\<close>

definition add_table :: "u32 \<Rightarrow> u32 \<Rightarrow> 'a mmu_scheme \<Rightarrow> 'a mmu_scheme" where
  "add_table i f s = s\<lparr>pmem := st32 (entry (cr3 s) i) (CREATE_PD_ENTRY f) (pmem s)\<rparr>"

lemma slot_add_table:
  "i < 1024 \<Longrightarrow> j < 1024 \<Longrightarrow>
   slot (add_table i f s) j = (if i = j then CREATE_PD_ENTRY f else slot s j)"
  by (simp add: slot_def add_table_def ld32_st32_entry)

lemma less_1022: "i < 1022 \<Longrightarrow> i < 1024 \<and> i \<noteq> (1023 :: u32)"
  by (auto simp: word_less_nat_alt)

lemma get_frame_mmu:
  assumes "pmm_inv s" and "pmm_get_frame s = Ret f s1"
  shows "pmem s1 = pmem s" "cr3 s1 = cr3 s" "slot s1 = slot s" "pmm_inv s1"
    "ADDR_TO_IDX f \<in> free_set s" "free_set s1 = free_set s - {ADDR_TO_IDX f}"
proof -
  obtain i k where i: "i \<in> free_set s" "f = IDX_TO_ADDR i" "s1 = (IDX_SET i s)\<lparr>last_free_idx := k\<rparr>"
    using pmm_get_frame_Ret [OF assms] by blast
  then have "ADDR_TO_IDX f = i" using free_set_less [OF assms(1)] by (simp add: ADDR_TO_IDX_inverse)
  with i show "pmem s1 = pmem s" "cr3 s1 = cr3 s" "slot s1 = slot s" "pmm_inv s1"
    "ADDR_TO_IDX f \<in> free_set s" "free_set s1 = free_set s - {ADDR_TO_IDX f}"
    using pmm_get_frame_pmm_inv [OF assms]
    by (auto simp: IDX_SET_def slot_def fun_eq_iff free_set_IDX_SET [unfolded IDX_SET_def])
qed

lemma tables_ok_get_frame:
  assumes "pg_inv s" and "pmm_get_frame s = Ret f s1"
  shows "pg_inv s1"
proof -
  have "pmm_inv s" using assms(1) by (simp add: pg_inv_def)
  note g = get_frame_mmu [OF this assms(2)]
  show ?thesis using assms(1) g(3,4)
    unfolding pg_inv_def recursive_pd_def tables_ok_def by (simp add: g)
qed

lemma pg_inv_add_table:
  assumes "pg_inv s" and "pmm_get_frame s = Ret f s1" and "d < 1022" and "slot s d = 0"
  shows "pg_inv (add_table d f s1)"
proof -
  have inv: "pmm_inv s" using assms(1) by (simp add: pg_inv_def)
  note g = get_frame_mmu [OF inv assms(2)]
  let ?t = "add_table d f s1"
  have sl: "slot ?t j = (if d = j then CREATE_PD_ENTRY f else slot s j)" if "j < 1024" for j
    using slot_add_table [of d j f s1] less_1022 [OF assms(3)] that g(3) by simp
  have ba: "slot ?t j AND PG_ALIGN = (if d = j then f else slot s j) AND PG_ALIGN" if "j < 1024" for j
    using sl [OF that] by (simp add: CREATE_PD_ENTRY_bits)
  have ix: "ADDR_TO_IDX (slot ?t j) = ADDR_TO_IDX (if d = j then f else slot s j)" if "j < 1024" for j
    using ba [OF that] by (simp add: align_eq_idx)
  have sels: "cr3 ?t = cr3 s" "free_set ?t = free_set s - {ADDR_TO_IDX f}" "pmm_inv ?t = pmm_inv s1"
    by (simp_all add: add_table_def g pmm_inv_def free_set_def [of "_\<lparr>pmem := _\<rparr>"] free_set_def [symmetric])
  have old: "ADDR_TO_IDX (slot s j) \<noteq> ADDR_TO_IDX f" if "j < 1022" "slot s j \<noteq> 0" for j
    using assms(1) that g(5) unfolding pg_inv_def tables_ok_def by metis
  have root: "ADDR_TO_IDX (cr3 s) \<noteq> ADDR_TO_IDX f" "ADDR_TO_IDX (cr3 s) \<notin> free_set s"
    using assms(1) g(5) unfolding pg_inv_def tables_ok_def by metis+
  have nz: "slot ?t j \<noteq> 0 \<longleftrightarrow> d = j \<or> slot s j \<noteq> 0" if "j < 1024" for j
    using sl [OF that] by (simp add: CREATE_PD_ENTRY_bits)
  have "tables_ok ?t"
    unfolding tables_ok_def sels align_eq_idx
  proof (intro conjI allI impI)
    fix j :: u32 assume j: "j < 1022" "slot ?t j \<noteq> 0"
    note j' = less_1022 [OF j(1), THEN conjunct1]
    show "slot ?t j AND PG_PRESENT \<noteq> 0"
      using j nz [OF j'] sl [OF j'] assms(1) slot_present [of s j]
      by (auto simp: CREATE_PD_ENTRY_bits pg_inv_def)
    show "ADDR_TO_IDX (slot ?t j) \<noteq> ADDR_TO_IDX (cr3 s)"
      using j nz [OF j'] root assms(1) unfolding ix [OF j'] pg_inv_def tables_ok_def align_eq_idx
      by (cases "d = j") auto
    show "ADDR_TO_IDX (slot ?t j) \<notin> free_set s - {ADDR_TO_IDX f}"
      using j nz [OF j'] assms(1) unfolding ix [OF j'] pg_inv_def tables_ok_def
      by (cases "d = j") auto
  next
    fix i j :: u32
    assume i: "i < 1022" "slot ?t i \<noteq> 0" and j: "j < 1022" "slot ?t j \<noteq> 0" and ne: "i \<noteq> j"
    note i' = less_1022 [OF i(1), THEN conjunct1] and j' = less_1022 [OF j(1), THEN conjunct1]
    show "ADDR_TO_IDX (slot ?t i) \<noteq> ADDR_TO_IDX (slot ?t j)"
    proof (cases "d = i \<or> d = j")
      case True
      then show ?thesis using ne i j nz [OF i'] nz [OF j'] old unfolding ix [OF i'] ix [OF j']
        by (metis (full_types))
    next
      case False
      then show ?thesis using slot_inj [of s i j] assms(1) ne i j nz [OF i'] nz [OF j']
        unfolding ix [OF i'] ix [OF j'] by (simp add: pg_inv_def align_eq_idx)
    qed
  next
    show "ADDR_TO_IDX (cr3 s) \<notin> free_set s - {ADDR_TO_IDX f}" using root by simp
  qed
  moreover have "recursive_pd ?t"
    using sl [of 1023] less_1022 [OF assms(3)] assms(1)
    by (simp add: recursive_pd_def sels pg_inv_def)
  ultimately show ?thesis using g(4) by (simp add: pg_inv_def sels)
qed

lemma pg_map_fresh:
  assumes "pg_inv s" and "drop_bit 22 vaddr < 1022" and "slot s (drop_bit 22 vaddr) = 0"
    and "pmm_get_frame s = Ret f s1"
  shows "pg_map paddr vaddr flags s =
    Ret () (set_pte vaddr ((paddr AND PG_ALIGN) OR flags) (add_table (drop_bit 22 vaddr) f s1))"
proof -
  let ?d = "drop_bit 22 vaddr"
  have t: "pg_inv (add_table ?d f s1)" by (rule pg_inv_add_table [OF assms(1,4,2,3)])
  have sl: "slot (add_table ?d f s1) ?d = CREATE_PD_ENTRY f"
    by (simp add: slot_add_table pd_idx_less)
  have r1: "recursive_pd s1" using tables_ok_get_frame [OF assms(1,4)] by (simp add: pg_inv_def)
  have st: "vst32 (current_pd ?d) (CREATE_PD_ENTRY f) s1 = Ret () (add_table ?d f s1)"
    using r1 by (simp add: vst32_current_pd pd_idx_less add_table_def)
  show ?thesis
    using assms t sl st
    by (simp add: pg_map_def pg_inv_def window_simps not_present_zero CREATE_PD_ENTRY_bits)
      (simp add: set_pte_def)
qed

text \<open>
  The translation of an address \<open>v\<close> by a page table entry: none when the entry is not present,
  otherwise the frame of the entry at the offset of \<open>v\<close>.
\<close>

definition by_entry :: "u32 \<Rightarrow> u32 \<Rightarrow> u32 option" where
  "by_entry e v = (if e AND PG_PRESENT = 0 then None else Some ((e AND PG_ALIGN) + (v AND 0xfff)))"

lemma pg_map_old_table:
  assumes "pg_inv s" and "drop_bit 22 vaddr < 1022" and "slot s (drop_bit 22 vaddr) \<noteq> 0"
    and "flags AND PG_ALIGN = 0"
  shows "\<exists>s'. pg_map paddr vaddr flags s = Ret () s' \<and> pg_inv s' \<and> s' = s\<lparr>pmem := pmem s'\<rparr> \<and>
    (\<forall>v. drop_bit 22 v < 1022 \<longrightarrow>
       walk s' v = (if drop_bit 12 v = drop_bit 12 vaddr
                    then if flags AND PG_PRESENT = 0 then None else Some ((paddr AND PG_ALIGN) + (v AND 0xfff))
                    else walk s v))"
proof -
  let ?s' = "set_pte vaddr ((paddr AND PG_ALIGN) OR flags) s"
  have "walk ?s' v = (if drop_bit 12 v = drop_bit 12 vaddr
      then if flags AND PG_PRESENT = 0 then None else Some ((paddr AND PG_ALIGN) + (v AND 0xfff))
      else walk s v)" if "drop_bit 22 v < 1022" for v
    using walk_set_pte [OF _ assms(2,3) that, of "(paddr AND PG_ALIGN) OR flags"] assms(1)
    by (simp add: pg_inv_def pte_flags [OF assms(4)])
  moreover have "?s' = s\<lparr>pmem := pmem ?s'\<rparr>" by (simp add: set_pte_def)
  ultimately show ?thesis
    using pg_map_existing [OF assms(1-3)] pg_inv_set_pte [OF assms(1-3)] by simp
qed

text \<open>
  A new page table is not cleared: the pages of its 4 MiB translate by whatever words the
  frame holds.
\<close>

lemma walk_add_table:
  assumes "pg_inv s" and "d < 1022" and "slot s d = 0" and "pmm_get_frame s = Ret f s1"
    and v: "drop_bit 22 v < 1022"
  shows "walk (add_table d f s1) v =
    (if drop_bit 22 v \<noteq> d then walk s v
     else by_entry (ld32 (pmem s) (entry f (drop_bit 12 v AND 0x3ff))) v)"
proof -
  let ?t = "add_table d f s1"
  have inv: "pmm_inv s" using assms(1) by (simp add: pg_inv_def)
  have d: "d < 1024" using less_1022 [OF assms(2)] by simp
  have sl: "slot ?t j = (if d = j then CREATE_PD_ENTRY f else slot s j)" if "j < 1024" for j
    using that get_frame_mmu(3) [OF inv assms(4)] d by (simp add: slot_add_table)
  have ld: "ld32 (pmem ?t) (entry b i) = ld32 (pmem s) (entry b i)"
    if "ADDR_TO_IDX b \<noteq> ADDR_TO_IDX (cr3 s)" "i < 1024" for b i
    using get_frame_mmu(1,2) [OF inv assms(4)] that d
    by (simp add: add_table_def ld32_st32_entry align_eq_idx)
  have b: "ADDR_TO_IDX f \<noteq> ADDR_TO_IDX (cr3 s)"
    using get_frame_mmu(5) [OF inv assms(4)] assms(1) by (auto simp: pg_inv_def tables_ok_def)
  have e: "entry (CREATE_PD_ENTRY f) i = entry f i" for i by (simp add: entry_def CREATE_PD_ENTRY_bits)
  show ?thesis
  proof (cases "drop_bit 22 v = d")
    case True
    then show ?thesis
      by (simp add: walk_slot [of ?t] sl [OF d] CREATE_PD_ENTRY_bits e ld [OF b pt_idx_less]
          by_entry_def Let_def)
  next
    case False
    have "slot s (drop_bit 22 v) \<noteq> 0 \<Longrightarrow> ADDR_TO_IDX (slot s (drop_bit 22 v)) \<noteq> ADDR_TO_IDX (cr3 s)"
      using assms(1) v by (simp add: pg_inv_def tables_ok_def align_eq_idx)
    with False show ?thesis
      by (cases "slot s (drop_bit 22 v) = 0")
        (auto simp: walk_slot sl [OF pd_idx_less] ld [OF _ pt_idx_less] Let_def)
  qed
qed

lemma pg_map_new_table:
  assumes "pg_inv s" and "drop_bit 22 vaddr < 1022" and "slot s (drop_bit 22 vaddr) = 0"
    and "flags AND PG_ALIGN = 0" and "pmm_get_frame s = Ret f s1"
  shows "\<exists>s'. pg_map paddr vaddr flags s = Ret () s' \<and> pg_inv s' \<and> s' = s1\<lparr>pmem := pmem s'\<rparr> \<and>
    (\<forall>v. drop_bit 22 v < 1022 \<longrightarrow>
       walk s' v =
         (if drop_bit 12 v = drop_bit 12 vaddr
          then if flags AND PG_PRESENT = 0 then None else Some ((paddr AND PG_ALIGN) + (v AND 0xfff))
          else if drop_bit 22 v \<noteq> drop_bit 22 vaddr then walk s v
          else by_entry (ld32 (pmem s) (entry f (drop_bit 12 v AND 0x3ff))) v))"
proof -
  let ?d = "drop_bit 22 vaddr"
  let ?t = "add_table ?d f s1"
  let ?s' = "set_pte vaddr ((paddr AND PG_ALIGN) OR flags) ?t"
  have inv: "pg_inv ?t" by (rule pg_inv_add_table [OF assms(1,5,2,3)])
  have nz: "slot ?t ?d \<noteq> 0" by (simp add: slot_add_table pd_idx_less CREATE_PD_ENTRY_bits)
  have "walk ?s' v = (if drop_bit 12 v = drop_bit 12 vaddr
      then if flags AND PG_PRESENT = 0 then None else Some ((paddr AND PG_ALIGN) + (v AND 0xfff))
      else walk ?t v)" if "drop_bit 22 v < 1022" for v
    using walk_set_pte [OF _ assms(2) nz that, of "(paddr AND PG_ALIGN) OR flags"] inv
    by (simp add: pg_inv_def pte_flags [OF assms(4)])
  moreover have "?s' = s1\<lparr>pmem := pmem ?s'\<rparr>" by (simp add: set_pte_def add_table_def)
  ultimately show ?thesis
    using pg_map_fresh [OF assms(1,2,3,5)] pg_inv_set_pte [OF inv assms(2) nz]
      walk_add_table [OF assms(1,2,3,5)] by simp
qed

lemma pg_map_no_frame:
  assumes "pg_inv s" and "drop_bit 22 vaddr < 1022" and "slot s (drop_bit 22 vaddr) = 0"
  shows "pmm_get_frame s = Panic m \<Longrightarrow> pg_map paddr vaddr flags s = Panic m"
    and "pmm_get_frame s = Timeout \<Longrightarrow> pg_map paddr vaddr flags s = Timeout"
  using assms by (simp_all add: pg_map_def pg_inv_def window_simps not_present_zero)


lemma get_page_eq:
  assumes "pg_inv s" and "drop_bit 22 vaddr < 1022"
  shows "get_page vaddr s = Ret
    (if slot s (drop_bit 22 vaddr) = 0 then 0
     else let pte = ld32 (pmem s) (entry (slot s (drop_bit 22 vaddr)) (drop_bit 12 vaddr AND 0x3ff))
          in if pte AND PG_PRESENT = 0 then 0 else pte) s"
proof -
  have al12: "drop_bit 12 (vaddr AND PG_ALIGN) = drop_bit 12 vaddr"
    by (simp only: word_unat_eq_iff unat_drop12 unat_align nonzero_mult_div_cancel_right)
  note al = al12 same_page_slot [OF al12]
  show ?thesis
    using assms slot_present [of s "drop_bit 22 vaddr"]
    unfolding get_page_def Let_def GET_PD_IDX_def GET_PT_IDX_def al
    by (auto simp: pg_inv_def window_simps IS_ENTRY_PRESENT_def)
qed

lemma OR_align_page: "unat (e OR PG_ALIGN) div 4096 = 1048575"
proof -
  have "(e OR PG_ALIGN) AND PG_ALIGN = (PG_ALIGN :: u32)" by (simp add: bit.conj_disj_distrib2)
  then have "unat (e OR PG_ALIGN) div 4096 * 4096 = 4294963200"
    using unat_align [of "e OR PG_ALIGN"] by simp
  then show ?thesis by linarith
qed

lemma OR_align_ge: "PG_ALIGN \<le> e OR PG_ALIGN"
  using OR_align_page [of e] by (simp add: word_le_nat_alt)

lemma OR_align_idx:
  assumes "pmm_inv s"
  shows "pmm_free_frame (e OR PG_ALIGN) s = s"
proof (rule pmm_free_frame_unused)
  have "unat (total_frames s) < 1048576" using assms by (simp add: pmm_inv_def word_less_nat_alt)
  then show "total_frames s \<le> ADDR_TO_IDX (e OR PG_ALIGN)"
    using OR_align_page [of e] by (simp add: ADDR_TO_IDX_def word_le_nat_alt unat_div)
qed

lemma pg_unmap_run:
  assumes "pg_inv s" and "drop_bit 22 vaddr < 1022"
  shows "if walk s vaddr = None then pg_unmap vaddr s = Ret 0 s
    else slot s (drop_bit 22 vaddr) \<noteq> 0 \<and> (\<exists>e. pg_unmap vaddr s = Ret (e OR PG_ALIGN) (set_pte vaddr 0 s))"
proof -
  let ?i = "drop_bit 22 vaddr" and ?e = "drop_bit 12 vaddr AND 0x3ff"
  let ?pte = "ld32 (pmem s) (entry (slot s ?i) ?e)"
  have wk: "walk s vaddr = (if slot s ?i = 0 \<or> ?pte AND PG_PRESENT = 0 then None
      else Some ((?pte AND PG_ALIGN) + (vaddr AND 0xfff)))"
    using slot_present [of s ?i] assms by (auto simp: walk_slot Let_def pg_inv_def)
  show ?thesis
  proof (cases "walk s vaddr = None")
    case True
    then have "get_page vaddr s = Ret 0 s"
      using wk by (auto simp: get_page_eq [OF assms] Let_def split: if_splits)
    then show ?thesis using True by (simp add: pg_unmap_def)
  next
    case False
    then have nz: "slot s ?i \<noteq> 0" and p: "?pte AND PG_PRESENT \<noteq> 0" using wk by (auto split: if_splits)
    then have gp: "get_page vaddr s = Ret ?pte s" "?pte \<noteq> 0" by (auto simp: get_page_eq [OF assms])
    have "pg_unmap vaddr s = Ret (?pte OR PG_ALIGN) (set_pte vaddr 0 s)"
      using gp assms nz slot_present [of s ?i]
      by (simp add: pg_unmap_def pg_inv_def window_simps) (simp add: set_pte_def)
    then show ?thesis using False nz by auto
  qed
qed

text \<open>
  The result for a mapped page is the entry with all address bits set (\<^verbatim>\<open>paddr | PG_ALIGN\<close>), where
  the comment in \<^verbatim>\<open>paging.h\<close> promises the address of the frame; releasing it with \<open>pmm_free_frame\<close>
  frees nothing.
\<close>

lemma pg_unmap_result:
  assumes "pg_inv s" and "drop_bit 22 vaddr < 1022" and "pg_unmap vaddr s = Ret r s'" and "r \<noteq> 0"
  shows "PG_ALIGN \<le> r \<and> pmm_free_frame r s' = s'"
proof -
  obtain e where e: "r = e OR PG_ALIGN" "s' = set_pte vaddr 0 s"
    using pg_unmap_run [OF assms(1,2)] assms(3,4) by (auto split: if_splits)
  have "pmm_inv s'" using assms(1) e(2) by (simp add: pg_inv_def)
  then show ?thesis using OR_align_ge [of e] OR_align_idx [of s' e] e(1) by simp
qed


section \<open>A concrete machine state\<close>

text \<open>
  Sixteen frames, the first four reserved; the directory in frame 1, one table in frame 2 and,
  in the free frame 4, a stale word that looks like a page table entry.
\<close>

definition mmu_demo :: mmu where
  "mmu_demo = \<lparr>total_frames = 16, free_frames = 12,
     pmm_bitmap = (\<lambda>i. if i = 0 then 0xf0 else 0), kernel_end_idx = 3, last_free_idx = 4,
     pmem = st32 (entry 0x1000 1023) 0x1003 (st32 (entry 0x1000 0) 0x2003
              (st32 (entry 0x2000 6) 0x7003 (st32 (entry 0x4000 7) 0x9003 (\<lambda>_. 0)))),
     cr3 = 0x1000, cr2 = 0, kern_pd_paddr = 0x1000, errno = 0\<rparr>"

lemma demo_pmm: "free_set mmu_demo = free_set pmm_demo" "pmm_inv mmu_demo"
  using pmm_inv_demo by (simp_all add: free_set_def pmm_inv_def mmu_demo_def pmm_demo_def)

lemma ld32_zero [simp]: "ld32 (\<lambda>_. 0) a = 0"
  by (simp add: ld32_def)

lemma demo_slot:
  "i < 1024 \<Longrightarrow> slot mmu_demo i = (if i = 1023 then 0x1003 else if i = 0 then 0x2003 else 0)"
  by (simp add: slot_def mmu_demo_def ld32_st32_entry)

lemma pg_inv_demo: "pg_inv mmu_demo"
proof -
  have "slot mmu_demo i = (if i = 0 then 0x2003 else 0)" if "i < 1022" for i
    using demo_slot [of i] less_1022 [OF that] by simp
  moreover have "cr3 mmu_demo = 0x1000" by (simp add: mmu_demo_def)
  ultimately show ?thesis
    unfolding pg_inv_def recursive_pd_def tables_ok_def
    by (simp add: demo_pmm demo_slot free_set_demo ADDR_TO_IDX_def)
qed

lemma demo_get_frame: "\<exists>s1. pmm_get_frame mmu_demo = Ret 0x4000 s1"
  using pmm_get_frame_two_calls [OF demo_pmm(2), of 2]
  by (simp add: pmm_get_frame_def mmu_demo_def scan_free.simps bit_get_def IDX_TO_ADDR_def)



end
