(* ===== verification/Kmalloc.thy ===== *)
theory Kmalloc
  imports Paging Dll
begin

text \<open>
  The kernel heap, \<^verbatim>\<open>kernel/klib/kmalloc.c\<close> and \<^verbatim>\<open>kernel/klib/kfree.c\<close>. Every chunk starts with a
  header; the headers form a typed store. Five bins hold released chunks of one size each in a
  singly linked list, a sixth holds all other released chunks in a doubly linked list sorted by
  size, and the void chunk is the untouched rest of the heap area.
\<close>

record chunk =
  chunk_size :: u32
  chunk_free :: bool
  prev_free :: bool
  prev_size :: u32
  ch_prev :: ptr
  ch_next :: ptr

record bin =
  stored_size :: u32
  counter :: u32
  bin_first :: ptr
  bin_last :: ptr

text \<open>
  \<open>stale p\<close> is the word that kernel memory holds at \<open>p\<close> as long as no object of the model
  occupies it: a fresh object has these words in the fields that its creator does not set.
\<close>

record kheap = mmu +
  is_initialized :: bool
  bins :: "nat \<Rightarrow> bin"
  void_chunk :: ptr
  chunks :: "ptr \<rightharpoonup> chunk"
  kernel_end :: u32
  stale :: "ptr \<Rightarrow> u32"

abbreviation (input) SIZEBINS :: nat where "SIZEBINS \<equiv> 5"
abbreviation (input) SORTEDBIN_IDX :: nat where "SORTEDBIN_IDX \<equiv> 5"
abbreviation (input) CHUNK_ALIGNMENT :: u32 where "CHUNK_ALIGNMENT \<equiv> 0x10"
abbreviation (input) MINIMAL_CHUNK_SIZE :: u32 where "MINIMAL_CHUNK_SIZE \<equiv> 16"
abbreviation (input) CHUNK_DATA_OFFSET :: u32 where "CHUNK_DATA_OFFSET \<equiv> 8"
abbreviation (input) VM_KMALLOC_END :: u32 where "VM_KMALLOC_END \<equiv> 0xd0000000"

abbreviation (input) get_chunk :: "ptr \<Rightarrow> 'a kheap_scheme \<Rightarrow> (chunk, 'a kheap_scheme) res" where
  "get_chunk p s \<equiv> load chunks p s"

abbreviation (input) set_chunk ::
  "ptr \<Rightarrow> (chunk \<Rightarrow> chunk) \<Rightarrow> 'a kheap_scheme \<Rightarrow> (unit, 'a kheap_scheme) res" where
  "set_chunk p f s \<equiv> modify chunks chunks_update p f s"

definition set_bin :: "nat \<Rightarrow> (bin \<Rightarrow> bin) \<Rightarrow> 'a kheap_scheme \<Rightarrow> 'a kheap_scheme" where
  "set_bin i f s = s\<lparr>bins := (bins s)(i := f (bins s i))\<rparr>"

section \<open>Operations\<close>

definition chunk2mem :: "ptr \<Rightarrow> ptr" where
  "chunk2mem p = p + CHUNK_DATA_OFFSET"

definition mem2chunk :: "ptr \<Rightarrow> ptr" where
  "mem2chunk mem = mem - CHUNK_DATA_OFFSET"

text \<open>The header as memory holds it before \<^verbatim>\<open>_create_chunk\<close> writes its first word.\<close>

definition raw_chunk :: "ptr \<Rightarrow> 'a kheap_scheme \<Rightarrow> chunk" where
  "raw_chunk p s =
     (case chunks s p of
        Some c \<Rightarrow> c
      | None \<Rightarrow> \<lparr>chunk_size = 0, chunk_free = False, prev_free = False,
          prev_size = stale s (p + 4), ch_prev = stale s (p + 8), ch_next = stale s (p + 12)\<rparr>)"

text \<open>The field \<^verbatim>\<open>size\<close> is 30 bits wide.\<close>

definition create_chunk :: "ptr \<Rightarrow> u32 \<Rightarrow> 'a kheap_scheme \<Rightarrow> (ptr, 'a kheap_scheme) res" where
  "create_chunk mem_addr aligned_size s =
     (let size = (if aligned_size < MINIMAL_CHUNK_SIZE then MINIMAL_CHUNK_SIZE else aligned_size)
      in Ret mem_addr (s\<lparr>chunks := (chunks s)(mem_addr \<mapsto> (raw_chunk mem_addr s)
           \<lparr>chunk_size := take_bit 30 size, chunk_free := False, prev_free := False\<rparr>)\<rparr>))"

definition malloc_init_bin :: "nat \<Rightarrow> u32 \<Rightarrow> 'a kheap_scheme \<Rightarrow> 'a kheap_scheme" where
  "malloc_init_bin i stored s =
     set_bin i (\<lambda>_. \<lparr>stored_size = stored, counter = 0, bin_first = NULL, bin_last = NULL\<rparr>) s"

text \<open>
  \<^verbatim>\<open>VM_KMALLOC_START\<close> is the macro \<^verbatim>\<open>kernel_end + 0x1000\<close> without parentheses, so the size
  \<^verbatim>\<open>VM_KMALLOC_END - VM_KMALLOC_START\<close> is \<^verbatim>\<open>VM_KMALLOC_END - kernel_end + 0x1000\<close>.
\<close>

definition malloc_init :: "'a kheap_scheme \<Rightarrow> (unit, 'a kheap_scheme) res" where
  "malloc_init s =
     (let s = fold (\<lambda>i. malloc_init_bin i (32 + of_nat i * CHUNK_ALIGNMENT)) [0 ..< SIZEBINS] s;
          s = malloc_init_bin SORTEDBIN_IDX 0 s
      in bindR (create_chunk (kernel_end s + 0x1000) (VM_KMALLOC_END - kernel_end s + 0x1000) s)
           (\<lambda>c s. let s = s\<lparr>void_chunk := c\<rparr> in
            bindR (set_chunk (void_chunk s) (chunk_free_update (\<lambda>_. True)) s) (\<lambda>_ s.
            Ret () (s\<lparr>is_initialized := True\<rparr>))))"

definition pop_from_sizebin :: "nat \<Rightarrow> 'a kheap_scheme \<Rightarrow> (ptr, 'a kheap_scheme) res" where
  "pop_from_sizebin i s =
     (let chunk = bin_first (bins s i) in
      bindR (if counter (bins s i) > 1 then
               bindR (get_chunk chunk s) (\<lambda>c s. Ret () (set_bin i (bin_first_update (\<lambda>_. ch_next c)) s))
             else Ret () (set_bin i (bin_first_update (\<lambda>_. NULL)) s)) (\<lambda>_ s.
      Ret chunk (set_bin i (counter_update (\<lambda>n. n - 1)) s)))"

definition earse_from_sortedbin :: "ptr \<Rightarrow> 'a kheap_scheme \<Rightarrow> (unit, 'a kheap_scheme) res" where
  "earse_from_sortedbin chunk s =
     bindR (if counter (bins s SORTEDBIN_IDX) = 1 then Ret (NULL, NULL) s
            else bindR (get_chunk chunk s) (\<lambda>c s. Ret (ch_prev c, ch_next c) s))
       (\<lambda>(prev_chunk, next_chunk) s.
     bindR (if prev_chunk = NULL
            then Ret () (set_bin SORTEDBIN_IDX (bin_first_update (\<lambda>_. next_chunk)) s)
            else set_chunk prev_chunk (ch_next_update (\<lambda>_. next_chunk)) s) (\<lambda>_ s.
     bindR (if next_chunk = NULL
            then Ret () (set_bin SORTEDBIN_IDX (bin_last_update (\<lambda>_. prev_chunk)) s)
            else set_chunk next_chunk (ch_prev_update (\<lambda>_. prev_chunk)) s) (\<lambda>_ s.
     Ret () (set_bin SORTEDBIN_IDX (counter_update (\<lambda>n. n - 1)) s))))"

definition find_suitable_bin :: "u32 \<Rightarrow> 'a kheap_scheme \<Rightarrow> nat option" where
  "find_suitable_bin sz s = find (\<lambda>i. stored_size (bins s i) = sz) [0 ..< SIZEBINS]"

definition push_to_sizebin :: "nat \<Rightarrow> ptr \<Rightarrow> 'a kheap_scheme \<Rightarrow> (unit, 'a kheap_scheme) res" where
  "push_to_sizebin i chunk s =
     bindR (set_chunk chunk (ch_next_update (\<lambda>_. bin_first (bins s i))) s) (\<lambda>_ s.
     Ret () (set_bin i (counter_update (\<lambda>n. n + 1)) (set_bin i (bin_first_update (\<lambda>_. chunk)) s)))"

text \<open>
  The search loop at the end of \<^verbatim>\<open>_insert_in_sortedbin\<close>: the first neighbours between which the
  chunk fits, or \<open>NULL\<close> when the end of the list is reached.
\<close>

definition sorted_place :: "u32 \<Rightarrow> ptr \<Rightarrow> 'a kheap_scheme \<Rightarrow> (ptr + ptr, 'a kheap_scheme) res" where
  "sorted_place sz tmp s =
     (if tmp = NULL then Ret (Inl NULL) s
      else bindR (get_chunk tmp s) (\<lambda>t s.
        if ch_next t \<noteq> NULL then
          (if chunk_size t \<le> sz then
             bindR (get_chunk (ch_next t) s) (\<lambda>n s.
             if chunk_size n \<ge> sz then Ret (Inl tmp) s else Ret (Inr (ch_next t)) s)
           else Ret (Inr (ch_next t)) s)
        else Ret (Inl NULL) s))"

definition sorted_link_front :: "ptr \<Rightarrow> ptr \<Rightarrow> 'a kheap_scheme \<Rightarrow> (unit, 'a kheap_scheme) res" where
  "sorted_link_front chunk tmp s =
     (let s = set_bin SORTEDBIN_IDX (bin_first_update (\<lambda>_. chunk)) s in
      bindR (set_chunk chunk (ch_next_update (\<lambda>_. tmp)) s) (\<lambda>_ s.
      bindR (set_chunk chunk (ch_prev_update (\<lambda>_. NULL)) s) (\<lambda>_ s.
      set_chunk tmp (ch_prev_update (\<lambda>_. chunk)) s)))"

definition sorted_link_back :: "ptr \<Rightarrow> ptr \<Rightarrow> 'a kheap_scheme \<Rightarrow> (unit, 'a kheap_scheme) res" where
  "sorted_link_back chunk tmp s =
     (let s = set_bin SORTEDBIN_IDX (bin_last_update (\<lambda>_. chunk)) s in
      bindR (set_chunk chunk (ch_next_update (\<lambda>_. NULL)) s) (\<lambda>_ s.
      bindR (set_chunk chunk (ch_prev_update (\<lambda>_. tmp)) s) (\<lambda>_ s.
      set_chunk tmp (ch_next_update (\<lambda>_. chunk)) s)))"

definition sorted_link_mid :: "ptr \<Rightarrow> ptr \<Rightarrow> 'a kheap_scheme \<Rightarrow> (unit, 'a kheap_scheme) res" where
  "sorted_link_mid chunk tmp s =
     bindR (set_chunk chunk (ch_prev_update (\<lambda>_. tmp)) s) (\<lambda>_ s.
     bindR (get_chunk tmp s) (\<lambda>t s.
     bindR (set_chunk chunk (ch_next_update (\<lambda>_. ch_next t)) s) (\<lambda>_ s.
     bindR (get_chunk tmp s) (\<lambda>t s.
     bindR (set_chunk (ch_next t) (ch_prev_update (\<lambda>_. chunk)) s) (\<lambda>_ s.
     set_chunk tmp (ch_next_update (\<lambda>_. chunk)) s)))))"

definition insert_in_sortedbin :: "ptr \<Rightarrow> 'a kheap_scheme \<Rightarrow> (unit, 'a kheap_scheme) res" where
  "insert_in_sortedbin chunk s =
     (let tmp = bin_first (bins s SORTEDBIN_IDX); n = counter (bins s SORTEDBIN_IDX) in
      bindR (get_chunk chunk s) (\<lambda>c s.
      bindR
       (if n = 0 then
          (let s = set_bin SORTEDBIN_IDX (bin_first_update (\<lambda>_. chunk)) s;
               s = set_bin SORTEDBIN_IDX (bin_last_update (\<lambda>_. chunk)) s in
           bindR (set_chunk chunk (ch_next_update (\<lambda>_. NULL)) s) (\<lambda>_ s.
           set_chunk chunk (ch_prev_update (\<lambda>_. NULL)) s))
        else if n = 1 then
          bindR (get_chunk tmp s) (\<lambda>t s.
          if chunk_size t > chunk_size c then sorted_link_front chunk tmp s
          else sorted_link_back chunk tmp s)
        else
          bindR (get_chunk tmp s) (\<lambda>t s.
          if chunk_size t > chunk_size c then sorted_link_front chunk tmp s
          else
            bindR (get_chunk (bin_last (bins s SORTEDBIN_IDX)) s) (\<lambda>l s.
            if chunk_size l \<le> chunk_size c
            then sorted_link_back chunk (bin_last (bins s SORTEDBIN_IDX)) s
            else
              bindR (chase {} (sorted_place (chunk_size c)) tmp s) (\<lambda>tmp s.
              if tmp = NULL then Ret () s else sorted_link_mid chunk tmp s))))
       (\<lambda>_ s. Ret () (set_bin SORTEDBIN_IDX (counter_update (\<lambda>n. n + 1)) s))))"

definition kfree :: "ptr \<Rightarrow> 'a kheap_scheme \<Rightarrow> (unit, 'a kheap_scheme) res" where
  "kfree ptr s =
     (if ptr = NULL then Ret () s
      else
        (let chunk = mem2chunk ptr in
         if \<not> is_initialized s then Panic ''[ERROR] kfree called without malloc initialization!''
         else
           bindR (get_chunk chunk s) (\<lambda>c s.
           if chunk_free c then Panic ''[BUG] kfree double free prevention''
           else
             bindR (case find_suitable_bin (chunk_size c) s of
                      None \<Rightarrow> insert_in_sortedbin chunk s
                    | Some i \<Rightarrow> push_to_sizebin i chunk s) (\<lambda>_ s.
             let next_chunk = chunk + chunk_size c in
             bindR (if void_chunk s > next_chunk
                    then set_chunk next_chunk (\<lambda>n. n\<lparr>prev_free := True, prev_size := chunk_size c\<rparr>) s
                    else Ret () s) (\<lambda>_ s.
             set_chunk chunk (chunk_free_update (\<lambda>_. True)) s)))))"

definition split_chunk :: "ptr \<Rightarrow> u32 \<Rightarrow> 'a kheap_scheme \<Rightarrow> (ptr, 'a kheap_scheme) res" where
  "split_chunk chunk_to_split new_size s =
     bindR (get_chunk chunk_to_split s) (\<lambda>c s.
     bindR (if chunk_size c - new_size \<ge> MINIMAL_CHUNK_SIZE then
              (let old_size = chunk_size c in
               bindR (create_chunk chunk_to_split new_size s) (\<lambda>_ s.
               bindR (create_chunk (chunk_to_split + new_size) (old_size - new_size) s)
                 (\<lambda>chunk_to_free s. kfree (chunk2mem chunk_to_free) s)))
            else Ret () s) (\<lambda>_ s.
     Ret chunk_to_split s))"

text \<open>The search loop over the sorted bin in \<^verbatim>\<open>_find_free_chunk\<close>: the first chunk that is big enough.\<close>

definition fits :: "u32 \<Rightarrow> ptr \<Rightarrow> 'a kheap_scheme \<Rightarrow> (ptr + ptr, 'a kheap_scheme) res" where
  "fits sought_size tmp s =
     (if tmp = NULL then Ret (Inl NULL) s
      else bindR (get_chunk tmp s) (\<lambda>t s.
        if chunk_size t \<ge> sought_size then Ret (Inl tmp) s else Ret (Inr (ch_next t)) s))"

definition find_free_chunk :: "u32 \<Rightarrow> 'a kheap_scheme \<Rightarrow> (ptr, 'a kheap_scheme) res" where
  "find_free_chunk sought_size s =
     bindR (case find (\<lambda>i. stored_size (bins s i) = sought_size) [0 ..< SIZEBINS] of
              None \<Rightarrow> Ret NULL s
            | Some i \<Rightarrow> if counter (bins s i) > 0 then pop_from_sizebin i s else Ret NULL s) (\<lambda>found s.
     bindR (if found = NULL \<and> counter (bins s SORTEDBIN_IDX) > 0 then
              bindR (chase {} (fits sought_size) (bin_first (bins s SORTEDBIN_IDX)) s) (\<lambda>tmp s.
              if tmp \<noteq> NULL then bindR (earse_from_sortedbin tmp s) (\<lambda>_ s. Ret tmp s) else Ret NULL s)
            else Ret found s) (\<lambda>found s.
     if found \<noteq> NULL then
       bindR (split_chunk found sought_size s) (\<lambda>found s.
       bindR (get_chunk found s) (\<lambda>c s.
       bindR (set_chunk (found + chunk_size c) (\<lambda>a. a\<lparr>prev_free := False, prev_size := 0\<rparr>) s) (\<lambda>_ s.
       bindR (set_chunk found (chunk_free_update (\<lambda>_. False)) s) (\<lambda>_ s.
       Ret found s))))
     else Ret NULL s))"

definition set_void_chunk :: "ptr \<Rightarrow> u32 \<Rightarrow> 'a kheap_scheme \<Rightarrow> (unit, 'a kheap_scheme) res" where
  "set_void_chunk new_addr new_size s =
     bindR (create_chunk new_addr new_size s) (\<lambda>c s.
     set_chunk c (chunk_free_update (\<lambda>_. True)) (s\<lparr>void_chunk := c\<rparr>))"

definition align_request :: "u32 \<Rightarrow> u32" where
  "align_request sz =
     (let aligned_size = (if sz mod CHUNK_ALIGNMENT > 0
                          then (sz - sz mod CHUNK_ALIGNMENT) + CHUNK_ALIGNMENT else sz)
      in if sz + CHUNK_DATA_OFFSET > aligned_size then aligned_size + CHUNK_ALIGNMENT
         else aligned_size)"

definition kmalloc :: "u32 \<Rightarrow> 'a kheap_scheme \<Rightarrow> (ptr, 'a kheap_scheme) res" where
  "kmalloc sz s =
     bindR (if is_initialized s then Ret () s else malloc_init s) (\<lambda>_ s.
     let void_chunk = void_chunk s; aligned_size = align_request sz in
     bindR (find_free_chunk aligned_size s) (\<lambda>new_chunk s.
     bindR (if new_chunk = NULL then
              bindR (get_chunk void_chunk s) (\<lambda>v s.
              if chunk_size v \<ge> aligned_size then
                bindR (create_chunk void_chunk aligned_size s) (\<lambda>new_chunk s.
                bindR (set_void_chunk (void_chunk + aligned_size) (chunk_size v - aligned_size) s)
                  (\<lambda>_ s. Ret new_chunk s))
              else Ret NULL s)
            else Ret new_chunk s) (\<lambda>new_chunk s.
     if new_chunk = NULL then Panic ''[PANIC] kmalloc run out of memory!''
     else Ret (chunk2mem new_chunk) s)))"

section \<open>Layout of the heap\<close>

text \<open>
  Sizes are multiples of 16 that fit the 30-bit field. \<open>tiles sz a xs e\<close>: the chunks \<open>xs\<close>
  cover the addresses from \<open>a\<close> to \<open>e\<close> without gaps and without running over the end of the
  address space; \<open>sz\<close> reads the size of a chunk.
\<close>

definition good_size :: "u32 \<Rightarrow> bool" where
  "good_size n \<longleftrightarrow> unat n mod 16 = 0 \<and> 16 \<le> unat n \<and> unat n < 2 ^ 30"

text \<open>The size of the void chunk need not be a multiple of 16: the end of the kernel image is not aligned.\<close>

definition void_size :: "u32 \<Rightarrow> bool" where
  "void_size n \<longleftrightarrow> 16 \<le> unat n \<and> unat n < 2 ^ 30"

fun tiles :: "(ptr \<rightharpoonup> u32) \<Rightarrow> ptr \<Rightarrow> ptr list \<Rightarrow> ptr \<Rightarrow> bool" where
  "tiles sz a [] e \<longleftrightarrow> a = e"
| "tiles sz a (x # xs) e \<longleftrightarrow>
     x = a \<and> (\<exists>n. sz a = Some n \<and> good_size n \<and> unat a + unat n < 2 ^ 32 \<and> tiles sz (a + n) xs e)"

abbreviation chsize :: "'a kheap_scheme \<Rightarrow> ptr \<rightharpoonup> u32" where
  "chsize s \<equiv> \<lambda>x. map_option chunk_size (chunks s x)"

abbreviation chfree :: "'a kheap_scheme \<Rightarrow> ptr \<rightharpoonup> bool" where
  "chfree s \<equiv> \<lambda>x. map_option chunk_free (chunks s x)"

text \<open>The list of a size bin is linked through \<^verbatim>\<open>next\<close> only.\<close>

fun sll :: "(ptr \<rightharpoonup> chunk) \<Rightarrow> ptr \<Rightarrow> ptr list \<Rightarrow> bool" where
  "sll h p [] \<longleftrightarrow> p = NULL"
| "sll h p (x # xs) \<longleftrightarrow> p = x \<and> x \<noteq> NULL \<and> (\<exists>c. h x = Some c \<and> sll h (ch_next c) xs)"

definition sizebin_ok :: "'a kheap_scheme \<Rightarrow> nat \<Rightarrow> ptr list \<Rightarrow> bool" where
  "sizebin_ok s i xs \<longleftrightarrow>
     stored_size (bins s i) = 32 + of_nat i * 16 \<and> counter (bins s i) = of_nat (length xs) \<and>
     sll (chunks s) (bin_first (bins s i)) xs \<and> (\<forall>x \<in> set xs. chsize s x = Some (32 + of_nat i * 16))"

definition sortedbin_ok :: "'a kheap_scheme \<Rightarrow> ptr list \<Rightarrow> bool" where
  "sortedbin_ok s xs \<longleftrightarrow>
     counter (bins s SORTEDBIN_IDX) = of_nat (length xs) \<and>
     bin_first (bins s SORTEDBIN_IDX) = first_of NULL xs \<and>
     bin_last (bins s SORTEDBIN_IDX) = last_of NULL xs \<and>
     dlist ch_next ch_prev (chunks s) xs \<and> sorted (map (\<lambda>x. unat (the (chsize s x))) xs)"

definition binned :: "(nat \<Rightarrow> ptr list) \<Rightarrow> ptr list \<Rightarrow> ptr list" where
  "binned bs so = concat (map bs [0 ..< SIZEBINS]) @ so"

definition heap_start :: "'a kheap_scheme \<Rightarrow> ptr" where
  "heap_start s = kernel_end s + 0x1000"

definition heap_ok :: "'a kheap_scheme \<Rightarrow> ptr list \<Rightarrow> (nat \<Rightarrow> ptr list) \<Rightarrow> ptr list \<Rightarrow> bool" where
  "heap_ok s cs bs so \<longleftrightarrow>
     is_initialized s \<and> heap_start s \<noteq> NULL \<and>
     tiles (chsize s) (heap_start s) cs (void_chunk s) \<and>
     dom (chunks s) = insert (void_chunk s) (set cs) \<and>
     (\<exists>v. chunks s (void_chunk s) = Some v \<and> chunk_free v \<and> void_size (chunk_size v) \<and>
        unat (void_chunk s) + unat (chunk_size v) < 2 ^ 32) \<and>
     (\<forall>i < SIZEBINS. sizebin_ok s i (bs i)) \<and> sortedbin_ok s so \<and>
     distinct (binned bs so) \<and> set (binned bs so) = {x \<in> set cs. chfree s x = Some True}"

definition heap_inv :: "'a kheap_scheme \<Rightarrow> bool" where
  "heap_inv s \<longleftrightarrow> (\<exists>cs bs so. heap_ok s cs bs so)"

text \<open>
  The client's view: the pointers handed out and not yet released, and the number of bytes
  behind each of them.
\<close>

definition live :: "'a kheap_scheme \<Rightarrow> ptr set" where
  "live s = {p. chfree s (mem2chunk p) = Some False}"

definition usable :: "'a kheap_scheme \<Rightarrow> ptr \<Rightarrow> nat" where
  "usable s p = unat (the (chsize s (mem2chunk p))) - 8"

section \<open>Lemmas on tilings and bins\<close>

interpretation ck: dll_node ch_next ch_prev "\<lambda>a. ch_next_update (\<lambda>_. a)" "\<lambda>a. ch_prev_update (\<lambda>_. a)"
  by unfold_locales simp_all

lemma tiles_append: "tiles sz a (xs @ ys) e \<longleftrightarrow> (\<exists>m. tiles sz a xs m \<and> tiles sz m ys e)"
  by (induction xs arbitrary: a) auto

lemma tiles_cong:
  assumes "\<And>x. x \<in> set xs \<Longrightarrow> sz x = sz' x"
  shows "tiles sz a xs e = tiles sz' a xs e"
  using assms by (induction xs arbitrary: a) auto

lemma tiles_add: "unat a + unat n < 2 ^ 32 \<Longrightarrow> unat (a + n :: u32) = unat a + unat n"
  by (rule unat_add_no_wrap) simp

lemma tiles_le: "tiles sz a xs e \<Longrightarrow> unat a \<le> unat e"
proof (induction xs arbitrary: a)
  case (Cons x xs)
  then obtain n where "unat a + unat n < 2 ^ 32" "unat (a + n) \<le> unat e" by auto
  then show ?case using tiles_add by fastforce
qed simp

lemma tiles_range:
  assumes "tiles sz a xs e" and "x \<in> set xs"
  shows "unat a \<le> unat x \<and> (\<exists>n. sz x = Some n \<and> good_size n \<and> unat x + unat n \<le> unat e)"
  using assms
proof (induction xs arbitrary: a)
  case (Cons y ys)
  then obtain n where n: "y = a" "sz a = Some n" "good_size n" "unat a + unat n < 2 ^ 32" "tiles sz (a + n) ys e"
    by auto
  note ad = tiles_add [OF n(4)]
  have le: "unat (a + n) \<le> unat e" by (rule tiles_le [OF n(5)])
  show ?case
  proof (cases "x = a")
    case True
    then show ?thesis using n le ad by auto
  next
    case False
    then have "x \<in> set ys" using Cons.prems n by auto
    from Cons.IH [OF n(5) this] show ?thesis using ad by auto
  qed
qed simp

lemma tiles_sorted:
  assumes "tiles sz a (xs @ x # ys) e" and "y \<in> set ys"
  shows "unat x + unat (the (sz x)) \<le> unat y"
proof -
  obtain n where "sz x = Some n" "unat x + unat n < 2 ^ 32" "tiles sz (x + n) ys e"
    using assms(1) by (auto simp: tiles_append)
  then show ?thesis using tiles_range [of sz "x + n" ys e y] assms(2) tiles_add by auto
qed

lemma tiles_distinct: "tiles sz a xs e \<Longrightarrow> distinct xs \<and> e \<notin> set xs"
proof (induction xs arbitrary: a)
  case (Cons y ys)
  then obtain n where n: "y = a" "good_size n" "unat a + unat n < 2 ^ 32" "tiles sz (a + n) ys e"
    by auto
  have "y \<noteq> x" if "x \<in> set ys" for x
    using tiles_range [OF n(4) that] tiles_add [OF n(3)] n by (auto simp: good_size_def)
  moreover have "unat a < unat e" using tiles_le [OF n(4)] tiles_add [OF n(3)] n(2) by (simp add: good_size_def)
  ultimately show ?case using Cons.IH [OF n(4)] n(1) by auto
qed simp

lemma tiles_disjoint:
  assumes "tiles sz a xs e" and "x \<in> set xs" and "y \<in> set xs" and "x \<noteq> y"
  shows "unat x + unat (the (sz x)) \<le> unat y \<or> unat y + unat (the (sz y)) \<le> unat x"
proof -
  obtain us vs where xs: "xs = us @ x # vs" using assms(2) by (auto dest: split_list)
  show ?thesis
  proof (cases "y \<in> set vs")
    case True
    then show ?thesis using tiles_sorted assms(1) xs by blast
  next
    case False
    then have "y \<in> set us" using assms xs by auto
    then obtain ws zs where us: "us = ws @ y # zs" by (auto dest: split_list)
    then show ?thesis using tiles_sorted [of sz a ws y "zs @ x # vs" e x] assms(1) xs by simp
  qed
qed

lemma tiles_end:
  assumes "tiles sz a (us @ x # vs) e" and "sz x = Some n"
  shows "tiles sz a us x" and "tiles sz (x + n) vs e" and "x + n = first_of e vs"
    and "good_size n" and "unat x + unat n < 2 ^ 32" and "unat (x + n) = unat x + unat n"
  using assms tiles_add [of x n] by (auto simp: tiles_append) (cases vs; auto)

text \<open>The free list of a size bin.\<close>

lemma sll_cong:
  "(\<And>x. x \<in> set xs \<Longrightarrow> map_option ch_next (h x) = map_option ch_next (h' x)) \<Longrightarrow> sll h p xs = sll h' p xs"
proof (induction xs arbitrary: p)
  case (Cons x xs)
  have hx: "map_option ch_next (h x) = map_option ch_next (h' x)" using Cons.prems by simp
  have "\<And>p. sll h p xs = sll h' p xs" using Cons by simp
  then show ?case using hx by (cases "h x"; cases "h' x") auto
qed simp

lemma sll_upd_other [simp]: "x \<notin> set xs \<Longrightarrow> sll (h(x := v)) p xs = sll h p xs"
  by (rule sll_cong) auto

lemma sll_nonnull: "sll h p xs \<Longrightarrow> 0 \<notin> set xs"
  by (induction xs arbitrary: p) auto

lemma sll_dom: "sll h p xs \<Longrightarrow> x \<in> set xs \<Longrightarrow> \<exists>c. h x = Some c"
  by (induction xs arbitrary: p) auto

lemma distinct_ptrs_length:
  assumes "distinct (xs :: ptr list)" and "0 \<notin> set xs"
  shows "length xs < 2 ^ 32"
proof -
  have "card (insert 0 (set xs)) \<le> card (UNIV :: ptr set)" by (rule card_mono) auto
  moreover have "card (UNIV :: ptr set) = 2 ^ 32" by (simp add: card_word)
  ultimately show ?thesis using assms by (simp add: distinct_card)
qed

section \<open>The sorted bin\<close>

text \<open>Nothing but the chunk headers and the bins differs.\<close>

definition heap_only :: "'a kheap_scheme \<Rightarrow> 'a kheap_scheme \<Rightarrow> bool" where
  "heap_only s s' \<longleftrightarrow> s' = s\<lparr>chunks := chunks s', bins := bins s'\<rparr>"

lemma heap_only_trans: "heap_only s t \<Longrightarrow> heap_only t u \<Longrightarrow> heap_only s u"
proof -
  assume "heap_only s t" and "heap_only t u"
  then have "t = s\<lparr>chunks := chunks t, bins := bins t\<rparr>" "u = t\<lparr>chunks := chunks u, bins := bins u\<rparr>"
    unfolding heap_only_def .
  then have "u = s\<lparr>chunks := chunks t, bins := bins t, chunks := chunks u, bins := bins u\<rparr>" by metis
  then show ?thesis by (simp add: heap_only_def)
qed

lemma heap_only_upd [simp]:
  "heap_only s (s\<lparr>chunks := h, bins := b\<rparr>)" "heap_only s (s\<lparr>bins := b, chunks := h\<rparr>)"
  "heap_only s (s\<lparr>chunks := h\<rparr>)" "heap_only s (s\<lparr>bins := b\<rparr>)" "heap_only s (set_bin i f s)"
  by (simp_all add: heap_only_def set_bin_def)

lemma heap_only_sels:
  assumes "heap_only s s'"
  shows "void_chunk s' = void_chunk s" "is_initialized s' = is_initialized s" "heap_start s' = heap_start s"
    "kernel_end s' = kernel_end s" "mmu.truncate s' = mmu.truncate s" "kheap.more s' = kheap.more s"
proof -
  have e: "s' = s\<lparr>chunks := chunks s', bins := bins s'\<rparr>" using assms by (simp add: heap_only_def)
  show "void_chunk s' = void_chunk s" "is_initialized s' = is_initialized s" "heap_start s' = heap_start s"
    "kernel_end s' = kernel_end s" "mmu.truncate s' = mmu.truncate s" "kheap.more s' = kheap.more s"
    by (subst e, simp add: heap_start_def mmu.truncate_def)+
qed

text \<open>
  What the operations on the sorted bin may change: the links of the chunks in \<open>X\<close> and the
  header of that bin.
\<close>

definition relinked :: "'a kheap_scheme \<Rightarrow> 'a kheap_scheme \<Rightarrow> ptr set \<Rightarrow> bool" where
  "relinked s s' X \<longleftrightarrow>
     heap_only s s' \<and> (\<forall>i. i \<noteq> SORTEDBIN_IDX \<longrightarrow> bins s' i = bins s i) \<and>
     chsize s' = chsize s \<and> chfree s' = chfree s \<and> (\<forall>y. y \<notin> X \<longrightarrow> chunks s' y = chunks s y)"

definition sorted_chain :: "'a kheap_scheme \<Rightarrow> ptr list \<Rightarrow> bool" where
  "sorted_chain s xs \<longleftrightarrow>
     bin_first (bins s SORTEDBIN_IDX) = first_of NULL xs \<and>
     bin_last (bins s SORTEDBIN_IDX) = last_of NULL xs \<and> dlist ch_next ch_prev (chunks s) xs"

lemmas chunk_simps = load_Some modify_Some set_bin_def Let_def

lemma sorted_chain_dom: "sorted_chain s xs \<Longrightarrow> x \<in> set xs \<Longrightarrow> \<exists>c. chunks s x = Some c"
  by (auto simp: sorted_chain_def dlist_def dest: dll_in_dom)

lemma link_front:
  assumes "sorted_chain s (f # xs)" and "chunks s x = Some c" and "x \<noteq> 0" and "x \<notin> set (f # xs)"
  shows "\<exists>s'. sorted_link_front x f s = Ret () s' \<and> relinked s s' (set (x # f # xs)) \<and>
    sorted_chain s' (x # f # xs) \<and> counter (bins s' 5) = counter (bins s 5)"
proof -
  obtain cf where f: "chunks s f = Some cf" using sorted_chain_dom [OF assms(1), of f] by auto
  have ne: "x \<noteq> f" using assms by auto
  let ?h = "(chunks s)(x \<mapsto> c\<lparr>ch_next := f, ch_prev := 0\<rparr>, f \<mapsto> cf\<lparr>ch_prev := x\<rparr>)"
  let ?b = "(bins s)(5 := (bins s 5)\<lparr>bin_first := x\<rparr>)"
  let ?s' = "s\<lparr>bins := ?b, chunks := ?h\<rparr>"
  have run: "sorted_link_front x f s = Ret () ?s'"
    using assms f ne by (simp add: sorted_link_front_def chunk_simps)
  have "dll ch_next ch_prev ((chunks s)(f \<mapsto> cf\<lparr>ch_prev := x\<rparr>, x \<mapsto> c\<lparr>ch_next := f, ch_prev := 0\<rparr>)) 0 (x # f # xs) 0"
    using assms f by (intro ck.prepend_node [where p = 0 and q = 0]) (auto simp: sorted_chain_def dlist_def)
  moreover have "?h = (chunks s)(f \<mapsto> cf\<lparr>ch_prev := x\<rparr>, x \<mapsto> c\<lparr>ch_next := f, ch_prev := 0\<rparr>)"
    using ne by (simp add: fun_upd_twist)
  ultimately have "sorted_chain ?s' (x # f # xs)"
    using assms by (simp add: sorted_chain_def dlist_def)
  moreover have "relinked s ?s' (set (x # f # xs))"
    using assms f ne by (auto simp: relinked_def fun_eq_iff)
  ultimately show ?thesis using run by auto
qed

lemma link_back:
  assumes "sorted_chain s (xs @ [l])" and "chunks s x = Some c" and "x \<noteq> 0" and "x \<notin> set (xs @ [l])"
  shows "\<exists>s'. sorted_link_back x l s = Ret () s' \<and> relinked s s' (set (xs @ [l, x])) \<and>
    sorted_chain s' (xs @ [l, x]) \<and> counter (bins s' 5) = counter (bins s 5)"
proof -
  obtain cl where l: "chunks s l = Some cl" using sorted_chain_dom [OF assms(1), of l] by auto
  have ne: "x \<noteq> l" using assms by auto
  let ?h = "(chunks s)(x \<mapsto> c\<lparr>ch_next := 0, ch_prev := l\<rparr>, l \<mapsto> cl\<lparr>ch_next := x\<rparr>)"
  let ?b = "(bins s)(5 := (bins s 5)\<lparr>bin_last := x\<rparr>)"
  let ?s' = "s\<lparr>bins := ?b, chunks := ?h\<rparr>"
  have run: "sorted_link_back x l s = Ret () ?s'"
    using assms l ne by (simp add: sorted_link_back_def chunk_simps)
  have "dll ch_next ch_prev ((chunks s)(l \<mapsto> cl\<lparr>ch_next := x\<rparr>, x \<mapsto> c\<lparr>ch_next := 0, ch_prev := l\<rparr>)) 0 (xs @ [l, x]) 0"
    using assms l by (intro ck.append_node [where q = 0]) (auto simp: sorted_chain_def dlist_def)
  moreover have "?h = (chunks s)(l \<mapsto> cl\<lparr>ch_next := x\<rparr>, x \<mapsto> c\<lparr>ch_next := 0, ch_prev := l\<rparr>)"
    using ne by (simp add: fun_upd_twist)
  ultimately have "sorted_chain ?s' (xs @ [l, x])"
    using assms ne by (auto simp: sorted_chain_def dlist_def)
  moreover have "relinked s ?s' (set (xs @ [l, x]))"
    using assms l ne by (auto simp: relinked_def fun_eq_iff)
  ultimately show ?thesis using run by auto
qed

lemma link_mid:
  assumes "sorted_chain s (ys @ a # b # zs)" and "chunks s x = Some c" and "x \<noteq> 0"
    and "x \<notin> set (ys @ a # b # zs)"
  shows "\<exists>s'. sorted_link_mid x a s = Ret () s' \<and> relinked s s' (set (ys @ a # x # b # zs)) \<and>
    sorted_chain s' (ys @ a # x # b # zs) \<and> counter (bins s' 5) = counter (bins s 5)"
proof -
  obtain ca cb where a: "chunks s a = Some ca" and b: "chunks s b = Some cb"
    using sorted_chain_dom [OF assms(1), of a] sorted_chain_dom [OF assms(1), of b] by auto
  have ne: "x \<noteq> a" "x \<noteq> b" "a \<noteq> b" using assms by (auto simp: sorted_chain_def dlist_def)
  have nx: "ch_next ca = b"
    using dll_mid(2) [of ch_next ch_prev "chunks s" 0 ys a "b # zs" 0 ca] assms(1) a
    by (simp add: sorted_chain_def dlist_def)
  let ?nx = "c\<lparr>ch_prev := a, ch_next := b\<rparr>"
  let ?h = "(chunks s)(x \<mapsto> ?nx, b \<mapsto> cb\<lparr>ch_prev := x\<rparr>, a \<mapsto> ca\<lparr>ch_next := x\<rparr>)"
  let ?s' = "s\<lparr>chunks := ?h\<rparr>"
  have run: "sorted_link_mid x a s = Ret () ?s'"
    using assms a b ne nx by (simp add: sorted_link_mid_def chunk_simps)
  have "dll ch_next ch_prev ((chunks s)(a \<mapsto> ca\<lparr>ch_next := x\<rparr>, b \<mapsto> cb\<lparr>ch_prev := x\<rparr>, x \<mapsto> ?nx)) 0
      (ys @ a # x # b # zs) 0"
    using assms a b by (intro ck.insert_node) (auto simp: sorted_chain_def dlist_def)
  moreover have "?h = (chunks s)(a \<mapsto> ca\<lparr>ch_next := x\<rparr>, b \<mapsto> cb\<lparr>ch_prev := x\<rparr>, x \<mapsto> ?nx)"
    using ne by (simp add: fun_upd_twist)
  ultimately have "sorted_chain ?s' (ys @ a # x # b # zs)"
    using assms by (auto simp: sorted_chain_def dlist_def)
  moreover have "relinked s ?s' (set (ys @ a # x # b # zs))"
    using assms a b ne by (auto simp: relinked_def fun_eq_iff)
  ultimately show ?thesis using run by auto
qed

abbreviation szn :: "'a kheap_scheme \<Rightarrow> ptr \<Rightarrow> nat" where
  "szn s x \<equiv> unat (the (chsize s x))"

lemma place_found:
  assumes "dll ch_next ch_prev (chunks s) p (x # xs) 0" and "distinct (x # xs)"
    and "set (x # xs) \<inter> V = {}" and "szn s x \<le> unat sz" and "unat sz < szn s (last (x # xs))"
  shows "\<exists>ys a b zs. x # xs = ys @ a # b # zs \<and> szn s a \<le> unat sz \<and> unat sz \<le> szn s b \<and>
    chase V (sorted_place sz) x s = Ret a s"
  using assms
proof (induction xs arbitrary: x V p)
  case Nil
  then show ?case by simp
next
  case (Cons y ys)
  obtain c d where c: "chunks s x = Some c" "ch_next c = y" and d: "chunks s y = Some d"
    using Cons.prems(1) by auto
  have y0: "y \<noteq> 0" "x \<noteq> 0" using Cons.prems(1) by auto
  have cx: "chunk_size c \<le> sz" using Cons.prems(4) c by (simp add: word_le_nat_alt)
  show ?case
  proof (cases "chunk_size d \<ge> sz")
    case True
    then have "sorted_place sz x s = Ret (Inl x) s"
      using c d y0 cx by (simp add: sorted_place_def load_Some)
    then have "chase V (sorted_place sz) x s = Ret x s"
      using Cons.prems(3) by (intro chase_exit) auto
    then show ?thesis using Cons.prems(4) True d
      by (intro exI [of _ "[]"] exI [of _ x] exI [of _ y] exI [of _ ys]) (simp add: word_le_nat_alt)
  next
    case False
    then have "sorted_place sz x s = Ret (Inr y) s"
      using c d y0 cx by (simp add: sorted_place_def load_Some)
    then have step: "chase V (sorted_place sz) x s = chase (insert x V) (sorted_place sz) y s"
      using Cons.prems(3) by (simp add: chase.simps [of V])
    have "\<exists>us a b zs. y # ys = us @ a # b # zs \<and> szn s a \<le> unat sz \<and> unat sz \<le> szn s b \<and>
      chase (insert x V) (sorted_place sz) y s = Ret a s"
      using Cons.prems False d by (intro Cons.IH [where p = x]) (auto simp: word_le_nat_alt)
    then obtain us a b zs where "y # ys = us @ a # b # zs" "szn s a \<le> unat sz" "unat sz \<le> szn s b"
      "chase (insert x V) (sorted_place sz) y s = Ret a s" by blast
    with step show ?thesis by (intro exI [of _ "x # us"] exI [of _ a] exI [of _ b] exI [of _ zs]) simp
  qed
qed

lemma sortedbin_chain:
  "sortedbin_ok s xs \<longleftrightarrow> sorted_chain s xs \<and> counter (bins s 5) = of_nat (length xs) \<and>
     sorted (map (szn s) xs)"
  by (auto simp: sortedbin_ok_def sorted_chain_def)

lemma sorted_chain_length:
  assumes "sorted_chain s xs"
  shows "length xs < 2 ^ 32"
  using assms distinct_ptrs_length [of xs] by (auto simp: sorted_chain_def dlist_def dest: dll_nonnull)

lemma place_cases:
  fixes g :: "ptr \<Rightarrow> u32"
  obtains "xs = []" | f zs where "xs = f # zs" "n < g f"
    | zs l where "xs = zs @ [l]" "g (hd xs) \<le> n" "g l \<le> n"
    | f zs l where "xs = f # zs @ [l]" "g f \<le> n" "n < g l"
proof (cases xs)
  case Nil
  then show ?thesis by (rule that(1))
next
  case (Cons f zs)
  then have "xs = butlast xs @ [last xs]" by simp
  then obtain us l where l: "xs = us @ [l]" by blast
  show ?thesis
  proof (cases "n < g f")
    case True
    then show ?thesis by (rule that(2) [OF Cons])
  next
    case False
    then have f: "g f \<le> n" by simp
    show ?thesis
    proof (cases "g l \<le> n")
      case True
      then show ?thesis using that(3) [OF l] f Cons by simp
    next
      case False
      then have "us \<noteq> []" using f l Cons by auto
      then obtain ws where "xs = f # ws @ [l]" using l Cons by (cases us) auto
      then show ?thesis using that(4) f False by simp
    qed
  qed
qed

text \<open>The new place of the chunk in the list, case by case as the C code distinguishes them.\<close>

lemma insert_place:
  assumes ok: "sortedbin_ok s xs" and x: "chunks s x = Some c" "x \<noteq> 0" "x \<notin> set xs"
  shows "\<exists>ys s'. insert_in_sortedbin x s = Ret () (set_bin 5 (counter_update (\<lambda>n. n + 1)) s') \<and>
    relinked s s' (set ys) \<and> sorted_chain s' ys \<and> counter (bins s' 5) = counter (bins s 5) \<and>
    (\<exists>us vs. xs = us @ vs \<and> ys = us @ x # vs) \<and> sorted (map (szn s) ys)"
proof -
  have ch: "sorted_chain s xs" and cnt: "counter (bins s 5) = of_nat (length xs)"
    and so: "sorted (map (szn s) xs)" using ok by (auto simp: sortedbin_chain)
  have len: "length xs < 2 ^ 32" using sorted_chain_length [OF ch] .
  have first: "bin_first (bins s 5) = first_of 0 xs" and last: "bin_last (bins s 5) = last_of 0 xs"
    using ch by (auto simp: sorted_chain_def)
  have c0: "counter (bins s 5) = 0 \<longleftrightarrow> xs = []" using len cnt of_nat32_eq [of "length xs" 0] by simp
  have c1: "counter (bins s 5) = 1 \<longleftrightarrow> length xs = 1" using len cnt of_nat32_eq [of "length xs" 1] by simp
  have szx: "szn s x = unat (chunk_size c)" using x by simp
  consider "xs = []" | f zs where "xs = f # zs" "chunk_size c < the (chsize s f)"
    | zs l where "xs = zs @ [l]" "the (chsize s (hd xs)) \<le> chunk_size c" "the (chsize s l) \<le> chunk_size c"
    | f zs l where "xs = f # zs @ [l]" "the (chsize s f) \<le> chunk_size c" "chunk_size c < the (chsize s l)"
    by (rule place_cases)
  then show ?thesis
  proof cases
    case 1
    let ?s' = "s\<lparr>bins := (bins s)(5 := (bins s 5)\<lparr>bin_first := x, bin_last := x\<rparr>),
      chunks := (chunks s)(x \<mapsto> c\<lparr>ch_next := 0, ch_prev := 0\<rparr>)\<rparr>"
    have "insert_in_sortedbin x s = Ret () (set_bin 5 (counter_update (\<lambda>n. n + 1)) ?s')"
      using c0 1 x by (simp add: insert_in_sortedbin_def chunk_simps)
    moreover have "relinked s ?s' {x}" using x by (auto simp: relinked_def fun_eq_iff)
    moreover have "sorted_chain ?s' [x]" using x by (simp add: sorted_chain_def dlist_def)
    ultimately show ?thesis using 1 by (intro exI [of _ "[x]"] exI [of _ ?s']) simp
  next
    case 2
    obtain cf where f: "chunks s f = Some cf" using sorted_chain_dom [OF ch, of f] 2 by auto
    obtain s' where s': "sorted_link_front x f s = Ret () s'" "relinked s s' (set (x # f # zs))"
      "sorted_chain s' (x # f # zs)" "counter (bins s' 5) = counter (bins s 5)"
      using link_front [of s f zs x c] ch x 2 by auto
    have "insert_in_sortedbin x s = Ret () (set_bin 5 (counter_update (\<lambda>n. n + 1)) s')"
      using c0 2 x f s' first by (simp add: insert_in_sortedbin_def chunk_simps)
    moreover have "sorted (map (szn s) (x # f # zs))"
      using so 2 f szx by (auto simp: word_less_nat_alt)
    ultimately show ?thesis using 2 s' by (intro exI [of _ "x # f # zs"] exI [of _ s']) auto
  next
    case 3
    obtain cl where l: "chunks s l = Some cl" using sorted_chain_dom [OF ch, of l] 3 by auto
    have "hd xs \<in> set xs" using 3 by (intro hd_in_set) simp
    then obtain cf where f: "chunks s (hd xs) = Some cf" using sorted_chain_dom [OF ch] by blast
    have hd: "first_of 0 xs = hd xs" using 3 by (intro first_of_hd) simp
    obtain s' where s': "sorted_link_back x l s = Ret () s'" "relinked s s' (set (zs @ [l, x]))"
      "sorted_chain s' (zs @ [l, x])" "counter (bins s' 5) = counter (bins s 5)"
      using link_back [of s zs l x c] ch x 3 by auto
    define g where "g = hd xs"
    have one: "length xs = 1 \<Longrightarrow> g = l" using 3 by (cases zs) (auto simp: g_def)
    have g: "bin_first (bins s 5) = g" "bin_last (bins s 5) = l" "chunks s g = Some cf"
      "chunk_size cf \<le> chunk_size c" "chunk_size cl \<le> chunk_size c" "counter (bins s 5) \<noteq> 0"
      using 3 first hd f last l c0 by (simp_all add: g_def)
    have "insert_in_sortedbin x s = Ret () (set_bin 5 (counter_update (\<lambda>n. n + 1)) s')"
    proof (cases "length xs = 1")
      case True
      then show ?thesis using c1 x l s'(1) g one by (auto simp: insert_in_sortedbin_def chunk_simps)
    next
      case False
      then show ?thesis using c1 x l s'(1) g by (auto simp: insert_in_sortedbin_def chunk_simps)
    qed
    moreover have "sorted (map (szn s) (zs @ [l, x]))"
      using so 3 l szx by (auto simp: sorted_append word_le_nat_alt)
    moreover have "\<exists>us vs. xs = us @ vs \<and> zs @ [l, x] = us @ x # vs"
      using 3 by (intro exI [of _ xs] exI [of _ "[]"]) simp
    ultimately show ?thesis using s' by (intro exI [of _ "zs @ [l, x]"] exI [of _ s']) auto
  next
    case 4
    obtain cf where f: "chunks s f = Some cf" using sorted_chain_dom [OF ch, of f] 4 by auto
    obtain cl where l: "chunks s l = Some cl" using sorted_chain_dom [OF ch, of l] 4 by auto
    have "\<exists>us a b vs. f # zs @ [l] = us @ a # b # vs \<and> szn s a \<le> unat (chunk_size c) \<and>
      unat (chunk_size c) \<le> szn s b \<and> chase {} (sorted_place (chunk_size c)) f s = Ret a s"
      using ch 4 f l
      by (intro place_found [where p = 0]) (auto simp: sorted_chain_def dlist_def word_less_nat_alt word_le_nat_alt)
    then obtain us a b vs where p: "f # zs @ [l] = us @ a # b # vs" "szn s a \<le> szn s x"
      "szn s x \<le> szn s b" "chase {} (sorted_place (chunk_size c)) f s = Ret a s"
      using szx by auto
    have a0: "a \<noteq> 0" using ch p(1) 4 by (auto simp: sorted_chain_def dlist_def dll_append)
    obtain s' where s': "sorted_link_mid x a s = Ret () s'" "relinked s s' (set (us @ a # x # b # vs))"
      "sorted_chain s' (us @ a # x # b # vs)" "counter (bins s' 5) = counter (bins s 5)"
      using link_mid [of s us a b vs x c] ch x 4 p by auto
    have "insert_in_sortedbin x s = Ret () (set_bin 5 (counter_update (\<lambda>n. n + 1)) s')"
      using c0 c1 4 x f l s' first last p(4) a0
      by (auto simp: insert_in_sortedbin_def chunk_simps)
    moreover have "sorted (map (szn s) (us @ a # x # b # vs))"
      using so 4 p by (simp add: sorted_append) (force intro: order_trans)
    moreover have "\<exists>ws ts. xs = ws @ ts \<and> us @ a # x # b # vs = ws @ x # ts"
      using 4 p by (intro exI [of _ "us @ [a]"] exI [of _ "b # vs"]) simp
    ultimately show ?thesis using s' by (intro exI [of _ "us @ a # x # b # vs"] exI [of _ s']) auto
  qed
qed

section \<open>Releasing a chunk\<close>

definition links :: "chunk \<Rightarrow> u32 \<times> ptr \<times> ptr" where
  "links c = (chunk_size c, ch_prev c, ch_next c)"

lemma links_cong:
  assumes "\<And>y. map_option links (h y) = map_option links (h' y)"
  shows "(\<lambda>y. map_option chunk_size (h y)) = (\<lambda>y. map_option chunk_size (h' y))"
    and "map_option ch_next (h y) = map_option ch_next (h' y)"
    and "map_option (\<lambda>c. (ch_next c, ch_prev c)) (h y) = map_option (\<lambda>c. (ch_next c, ch_prev c)) (h' y)"
    and "dom h = dom h'"
proof -
  show "(\<lambda>y. map_option chunk_size (h y)) = (\<lambda>y. map_option chunk_size (h' y))"
  proof
    fix y show "map_option chunk_size (h y) = map_option chunk_size (h' y)"
      using assms [of y] by (cases "h y"; cases "h' y") (auto simp: links_def)
  qed
  show "map_option ch_next (h y) = map_option ch_next (h' y)"
    and "map_option (\<lambda>c. (ch_next c, ch_prev c)) (h y) = map_option (\<lambda>c. (ch_next c, ch_prev c)) (h' y)"
    using assms [of y] by (cases "h y"; cases "h' y"; auto simp: links_def)+
  show "dom h = dom h'"
  proof (rule set_eqI)
    fix y show "y \<in> dom h \<longleftrightarrow> y \<in> dom h'" using assms [of y] by (cases "h y"; cases "h' y") auto
  qed
qed

lemma chsize_dom:
  assumes "(\<lambda>y. map_option chunk_size (h y)) = (\<lambda>y. map_option chunk_size (h' y))"
  shows "dom h = dom h'"
proof (rule set_eqI)
  fix y show "y \<in> dom h \<longleftrightarrow> y \<in> dom h'"
    using fun_cong [OF assms, of y] by (cases "h y"; cases "h' y") auto
qed

lemma sizebin_ok_cong:
  assumes "bins s' i = bins s i" and "chsize s' = chsize s"
    and "\<And>x. x \<in> set xs \<Longrightarrow> map_option ch_next (chunks s' x) = map_option ch_next (chunks s x)"
  shows "sizebin_ok s' i xs = sizebin_ok s i xs"
  using assms(1) assms(2) [THEN fun_cong] sll_cong [of xs "chunks s'" "chunks s"] assms(3)
  by (simp add: sizebin_ok_def)

lemma sorted_chain_cong:
  assumes "bins s' 5 = bins s 5"
    and "\<And>x. x \<in> set xs \<Longrightarrow> map_option (\<lambda>c. (ch_next c, ch_prev c)) (chunks s' x) =
      map_option (\<lambda>c. (ch_next c, ch_prev c)) (chunks s x)"
  shows "sorted_chain s' xs = sorted_chain s xs"
  using assms dll_cong [of xs ch_next ch_prev "chunks s'" "chunks s" 0 0]
  by (simp add: sorted_chain_def dlist_def)

lemma sortedbin_ok_cong:
  assumes "bins s' 5 = bins s 5" and "chsize s' = chsize s"
    and "\<And>x. x \<in> set xs \<Longrightarrow> map_option (\<lambda>c. (ch_next c, ch_prev c)) (chunks s' x) =
      map_option (\<lambda>c. (ch_next c, ch_prev c)) (chunks s x)"
  shows "sortedbin_ok s' xs = sortedbin_ok s xs"
  unfolding sortedbin_chain using assms(1,2) sorted_chain_cong [OF assms(1,3)] by (simp add: fun_eq_iff)

text \<open>The end of \<^verbatim>\<open>kfree\<close>: the neighbour learns that its predecessor is free, the chunk is marked.\<close>

definition mark_free :: "ptr \<Rightarrow> u32 \<Rightarrow> 'a kheap_scheme \<Rightarrow> (unit, 'a kheap_scheme) res" where
  "mark_free x n s =
     bindR (if void_chunk s > x + n
            then set_chunk (x + n) (\<lambda>a. a\<lparr>prev_free := True, prev_size := n\<rparr>) s
            else Ret () s) (\<lambda>_ s. set_chunk x (chunk_free_update (\<lambda>_. True)) s)"

lemma kfree_eq:
  assumes "is_initialized s" and "chunks s x = Some c" and "chunk2mem x \<noteq> 0" and "\<not> chunk_free c"
  shows "kfree (chunk2mem x) s =
    bindR (case find_suitable_bin (chunk_size c) s of
             None \<Rightarrow> insert_in_sortedbin x s | Some i \<Rightarrow> push_to_sizebin i x s)
      (\<lambda>_ s. mark_free x (chunk_size c) s)"
  using assms by (simp add: kfree_def mark_free_def mem2chunk_def chunk2mem_def load_Some Let_def)

lemma mark_free_run:
  assumes "chunks s x = Some c" and "void_chunk s > x + n \<Longrightarrow> \<exists>d. chunks s (x + n) = Some d"
  shows "\<exists>h. mark_free x n s = Ret () (s\<lparr>chunks := h\<rparr>) \<and>
    (\<forall>y. map_option links (h y) = map_option links (chunks s y)) \<and>
    (\<lambda>y. map_option chunk_free (h y)) = (chfree s)(x \<mapsto> True)"
proof (cases "void_chunk s > x + n")
  case True
  then obtain d where d: "chunks s (x + n) = Some d" using assms by blast
  let ?d = "d\<lparr>prev_free := True, prev_size := n\<rparr>"
  let ?h = "(chunks s)(x + n \<mapsto> ?d)"
  let ?h' = "?h(x \<mapsto> (the (?h x))\<lparr>chunk_free := True\<rparr>)"
  have "mark_free x n s = Ret () (s\<lparr>chunks := ?h'\<rparr>)"
    using True d assms by (auto simp: mark_free_def modify_Some modify_def)
  then show ?thesis using d assms by (intro exI [of _ ?h']) (auto simp: links_def fun_eq_iff)
next
  case False
  let ?h' = "(chunks s)(x \<mapsto> c\<lparr>chunk_free := True\<rparr>)"
  have "mark_free x n s = Ret () (s\<lparr>chunks := ?h'\<rparr>)"
    using False assms by (simp add: mark_free_def modify_Some)
  then show ?thesis using assms by (intro exI [of _ ?h']) (auto simp: links_def fun_eq_iff)
qed

lemma stored_sizes:
  assumes "\<forall>i < SIZEBINS. sizebin_ok s i (bs i)"
  shows "find (\<lambda>i. stored_size (bins s i) = n) [0 ..< SIZEBINS] = Some i \<Longrightarrow> i < 5 \<and> n = 32 + of_nat i * 16"
  using assms by (auto simp: find_Some_iff sizebin_ok_def)

lemma binned_upd:
  assumes "i < 5"
  shows "set (binned (bs(i := x # bs i)) so) = insert x (set (binned bs so))"
    and "distinct (binned bs so) \<Longrightarrow> x \<notin> set (binned bs so) \<Longrightarrow> distinct (binned (bs(i := x # bs i)) so)"
proof -
  have "i = 0 \<or> i = 1 \<or> i = 2 \<or> i = 3 \<or> i = 4" using assms by auto
  then show "set (binned (bs(i := x # bs i)) so) = insert x (set (binned bs so))"
    and "distinct (binned bs so) \<Longrightarrow> x \<notin> set (binned bs so) \<Longrightarrow> distinct (binned (bs(i := x # bs i)) so)"
    by (elim disjE; auto simp: binned_def upt_rec [of _ 5] numeral_eq_Suc)+
qed

lemma binned_sub: "i < 5 \<Longrightarrow> set (bs i) \<subseteq> set (binned bs so)" "set so \<subseteq> set (binned bs so)"
  by (auto simp: binned_def)

lemma binned_disjoint:
  assumes "distinct (binned bs so)" and "i < 5"
  shows "set (bs i) \<inter> set so = {}"
proof -
  have "set (bs i) \<subseteq> set (concat (map bs [0 ..< 5]))" using assms(2) by auto
  then show ?thesis using assms(1) unfolding binned_def distinct_append by blast
qed

lemma heap_okD:
  assumes "heap_ok s cs bs so" and "x \<in> set cs"
  shows "x \<noteq> 0" and "chunk2mem x \<noteq> 0" and "x \<noteq> void_chunk s" and "\<exists>c. chunks s x = Some c \<and> good_size (chunk_size c)"
    and "unat (chunk2mem x) = unat x + 8" and "mem2chunk (chunk2mem x) = x"
proof -
  have ti: "tiles (chsize s) (heap_start s) cs (void_chunk s)" and st: "heap_start s \<noteq> 0"
    using assms(1) by (auto simp: heap_ok_def)
  note rg = tiles_range [OF ti assms(2)]
  show x0: "x \<noteq> 0" using rg st by (auto simp: word_unat_eq_iff)
  obtain n where n: "chsize s x = Some n" "good_size n" "unat x + unat n \<le> unat (void_chunk s)" using rg by auto
  have "unat x + 8 < 2 ^ 32" using n unat32_bound [of "void_chunk s"] by (auto simp: good_size_def)
  then show u: "unat (chunk2mem x) = unat x + 8" unfolding chunk2mem_def by (subst unat_add_no_wrap) simp_all
  show "chunk2mem x \<noteq> 0"
  proof
    assume "chunk2mem x = 0"
    with u show False by simp
  qed
  show "x \<noteq> void_chunk s" using tiles_distinct [OF ti] assms(2) by auto
  show "\<exists>c. chunks s x = Some c \<and> good_size (chunk_size c)" using n by (cases "chunks s x") auto
  show "mem2chunk (chunk2mem x) = x" by (simp add: mem2chunk_def chunk2mem_def)
qed

lemma next_chunk_exists:
  assumes "heap_ok s cs bs so" and "x \<in> set cs" and "chsize s x = Some n"
  shows "\<exists>d. chunks s (x + n) = Some d" and "x + n \<in> insert (void_chunk s) (set cs)" and "x + n \<noteq> x"
proof -
  obtain us vs where cs: "cs = us @ x # vs" using assms(2) by (auto dest: split_list)
  have ti: "tiles (chsize s) (heap_start s) (us @ x # vs) (void_chunk s)"
    using assms(1) cs by (auto simp: heap_ok_def)
  note te = tiles_end [OF ti assms(3)]
  show "x + n \<in> insert (void_chunk s) (set cs)" using te(3) cs by (cases vs) auto
  then have "x + n \<in> dom (chunks s)" using assms(1) by (simp add: heap_ok_def)
  then show "\<exists>d. chunks s (x + n) = Some d" by auto
  show "x + n \<noteq> x" using te(4,6) by (auto simp: good_size_def)
qed

lemma release_sorted:
  assumes ok: "heap_ok s cs bs so" and x: "x \<in> set cs" "chunks s x = Some c" "\<not> chunk_free c"
  shows "\<exists>s' so'. insert_in_sortedbin x s = Ret () s' \<and> heap_only s s' \<and>
    chsize s' = chsize s \<and> chfree s' = chfree s \<and> (\<forall>i < 5. sizebin_ok s' i (bs i)) \<and> sortedbin_ok s' so' \<and>
    distinct (binned bs so') \<and> set (binned bs so') = insert x (set (binned bs so)) \<and>
    chunks s' (void_chunk s) = chunks s (void_chunk s)"
proof -
  have so: "sortedbin_ok s so" and di: "distinct (binned bs so)"
    and fr: "set (binned bs so) = {x \<in> set cs. chfree s x = Some True}" and sb: "\<forall>i < 5. sizebin_ok s i (bs i)"
    using ok by (auto simp: heap_ok_def)
  have nin: "x \<notin> set (binned bs so)" using fr x by auto
  have "x \<notin> set so" using nin binned_sub(2) [of so bs] by auto
  then obtain ys s1 us vs where i: "insert_in_sortedbin x s = Ret () (set_bin 5 (counter_update (\<lambda>n. n + 1)) s1)"
    "relinked s s1 (set ys)" "sorted_chain s1 ys" "counter (bins s1 5) = counter (bins s 5)"
    "so = us @ vs" "ys = us @ x # vs" "sorted (map (szn s) ys)"
    using insert_place [OF so x(2) heap_okD(1) [OF ok x(1)]] by blast
  define s' where "s' = set_bin 5 (counter_update (\<lambda>n. n + 1)) s1"
  have ch: "chunks s' = chunks s1" and b5: "bins s' 5 = counter_update (\<lambda>n. n + 1) (bins s1 5)"
    and bi: "\<And>i. i \<noteq> 5 \<Longrightarrow> bins s' i = bins s1 i" by (simp_all add: s'_def set_bin_def)
  have r: "heap_only s s1" "\<And>i. i \<noteq> 5 \<Longrightarrow> bins s1 i = bins s i"
    "chsize s1 = chsize s" "chfree s1 = chfree s" "\<And>y. y \<notin> set ys \<Longrightarrow> chunks s1 y = chunks s y"
    using i(2) by (auto simp: relinked_def)
  have set: "set ys = insert x (set so)" using i(5,6) by auto
  have eq: "heap_only s s'" unfolding s'_def by (rule heap_only_trans [OF r(1)]) simp
  have "sorted_chain s' ys" using i(3) by (simp add: sorted_chain_def ch b5)
  moreover have "counter (bins s' 5) = of_nat (length ys)"
    using so i(4,5,6) by (simp add: b5 sortedbin_ok_def)
  ultimately have so': "sortedbin_ok s' ys" using i(7) by (simp add: sortedbin_chain ch r(3) [THEN fun_cong])
  have sb': "sizebin_ok s' i (bs i)" if "i < 5" for i
  proof -
    have "set (bs i) \<inter> set ys = {}"
      using binned_disjoint [OF di that] nin binned_sub(1) [OF that, of bs so] set by auto
    then have "\<And>y. y \<in> set (bs i) \<Longrightarrow> chunks s' y = chunks s y" using r(5) ch by auto
    then show ?thesis using sb that sizebin_ok_cong [of s' i s "bs i"] bi r(2,3) ch by simp
  qed
  have "distinct (binned bs ys)"
    using di nin i(5,6) by (auto simp: binned_def)
  moreover have "set (binned bs ys) = insert x (set (binned bs so))" using set by (auto simp: binned_def)
  moreover have "set ys \<subseteq> set cs" using set fr binned_sub(2) [of so bs] x(1) by auto
  then have "void_chunk s \<notin> set ys" using heap_okD(3) [OF ok] by blast
  then have "chunks s' (void_chunk s) = chunks s (void_chunk s)" using r(5) ch by simp
  moreover have "insert_in_sortedbin x s = Ret () s'" using i(1) by (simp add: s'_def)
  ultimately show ?thesis using eq r(3,4) ch so' sb' by (intro exI [of _ s'] exI [of _ ys]) simp
qed

lemma release_sizebin:
  assumes ok: "heap_ok s cs bs so" and x: "x \<in> set cs" "chunks s x = Some c" "\<not> chunk_free c"
    and i: "i < 5" "chunk_size c = 32 + of_nat i * 16"
  shows "\<exists>s'. push_to_sizebin i x s = Ret () s' \<and> heap_only s s' \<and>
    chsize s' = chsize s \<and> chfree s' = chfree s \<and>
    (\<forall>j < 5. sizebin_ok s' j ((bs(i := x # bs i)) j)) \<and> sortedbin_ok s' so \<and>
    chunks s' (void_chunk s) = chunks s (void_chunk s)"
proof -
  have so: "sortedbin_ok s so" and di: "distinct (binned bs so)"
    and fr: "set (binned bs so) = {x \<in> set cs. chfree s x = Some True}" and sb: "\<forall>i < 5. sizebin_ok s i (bs i)"
    using ok by (auto simp: heap_ok_def)
  have nin: "x \<notin> set (binned bs so)" using fr x by auto
  have nso: "x \<notin> set so" and nbs: "\<And>j. j < 5 \<Longrightarrow> x \<notin> set (bs j)" using nin binned_sub(1) [of _ bs so] binned_sub(2) [of so bs] by auto
  let ?b = "bins s i"
  let ?s' = "s\<lparr>chunks := (chunks s)(x \<mapsto> c\<lparr>ch_next := bin_first ?b\<rparr>),
    bins := (bins s)(i := counter_update (\<lambda>n. n + 1) (?b\<lparr>bin_first := x\<rparr>))\<rparr>"
  have run: "push_to_sizebin i x s = Ret () ?s'"
    using x by (simp add: push_to_sizebin_def chunk_simps)
  have cz: "chsize ?s' = chsize s" "chfree ?s' = chfree s" using x by (auto simp: fun_eq_iff)
  have "sizebin_ok ?s' j ((bs(i := x # bs i)) j)" if "j < 5" for j
  proof (cases "j = i")
    case True
    then show ?thesis using sb i(1) nbs [OF i(1)] x i(2) heap_okD(1) [OF ok x(1)]
      by (auto simp: sizebin_ok_def)
  next
    case False
    then have "sizebin_ok ?s' j (bs j) = sizebin_ok s j (bs j)"
      by (intro sizebin_ok_cong [OF _ cz(1)]) (use nbs [OF that] in auto)
    with False show ?thesis using sb that by simp
  qed
  moreover have "sortedbin_ok ?s' so = sortedbin_ok s so"
    by (intro sortedbin_ok_cong [OF _ cz(1)]) (use i(1) nso in auto)
  then have "sortedbin_ok ?s' so" using so by simp
  ultimately show ?thesis using run cz heap_okD(3) [OF ok x(1)] by (intro exI [of _ ?s']) auto
qed

text \<open>
  \<open>kfree\<close> on a chunk in use: it goes to a bin, is marked free, and every other chunk keeps its
  size and its state.
\<close>

lemma kfree_heap_ok:
  assumes ok: "heap_ok s cs bs so" and x: "x \<in> set cs" "chfree s x = Some False"
  shows "\<exists>s' bs' so'. kfree (chunk2mem x) s = Ret () s' \<and> heap_ok s' cs bs' so' \<and>
    chsize s' = chsize s \<and> chfree s' = (chfree s)(x \<mapsto> True) \<and> heap_only s s'"
proof -
  obtain c where c: "chunks s x = Some c" "\<not> chunk_free c" using x(2) by auto
  have parts: "is_initialized s" "\<forall>i < 5. sizebin_ok s i (bs i)" "distinct (binned bs so)"
    "set (binned bs so) = {x \<in> set cs. chfree s x = Some True}"
    using ok by (auto simp: heap_ok_def)
  have "\<exists>s1 bs' so'. (case find_suitable_bin (chunk_size c) s of
             None \<Rightarrow> insert_in_sortedbin x s | Some i \<Rightarrow> push_to_sizebin i x s) = Ret () s1 \<and>
    heap_only s s1 \<and> chsize s1 = chsize s \<and> chfree s1 = chfree s \<and>
    (\<forall>i < 5. sizebin_ok s1 i (bs' i)) \<and> sortedbin_ok s1 so' \<and> distinct (binned bs' so') \<and>
    set (binned bs' so') = insert x (set (binned bs so)) \<and> chunks s1 (void_chunk s) = chunks s (void_chunk s)"
  proof (cases "find_suitable_bin (chunk_size c) s")
    case None
    then show ?thesis using release_sorted [OF ok x(1) c] by (simp only: option.case) blast
  next
    case (Some i)
    then have i: "i < 5" "chunk_size c = 32 + of_nat i * 16"
      using stored_sizes [OF parts(2)] by (auto simp: find_suitable_bin_def)
    have "x \<notin> set (binned bs so)" using parts(4) x by auto
    with binned_upd [OF i(1), where bs = bs and x = x and so = so] parts(3)
    have "distinct (binned (bs(i := x # bs i)) so)"
      "set (binned (bs(i := x # bs i)) so) = insert x (set (binned bs so))" by auto
    with release_sizebin [OF ok x(1) c i] Some show ?thesis by (simp only: option.case) blast
  qed
  then obtain s1 bs' so' where s1: "(case find_suitable_bin (chunk_size c) s of
             None \<Rightarrow> insert_in_sortedbin x s | Some i \<Rightarrow> push_to_sizebin i x s) = Ret () s1"
    "heap_only s s1" "chsize s1 = chsize s" "chfree s1 = chfree s"
    "\<forall>i < 5. sizebin_ok s1 i (bs' i)" "sortedbin_ok s1 so'" "distinct (binned bs' so')"
    "set (binned bs' so') = insert x (set (binned bs so))" "chunks s1 (void_chunk s) = chunks s (void_chunk s)"
    by blast
  have v: "void_chunk s1 = void_chunk s" "is_initialized s1 = is_initialized s" "heap_start s1 = heap_start s"
    using heap_only_sels [OF s1(2)] by simp_all
  obtain d where d: "chunks s1 x = Some d" "chunk_size d = chunk_size c"
    using s1(3) [THEN fun_cong, of x] c by (cases "chunks s1 x") auto
  have "\<exists>e. chunks s (x + chunk_size c) = Some e" using next_chunk_exists(1) [OF ok x(1)] c by simp
  then have "\<exists>e. chunks s1 (x + chunk_size c) = Some e"
    using s1(3) [THEN fun_cong, of "x + chunk_size c"] by (cases "chunks s1 (x + chunk_size c)") auto
  then obtain h where h: "mark_free x (chunk_size c) s1 = Ret () (s1\<lparr>chunks := h\<rparr>)"
    "\<And>y. map_option links (h y) = map_option links (chunks s1 y)"
    "(\<lambda>y. map_option chunk_free (h y)) = (chfree s1)(x \<mapsto> True)"
    using mark_free_run [OF d(1), of "chunk_size c"] by blast
  let ?s' = "s1\<lparr>chunks := h\<rparr>"
  note lc = links_cong [of h "chunks s1", OF h(2)]
  have run: "kfree (chunk2mem x) s = Ret () ?s'"
    using kfree_eq [OF parts(1) c(1) heap_okD(2) [OF ok x(1)] c(2)] s1(1) h(1) by simp
  have cz: "chsize ?s' = chsize s" and cf: "chfree ?s' = (chfree s)(x \<mapsto> True)"
    using lc(1) h(3) s1(3,4) by (simp_all add: fun_eq_iff)
  have "dom h = dom (chunks s)" using cz by (intro chsize_dom) simp
  have hv: "\<exists>v. h (void_chunk s) = Some v \<and> chunk_free v \<and> void_size (chunk_size v) \<and>
      unat (void_chunk s) + unat (chunk_size v) < 2 ^ 32"
  proof -
    obtain v where v: "chunks s (void_chunk s) = Some v" "chunk_free v" "void_size (chunk_size v)"
      "unat (void_chunk s) + unat (chunk_size v) < 2 ^ 32" using ok by (auto simp: heap_ok_def)
    then show ?thesis
      using cz [THEN fun_cong, of "void_chunk s"] cf [THEN fun_cong, of "void_chunk s"]
        heap_okD(3) [OF ok x(1)] by (cases "h (void_chunk s)") auto
  qed
  have "heap_ok ?s' cs bs' so'"
    unfolding heap_ok_def
  proof (intro conjI)
    show "\<forall>i < 5. sizebin_ok ?s' i (bs' i)"
      using s1(5) sizebin_ok_cong [of ?s' _ s1] lc(1,2) by simp
    show "sortedbin_ok ?s' so'"
      using s1(6) sortedbin_ok_cong [of ?s' s1 so'] lc(1,3) by simp
    have "chfree ?s' y = Some True \<longleftrightarrow> y = x \<or> chfree s y = Some True" for y
      unfolding fun_cong [OF cf] by simp
    then show "set (binned bs' so') = {x \<in> set cs. chfree ?s' x = Some True}"
      unfolding s1(8) parts(4) using x(1) by blast
  qed (use ok cz v s1(7) hv \<open>dom h = dom (chunks s)\<close> in \<open>simp_all add: heap_ok_def heap_start_def\<close>)
  moreover have "heap_only s ?s'" by (rule heap_only_trans [OF s1(2)]) simp
  ultimately show ?thesis using run cz cf by (intro exI [of _ ?s'] exI [of _ bs'] exI [of _ so']) simp
qed

section \<open>Taking a chunk\<close>

lemma fits_found:
  assumes "dll ch_next ch_prev (chunks s) p xs 0" and "distinct xs" and "set xs \<inter> V = {}" and "0 \<notin> V"
  shows "chase V (fits n) (first_of 0 xs) s =
    Ret (case find (\<lambda>x. n \<le> the (chsize s x)) xs of None \<Rightarrow> 0 | Some x \<Rightarrow> x) s"
  using assms
proof (induction xs arbitrary: V p)
  case Nil
  then show ?case by (simp add: chase_exit fits_def)
next
  case (Cons x xs)
  obtain c where c: "chunks s x = Some c" "ch_next c = first_of 0 xs" "x \<noteq> 0" using Cons.prems(1) by auto
  show ?case
  proof (cases "n \<le> chunk_size c")
    case True
    then have "chase V (fits n) x s = Ret x s"
      using c Cons.prems(3) by (intro chase_exit) (auto simp: fits_def load_Some)
    with True c show ?thesis by simp
  next
    case False
    then have "fits n x s = Ret (Inr (first_of 0 xs)) s" using c by (simp add: fits_def load_Some)
    then have "chase V (fits n) x s = chase (insert x V) (fits n) (first_of 0 xs) s"
      using Cons.prems(3) by (simp add: chase.simps [of V])
    also have "\<dots> = Ret (case find (\<lambda>x. n \<le> the (chsize s x)) xs of None \<Rightarrow> 0 | Some x \<Rightarrow> x) s"
      using Cons.prems c by (intro Cons.IH [where p = x]) auto
    finally show ?thesis using False c by simp
  qed
qed

lemma unlink:
  assumes "sorted_chain s (ys @ x # zs)" and "counter (bins s 5) = of_nat (length (ys @ x # zs))"
  shows "\<exists>s'. earse_from_sortedbin x s = Ret () (set_bin 5 (counter_update (\<lambda>n. n - 1)) s') \<and>
    relinked s s' (set (ys @ zs)) \<and> sorted_chain s' (ys @ zs) \<and> counter (bins s' 5) = counter (bins s 5)"
proof -
  have dl: "dll ch_next ch_prev (chunks s) 0 (ys @ x # zs) 0" and di: "distinct (ys @ x # zs)"
    and fi: "bin_first (bins s 5) = first_of 0 (ys @ x # zs)" and la: "bin_last (bins s 5) = last_of 0 (ys @ x # zs)"
    using assms(1) by (auto simp: sorted_chain_def dlist_def)
  obtain c where c: "chunks s x = Some c" using sorted_chain_dom [OF assms(1), of x] by auto
  have lk: "ch_prev c = last_of 0 ys" "ch_next c = first_of 0 zs" using dll_mid [OF dl c] by auto
  have one: "counter (bins s 5) = 1 \<longleftrightarrow> ys = [] \<and> zs = []"
    using of_nat32_eq [of "length (ys @ x # zs)" 1] sorted_chain_length [OF assms(1)] assms(2)
    by (cases ys; cases zs) auto
  consider "ys = []" "zs = []" | b ws where "ys = []" "zs = b # ws" | us a where "ys = us @ [a]" "zs = []"
    | us a b ws where "ys = us @ [a]" "zs = b # ws"
    by (cases ys rule: rev_cases; cases zs) auto
  then show ?thesis
  proof cases
    case 1
    let ?s' = "s\<lparr>bins := (bins s)(5 := (bins s 5)\<lparr>bin_first := 0, bin_last := 0\<rparr>)\<rparr>"
    have "earse_from_sortedbin x s = Ret () (set_bin 5 (counter_update (\<lambda>n. n - 1)) ?s')"
      using one 1 by (simp add: earse_from_sortedbin_def chunk_simps)
    then show ?thesis using 1 by (intro exI [of _ ?s']) (simp add: relinked_def sorted_chain_def dlist_def)
  next
    case 2
    obtain cb where b: "chunks s b = Some cb" "b \<noteq> 0" using dl 2 by auto
    let ?h = "(chunks s)(b \<mapsto> cb\<lparr>ch_prev := 0\<rparr>)"
    let ?s' = "s\<lparr>bins := (bins s)(5 := (bins s 5)\<lparr>bin_first := b\<rparr>), chunks := ?h\<rparr>"
    have "earse_from_sortedbin x s = Ret () (set_bin 5 (counter_update (\<lambda>n. n - 1)) ?s')"
      using one 2 c lk b by (simp add: earse_from_sortedbin_def chunk_simps)
    moreover have "dll ch_next ch_prev ?h 0 (b # ws) 0"
      using dl di 2 b by (intro ck.relink_first [where p = x]) auto
    then have "sorted_chain ?s' (b # ws)" using 2 di la by (simp add: sorted_chain_def dlist_def)
    moreover have "relinked s ?s' (set (b # ws))" using b by (auto simp: relinked_def fun_eq_iff)
    ultimately show ?thesis using 2 by (intro exI [of _ ?s']) simp
  next
    case 3
    obtain ca where a: "chunks s a = Some ca" "a \<noteq> 0" using dl 3 by (auto simp: dll_append)
    let ?h = "(chunks s)(a \<mapsto> ca\<lparr>ch_next := 0\<rparr>)"
    let ?s' = "s\<lparr>chunks := ?h, bins := (bins s)(5 := (bins s 5)\<lparr>bin_last := a\<rparr>)\<rparr>"
    have "earse_from_sortedbin x s = Ret () (set_bin 5 (counter_update (\<lambda>n. n - 1)) ?s')"
      using one 3 c lk a by (simp add: earse_from_sortedbin_def chunk_simps)
    moreover have "dll ch_next ch_prev ?h 0 (us @ [a]) 0"
      using dl di 3 a by (intro ck.relink_last [where q = x]) (auto simp: dll_append)
    then have "sorted_chain ?s' (us @ [a])" using 3 di fi by (simp add: sorted_chain_def dlist_def)
    moreover have "relinked s ?s' (set (us @ [a]))" using a by (auto simp: relinked_def fun_eq_iff)
    ultimately show ?thesis using 3 by (intro exI [of _ ?s']) simp
  next
    case 4
    obtain ca cb where a: "chunks s a = Some ca" "a \<noteq> 0" and b: "chunks s b = Some cb" "b \<noteq> 0"
      using dl 4 by (auto simp: dll_append)
    have ne: "a \<noteq> b" using di 4 by auto
    let ?h = "(chunks s)(a \<mapsto> ca\<lparr>ch_next := b\<rparr>, b \<mapsto> cb\<lparr>ch_prev := a\<rparr>)"
    let ?s' = "s\<lparr>chunks := ?h\<rparr>"
    have "earse_from_sortedbin x s = Ret () (set_bin 5 (counter_update (\<lambda>n. n - 1)) ?s')"
      using one 4 c lk a b ne by (simp add: earse_from_sortedbin_def chunk_simps)
    moreover have "dll ch_next ch_prev ?h 0 (us @ a # b # ws) 0"
      using dl di 4 a b by (intro ck.remove_mid [where x = x]) auto
    then have "sorted_chain ?s' (us @ a # b # ws)" using 4 di fi la by (simp add: sorted_chain_def dlist_def)
    moreover have "relinked s ?s' (set (us @ a # b # ws))" using a b ne by (auto simp: relinked_def fun_eq_iff)
    ultimately show ?thesis using 4 by (intro exI [of _ ?s']) simp
  qed
qed

text \<open>
  \<open>layout s cs bs so F\<close>: everything the invariant says about the tiling, the void chunk and the
  bins, when the bins hold exactly the chunks \<open>F\<close>.
\<close>

definition layout :: "'a kheap_scheme \<Rightarrow> ptr list \<Rightarrow> (nat \<Rightarrow> ptr list) \<Rightarrow> ptr list \<Rightarrow> ptr set \<Rightarrow> bool" where
  "layout s cs bs so F \<longleftrightarrow>
     is_initialized s \<and> heap_start s \<noteq> NULL \<and>
     tiles (chsize s) (heap_start s) cs (void_chunk s) \<and>
     dom (chunks s) = insert (void_chunk s) (set cs) \<and>
     (\<exists>v. chunks s (void_chunk s) = Some v \<and> chunk_free v \<and> void_size (chunk_size v) \<and>
        unat (void_chunk s) + unat (chunk_size v) < 2 ^ 32) \<and>
     (\<forall>i < SIZEBINS. sizebin_ok s i (bs i)) \<and> sortedbin_ok s so \<and>
     distinct (binned bs so) \<and> set (binned bs so) = F"

lemma heap_ok_layout: "heap_ok s cs bs so \<longleftrightarrow> layout s cs bs so {x \<in> set cs. chfree s x = Some True}"
  by (simp only: heap_ok_def layout_def)

lemma layout_cong:
  assumes "layout s cs bs so F" and "heap_only s s'" and "bins s' = bins s"
    and "\<And>y. map_option links (chunks s' y) = map_option links (chunks s y)"
    and "chfree s' (void_chunk s) = chfree s (void_chunk s)"
  shows "layout s' cs bs so F"
proof -
  note lc = links_cong [of "chunks s'" "chunks s", OF assms(4)] and sel = heap_only_sels [OF assms(2)]
  obtain v where v: "chunks s (void_chunk s) = Some v" "chunk_free v" "void_size (chunk_size v)"
    "unat (void_chunk s) + unat (chunk_size v) < 2 ^ 32" using assms(1) by (auto simp: layout_def)
  have "\<exists>v. chunks s' (void_chunk s) = Some v \<and> chunk_free v \<and> void_size (chunk_size v) \<and>
    unat (void_chunk s) + unat (chunk_size v) < 2 ^ 32"
    using v assms(5) fun_cong [OF lc(1), of "void_chunk s"] by (cases "chunks s' (void_chunk s)") auto
  moreover have "sizebin_ok s' i xs = sizebin_ok s i xs" for i xs
    by (rule sizebin_ok_cong [OF _ lc(1)]) (simp_all add: assms(3) lc(2))
  moreover have "sortedbin_ok s' xs = sortedbin_ok s xs" for xs
    by (rule sortedbin_ok_cong [OF _ lc(1)]) (simp_all add: assms(3) lc(3))
  ultimately show ?thesis using assms(1) lc(1,4) sel by (simp add: layout_def)
qed

text \<open>The two searches of \<^verbatim>\<open>_find_free_chunk\<close> and its last step.\<close>

definition take_chunk :: "u32 \<Rightarrow> 'a kheap_scheme \<Rightarrow> (ptr, 'a kheap_scheme) res" where
  "take_chunk n s =
     bindR (case find (\<lambda>i. stored_size (bins s i) = n) [0 ..< SIZEBINS] of
              None \<Rightarrow> Ret NULL s
            | Some i \<Rightarrow> if counter (bins s i) > 0 then pop_from_sizebin i s else Ret NULL s) (\<lambda>found s.
     if found = NULL \<and> counter (bins s SORTEDBIN_IDX) > 0 then
       bindR (chase {} (fits n) (bin_first (bins s SORTEDBIN_IDX)) s) (\<lambda>tmp s.
       if tmp \<noteq> NULL then bindR (earse_from_sortedbin tmp s) (\<lambda>_ s. Ret tmp s) else Ret NULL s)
     else Ret found s)"

definition claim :: "ptr \<Rightarrow> 'a kheap_scheme \<Rightarrow> (ptr, 'a kheap_scheme) res" where
  "claim x s =
     bindR (get_chunk x s) (\<lambda>c s.
     bindR (set_chunk (x + chunk_size c) (\<lambda>a. a\<lparr>prev_free := False, prev_size := 0\<rparr>) s) (\<lambda>_ s.
     bindR (set_chunk x (chunk_free_update (\<lambda>_. False)) s) (\<lambda>_ s. Ret x s)))"

lemma find_free_chunk_eq:
  "find_free_chunk n s = bindR (take_chunk n s) (\<lambda>found s.
     if found \<noteq> NULL then bindR (split_chunk found n s) claim else Ret NULL s)"
  unfolding find_free_chunk_def take_chunk_def bindR_assoc claim_def [abs_def] ..

text \<open>\<open>detached s s' x bs so bs' so'\<close>: chunk \<open>x\<close> has left the bins.\<close>

definition detached where
  "detached s s' x bs so bs' so' \<longleftrightarrow>
     heap_only s s' \<and> chsize s' = chsize s \<and> chfree s' = chfree s \<and>
     (\<forall>i < 5. sizebin_ok s' i (bs' i)) \<and> sortedbin_ok s' so' \<and> distinct (binned bs' so') \<and>
     set (binned bs' so') = set (binned bs so) - {x} \<and> x \<in> set (binned bs so)"

lemma detached_layout:
  assumes "layout s cs bs so F" and "detached s s' x bs so bs' so'" and "F \<subseteq> set cs"
  shows "layout s' cs bs' so' (F - {x})" and "x \<in> F"
proof -
  have d: "heap_only s s'" "chsize s' = chsize s" "chfree s' = chfree s" "\<forall>i < 5. sizebin_ok s' i (bs' i)"
    "sortedbin_ok s' so'" "distinct (binned bs' so')" "set (binned bs' so') = F - {x}" "x \<in> F"
    using assms(1,2) by (auto simp: detached_def layout_def)
  note sel = heap_only_sels [OF d(1)]
  obtain v where v: "chunks s (void_chunk s) = Some v" "chunk_free v" "void_size (chunk_size v)"
    "unat (void_chunk s) + unat (chunk_size v) < 2 ^ 32" using assms(1) by (auto simp: layout_def)
  have "\<exists>v. chunks s' (void_chunk s) = Some v \<and> chunk_free v \<and> void_size (chunk_size v) \<and>
    unat (void_chunk s) + unat (chunk_size v) < 2 ^ 32"
    using v fun_cong [OF d(2), of "void_chunk s"] fun_cong [OF d(3), of "void_chunk s"]
    by (cases "chunks s' (void_chunk s)") auto
  then show "layout s' cs bs' so' (F - {x})"
    using assms(1) d chsize_dom [OF d(2)] sel by (simp add: layout_def)
  show "x \<in> F" by (rule d(8))
qed

lemma binned_del:
  assumes "i < 5" and "bs i = x # xs" and "distinct (binned bs so)"
  shows "set (binned (bs(i := xs)) so) = set (binned bs so) - {x}" and "distinct (binned (bs(i := xs)) so)"
    and "x \<in> set (binned bs so)" and "j < 5 \<Longrightarrow> j \<noteq> i \<Longrightarrow> x \<notin> set (bs j)"
proof -
  have eq: "binned bs so = binned ((bs(i := xs))(i := x # (bs(i := xs)) i)) so"
    using assms(2) by (simp add: fun_upd_idem)
  have "i = 0 \<or> i = 1 \<or> i = 2 \<or> i = 3 \<or> i = 4" using assms(1) by auto
  then have d: "distinct (binned (bs(i := xs)) so) \<and> x \<notin> set (binned (bs(i := xs)) so)"
    using assms(2,3) by (elim disjE; simp add: binned_def upt_rec [of _ 5] numeral_eq_Suc; blast)
  then show "distinct (binned (bs(i := xs)) so)" by simp
  have "set (binned bs so) = insert x (set (binned (bs(i := xs)) so))"
    unfolding eq by (rule binned_upd(1) [OF assms(1)])
  with d show "set (binned (bs(i := xs)) so) = set (binned bs so) - {x}" and "x \<in> set (binned bs so)" by auto
  show "j < 5 \<Longrightarrow> j \<noteq> i \<Longrightarrow> x \<notin> set (bs j)"
    using d binned_sub(1) [of j "bs(i := xs)" so] by auto
qed

lemma pop_detached:
  assumes "i < 5" and "\<forall>j < 5. sizebin_ok s j (bs j)" and "sortedbin_ok s so" and "distinct (binned bs so)"
    and "bs i = x # xs"
  shows "\<exists>s'. pop_from_sizebin i s = Ret x s' \<and> detached s s' x bs so (bs(i := xs)) so"
proof -
  have ok: "sizebin_ok s i (x # xs)" using assms by auto
  then obtain c where c: "bin_first (bins s i) = x" "chunks s x = Some c" "sll (chunks s) (ch_next c) xs"
    and cnt: "counter (bins s i) = of_nat (length (x # xs))" and nz: "0 \<notin> set (x # xs)"
    using sll_nonnull [of "chunks s" "bin_first (bins s i)" "x # xs"] by (auto simp: sizebin_ok_def)
  have "distinct (bs i)"
  proof -
    have "bs i \<in> set (map bs [0 ..< 5])" using assms(1) by auto
    then show ?thesis using assms(4) unfolding binned_def distinct_append distinct_concat_iff by blast
  qed
  then have di: "distinct (x # xs)" using assms(5) by simp
  have len: "length (x # xs) < 2 ^ 32" using distinct_ptrs_length [OF di nz] .
  then have gt: "counter (bins s i) > 1 \<longleftrightarrow> xs \<noteq> []"
    using cnt unat_of_nat32 [of "length (x # xs)"] by (cases xs) (auto simp: word_less_nat_alt)
  define f where "f = (if xs = [] then 0 else ch_next c)"
  let ?s' = "s\<lparr>bins := (bins s)(i := counter_update (\<lambda>n. n - 1) ((bins s i)\<lparr>bin_first := f\<rparr>))\<rparr>"
  have "pop_from_sizebin i s = Ret x ?s'"
    using c gt by (auto simp: pop_from_sizebin_def chunk_simps f_def)
  moreover have "sizebin_ok ?s' i xs"
    using ok c cnt by (cases xs) (auto simp: sizebin_ok_def f_def)
  moreover have "sizebin_ok ?s' j (bs j)" if "j < 5" "j \<noteq> i" for j
    using assms(2) that by (simp add: sizebin_ok_def)
  moreover have "sortedbin_ok ?s' so" using assms(1,3) by (simp add: sortedbin_ok_def)
  ultimately show ?thesis
    using binned_del [OF assms(1,5,4)] by (intro exI [of _ ?s']) (simp add: detached_def)
qed

lemma unlink_detached:
  assumes "\<forall>j < 5. sizebin_ok s j (bs j)" and "sortedbin_ok s so" and "distinct (binned bs so)"
    and "so = ys @ x # zs"
  shows "\<exists>s'. earse_from_sortedbin x s = Ret () s' \<and> detached s s' x bs so bs (ys @ zs)"
proof -
  obtain s1 where s1: "earse_from_sortedbin x s = Ret () (set_bin 5 (counter_update (\<lambda>n. n - 1)) s1)"
    "relinked s s1 (set (ys @ zs))" "sorted_chain s1 (ys @ zs)" "counter (bins s1 5) = counter (bins s 5)"
    using unlink [of s ys x zs] assms(2,4) by (auto simp: sortedbin_chain)
  define s' where "s' = set_bin 5 (counter_update (\<lambda>n. n - 1)) s1"
  have ch: "chunks s' = chunks s1" and b5: "bins s' 5 = counter_update (\<lambda>n. n - 1) (bins s1 5)"
    and bi: "\<And>i. i \<noteq> 5 \<Longrightarrow> bins s' i = bins s1 i" by (simp_all add: s'_def set_bin_def)
  have r: "heap_only s s1" "\<And>i. i \<noteq> 5 \<Longrightarrow> bins s1 i = bins s i"
    "chsize s1 = chsize s" "chfree s1 = chfree s" "\<And>y. y \<notin> set (ys @ zs) \<Longrightarrow> chunks s1 y = chunks s y"
    using s1(2) by (auto simp: relinked_def)
  have so': "sortedbin_ok s' (ys @ zs)"
    using s1(3,4) assms(2,4) b5 r(3) [THEN fun_cong]
    by (auto simp: sortedbin_chain sorted_chain_def ch sorted_append)
  have sb': "sizebin_ok s' i (bs i)" if "i < 5" for i
  proof -
    have "set (bs i) \<inter> set so = {}" by (rule binned_disjoint [OF assms(3) that])
    then have "\<And>y. y \<in> set (bs i) \<Longrightarrow> chunks s' y = chunks s y" using r(5) ch assms(4) by auto
    then show ?thesis using assms(1) that sizebin_ok_cong [of s' i s "bs i"] bi r(2,3) ch by simp
  qed
  have "heap_only s s'" unfolding s'_def by (rule heap_only_trans [OF r(1)]) simp
  moreover have "set (binned bs (ys @ zs)) = set (binned bs so) - {x}" "distinct (binned bs (ys @ zs))"
    "x \<in> set (binned bs so)"
    using assms(3,4) by (auto simp: binned_def)
  ultimately show ?thesis using s1(1) r(3,4) ch so' sb'
    by (intro exI [of _ s']) (simp add: detached_def s'_def)
qed

lemma take_chunk_ok:
  assumes ok: "heap_ok s cs bs so"
  shows "(take_chunk n s = Ret 0 s \<and> (\<forall>x \<in> set (binned bs so). the (chsize s x) < n \<or> x \<notin> set so)) \<or>
    (\<exists>x s' bs' so'. take_chunk n s = Ret x s' \<and> x \<noteq> 0 \<and> detached s s' x bs so bs' so' \<and>
       n \<le> the (chsize s x))"
proof -
  have p: "\<forall>i < 5. sizebin_ok s i (bs i)" "sortedbin_ok s so" "distinct (binned bs so)"
    "set (binned bs so) \<subseteq> set cs" using ok by (auto simp: heap_ok_def)
  show ?thesis
  proof (cases "\<exists>i x xs. find (\<lambda>i. stored_size (bins s i) = n) [0 ..< SIZEBINS] = Some i \<and> bs i = x # xs")
    case True
    then obtain i x xs where i: "find (\<lambda>i. stored_size (bins s i) = n) [0 ..< SIZEBINS] = Some i" "bs i = x # xs"
      by blast
    have i5: "i < 5" "n = 32 + of_nat i * 16" using stored_sizes [OF p(1) i(1)] by auto
    have sb: "sizebin_ok s i (bs i)" using p(1) i5(1) by blast
    then have z: "chsize s x = Some n" and x0: "x \<noteq> 0" using i i5(2) by (auto simp: sizebin_ok_def)
    obtain s' where s': "pop_from_sizebin i s = Ret x s'" "detached s s' x bs so (bs(i := xs)) so"
      using pop_detached [OF i5(1) p(1-3) i(2)] by blast
    have "0 \<notin> set (bs i)" using sb sll_nonnull by (auto simp: sizebin_ok_def)
    moreover have "distinct (bs i)"
    proof -
      have "bs i \<in> set (map bs [0 ..< 5])" using i5 by auto
      then show ?thesis using p(3) unfolding binned_def distinct_append distinct_concat_iff by blast
    qed
    ultimately have "length (bs i) < 2 ^ 32" by (intro distinct_ptrs_length)
    then have "counter (bins s i) \<noteq> 0"
      using sb i(2) of_nat32_eq [of "length (bs i)" 0] by (simp add: sizebin_ok_def)
    then have "take_chunk n s = Ret x s'"
      using i(1) s'(1) x0 by (simp add: take_chunk_def word_neq_0_conv [symmetric])
    then show ?thesis using s'(2) z x0 by auto
  next
    case False
    have first: "(case find (\<lambda>i. stored_size (bins s i) = n) [0 ..< SIZEBINS] of
              None \<Rightarrow> Ret NULL s
            | Some i \<Rightarrow> if counter (bins s i) > 0 then pop_from_sizebin i s else Ret NULL s) = Ret 0 s"
    proof (cases "find (\<lambda>i. stored_size (bins s i) = n) [0 ..< SIZEBINS]")
      case (Some i)
      then have "bs i = []" using False by (cases "bs i") auto
      then have "counter (bins s i) = 0"
        using p(1) stored_sizes [OF p(1) Some] by (auto simp: sizebin_ok_def)
      then show ?thesis using Some by simp
    qed simp
    have so: "sorted_chain s so" "counter (bins s 5) = of_nat (length so)"
      using p(2) by (auto simp: sortedbin_chain)
    have cnt: "counter (bins s 5) > 0 \<longleftrightarrow> so \<noteq> []"
      using so of_nat32_eq [of "length so" 0] sorted_chain_length [OF so(1)] by (auto simp: word_neq_0_conv [symmetric])
    have ch: "chase {} (fits n) (bin_first (bins s 5)) s =
      Ret (case find (\<lambda>x. n \<le> the (chsize s x)) so of None \<Rightarrow> 0 | Some x \<Rightarrow> x) s"
      using so(1) fits_found [of s 0 so "{}" n] by (simp add: sorted_chain_def dlist_def)
    show ?thesis
    proof (cases "find (\<lambda>x. n \<le> the (chsize s x)) so")
      case None
      then have "\<forall>x \<in> set so. \<not> n \<le> the (chsize s x)" by (simp add: find_None_iff)
      moreover have "take_chunk n s = Ret 0 s"
        using first ch None by (simp add: take_chunk_def)
      ultimately show ?thesis by (auto simp: not_le)
    next
      case (Some x)
      then have x: "x \<in> set so" "n \<le> the (chsize s x)" by (auto simp: find_Some_iff)
      then obtain ys zs where yz: "so = ys @ x # zs" by (auto dest: split_list)
      obtain s' where s': "earse_from_sortedbin x s = Ret () s'" "detached s s' x bs so bs (ys @ zs)"
        using unlink_detached [OF p(1-3) yz] by blast
      have "x \<noteq> 0" using so(1) x(1) by (auto simp: sorted_chain_def dlist_def dest: dll_nonnull)
      then have "take_chunk n s = Ret x s'"
        using first ch Some s'(1) cnt x(1) by (auto simp: take_chunk_def)
      then show ?thesis using s'(2) x \<open>x \<noteq> 0\<close> by blast
    qed
  qed
qed

lemma claim_ok:
  assumes "layout s cs bs so ({y \<in> set cs. chfree s y = Some True} - {x})" and "x \<in> set cs"
  shows "\<exists>s'. claim x s = Ret x s' \<and> heap_ok s' cs bs so \<and> heap_only s s' \<and>
    chsize s' = chsize s \<and> chfree s' = (chfree s)(x \<mapsto> False)"
proof -
  have ti: "tiles (chsize s) (heap_start s) cs (void_chunk s)" and dm: "dom (chunks s) = insert (void_chunk s) (set cs)"
    using assms(1) by (auto simp: layout_def)
  obtain c where c: "chunks s x = Some c" using dm assms(2) by auto
  obtain us vs where cs: "cs = us @ x # vs" using assms(2) by (auto dest: split_list)
  note te = tiles_end [OF ti [unfolded cs], of "chunk_size c"]
  have nx: "x + chunk_size c = first_of (void_chunk s) vs" "x + chunk_size c \<noteq> x"
    using te c by (auto simp: good_size_def)
  then have "x + chunk_size c \<in> dom (chunks s)" using dm cs by (cases vs) auto
  then obtain d where d: "chunks s (x + chunk_size c) = Some d" by auto
  have xv: "x \<noteq> void_chunk s" using tiles_distinct [OF ti] assms(2) by auto
  let ?h = "(chunks s)(x + chunk_size c \<mapsto> d\<lparr>prev_free := False, prev_size := 0\<rparr>, x \<mapsto> c\<lparr>chunk_free := False\<rparr>)"
  let ?s' = "s\<lparr>chunks := ?h\<rparr>"
  have run: "claim x s = Ret x ?s'"
    using c d nx(2) by (simp add: claim_def chunk_simps)
  have lk: "map_option links (?h y) = map_option links (chunks s y)" for y
    using c d by (auto simp: links_def)
  have cf: "chfree ?s' = (chfree s)(x \<mapsto> False)" using c d by (auto simp: fun_eq_iff)
  have "layout ?s' cs bs so ({y \<in> set cs. chfree s y = Some True} - {x})"
    by (rule layout_cong [OF assms(1)]) (use lk xv d in auto)
  moreover have "chfree ?s' y = Some True \<longleftrightarrow> y \<noteq> x \<and> chfree s y = Some True" for y
    unfolding fun_cong [OF cf] by simp
  then have "{y \<in> set cs. chfree ?s' y = Some True} = {y \<in> set cs. chfree s y = Some True} - {x}" by blast
  ultimately have "heap_ok ?s' cs bs so" by (simp only: heap_ok_layout)
  moreover have "chsize ?s' = chsize s" using links_cong(1) [of ?h "chunks s", OF lk] by simp
  ultimately show ?thesis using run cf by (intro exI [of _ ?s']) simp
qed

definition used :: "'a kheap_scheme \<Rightarrow> ptr set" where
  "used s = {x. chfree s x = Some False}"

lemma take_bit_good: "good_size n \<Longrightarrow> take_bit 30 n = n"
  by (simp add: good_size_def word_unat_eq_iff take_bit_eq_mod unat_mod)

lemma good_size_min: "good_size n \<Longrightarrow> \<not> n < MINIMAL_CHUNK_SIZE"
  by (simp add: good_size_def word_less_nat_alt)

lemma create_good:
  "good_size n \<Longrightarrow> create_chunk a n s = Ret a (s\<lparr>chunks := (chunks s)(a \<mapsto>
     (raw_chunk a s)\<lparr>chunk_size := n, chunk_free := False, prev_free := False\<rparr>)\<rparr>)"
  using take_bit_good good_size_min by (simp add: create_chunk_def)

lemma good_size_diff:
  assumes "good_size m" and "good_size n" and "n \<le> m" and "m - n \<ge> 16"
  shows "good_size (m - n)" and "unat (m - n) = unat m - unat n" and "unat n < unat m"
proof -
  show u: "unat (m - n) = unat m - unat n" using assms(3) by (rule unat_sub)
  then show "unat n < unat m" using assms(4) by (simp add: word_le_nat_alt)
  show "good_size (m - n)" using assms u by (simp add: good_size_def word_le_nat_alt) presburger
qed

lemma split_layout:
  assumes lay: "layout s (us @ x # vs) bs so ({y \<in> set (us @ x # vs). chfree s y = Some True} - {x})"
    and sz: "chsize s x = Some m" "good_size n" "n \<le> m" "m - n \<ge> 16"
    and c: "chunks s x = Some c"
  defines "r \<equiv> raw_chunk (x + n) s"
  defines "h \<equiv> (chunks s)(x \<mapsto> c\<lparr>chunk_size := n, chunk_free := False, prev_free := False\<rparr>,
    x + n \<mapsto> r\<lparr>chunk_size := m - n, chunk_free := False, prev_free := False\<rparr>)"
  shows "heap_ok (s\<lparr>chunks := h\<rparr>) (us @ x # (x + n) # vs) bs so" and "x + n \<notin> dom (chunks s)" and "x + n \<noteq> x"
proof -
  let ?cs = "us @ x # vs" and ?s' = "s\<lparr>chunks := h\<rparr>"
  have ti: "tiles (chsize s) (heap_start s) ?cs (void_chunk s)"
    and dm: "dom (chunks s) = insert (void_chunk s) (set ?cs)" using lay by (auto simp: layout_def)
  note te = tiles_end [OF ti sz(1)]
  note gd = good_size_diff [OF te(4) sz(2-4)]
  have no: "unat x + unat n < 2 ^ 32" using te(5) gd(3) by linarith
  have un: "unat (x + n) = unat x + unat n" by (rule tiles_add [OF no])
  have out: "y \<noteq> x + n" if y: "y \<in> insert (void_chunk s) (set ?cs)" for y
  proof -
    have m: "the (map_option chunk_size (chunks s x)) = m" using sz(1) by auto
    consider "y \<in> set us" | "y = x" | "y \<in> set vs" | "y = void_chunk s" using y by auto
    then have "unat y \<le> unat x \<or> unat x + unat m \<le> unat y"
    proof cases
      case 1
      then show ?thesis using tiles_range [OF te(1)] by fastforce
    next
      case 3
      then show ?thesis using tiles_sorted [OF ti] m by auto
    next
      case 4
      then show ?thesis using tiles_le [OF te(2)] te(6) by simp
    qed simp
    then show ?thesis using un gd(3) sz(2) by (auto simp: good_size_def)
  qed
  then show nd: "x + n \<notin> dom (chunks s)" using dm by blast
  show ne: "x + n \<noteq> x" using out [of x] by simp
  have xv: "x \<noteq> void_chunk s" using tiles_distinct [OF ti] by auto
  have cz: "chsize ?s' = (chsize s)(x \<mapsto> n, x + n \<mapsto> m - n)" using ne by (auto simp: h_def fun_eq_iff)
  have cf: "chfree ?s' = (chfree s)(x \<mapsto> False, x + n \<mapsto> False)" using ne by (auto simp: h_def fun_eq_iff)
  have same: "h y = chunks s y" if "y \<noteq> x" "y \<noteq> x + n" for y using that by (simp add: h_def)
  have same2: "h y = chunks s y" if "y \<in> set us \<or> y \<in> set vs" for y
    using that same [of y] out [of y] tiles_distinct [OF ti] by auto
  have bin: "x \<notin> set (binned bs so)" "x + n \<notin> set (binned bs so)"
    using lay out by (auto simp: layout_def)
  have "tiles (chsize ?s') (heap_start s) us x"
    using te(1) same2 by (subst tiles_cong [where sz' = "chsize s"]) auto
  moreover have "tiles (chsize ?s') (x + m) vs (void_chunk s)"
    using te(2) same2 by (subst tiles_cong [where sz' = "chsize s"]) auto
  moreover have "x + n + (m - n) = x + m" by simp
  moreover have "unat (x + n) + unat (m - n) < 2 ^ 32" using un gd te(5) by simp
  ultimately have "tiles (chsize ?s') (heap_start s) (us @ x # (x + n) # vs) (void_chunk s)"
    using sz(2) gd(1) no ne unfolding cz tiles_append by (auto simp: tiles.simps)
  moreover have "sizebin_ok ?s' i (bs i)" if "i < 5" for i
  proof -
    have "y \<noteq> x \<and> y \<noteq> x + n" if "y \<in> set (bs i)" for y
      using bin binned_sub(1) [OF \<open>i < 5\<close>, of bs so] that by auto
    then show ?thesis using lay that sll_cong [of "bs i" h "chunks s"] same
      by (auto simp: layout_def sizebin_ok_def)
  qed
  moreover have "sortedbin_ok ?s' so"
  proof -
    have *: "y \<noteq> x \<and> y \<noteq> x + n" if "y \<in> set so" for y
      using bin binned_sub(2) [of so bs] that by auto
    then have "map (szn ?s') so = map (szn s) so" using same by simp
    moreover have "sorted_chain ?s' so = sorted_chain s so"
      by (rule sorted_chain_cong) (use * same in auto)
    ultimately show ?thesis using lay by (simp only: layout_def sortedbin_chain) simp
  qed
  moreover have "dom h = insert (void_chunk s) (set (us @ x # (x + n) # vs))" using dm by (auto simp: h_def)
  moreover have fr: "chfree ?s' y = Some True \<longleftrightarrow> y \<noteq> x \<and> y \<noteq> x + n \<and> chfree s y = Some True" for y
    unfolding fun_cong [OF cf] by simp
  have nin: "x + n \<notin> set ?cs" using nd dm by blast
  have "{y \<in> set (us @ x # (x + n) # vs). chfree ?s' y = Some True} =
    {y \<in> set ?cs. chfree s y = Some True} - {x}" unfolding fr using nin by auto
  moreover have "h (void_chunk s) = chunks s (void_chunk s)" using same [of "void_chunk s"] xv out by blast
  ultimately show "heap_ok ?s' (us @ x # (x + n) # vs) bs so"
    using lay unfolding heap_ok_layout layout_def by (simp add: heap_start_def)
qed

text \<open>
  \<open>grew s s' x n\<close>: chunk \<open>x\<close>, of at least \<open>n\<close> bytes, has come into use; all other chunks in
  use keep their sizes.
\<close>

definition grew :: "'a kheap_scheme \<Rightarrow> 'a kheap_scheme \<Rightarrow> ptr \<Rightarrow> u32 \<Rightarrow> bool" where
  "grew s s' x n \<longleftrightarrow> x \<notin> used s \<and> used s' = insert x (used s) \<and>
     (\<forall>y \<in> used s. chsize s' y = chsize s y) \<and> n \<le> the (chsize s' x) \<and>
     mmu.truncate s' = mmu.truncate s \<and> kheap.more s' = kheap.more s"

lemma split_claim:
  assumes lay: "layout s cs bs so ({y \<in> set cs. chfree s y = Some True} - {x})" and x: "x \<in> set cs"
    and fr: "chfree s x = Some True" and n: "good_size n" "n \<le> the (chsize s x)"
  shows "\<exists>s'. bindR (split_chunk x n s) claim = Ret x s' \<and> heap_inv s' \<and> heap_only s s' \<and> grew s s' x n"
proof -
  obtain c where c: "chunks s x = Some c" using fr by auto
  show ?thesis
  proof (cases "chunk_size c - n \<ge> MINIMAL_CHUNK_SIZE")
    case False
    then have "split_chunk x n s = Ret x s" using c by (simp add: split_chunk_def load_Some)
    obtain s' where s': "claim x s = Ret x s'" "heap_ok s' cs bs so" "heap_only s s'"
      "chsize s' = chsize s" "chfree s' = (chfree s)(x \<mapsto> False)" using claim_ok [OF lay x] by blast
    have "used s' = insert x (used s)" unfolding used_def fun_cong [OF s'(5)] fun_upd_apply by auto
    moreover have "x \<notin> used s" unfolding used_def using fr by auto
    ultimately have "grew s s' x n"
      using n(2) heap_only_sels(5,6) [OF s'(3)] unfolding grew_def fun_cong [OF s'(4)] by blast
    moreover have "heap_inv s'" unfolding heap_inv_def using s'(2) by blast
    ultimately show ?thesis using s'(1,3) \<open>split_chunk x n s = Ret x s\<close> by auto
  next
    case True
    obtain us vs where cs: "cs = us @ x # vs" using x by (auto dest: split_list)
    have m: "chsize s x = Some (chunk_size c)" using c by simp
    have nm: "n \<le> chunk_size c" using n(2) c by simp
    have ti: "tiles (chsize s) (heap_start s) (us @ x # vs) (void_chunk s)" using lay cs by (simp add: layout_def)
    have gm: "good_size (chunk_size c)" by (rule tiles_end(4) [OF ti m])
    note gd = good_size_diff [OF gm n(1) nm True]
    let ?r = "raw_chunk (x + n) s"
    let ?c = "c\<lparr>chunk_size := n, chunk_free := False, prev_free := False\<rparr>"
    let ?h = "(chunks s)(x \<mapsto> ?c, x + n \<mapsto> ?r\<lparr>chunk_size := chunk_size c - n, chunk_free := False, prev_free := False\<rparr>)"
    let ?s2 = "s\<lparr>chunks := ?h\<rparr>"
    have ok2: "heap_ok ?s2 (us @ x # (x + n) # vs) bs so" and nd: "x + n \<notin> dom (chunks s)" and ne: "x + n \<noteq> x"
      using split_layout [OF lay [unfolded cs] m n(1) nm True c] by auto
    have rw: "raw_chunk (x + n) (s\<lparr>chunks := (chunks s)(x \<mapsto> ?c)\<rparr>) = ?r"
      using ne by (simp add: raw_chunk_def split: option.split)
    have rx: "raw_chunk x s = c" using c by (simp add: raw_chunk_def)
    have sp: "split_chunk x n s = bindR (kfree (chunk2mem (x + n)) ?s2) (\<lambda>_ s. Ret x s)"
      using True c n(1) gd(1) rx rw by (simp add: split_chunk_def load_Some Let_def create_good)
    have fx: "chfree ?s2 (x + n) = Some False" "chfree ?s2 x = Some False" using ne by auto
    obtain s3 bs' so' where s3: "kfree (chunk2mem (x + n)) ?s2 = Ret () s3"
      "heap_ok s3 (us @ x # (x + n) # vs) bs' so'" "chsize s3 = chsize ?s2"
      "chfree s3 = (chfree ?s2)(x + n \<mapsto> True)" "heap_only ?s2 s3"
      using kfree_heap_ok [OF ok2 _ fx(1)] by auto
    have x3: "chfree s3 x = Some False" using fx(2) ne unfolding fun_cong [OF s3(4)] by simp
    have "layout s3 (us @ x # (x + n) # vs) bs' so'
      ({y \<in> set (us @ x # (x + n) # vs). chfree s3 y = Some True} - {x})"
    proof -
      have "x \<notin> {y \<in> set (us @ x # (x + n) # vs). chfree s3 y = Some True}" using x3 by auto
      then have eq: "{y \<in> set (us @ x # (x + n) # vs). chfree s3 y = Some True} - {x} =
        {y \<in> set (us @ x # (x + n) # vs). chfree s3 y = Some True}" by blast
      show ?thesis unfolding eq using s3(2) by (simp only: heap_ok_layout)
    qed
    then obtain s4 where s4: "claim x s3 = Ret x s4" "heap_ok s4 (us @ x # (x + n) # vs) bs' so'"
      "heap_only s3 s4" "chsize s4 = chsize s3" "chfree s4 = (chfree s3)(x \<mapsto> False)"
      using claim_ok [of s3 "us @ x # (x + n) # vs" bs' so' x] by auto
    have run: "bindR (split_chunk x n s) claim = Ret x s4" using sp s3(1) s4(1) by simp
    have ho: "heap_only s s4"
      by (rule heap_only_trans [OF heap_only_trans [OF _ s3(5)] s4(3)]) simp
    have f4: "chfree s4 y = (if y = x then Some False else if y = x + n then Some True else chfree s y)" for y
      unfolding fun_cong [OF s4(5)] fun_upd_apply fun_cong [OF s3(4)] using ne by simp
    have z4: "chsize s4 y = (if y = x then Some n else if y = x + n then Some (chunk_size c - n) else chsize s y)" for y
      unfolding fun_cong [OF s4(4)] fun_cong [OF s3(3)] using ne by simp
    have nu: "chfree s (x + n) \<noteq> Some False" using nd by auto
    have "used s4 = insert x (used s)" unfolding used_def f4 using nu by auto
    moreover have "\<forall>y \<in> used s. chsize s4 y = chsize s y" unfolding z4 using nu fr by (auto simp: used_def)
    moreover have "the (chsize s4 x) = n" unfolding z4 by simp
    moreover have "x \<notin> used s" unfolding used_def using fr by auto
    ultimately have "grew s s4 x n" using heap_only_sels(5,6) [OF ho] by (simp add: grew_def)
    moreover have "heap_inv s4" unfolding heap_inv_def using s4(2) by blast
    ultimately show ?thesis using run ho by blast
  qed
qed

lemma find_free_chunk_ok:
  assumes ok: "heap_ok s cs bs so" and n: "good_size n"
  shows "find_free_chunk n s = Ret 0 s \<or>
    (\<exists>x s'. find_free_chunk n s = Ret x s' \<and> x \<noteq> 0 \<and> heap_inv s' \<and> heap_only s s' \<and> grew s s' x n)"
proof -
  from take_chunk_ok [OF ok, of n] consider "take_chunk n s = Ret 0 s"
    | x s1 bs' so' where "take_chunk n s = Ret x s1" "x \<noteq> 0" "detached s s1 x bs so bs' so'" "n \<le> the (chsize s x)"
    by blast
  then show ?thesis
  proof cases
    case 1
    then show ?thesis by (simp add: find_free_chunk_eq)
  next
    case 2
    have lay: "layout s cs bs so {y \<in> set cs. chfree s y = Some True}" using ok by (simp only: heap_ok_layout)
    have l1: "layout s1 cs bs' so' ({y \<in> set cs. chfree s y = Some True} - {x})"
      and x: "x \<in> {y \<in> set cs. chfree s y = Some True}"
      using detached_layout [OF lay 2(3)] by auto
    have d: "heap_only s s1" "chsize s1 = chsize s" "chfree s1 = chfree s" using 2(3) by (auto simp: detached_def)
    note f1 = fun_cong [OF d(3)] and z1 = fun_cong [OF d(2)]
    have "\<exists>s'. bindR (split_chunk x n s1) claim = Ret x s' \<and> heap_inv s' \<and> heap_only s1 s' \<and> grew s1 s' x n"
      by (rule split_claim) (use l1 x n 2(4) f1 z1 in auto)
    then obtain s' where s': "bindR (split_chunk x n s1) claim = Ret x s'" "heap_inv s'" "heap_only s1 s'" "grew s1 s' x n"
      by blast
    have "used s1 = used s" unfolding used_def f1 ..
    then have "grew s s' x n" using s'(4) z1 heap_only_sels(5,6) [OF d(1)] by (simp add: grew_def)
    then show ?thesis using 2 s' heap_only_trans [OF d(1) s'(3)]
      by (intro disjI2 exI [of _ x] exI [of _ s']) (simp add: find_free_chunk_eq)
  qed
qed

lemma align_request_ok:
  assumes "unat sz < 2 ^ 30 - 64"
  shows "good_size (align_request sz)" and "unat sz + 8 \<le> unat (align_request sz)"
    and "unat (align_request sz) \<le> unat sz + 24"
proof -
  define k where "k = unat sz"
  have k: "k < 2 ^ 30 - 64" using assms by (simp add: k_def)
  have m: "unat (sz mod 16) = k mod 16" by (simp add: k_def unat_mod)
  have le: "sz mod 16 \<le> sz" by (simp add: word_le_nat_alt m) (simp add: k_def)
  have d: "unat (sz - sz mod 16) = k - k mod 16" using le by (simp add: unat_sub m) (simp add: k_def)
  have a1: "unat (sz - sz mod 16 + 16) = k - k mod 16 + 16"
    using k by (subst unat_add_no_wrap) (simp_all add: d)
  have s8: "unat (sz + 8) = k + 8" using k by (subst unat_add_no_wrap) (simp_all add: k_def)
  define a where "a = (if sz mod 16 > 0 then (sz - sz mod 16) + 16 else sz)"
  have ua: "unat a = (if k mod 16 > 0 then k - k mod 16 + 16 else k)"
    using a1 m by (simp add: a_def word_less_nat_alt k_def)
  have ar: "align_request sz = (if sz + 8 > a then a + 16 else a)"
    by (simp add: align_request_def a_def Let_def)
  have a16: "unat (a + 16) = unat a + 16" using k ua by (subst unat_add_no_wrap) (auto split: if_splits)
  have ur: "unat (align_request sz) = (if k + 8 > unat a then unat a + 16 else unat a)"
    using a16 by (simp add: ar word_less_nat_alt s8)
  have mod0: "unat a mod 16 = 0" unfolding ua by (cases "k mod 16 = 0") (auto, presburger)
  have bd: "k \<le> unat a" "unat a < k + 16" unfolding ua using mod_less_divisor [of 16 k] by auto
  show "unat sz + 8 \<le> unat (align_request sz)" "unat (align_request sz) \<le> unat sz + 24"
    unfolding ur k_def [symmetric] using bd by auto
  have "unat (align_request sz) mod 16 = 0" unfolding ur using mod0 by (simp add: mod_add_eq [symmetric])
  moreover have "16 \<le> unat a" if "k + 8 \<le> unat a" using mod0 that by presburger
  then have "16 \<le> unat (align_request sz)" unfolding ur by simp
  moreover have "unat (align_request sz) < 2 ^ 30" unfolding ur using bd k by auto
  ultimately show "good_size (align_request sz)" by (simp add: good_size_def)
qed

definition heap_end :: "'a kheap_scheme \<Rightarrow> nat" where
  "heap_end s = unat (void_chunk s) + unat (the (chsize s (void_chunk s)))"

lemma carve_ok:
  assumes ok: "heap_ok s cs bs so" and n: "good_size n" "n \<le> chunk_size v"
    and v: "chunks s (void_chunk s) = Some v" and room: "heap_end s + 16 < 2 ^ 32"
  shows "\<exists>s'. bindR (create_chunk (void_chunk s) n s) (\<lambda>x t.
       bindR (set_void_chunk (void_chunk s + n) (chunk_size v - n) t) (\<lambda>_ t. Ret x t)) = Ret (void_chunk s) s' \<and>
    heap_inv s' \<and> grew s s' (void_chunk s) n \<and> void_chunk s' = void_chunk s + n \<and>
    heap_end s \<le> heap_end s' \<and> heap_end s' \<le> heap_end s + 16 \<and>
    (n + 16 \<le> chunk_size v \<longrightarrow> heap_end s' = heap_end s) \<and>
    chfree s' = (chfree s)(void_chunk s \<mapsto> False, void_chunk s + n \<mapsto> True)"
proof -
  let ?x = "void_chunk s"
  have gv: "void_size (chunk_size v)" and fv: "chunk_free v" and ti: "tiles (chsize s) (heap_start s) cs ?x"
    and dm: "dom (chunks s) = insert ?x (set cs)" using ok v by (auto simp: heap_ok_def)
  have he: "heap_end s = unat ?x + unat (chunk_size v)" using v by (simp add: heap_end_def)
  have nv: "unat n \<le> unat (chunk_size v)" using n(2) by (simp add: word_le_nat_alt)
  have no: "unat ?x + unat n < 2 ^ 32" using nv he room by linarith
  have un: "unat (?x + n) = unat ?x + unat n" by (rule tiles_add [OF no])
  define k where "k = (if chunk_size v - n < 16 then 16 else chunk_size v - n)"
  have un2: "unat (chunk_size v - n) = unat (chunk_size v) - unat n" using n(2) by (rule unat_sub)
  have uk: "unat k = max 16 (unat (chunk_size v) - unat n)"
    by (simp add: k_def un2 word_less_nat_alt max_def)
  have gk: "void_size k" using uk gv unfolding void_size_def by linarith
  then have tk: "take_bit 30 k = k" by (simp add: void_size_def word_unat_eq_iff take_bit_eq_mod unat_mod)
  have cr: "create_chunk a (chunk_size v - n) t = Ret a (t\<lparr>chunks := (chunks t)(a \<mapsto>
     (raw_chunk a t)\<lparr>chunk_size := k, chunk_free := False, prev_free := False\<rparr>)\<rparr>)" for a and t :: "'a kheap_scheme"
    using tk by (simp add: create_chunk_def k_def Let_def split: if_splits)
  have ends: "heap_end s \<le> unat ?x + unat n + unat k" "unat ?x + unat n + unat k \<le> heap_end s + 16"
    "n + 16 \<le> chunk_size v \<longrightarrow> unat ?x + unat n + unat k = heap_end s"
  proof -
    show "heap_end s \<le> unat ?x + unat n + unat k" "unat ?x + unat n + unat k \<le> heap_end s + 16"
      using uk he nv by auto
    have "unat (n + 16) = unat n + 16"
      using n(1) by (subst unat_add_no_wrap) (simp_all add: good_size_def)
    then show "n + 16 \<le> chunk_size v \<longrightarrow> unat ?x + unat n + unat k = heap_end s"
      using uk he by (simp add: word_le_nat_alt)
  qed
  have ne: "?x + n \<noteq> ?x" and nin: "?x + n \<notin> set cs"
    using un n(1) tiles_range [OF ti, of "?x + n"] by (auto simp: good_size_def)
  have xin: "?x \<notin> set cs" using tiles_distinct [OF ti] by auto
  let ?c = "v\<lparr>chunk_size := n, chunk_free := False, prev_free := False\<rparr>"
  let ?d = "(raw_chunk (?x + n) s)\<lparr>chunk_size := k, prev_free := False, chunk_free := True\<rparr>"
  let ?h = "(chunks s)(?x \<mapsto> ?c, ?x + n \<mapsto> ?d)"
  let ?s' = "s\<lparr>void_chunk := ?x + n, chunks := ?h\<rparr>"
  have rw: "raw_chunk (?x + n) (s\<lparr>chunks := (chunks s)(?x \<mapsto> ?c)\<rparr>) = raw_chunk (?x + n) s"
    using ne by (simp add: raw_chunk_def split: option.split)
  have rx: "raw_chunk ?x s = v" using v by (simp add: raw_chunk_def)
  have run: "bindR (create_chunk ?x n s) (\<lambda>x s.
       bindR (set_void_chunk (?x + n) (chunk_size v - n) s) (\<lambda>_ s. Ret x s)) = Ret ?x ?s'"
    using v rw rx
    by (simp add: create_good [OF n(1)] set_void_chunk_def cr chunk_simps comp_def)
  have same: "?h y = chunks s y" if "y \<in> set cs" for y using that nin xin by auto
  have bin: "?x \<notin> set (binned bs so)" "set (binned bs so) \<subseteq> set cs" using ok xin by (auto simp: heap_ok_def)
  have ti': "tiles (chsize ?s') (heap_start s) (cs @ [?x]) (?x + n)"
  proof -
    have "tiles (chsize ?s') (heap_start s) cs ?x"
      using ti same by (subst tiles_cong [where sz' = "chsize s"]) auto
    then show ?thesis using n(1) no ne by (auto simp: tiles_append)
  qed
  have "sizebin_ok ?s' i (bs i)" if "i < 5" for i
    using ok that same bin(2) binned_sub(1) [OF that, of bs so] sll_cong [of "bs i" ?h "chunks s"]
    by (auto simp: heap_ok_def sizebin_ok_def subset_iff)
  moreover have "sortedbin_ok ?s' so"
  proof -
    have *: "?h y = chunks s y" if "y \<in> set so" for y
      by (rule same) (use bin(2) binned_sub(2) [of so bs] that in blast)
    then have "map (szn ?s') so = map (szn s) so" by (intro map_cong refl) (simp del: fun_upd_apply)
    moreover have "sorted_chain ?s' so = sorted_chain s so"
      by (rule sorted_chain_cong) (use * in \<open>simp_all del: fun_upd_apply\<close>)
    ultimately show ?thesis using ok by (simp only: heap_ok_def sortedbin_chain) simp
  qed
  moreover have "{y \<in> set (cs @ [?x]). chfree ?s' y = Some True} = {y \<in> set cs. chfree s y = Some True}"
    using nin xin ne by auto
  moreover have "dom ?h = insert (?x + n) (set (cs @ [?x]))" using dm by auto
  moreover have "unat (?x + n) + unat k < 2 ^ 32" using ends(2) un room by linarith
  ultimately have "heap_ok ?s' (cs @ [?x]) bs so"
    using ok ti' gk unfolding heap_ok_layout layout_def by (simp add: heap_start_def)
  then have "heap_inv ?s'" unfolding heap_inv_def by blast
  moreover have "grew s ?s' ?x n"
  proof -
    have xu: "?x \<notin> used s" using v fv by (simp add: used_def)
    have "?x + n \<notin> dom (chunks s)" unfolding dm using nin ne by blast
    then have "chunks s (?x + n) = None" by auto
    then have "used ?s' = insert ?x (used s)" "\<forall>y \<in> used s. chsize ?s' y = chsize s y"
      using ne xu by (auto simp: used_def)
    then show ?thesis using xu ne by (simp add: grew_def mmu.truncate_def)
  qed
  moreover have "heap_end ?s' = unat ?x + unat n + unat k" using un by (simp add: heap_end_def)
  moreover have "chfree ?s' = (chfree s)(?x \<mapsto> False, ?x + n \<mapsto> True)" using ne by (auto simp: fun_eq_iff)
  ultimately show ?thesis using run ends by (intro exI [of _ ?s']) simp
qed

section \<open>Correctness of the allocator\<close>

lemma live_used: "live s = chunk2mem ` used s"
proof (intro equalityI subsetI)
  fix p assume "p \<in> live s"
  then show "p \<in> chunk2mem ` used s"
    by (intro image_eqI [of _ _ "mem2chunk p"]) (auto simp: live_def used_def chunk2mem_def mem2chunk_def)
qed (auto simp: live_def used_def chunk2mem_def mem2chunk_def)

lemma chunk2mem_inj: "chunk2mem x = chunk2mem y \<longleftrightarrow> x = y"
  by (simp add: chunk2mem_def)

lemma used_tiles: "heap_ok s cs bs so \<Longrightarrow> used s \<subseteq> set cs"
proof
  fix x assume ok: "heap_ok s cs bs so" and x: "x \<in> used s"
  have "x \<in> dom (chunks s)" using x by (auto simp: used_def)
  then have "x = void_chunk s \<or> x \<in> set cs" using ok by (auto simp: heap_ok_def)
  moreover have "x \<noteq> void_chunk s" using ok x by (auto simp: heap_ok_def used_def)
  ultimately show "x \<in> set cs" by simp
qed

lemma grew_live:
  assumes "grew s s' x n"
  shows "chunk2mem x \<notin> live s" and "live s' = insert (chunk2mem x) (live s)"
    and "\<forall>q \<in> live s. usable s' q = usable s q" and "unat n - 8 \<le> usable s' (chunk2mem x)"
proof -
  have g: "x \<notin> used s" "used s' = insert x (used s)" "\<forall>y \<in> used s. chsize s' y = chsize s y" "n \<le> the (chsize s' x)"
    using assms by (auto simp: grew_def)
  show "chunk2mem x \<notin> live s" using g(1) by (auto simp: live_used chunk2mem_inj)
  show "live s' = insert (chunk2mem x) (live s)" using g(2) by (simp add: live_used)
  show "\<forall>q \<in> live s. usable s' q = usable s q"
    using g(3) unfolding live_used usable_def by (auto simp: mem2chunk_def chunk2mem_def)
  show "unat n - 8 \<le> usable s' (chunk2mem x)"
    using g(4) by (simp add: usable_def mem2chunk_def chunk2mem_def word_le_nat_alt diff_le_mono)
qed

lemma void_nonzero: "heap_ok s cs bs so \<Longrightarrow> void_chunk s \<noteq> 0"
proof -
  assume "heap_ok s cs bs so"
  then have "unat (heap_start s) \<le> unat (void_chunk s)" "heap_start s \<noteq> 0"
    using tiles_le by (auto simp: heap_ok_def)
  then show ?thesis by (auto simp: word_unat_eq_iff)
qed

lemma kmalloc_carve:
  assumes ok: "heap_ok s cs bs so" and sz: "unat sz < 2 ^ 30 - 64" and room: "heap_end s + 16 < 2 ^ 32"
    and ff: "find_free_chunk (align_request sz) s = Ret 0 s"
    and v: "chunks s (void_chunk s) = Some v" "align_request sz \<le> chunk_size v"
  shows "\<exists>s'. kmalloc sz s = Ret (chunk2mem (void_chunk s)) s' \<and> heap_inv s' \<and>
    grew s s' (void_chunk s) (align_request sz) \<and> void_chunk s' = void_chunk s + align_request sz \<and>
    heap_end s \<le> heap_end s' \<and> heap_end s' \<le> heap_end s + 16 \<and>
    (align_request sz + 16 \<le> chunk_size v \<longrightarrow> heap_end s' = heap_end s) \<and>
    chfree s' = (chfree s)(void_chunk s \<mapsto> False, void_chunk s + align_request sz \<mapsto> True)"
proof -
  let ?n = "align_request sz"
  have n: "good_size ?n" using align_request_ok [OF sz] by simp
  have init: "is_initialized s" using ok by (simp add: heap_ok_def)
  obtain s' where s': "bindR (create_chunk (void_chunk s) ?n s) (\<lambda>x t.
     bindR (set_void_chunk (void_chunk s + ?n) (chunk_size v - ?n) t) (\<lambda>_ t. Ret x t)) = Ret (void_chunk s) s'"
    "heap_inv s' \<and> grew s s' (void_chunk s) ?n \<and> void_chunk s' = void_chunk s + ?n \<and>
     heap_end s \<le> heap_end s' \<and> heap_end s' \<le> heap_end s + 16 \<and> (?n + 16 \<le> chunk_size v \<longrightarrow> heap_end s' = heap_end s) \<and>
     chfree s' = (chfree s)(void_chunk s \<mapsto> False, void_chunk s + ?n \<mapsto> True)"
    using carve_ok [OF ok n v(2,1) room] by blast
  have "kmalloc sz s = Ret (chunk2mem (void_chunk s)) s'"
    using init ff v s'(1) void_nonzero [OF ok]
    by (simp add: kmalloc_def load_Some Let_def create_good [OF n] split: res.splits)
  with s'(2) show ?thesis by blast
qed

text \<open>The parts of \<open>kmalloc\<close> once the heap is set up.\<close>

lemma kmalloc_cases:
  assumes inv: "heap_inv s" and sz: "unat sz < 2 ^ 30 - 64" and room: "heap_end s + 16 < 2 ^ 32"
  shows "(\<exists>x s'. kmalloc sz s = Ret (chunk2mem x) s' \<and> heap_inv s' \<and> grew s s' x (align_request sz) \<and>
      (heap_only s s' \<or> x = void_chunk s \<and> void_chunk s' = x + align_request sz \<and>
         heap_end s' \<le> heap_end s + 16 \<and>
         (align_request sz + 16 \<le> the (chsize s (void_chunk s)) \<longrightarrow> heap_end s' = heap_end s))) \<or>
    (kmalloc sz s = Panic ''[PANIC] kmalloc run out of memory!'' \<and>
      the (chsize s (void_chunk s)) < align_request sz)"
proof -
  let ?n = "align_request sz"
  have n: "good_size ?n" using align_request_ok [OF sz] by simp
  obtain cs bs so where ok: "heap_ok s cs bs so" using inv by (auto simp: heap_inv_def)
  then obtain v where v: "chunks s (void_chunk s) = Some v" and init: "is_initialized s"
    by (auto simp: heap_ok_def)
  from find_free_chunk_ok [OF ok n] show ?thesis
  proof (elim disjE exE conjE)
    assume ff: "find_free_chunk ?n s = Ret 0 s"
    show ?thesis
    proof (cases "?n \<le> chunk_size v")
      case True
      from kmalloc_carve [OF ok sz room ff v True] show ?thesis using v by fastforce
    next
      case False
      then have "kmalloc sz s = Panic ''[PANIC] kmalloc run out of memory!''"
        using init ff v by (simp add: kmalloc_def load_Some Let_def)
      then show ?thesis using False v by simp
    qed
  next
    fix x s' assume x: "find_free_chunk ?n s = Ret x s'" "x \<noteq> 0" "heap_inv s'" "heap_only s s'" "grew s s' x ?n"
    then have "kmalloc sz s = Ret (chunk2mem x) s'" using init by (simp add: kmalloc_def Let_def)
    then show ?thesis using x by blast
  qed
qed

text \<open>
  C8: \<open>kmalloc\<close> hands out memory that nobody else holds. From a well-formed heap a request that
  fits the 30-bit size field either returns a pointer that was not live, with at least the
  requested number of usable bytes, keeps the heap well formed and leaves every other live block
  with its size, or panics, and then the rest of the heap area is smaller than the rounded
  request. It never faults and never loops.
\<close>

theorem kmalloc_correct:
  assumes "heap_inv s" and "unat sz < 2 ^ 30 - 64" and "heap_end s + 16 < 2 ^ 32"
  shows "(\<exists>p s'. kmalloc sz s = Ret p s' \<and> p \<notin> live s \<and> p \<noteq> NULL \<and> live s' = insert p (live s) \<and>
      unat sz \<le> usable s' p \<and> (\<forall>q \<in> live s. usable s' q = usable s q) \<and> heap_inv s') \<or>
    (kmalloc sz s = Panic ''[PANIC] kmalloc run out of memory!'' \<and>
      the (chsize s (void_chunk s)) < align_request sz)"
proof -
  consider x s' where "kmalloc sz s = Ret (chunk2mem x) s'" "heap_inv s'" "grew s s' x (align_request sz)"
    | "kmalloc sz s = Panic ''[PANIC] kmalloc run out of memory!''"
      "the (chsize s (void_chunk s)) < align_request sz"
    using kmalloc_cases [OF assms] by blast
  then show ?thesis
  proof cases
    case a: 1
    obtain cs bs so where ok: "heap_ok s' cs bs so" using a(2) by (auto simp: heap_inv_def)
    have "x \<in> set cs" using used_tiles [OF ok] a(3) by (auto simp: grew_def)
    then have "chunk2mem x \<noteq> 0" by (rule heap_okD(2) [OF ok])
    moreover have "unat sz \<le> usable s' (chunk2mem x)"
      using grew_live(4) [OF a(3)] align_request_ok(2) [OF assms(2)] by linarith
    ultimately show ?thesis using a grew_live [OF a(3)] by blast
  qed simp
qed

text \<open>
  Live blocks never overlap: in a well-formed heap the blocks behind two different live
  pointers are disjoint, including the header in front of each, and all of them lie inside the
  heap area below the void chunk.
\<close>

lemma live_blocks_disjoint:
  assumes "heap_inv s" and "p \<in> live s" and "q \<in> live s" and "p \<noteq> q"
  shows "(unat p + usable s p \<le> unat (mem2chunk q) \<or> unat q + usable s q \<le> unat (mem2chunk p)) \<and>
    unat (heap_start s) \<le> unat (mem2chunk p) \<and> unat p + usable s p \<le> unat (void_chunk s)"
proof -
  obtain cs bs so where ok: "heap_ok s cs bs so" using assms(1) by (auto simp: heap_inv_def)
  have ti: "tiles (chsize s) (heap_start s) cs (void_chunk s)" using ok by (simp add: heap_ok_def)
  have ends: "mem2chunk r \<in> set cs \<and> unat r = unat (mem2chunk r) + 8 \<and>
    unat r + usable s r = unat (mem2chunk r) + unat (the (chsize s (mem2chunk r))) \<and>
    unat (heap_start s) \<le> unat (mem2chunk r) \<and> unat r + usable s r \<le> unat (void_chunk s)"
    if r: "r \<in> live s" for r
  proof -
    obtain x where x: "r = chunk2mem x" "x \<in> set cs" using r used_tiles [OF ok] by (auto simp: live_used)
    then show ?thesis
      using heap_okD(4,5,6) [OF ok x(2)] tiles_range [OF ti x(2)] by (auto simp: usable_def good_size_def)
  qed
  have "mem2chunk p \<noteq> mem2chunk q" using assms(4) by (simp add: mem2chunk_def)
  then show ?thesis
    using ends [OF assms(2)] ends [OF assms(3)] tiles_disjoint [OF ti, of "mem2chunk p" "mem2chunk q"] by auto
qed

lemma kfree_live:
  assumes "heap_inv s" and "p \<in> live s"
  shows "\<exists>s'. kfree p s = Ret () s' \<and> heap_inv s' \<and> live s' = live s - {p} \<and> (\<forall>q. usable s' q = usable s q)"
proof -
  obtain cs bs so where ok: "heap_ok s cs bs so" using assms(1) by (auto simp: heap_inv_def)
  obtain x where x: "p = chunk2mem x" "x \<in> used s" using assms(2) by (auto simp: live_used)
  have xc: "x \<in> set cs" "chfree s x = Some False" using used_tiles [OF ok] x(2) by (auto simp: used_def)
  obtain s' bs' so' where s': "kfree p s = Ret () s'" "heap_ok s' cs bs' so'" "chsize s' = chsize s"
    "chfree s' = (chfree s)(x \<mapsto> True)" using kfree_heap_ok [OF ok xc] x(1) by blast
  have "live s' = live s - {p}"
    unfolding live_def fun_cong [OF s'(4)] using x(1) by (auto simp: chunk2mem_def mem2chunk_def)
  moreover have "usable s' q = usable s q" for q unfolding usable_def fun_cong [OF s'(3)] ..
  ultimately show ?thesis using s'(1,2) by (auto simp: heap_inv_def)
qed

text \<open>
  C10: \<open>kfree\<close> releases exactly one block: on a live pointer it returns, the pointer is no longer
  live, every other live block keeps its size and the heap stays well formed. On a pointer to a
  block that is already free it stops the kernel instead of corrupting the lists.
\<close>

theorem kfree_correct:
  assumes "heap_inv s"
  shows "(p \<in> live s \<longrightarrow> (\<exists>s'. kfree p s = Ret () s' \<and> heap_inv s' \<and> live s' = live s - {p} \<and>
      (\<forall>q. usable s' q = usable s q))) \<and>
    (p \<noteq> NULL \<and> chfree s (mem2chunk p) = Some True \<longrightarrow> kfree p s = Panic ''[BUG] kfree double free prevention'')"
proof (intro conjI impI)
  show "\<exists>s'. kfree p s = Ret () s' \<and> heap_inv s' \<and> live s' = live s - {p} \<and> (\<forall>q. usable s' q = usable s q)"
    if "p \<in> live s" by (rule kfree_live [OF assms that])
next
  assume "p \<noteq> NULL \<and> chfree s (mem2chunk p) = Some True"
  moreover have "is_initialized s" using assms by (auto simp: heap_inv_def heap_ok_def)
  ultimately show "kfree p s = Panic ''[BUG] kfree double free prevention''"
    by (auto simp: kfree_def load_Some Let_def)
qed

lemma align_request_small:
  assumes "sz \<le> 8"
  shows "align_request sz = 16"
proof -
  have "sz \<in> {0, 1, 2, 3, 4, 5, 6, 7, 8}"
  proof -
    have "unat sz \<le> 8" using assms by (simp add: word_le_nat_alt)
    then have "unat sz = 0 \<or> unat sz = 1 \<or> unat sz = 2 \<or> unat sz = 3 \<or> unat sz = 4 \<or> unat sz = 5 \<or>
      unat sz = 6 \<or> unat sz = 7 \<or> unat sz = 8" by arith
    then show ?thesis by (auto simp: word_unat_eq_iff)
  qed
  then show ?thesis by (auto simp: align_request_def)
qed

text \<open>
  An exhausted heap does not report exhaustion to small requests. When no chunk is free and
  the void chunk has shrunk to the 16 bytes that \<^verbatim>\<open>_create_chunk\<close> never goes below, a request of
  at most eight bytes still succeeds, the end of the heap moves up by 16 bytes and the void
  chunk again claims 16 bytes, so the same holds of the next request: the heap grows over
  \<^verbatim>\<open>VM_KMALLOC_END\<close> without bound.
\<close>

theorem kmalloc_exhausted_grows:
  assumes "heap_inv s" and "\<forall>x. chfree s x = Some True \<longrightarrow> x = void_chunk s"
    and "chsize s (void_chunk s) = Some 16" and "heap_end s + 16 < 2 ^ 32" and "sz \<le> 8"
  shows "\<exists>s'. kmalloc sz s = Ret (chunk2mem (void_chunk s)) s' \<and> heap_inv s' \<and>
    heap_end s' = heap_end s + 16 \<and> chsize s' (void_chunk s') = Some 16 \<and>
    (\<forall>x. chfree s' x = Some True \<longrightarrow> x = void_chunk s')"
proof -
  have small: "unat sz < 2 ^ 30 - 64" using assms(5) by (simp add: word_le_nat_alt)
  have n16: "align_request sz = 16" by (rule align_request_small [OF assms(5)])
  obtain cs bs so where ok: "heap_ok s cs bs so" using assms(1) by (auto simp: heap_inv_def)
  obtain v where v: "chunks s (void_chunk s) = Some v" "chunk_size v = 16" using assms(3) by auto
  have em: "set (binned bs so) = {}"
  proof -
    have "void_chunk s \<notin> set cs" using heap_okD(3) [OF ok] by blast
    then show ?thesis using ok assms(2) by (auto simp: heap_ok_def)
  qed
  have "find_free_chunk (align_request sz) s = Ret 0 s"
    using take_chunk_ok [OF ok, of "align_request sz"] em by (auto simp: find_free_chunk_eq detached_def)
  from kmalloc_carve [OF ok small assms(4) this v(1)] v(2) n16
  obtain s' where s': "kmalloc sz s = Ret (chunk2mem (void_chunk s)) s'" "heap_inv s'"
    "grew s s' (void_chunk s) 16" "void_chunk s' = void_chunk s + 16" "heap_end s' \<le> heap_end s + 16"
    "chfree s' = (chfree s)(void_chunk s \<mapsto> False, void_chunk s + 16 \<mapsto> True)"
    by auto
  have nf: "chfree s' x = Some True \<longrightarrow> x = void_chunk s'" for x
    unfolding fun_cong [OF s'(6)] s'(4) using assms(2) by auto
  obtain w where w: "chunks s' (void_chunk s') = Some w" "16 \<le> unat (chunk_size w)"
    using s'(2) by (auto simp: heap_inv_def heap_ok_def void_size_def)
  have he: "heap_end s = unat (void_chunk s) + 16" using v by (simp add: heap_end_def)
  have "unat (void_chunk s + 16) = unat (void_chunk s) + 16"
    using he assms(4) by (subst unat_add_no_wrap) simp_all
  then have "heap_end s' = unat (void_chunk s) + 16 + unat (chunk_size w)" using w s'(4) by (simp add: heap_end_def)
  then have e: "heap_end s' = heap_end s + 16" "unat (chunk_size w) = 16" using w(2) s'(5) he by auto
  then have "chunk_size w = 16" by (simp add: word_unat_eq_iff)
  then show ?thesis using s'(1,2) nf e w by auto
qed

section \<open>The first call\<close>

lemma binned_empty [simp]: "binned (\<lambda>_. []) so = so"
proof -
  have "concat (map (\<lambda>_. []) xs) = []" for xs :: "nat list" by (induction xs) auto
  then show ?thesis by (simp add: binned_def)
qed

definition empty_bins :: "nat \<Rightarrow> bin" where
  "empty_bins i = \<lparr>stored_size = (if i < 5 then 32 + of_nat i * 16 else 0), counter = 0,
     bin_first = NULL, bin_last = NULL\<rparr>"

lemma malloc_init_bins:
  "malloc_init_bin SORTEDBIN_IDX 0
     (fold (\<lambda>i. malloc_init_bin i (32 + of_nat i * CHUNK_ALIGNMENT)) [0 ..< SIZEBINS] s) =
   s\<lparr>bins := (\<lambda>i. if i \<le> 5 then empty_bins i else bins s i)\<rparr>"
proof -
  have "[0 ..< 5] = [0, 1, 2, 3, 4 :: nat]" by (simp add: upt_rec)
  then show ?thesis
    by (simp add: malloc_init_bin_def set_bin_def)
      (rule kheap.equality, auto simp: fun_eq_iff empty_bins_def le_Suc_eq numeral_eq_Suc)
qed

text \<open>
  The first call of \<open>kmalloc\<close> sets up a well-formed heap in which nothing is live and whose
  void chunk starts a page above the kernel image. Since the macro \<^verbatim>\<open>VM_KMALLOC_START\<close> lacks
  parentheses, the void chunk does not end at \<^verbatim>\<open>VM_KMALLOC_END\<close> (\<open>0xd0000000\<close>) but 8 KiB above
  it, inside the area that \<open>vmalloc\<close> manages.
\<close>

theorem malloc_init_correct:
  assumes "chunks s = Map.empty" and "0xc0000000 \<le> kernel_end s" and "kernel_end s < 0xcff00000"
  shows "\<exists>s'. malloc_init s = Ret () s' \<and> heap_inv s' \<and> live s' = {} \<and>
    void_chunk s' = kernel_end s + 0x1000 \<and> heap_end s' = unat VM_KMALLOC_END + 0x2000"
proof -
  let ?k = "kernel_end s"
  have k: "3221225472 \<le> unat ?k" "unat ?k < 3488612352"
    using assms(2,3) by (auto simp: word_le_nat_alt word_less_nat_alt)
  have st: "unat (?k + 0x1000) = unat ?k + 4096" using k by (subst unat_add_no_wrap) simp_all
  have le: "?k \<le> 0xd0000000" using k by (simp add: word_le_nat_alt)
  have "unat (0xd0000000 - ?k) = 3489660928 - unat ?k" using unat_sub [OF le] by simp
  then have sz: "unat (0xd0000000 - ?k + 0x1000) = 3489660928 - unat ?k + 4096"
    using k by (subst unat_add_no_wrap) simp_all
  let ?n = "0xd0000000 - ?k + 0x1000"
  have vs: "void_size ?n" unfolding void_size_def sz using k by simp linarith
  then have tk: "take_bit 30 ?n = ?n" by (simp add: void_size_def word_unat_eq_iff take_bit_eq_mod unat_mod)
  have ge: "\<not> ?n < 16" using vs by (simp add: void_size_def word_less_nat_alt)
  let ?a = "?k + 0x1000"
  let ?v = "(raw_chunk ?a s)\<lparr>chunk_size := ?n, prev_free := False, chunk_free := True\<rparr>"
  let ?b = "\<lambda>i. if i \<le> 5 then empty_bins i else bins s i"
  let ?s' = "s\<lparr>bins := ?b, void_chunk := ?a, chunks := [?a \<mapsto> ?v], is_initialized := True\<rparr>"
  have run: "malloc_init s = Ret () ?s'"
    unfolding malloc_init_def Let_def malloc_init_bins
    using assms(1) tk ge by (simp add: create_chunk_def chunk_simps raw_chunk_def comp_def)
  have "sizebin_ok ?s' i []" if "i < 5" for i using that by (simp add: sizebin_ok_def empty_bins_def)
  moreover have "sortedbin_ok ?s' []" by (simp add: sortedbin_ok_def empty_bins_def dlist_def)
  moreover have "?a \<noteq> 0" using st by auto
  ultimately have "heap_ok ?s' [] (\<lambda>_. []) []"
    using vs k st sz by (simp add: heap_ok_def heap_start_def)
  then have "heap_inv ?s'" unfolding heap_inv_def by blast
  moreover have "live ?s' = {}" by (auto simp: live_def split: if_splits)
  moreover have "heap_end ?s' = unat VM_KMALLOC_END + 0x2000" using st sz k by (simp add: heap_end_def)
  ultimately show ?thesis using run by auto
qed

section \<open>The interface of the allocator\<close>

text \<open>
  What the rest of the kernel relies on: an allocation is fresh, a release ends it, and both
  leave all other blocks alone. \<open>fits_request n s\<close> is the condition under which the laws hold.
\<close>

locale allocator =
  fixes alloc :: "u32 \<Rightarrow> 's \<Rightarrow> (ptr, 's) res"
    and release :: "ptr \<Rightarrow> 's \<Rightarrow> (unit, 's) res"
    and allocated :: "'s \<Rightarrow> ptr set"
    and bytes :: "'s \<Rightarrow> ptr \<Rightarrow> nat"
    and wf :: "'s \<Rightarrow> bool"
    and fits_request :: "u32 \<Rightarrow> 's \<Rightarrow> bool"
  assumes alloc_law: "wf s \<Longrightarrow> fits_request n s \<Longrightarrow> alloc n s = Ret p s' \<Longrightarrow>
      p \<notin> allocated s \<and> p \<noteq> NULL \<and> allocated s' = insert p (allocated s) \<and> unat n \<le> bytes s' p \<and>
      (\<forall>q \<in> allocated s. bytes s' q = bytes s q) \<and> wf s'"
    and release_law: "wf s \<Longrightarrow> p \<in> allocated s \<Longrightarrow>
      \<exists>s'. release p s = Ret () s' \<and> wf s' \<and> allocated s' = allocated s - {p} \<and> (\<forall>q. bytes s' q = bytes s q)"
begin

text \<open>A store whose objects all live in allocated memory gets its new object at an unused address.\<close>

lemma alloc_new_object:
  assumes "wf s" and "fits_request n s" and "alloc n s = Ret p s'" and "X \<subseteq> allocated s"
  shows "p \<notin> X" and "p \<noteq> NULL" and "insert p X \<subseteq> allocated s'" and "wf s'"
  using alloc_law [OF assms(1-3)] assms(4) by auto

lemma alloc_release:
  assumes "wf s" and "fits_request n s" and "alloc n s = Ret p s'"
  shows "\<exists>s''. release p s' = Ret () s'' \<and> wf s'' \<and> allocated s'' = allocated s \<and>
    (\<forall>q \<in> allocated s. bytes s'' q = bytes s q)"
proof -
  have a: "p \<notin> allocated s" "allocated s' = insert p (allocated s)" "wf s'"
    "\<forall>q \<in> allocated s. bytes s' q = bytes s q" using alloc_law [OF assms] by auto
  then obtain s'' where "release p s' = Ret () s''" "wf s''" "allocated s'' = allocated s' - {p}"
    "\<forall>q. bytes s'' q = bytes s' q" using release_law [of s' p] by auto
  with a show ?thesis by auto
qed

end

definition kmalloc_fits :: "u32 \<Rightarrow> 'a kheap_scheme \<Rightarrow> bool" where
  "kmalloc_fits n s \<longleftrightarrow> unat n < 2 ^ 30 - 64 \<and> heap_end s + 16 < 2 ^ 32"

lemma kmalloc_more:
  assumes "heap_inv s" and "kmalloc_fits n s" and "kmalloc n s = Ret p s'"
  shows "kheap.more s' = kheap.more s"
  using kmalloc_cases [of s n] assms by (auto simp: kmalloc_fits_def grew_def)

lemma kmalloc_mmu:
  assumes "heap_inv s" and "kmalloc_fits n s" and "kmalloc n s = Ret p s'"
  shows "mmu.truncate s' = mmu.truncate s"
  using kmalloc_cases [of s n] assms by (auto simp: kmalloc_fits_def grew_def)

lemma kfree_heap_only:
  assumes "heap_inv s" and "p \<in> live s" and "kfree p s = Ret () s'"
  shows "heap_only s s'"
proof -
  obtain cs bs so where ok: "heap_ok s cs bs so" using assms(1) by (auto simp: heap_inv_def)
  obtain x where x: "p = chunk2mem x" "x \<in> used s" using assms(2) by (auto simp: live_used)
  have "x \<in> set cs" "chfree s x = Some False" using used_tiles [OF ok] x(2) by (auto simp: used_def)
  then show ?thesis using kfree_heap_ok [OF ok] assms(3) x(1) by force
qed

lemma kmalloc_Ret:
  assumes "heap_inv s" and "kmalloc_fits n s" and "kmalloc n s = Ret p s'"
  shows "p \<notin> live s" "p \<noteq> NULL" "live s' = insert p (live s)" "unat n \<le> usable s' p"
    "\<forall>q \<in> live s. usable s' q = usable s q" "heap_inv s'"
proof -
  obtain x where x: "p = chunk2mem x" "heap_inv s'" "grew s s' x (align_request n)"
    using kmalloc_cases [of s n] assms by (auto simp: kmalloc_fits_def)
  obtain cs bs so where ok: "heap_ok s' cs bs so" using x(2) by (auto simp: heap_inv_def)
  have "x \<in> set cs" using used_tiles [OF ok] x(3) by (auto simp: grew_def)
  then show "p \<noteq> NULL" using heap_okD(2) [OF ok] x(1) by simp
  show "unat n \<le> usable s' p"
    using grew_live(4) [OF x(3)] align_request_ok(2) [of n] assms(2) x(1) by (simp add: kmalloc_fits_def)
  show "p \<notin> live s" "live s' = insert p (live s)" "\<forall>q \<in> live s. usable s' q = usable s q" "heap_inv s'"
    using grew_live [OF x(3)] x by auto
qed

interpretation kheap: allocator kmalloc kfree live usable heap_inv kmalloc_fits
proof unfold_locales
  fix s s' :: "'a kheap_scheme" and n p
  assume "heap_inv s" and "kmalloc_fits n s" and "kmalloc n s = Ret p s'"
  note k = kmalloc_Ret [OF this]
  show "p \<notin> live s \<and> p \<noteq> NULL \<and> live s' = insert p (live s) \<and> unat n \<le> usable s' p \<and>
      (\<forall>q \<in> live s. usable s' q = usable s q) \<and> heap_inv s'" by (intro conjI k)
qed (rule kfree_live)

section \<open>Concrete heaps\<close>

text \<open>A heap with nothing allocated and \<open>n\<close> bytes left, on the machine state of the paging theory.\<close>

text \<open>
  \<open>heap_room n s\<close>: nothing is free but the void chunk, and it has more than \<open>n\<close> bytes. Requests that
  fit are then cut off from its front one after the other.
\<close>

definition heap_room :: "nat \<Rightarrow> 'a kheap_scheme \<Rightarrow> bool" where
  "heap_room n s \<longleftrightarrow> is_initialized s \<and> bins s = empty_bins \<and> void_chunk s \<noteq> NULL \<and>
     (\<exists>v. chunks s (void_chunk s) = Some v \<and> n + 16 \<le> unat (chunk_size v) \<and> unat (chunk_size v) < 2 ^ 30 \<and>
       unat (void_chunk s) + unat (chunk_size v) < 2 ^ 32)"

lemma find_free_empty: "bins s = empty_bins \<Longrightarrow> find_free_chunk n s = Ret NULL s"
  by (simp add: find_free_chunk_def empty_bins_def split: option.split)

lemma kmalloc_room:
  assumes room: "heap_room n s" and a: "unat (align_request sz) \<le> n" "16 \<le> align_request sz"
  shows "\<exists>s'. kmalloc sz s = Ret (chunk2mem (void_chunk s)) s' \<and> heap_room (n - unat (align_request sz)) s' \<and>
    void_chunk s' = void_chunk s + align_request sz \<and> kheap.more s' = kheap.more s"
proof -
  let ?n = "align_request sz" and ?v = "void_chunk s"
  obtain v where v: "chunks s ?v = Some v" "n + 16 \<le> unat (chunk_size v)" "unat (chunk_size v) < 2 ^ 30"
    "unat ?v + unat (chunk_size v) < 2 ^ 32" and s: "is_initialized s" "bins s = empty_bins" "?v \<noteq> 0"
    using room by (auto simp: heap_room_def)
  have le: "?n \<le> chunk_size v" using a(1) v(2) by (simp add: word_le_nat_alt)
  have u: "unat (?v + ?n) = unat ?v + unat ?n" using a(1) v(2,4) by (intro unat_add_no_wrap) simp
  have ne: "?v + ?n \<noteq> ?v" "?v + ?n \<noteq> 0" using u a(2) s(3) by (auto simp: word_unat_eq_iff word_le_nat_alt)
  have sz: "unat (chunk_size v - ?n) = unat (chunk_size v) - unat ?n" using le by (simp add: unat_sub)
  have big: "\<not> chunk_size v - ?n < 16" using sz a(1) v(2) by (simp add: word_less_nat_alt)
  have tb: "take_bit 30 (chunk_size v - ?n) = chunk_size v - ?n"
    using sz v(3) by (simp add: word_unat_eq_iff take_bit_eq_mod unat_mod)
  show ?thesis
    using s v le ne big tb sz u a(1) find_free_empty [of s ?n]
    by (auto simp: kmalloc_def create_chunk_def set_void_chunk_def load_Some modify_Some Let_def heap_room_def)
qed

definition kheap_demo :: "u32 \<Rightarrow> kheap" where
  "kheap_demo n = mmu.extend mmu_demo
     \<lparr>is_initialized = True, bins = empty_bins, void_chunk = 0xc0101000,
      chunks = [0xc0101000 \<mapsto> \<lparr>chunk_size = n, chunk_free = True, prev_free = False,
        prev_size = 0, ch_prev = 0, ch_next = 0\<rparr>],
      kernel_end = 0xc0100000, stale = (\<lambda>_. 0)\<rparr>"

lemmas kheap_demo_simps = kheap_demo_def mmu.extend_def

definition demo_size :: "u32 \<Rightarrow> bool" where
  "demo_size n \<longleftrightarrow> 16 \<le> unat n \<and> unat n \<le> 0x10000"

lemma heap_inv_demo: "demo_size n \<Longrightarrow> heap_inv (kheap_demo n)"
proof -
  assume n: "demo_size n"
  have "sizebin_ok (kheap_demo n) i []" if "i < 5" for i
    using that by (simp add: sizebin_ok_def empty_bins_def kheap_demo_simps)
  moreover have "sortedbin_ok (kheap_demo n) []"
    by (simp add: sortedbin_ok_def empty_bins_def dlist_def kheap_demo_simps)
  ultimately have "heap_ok (kheap_demo n) [] (\<lambda>_. []) []"
    using n by (simp add: heap_ok_def heap_start_def kheap_demo_simps void_size_def demo_size_def)
  then show ?thesis unfolding heap_inv_def by blast
qed

lemma demo_small: "demo_size 0x10000" "demo_size 16"
  by (simp_all add: demo_size_def)

lemma demo_room: "unat n \<le> 0x10000 \<Longrightarrow> heap_end (kheap_demo n) + 16 < 2 ^ 32"
  by (simp add: heap_end_def kheap_demo_simps)

lemma demo_void: "the (chsize (kheap_demo n) (void_chunk (kheap_demo n))) = n"
  by (simp add: kheap_demo_simps)

theorem kmalloc_correct_witness:
  "heap_inv (kheap_demo 0x10000) \<and> (\<exists>p s'. kmalloc 100 (kheap_demo 0x10000) = Ret p s' \<and>
     p \<notin> live (kheap_demo 0x10000) \<and> 100 \<le> usable s' p \<and> heap_inv s')"
  using kmalloc_correct [OF heap_inv_demo [OF demo_small(1)], of 100] demo_room [of "0x10000"]
    heap_inv_demo [OF demo_small(1)] demo_void [of "0x10000"]
  by (auto simp: align_request_def)

theorem kmalloc_exhausted_grows_witness:
  "\<exists>s'. kmalloc 8 (kheap_demo 16) = Ret 0xc0101008 s' \<and> heap_end s' = heap_end (kheap_demo 16) + 16"
proof -
  have "\<forall>x. chfree (kheap_demo 16) x = Some True \<longrightarrow> x = void_chunk (kheap_demo 16)"
    "chsize (kheap_demo 16) (void_chunk (kheap_demo 16)) = Some 16"
    "chunk2mem (void_chunk (kheap_demo 16)) = 0xc0101008"
    by (simp_all add: kheap_demo_simps chunk2mem_def)
  with kmalloc_exhausted_grows [OF heap_inv_demo [OF demo_small(2)], of 8] demo_room [of 16]
  show ?thesis by auto
qed

theorem malloc_init_correct_witness:
  "\<exists>s'. malloc_init ((kheap_demo 16)\<lparr>chunks := Map.empty, is_initialized := False\<rparr>) = Ret () s' \<and>
     heap_inv s' \<and> heap_end s' = 0xd0002000"
  using malloc_init_correct [of "(kheap_demo 16)\<lparr>chunks := Map.empty, is_initialized := False\<rparr>"]
  by (simp add: kheap_demo_simps) blast

text \<open>Two blocks of the heap after two allocations.\<close>

definition kheap_two :: "kheap" where
  "kheap_two = (kheap_demo 0x10000)\<lparr>void_chunk := 0xc01010b0, chunks :=
     [0xc0101000 \<mapsto> \<lparr>chunk_size = 0x70, chunk_free = False, prev_free = False, prev_size = 0, ch_prev = 7, ch_next = 9\<rparr>,
      0xc0101070 \<mapsto> \<lparr>chunk_size = 0x40, chunk_free = False, prev_free = False, prev_size = 0, ch_prev = 3, ch_next = 5\<rparr>,
      0xc01010b0 \<mapsto> \<lparr>chunk_size = 0xff50, chunk_free = True, prev_free = False, prev_size = 0, ch_prev = 0, ch_next = 0\<rparr>]\<rparr>"

lemma heap_inv_two: "heap_inv kheap_two" "0xc0101008 \<in> live kheap_two" "0xc0101078 \<in> live kheap_two"
proof -
  have "sizebin_ok kheap_two i []" if "i < 5" for i
    using that by (simp add: sizebin_ok_def empty_bins_def kheap_two_def kheap_demo_simps)
  moreover have "sortedbin_ok kheap_two []"
    by (simp add: sortedbin_ok_def empty_bins_def dlist_def kheap_two_def kheap_demo_simps)
  ultimately have "heap_ok kheap_two [0xc0101000, 0xc0101070] (\<lambda>_. []) []"
    by (auto simp: heap_ok_def heap_start_def kheap_two_def kheap_demo_simps void_size_def good_size_def)
  then show "heap_inv kheap_two" unfolding heap_inv_def by blast
  show "0xc0101008 \<in> live kheap_two" "0xc0101078 \<in> live kheap_two"
    by (simp_all add: live_def mem2chunk_def kheap_two_def kheap_demo_simps)
qed

theorem kfree_correct_witness:
  "\<exists>s'. kfree 0xc0101008 kheap_two = Ret () s' \<and> heap_inv s' \<and> live s' = live kheap_two - {0xc0101008}"
  using kfree_correct [OF heap_inv_two(1), of "0xc0101008"] heap_inv_two(2) by blast

end
