(* ===== verification/Heap_Histories.thy ===== *)
theory Heap_Histories
  imports Transitions Kmalloc
begin

text \<open>The kernel heap over time: it is set up once and then serves requests and releases in any order.\<close>

inductive heap_step :: "'a kheap_scheme \<Rightarrow> 'a kheap_scheme \<Rightarrow> bool" where
  kmalloc_call: "\<lbrakk>kmalloc_fits n s; kmalloc n s = Ret p s'\<rbrakk> \<Longrightarrow> heap_step s s'"
| kfree_call: "\<lbrakk>p \<in> live s; kfree p s = Ret () s'\<rbrakk> \<Longrightarrow> heap_step s s'"

inductive_cases heap_stepE: "heap_step s s'"

definition heap_started :: "'a kheap_scheme \<Rightarrow> bool" where
  "heap_started s \<longleftrightarrow> (\<exists>s0. chunks s0 = Map.empty \<and> 0xc0000000 \<le> kernel_end s0 \<and> kernel_end s0 < 0xcff00000 \<and> malloc_init s0 = Ret () s)"

lemma heap_step_inv: "heap_inv s \<Longrightarrow> heap_step s s' \<Longrightarrow> heap_inv s'"
  by (erule heap_stepE) (use kheap.alloc_law kheap.release_law in fastforce)+

interpretation heap_calls: guarded_system heap_started heap_step heap_inv
proof unfold_locales
  fix s :: "'a kheap_scheme" assume "heap_started s"
  then show "heap_inv s" using malloc_init_correct by (force simp: heap_started_def)
qed (rule heap_step_inv)

text \<open>
  C9: In every heap that a history of requests and releases leads to, two blocks in use never overlap, not even with the
  headers, and all lie between the start of the heap and the unused rest; a new block is different from all blocks in use
  and large enough; and every block in use can be released.
\<close>

theorem heap_histories_safe:
  assumes "reach heap_started heap_step s"
  shows "(\<forall>p \<in> live s. \<forall>q \<in> live s. p \<noteq> q \<longrightarrow>
      (unat p + usable s p \<le> unat (mem2chunk q) \<or> unat q + usable s q \<le> unat (mem2chunk p)) \<and>
      unat (heap_start s) \<le> unat (mem2chunk p) \<and> unat p + usable s p \<le> unat (void_chunk s)) \<and>
    (\<forall>n p s'. kmalloc_fits n s \<and> kmalloc n s = Ret p s' \<longrightarrow> p \<notin> live s \<and> live s' = insert p (live s) \<and> unat n \<le> usable s' p) \<and>
    (\<forall>p \<in> live s. \<exists>s'. kfree p s = Ret () s' \<and> live s' = live s - {p})"
proof -
  have inv: "heap_inv s" using heap_calls.reach_inv [OF assms] .
  have "p \<notin> live s \<and> live s' = insert p (live s) \<and> unat n \<le> usable s' p" if "kmalloc_fits n s" "kmalloc n s = Ret p s'" for n p s'
    using kheap.alloc_law [OF inv that] by blast
  moreover have "\<exists>s'. kfree p s = Ret () s' \<and> live s' = live s - {p}" if "p \<in> live s" for p
    using kheap.release_law [OF inv that] by blast
  ultimately show ?thesis using live_blocks_disjoint [OF inv] by blast
qed

definition heap_before :: kheap where
  "heap_before = (kheap_demo 16)\<lparr>chunks := Map.empty, is_initialized := False\<rparr>"

theorem heap_histories_safe_witness:
  "\<exists>s. reach heap_started heap_step s \<and> malloc_init heap_before = Ret () s \<and>
    (\<forall>p s'. kmalloc_fits 100 s \<and> kmalloc 100 s = Ret p s' \<longrightarrow> 100 \<le> usable s' p)"
proof -
  have h: "chunks heap_before = Map.empty" "0xc0000000 \<le> kernel_end heap_before" "kernel_end heap_before < 0xcff00000"
    by (simp_all add: heap_before_def kheap_demo_simps)
  from malloc_init_correct [OF this] obtain s where s: "malloc_init heap_before = Ret () s" by blast
  then have r: "reach heap_started heap_step s" using h by (auto intro!: reach_start simp: heap_started_def)
  moreover have "100 \<le> usable s' p" if "kmalloc_fits 100 s" "kmalloc 100 s = Ret p s'" for p s'
    using heap_histories_safe [OF r] that by force
  ultimately show ?thesis using s by blast
qed

end
