(* ===== verification/Vmalloc.thy ===== *)
theory Vmalloc
  imports Kmalloc Areas
begin

text \<open>
  Kernel virtual memory: the mapping helpers of \<^verbatim>\<open>kernel/memory/vmm_misc.c\<close> and the page-granular
  allocator of \<^verbatim>\<open>kernel/klib/vmalloc.c\<close> and \<^verbatim>\<open>kernel/klib/vfree.c\<close>. The used areas form a doubly
  linked list ordered by address, whose headers live on the kernel heap.
\<close>

record region_hdr =
  rh_vaddr :: u32
  rh_size :: u32
  phy_type :: u32
  rh_prev :: ptr
  rh_next :: ptr

record vmem = kheap +
  uregs :: "ptr \<rightharpoonup> region_hdr"
  ureg_first :: ptr
  ureg_last :: ptr
  used_pages :: u32

abbreviation (input) VM_VMALLOC_START :: u32 where "VM_VMALLOC_START \<equiv> 0xd0000000"
abbreviation (input) VM_VMALLOC_END :: u32 where "VM_VMALLOC_END \<equiv> 0xdffff000"
abbreviation (input) MAPPED :: u32 where "MAPPED \<equiv> 0"
abbreviation (input) PHY_CONT :: u32 where "PHY_CONT \<equiv> 1"
abbreviation (input) ON_DEMAND :: u32 where "ON_DEMAND \<equiv> 2"
abbreviation (input) VMM_RW :: u32 where "VMM_RW \<equiv> 2"
abbreviation (input) VMM_USER :: u32 where "VMM_USER \<equiv> 4"

abbreviation (input) get_ureg :: "ptr \<Rightarrow> 'a vmem_scheme \<Rightarrow> (region_hdr, 'a vmem_scheme) res" where
  "get_ureg p s \<equiv> load uregs p s"

abbreviation (input) set_ureg ::
  "ptr \<Rightarrow> (region_hdr \<Rightarrow> region_hdr) \<Rightarrow> 'a vmem_scheme \<Rightarrow> (unit, 'a vmem_scheme) res" where
  "set_ureg p f s \<equiv> modify uregs uregs_update p f s"

section \<open>Mapping helpers\<close>

definition SIZE_TO_FRAMES :: "u32 \<Rightarrow> u32" where
  "SIZE_TO_FRAMES b = (if b mod FRAME_SIZE = 0 then b div FRAME_SIZE else b div FRAME_SIZE + 1)"

definition vmm_cont_map :: "u32 \<Rightarrow> u32 \<Rightarrow> u32 \<Rightarrow> bool \<Rightarrow> 'a mmu_scheme \<Rightarrow> (unit, 'a mmu_scheme) res" where
  "vmm_cont_map vaddr bytes flags phy_cont s =
     (let frames = SIZE_TO_FRAMES bytes in
      if phy_cont then
        bindR (pmm_get_pool frames s) (\<lambda>paddr s.
        for_each [0 ..< unat frames] (\<lambda>i s.
          pg_map (paddr + of_nat i * FRAME_SIZE) (vaddr + of_nat i * FRAME_SIZE) (flags OR PG_PRESENT) s) s)
      else
        for_each [0 ..< unat frames] (\<lambda>i s.
          bindR (pmm_get_frame s) (\<lambda>frame s.
          pg_map frame (vaddr + of_nat i * FRAME_SIZE) (flags OR PG_PRESENT) s)) s)"

definition vmm_void_map :: "u32 \<Rightarrow> u32 \<Rightarrow> u32 \<Rightarrow> 'a mmu_scheme \<Rightarrow> (unit, 'a mmu_scheme) res" where
  "vmm_void_map vaddr bytes flags s =
     for_each [0 ..< unat (SIZE_TO_FRAMES bytes)] (\<lambda>i s.
       pg_map 0 (vaddr + of_nat i * FRAME_SIZE) flags s) s"

definition vmm_cont_unmap :: "u32 \<Rightarrow> u32 \<Rightarrow> bool \<Rightarrow> 'a mmu_scheme \<Rightarrow> (unit, 'a mmu_scheme) res" where
  "vmm_cont_unmap vaddr bytes phy_cont s =
     (let frames = SIZE_TO_FRAMES bytes in
      if phy_cont then
        bindR (pg_unmap vaddr s) (\<lambda>paddr s.
        bindR (for_each [1 ..< unat frames] (\<lambda>i s.
                 bindR (pg_unmap (vaddr + of_nat i * FRAME_SIZE) s) (\<lambda>_ s. Ret () s)) s) (\<lambda>_ s.
        Ret () (pmm_free_pool paddr frames s)))
      else
        for_each [0 ..< unat frames] (\<lambda>i s.
          bindR (pg_unmap (vaddr + of_nat i * FRAME_SIZE) s) (\<lambda>paddr s.
          Ret () (if paddr > 0 then pmm_free_frame paddr s else s))) s)"

text \<open>\<^verbatim>\<open>vmm_void_unmap\<close> never advances \<open>vaddr\<close>.\<close>

definition vmm_void_unmap :: "u32 \<Rightarrow> u32 \<Rightarrow> 'a mmu_scheme \<Rightarrow> (unit, 'a mmu_scheme) res" where
  "vmm_void_unmap vaddr bytes s =
     for_each [0 ..< unat (SIZE_TO_FRAMES bytes)] (\<lambda>i s.
       bindR (pg_unmap vaddr s) (\<lambda>paddr s.
       Ret () (if paddr \<noteq> 0 then pmm_free_frame paddr s else s))) s"

section \<open>The allocator\<close>

text \<open>The loop of \<^verbatim>\<open>_find_hole_in_as\<close>: a gap behind \<open>tmp\<close>, the result being \<open>(tmp, address)\<close>.\<close>

definition hole_after :: "u32 \<Rightarrow> ptr \<Rightarrow> 'a vmem_scheme \<Rightarrow> ((ptr \<times> u32) option + ptr, 'a vmem_scheme) res" where
  "hole_after sz tmp s =
     bindR (get_ureg tmp s) (\<lambda>t s.
     if rh_next t = NULL then Ret (Inl None) s
     else
       bindR (get_ureg (rh_next t) s) (\<lambda>n s.
       if rh_vaddr n - rh_vaddr t - rh_size t \<ge> sz then Ret (Inl (Some (tmp, rh_vaddr t + rh_size t))) s
       else Ret (Inr (rh_next t)) s))"

definition find_hole_in_as :: "u32 \<Rightarrow> 'a vmem_scheme \<Rightarrow> (u32 \<times> ptr option, 'a vmem_scheme) res" where
  "find_hole_in_as sz s =
     bindR (get_ureg (ureg_first s) s) (\<lambda>f s.
     if rh_vaddr f > VM_VMALLOC_START \<and> rh_vaddr f - VM_VMALLOC_START \<ge> sz
     then Ret (VM_VMALLOC_START, Some NULL) s
     else
       bindR (chase {} (hole_after sz) (ureg_first s) s) (\<lambda>hole s.
       case hole of
         Some (tmp, vaddr) \<Rightarrow> Ret (vaddr, Some tmp) s
       | None \<Rightarrow>
           bindR (get_ureg (ureg_last s) s) (\<lambda>l s.
           if rh_vaddr l + rh_size l < VM_VMALLOC_END \<and>
              VM_VMALLOC_END - rh_vaddr l - rh_size l \<ge> sz
           then Ret (rh_vaddr l + rh_size l, Some (ureg_last s)) s
           else Ret (0, None) s)))"

definition insert_ureg :: "ptr \<Rightarrow> ptr \<Rightarrow> 'a vmem_scheme \<Rightarrow> (unit, 'a vmem_scheme) res" where
  "insert_ureg prev new s =
     bindR (get_ureg new s) (\<lambda>n s.
     if ureg_first s = NULL then
       (let s = s\<lparr>ureg_first := new, ureg_last := new, used_pages := rh_size n div PAGE_SIZE\<rparr> in
        bindR (set_ureg new (rh_prev_update (\<lambda>_. NULL)) s) (\<lambda>_ s.
        set_ureg new (rh_next_update (\<lambda>_. NULL)) s))
     else
       bindR
        (if prev = NULL then
           bindR (set_ureg new (rh_prev_update (\<lambda>_. NULL)) s) (\<lambda>_ s.
           bindR (set_ureg new (rh_next_update (\<lambda>_. ureg_first s)) s) (\<lambda>_ s.
           bindR (set_ureg (ureg_first s) (rh_prev_update (\<lambda>_. new)) s) (\<lambda>_ s.
           Ret () (s\<lparr>ureg_first := new\<rparr>))))
         else if ureg_last s = prev then
           bindR (set_ureg new (rh_next_update (\<lambda>_. NULL)) s) (\<lambda>_ s.
           bindR (set_ureg new (rh_prev_update (\<lambda>_. prev)) s) (\<lambda>_ s.
           bindR (set_ureg prev (rh_next_update (\<lambda>_. new)) s) (\<lambda>_ s.
           Ret () (s\<lparr>ureg_last := new\<rparr>))))
         else
           bindR (set_ureg new (rh_prev_update (\<lambda>_. prev)) s) (\<lambda>_ s.
           bindR (get_ureg prev s) (\<lambda>p s.
           bindR (set_ureg new (rh_next_update (\<lambda>_. rh_next p)) s) (\<lambda>_ s.
           bindR (get_ureg new s) (\<lambda>n s.
           bindR (set_ureg (rh_next n) (rh_prev_update (\<lambda>_. new)) s) (\<lambda>_ s.
           set_ureg prev (rh_next_update (\<lambda>_. new)) s))))))
        (\<lambda>_ s. Ret () (s\<lparr>used_pages := used_pages s + rh_size n div PAGE_SIZE\<rparr>)))"

definition page_round :: "u32 \<Rightarrow> u32" where
  "page_round sz = (if sz mod PAGE_SIZE > 0 then (sz - sz mod PAGE_SIZE) + PAGE_SIZE else sz)"

text \<open>The header that \<^verbatim>\<open>kmalloc\<close> returns: the links keep what memory holds until they are set.\<close>

definition new_ureg :: "u32 \<Rightarrow> u32 \<Rightarrow> u32 \<Rightarrow> 'a vmem_scheme \<Rightarrow> (ptr, 'a vmem_scheme) res" where
  "new_ureg vaddr sz ty s =
     bindR (kmalloc 20 s) (\<lambda>p s.
     Ret p (s\<lparr>uregs := (uregs s)(p \<mapsto> \<lparr>rh_vaddr = vaddr, rh_size = sz, phy_type = ty,
       rh_prev = stale s (p + 12), rh_next = stale s (p + 16)\<rparr>)\<rparr>))"

definition vmalloc :: "u32 \<Rightarrow> u32 \<Rightarrow> 'a vmem_scheme \<Rightarrow> (ptr, 'a vmem_scheme) res" where
  "vmalloc req ty s =
     (let sz = page_round req in
      bindR (if ureg_first s = NULL then Ret (VM_VMALLOC_START, NULL) s
             else
               bindR (find_hole_in_as sz s) (\<lambda>(vaddr, prev) s.
               case prev of
                 None \<Rightarrow> Panic ''[PANIC] vmalloc cannot satisfy the request''
               | Some prev \<Rightarrow> if vaddr = 0 then Panic ''[PANIC] vmalloc cannot satisfy the request''
                              else Ret (vaddr, prev) s)) (\<lambda>(vaddr, prev) s.
      bindR (if ty = MAPPED then vmm_cont_map vaddr sz VMM_RW False s
             else if ty = PHY_CONT then vmm_cont_map vaddr sz VMM_RW True s
             else if ty = ON_DEMAND then vmm_void_map vaddr sz VMM_RW s
             else Panic ''[ERROR] vmalloc unknown phy_type!'') (\<lambda>_ s.
      bindR (new_ureg vaddr sz ty s) (\<lambda>new s.
      bindR (insert_ureg prev new s) (\<lambda>_ s.
      Ret vaddr s)))))"

text \<open>The search of \<^verbatim>\<open>_remove_region\<close> in \<^verbatim>\<open>vfree.c\<close>; the result is \<open>NULL\<close> when nothing is found.\<close>

definition ureg_at :: "u32 \<Rightarrow> ptr \<Rightarrow> 'a vmem_scheme \<Rightarrow> (ptr + ptr, 'a vmem_scheme) res" where
  "ureg_at vaddr region s =
     (if region = NULL then Ret (Inl NULL) s
      else bindR (get_ureg region s) (\<lambda>r s.
        if rh_vaddr r = vaddr then Ret (Inl region) s else Ret (Inr (rh_next r)) s))"

definition unlink_ureg :: "ptr \<Rightarrow> 'a vmem_scheme \<Rightarrow> (unit, 'a vmem_scheme) res" where
  "unlink_ureg region s =
     bindR (get_ureg region s) (\<lambda>r s.
     bindR
      (if region = ureg_first s then
         (let s = s\<lparr>ureg_first := rh_next r\<rparr> in
          if ureg_first s \<noteq> NULL then set_ureg (ureg_first s) (rh_prev_update (\<lambda>_. NULL)) s
          else Ret () (s\<lparr>ureg_last := NULL\<rparr>))
       else if region = ureg_last s then
         (let s = s\<lparr>ureg_last := rh_prev r\<rparr> in
          set_ureg (ureg_last s) (rh_next_update (\<lambda>_. NULL)) s)
       else
         bindR (set_ureg (rh_prev r) (rh_next_update (\<lambda>_. rh_next r)) s) (\<lambda>_ s.
         set_ureg (rh_next r) (rh_prev_update (\<lambda>_. rh_prev r)) s))
      (\<lambda>_ s. Ret () (s\<lparr>used_pages := used_pages s - rh_size r div PAGE_SIZE\<rparr>)))"

definition remove_ureg :: "u32 \<Rightarrow> 'a vmem_scheme \<Rightarrow> (ptr, 'a vmem_scheme) res" where
  "remove_ureg vaddr s =
     bindR (chase {} (ureg_at vaddr) (ureg_first s) s) (\<lambda>region s.
     if region = NULL then Ret NULL s
     else bindR (unlink_ureg region s) (\<lambda>_ s. Ret region s))"

definition vfree :: "ptr \<Rightarrow> 'a vmem_scheme \<Rightarrow> (unit, 'a vmem_scheme) res" where
  "vfree ptr s =
     bindR (remove_ureg ptr s) (\<lambda>region s.
     if region = NULL then Panic ''[ERROR] vfree tried to release unused memory''
     else
       bindR (get_ureg region s) (\<lambda>r s.
       bindR (if phy_type r = PHY_CONT then vmm_cont_unmap (rh_vaddr r) (rh_size r) True s
              else vmm_cont_unmap (rh_vaddr r) (rh_size r) False s) (\<lambda>_ s.
       kfree region (s\<lparr>uregs := (uregs s)(region := None)\<rparr>))))"

section \<open>The list of used areas\<close>

interpretation ur: dll_node rh_next rh_prev "\<lambda>a. rh_next_update (\<lambda>_. a)" "\<lambda>a. rh_prev_update (\<lambda>_. a)"
  by unfold_locales simp_all

definition astart :: "'a vmem_scheme \<Rightarrow> ptr \<Rightarrow> nat" where
  "astart s x = unat (rh_vaddr (the (uregs s x)))"

definition aend :: "'a vmem_scheme \<Rightarrow> ptr \<Rightarrow> nat" where
  "aend s x = astart s x + unat (rh_size (the (uregs s x)))"

abbreviation areas :: "'a vmem_scheme \<Rightarrow> nat \<Rightarrow> ptr list \<Rightarrow> nat \<Rightarrow> bool" where
  "areas s \<equiv> ordered (astart s) (aend s)"

abbreviation upto_end :: "'a vmem_scheme \<Rightarrow> nat \<Rightarrow> ptr list \<Rightarrow> nat" where
  "upto_end s \<equiv> end_of (aend s)"

abbreviation from_start :: "'a vmem_scheme \<Rightarrow> ptr list \<Rightarrow> nat \<Rightarrow> nat" where
  "from_start s \<equiv> start_of (astart s)"

lemma astart_le_aend [simp]: "astart s x \<le> aend s x"
  by (simp add: aend_def)

interpretation ua: area_list "astart s" "aend s" for s
  by unfold_locales simp

lemmas areas_append = ordered_append and areas_bounds = ua.ordered_bounds and areas_le = ua.ordered_le
  and areas_disjoint = ua.ordered_disjoint and areas_outside = ua.ordered_outside
  and areas_insert = ua.ordered_insert and areas_remove = ua.ordered_remove and from_start_def = start_of_def

definition ureg_ok :: "'a vmem_scheme \<Rightarrow> ptr list \<Rightarrow> bool" where
  "ureg_ok s xs \<longleftrightarrow>
     dlist rh_next rh_prev (uregs s) xs \<and> ureg_first s = first_of NULL xs \<and> ureg_last s = last_of NULL xs \<and>
     areas s (unat VM_VMALLOC_START) xs (unat VM_VMALLOC_END)"

text \<open>The free space between two neighbours of the list, or between an end and the first or last area.\<close>

definition gap :: "'a vmem_scheme \<Rightarrow> ptr list \<Rightarrow> ptr list \<Rightarrow> nat" where
  "gap s ys zs = from_start s zs (unat VM_VMALLOC_END) - upto_end s (unat VM_VMALLOC_START) ys"

lemma aend_word:
  assumes "uregs s x = Some r" and "aend s x \<le> unat VM_VMALLOC_END"
  shows "unat (rh_vaddr r + rh_size r) = aend s x"
  using assms unat_add_no_wrap [of "rh_vaddr r" "rh_size r"] by (simp add: aend_def astart_def)

text \<open>The loop of \<^verbatim>\<open>_find_hole_in_as\<close> from header \<open>x\<close> on.\<close>

lemma hole_search:
  assumes "dll rh_next rh_prev (uregs s) p (x # xs) 0" and "distinct (x # xs)" and "set (x # xs) \<inter> V = {}"
    and "areas s lo (x # xs) (unat VM_VMALLOC_END)"
  shows "(\<exists>ys a b zs. x # xs = ys @ a # b # zs \<and> aend s a + unat sz \<le> astart s b \<and>
      chase V (hole_after sz) x s =
        Ret (Some (a, rh_vaddr (the (uregs s a)) + rh_size (the (uregs s a)))) s) \<or>
    chase V (hole_after sz) x s = Ret None s \<and>
      (\<forall>ys a b zs. x # xs = ys @ a # b # zs \<longrightarrow> astart s b < aend s a + unat sz)"
  using assms
proof (induction xs arbitrary: x V p lo)
  case Nil
  then have "chase V (hole_after sz) x s = Ret None s"
    by (intro chase_exit) (auto simp: hole_after_def load_Some)
  then show ?case by (auto simp: append_eq_Cons_conv)
next
  case (Cons y ys)
  obtain r n where r: "uregs s x = Some r" "rh_next r = y" and n: "uregs s y = Some n" and y0: "y \<noteq> 0"
    using Cons.prems(1) by auto
  have ar: "areas s (aend s x) (y # ys) (unat VM_VMALLOC_END)" using Cons.prems(4) by simp
  have le: "aend s x \<le> astart s y" using ar by simp
  have ex: "astart s x \<le> aend s x" by simp
  have ux: "unat (rh_vaddr n - rh_vaddr r - rh_size r) = astart s y - aend s x"
  proof -
    have a: "unat (rh_vaddr r) \<le> unat (rh_vaddr n)" "unat (rh_vaddr r) + unat (rh_size r) \<le> unat (rh_vaddr n)"
      using le ex r n by (auto simp: astart_def aend_def)
    then have b: "unat (rh_vaddr n - rh_vaddr r) = unat (rh_vaddr n) - unat (rh_vaddr r)"
      by (intro unat_sub) (simp add: word_le_nat_alt)
    then have "rh_size r \<le> rh_vaddr n - rh_vaddr r" using a by (simp add: word_le_nat_alt)
    then show ?thesis using b r n by (simp add: unat_sub astart_def aend_def)
  qed
  show ?case
  proof (cases "sz \<le> rh_vaddr n - rh_vaddr r - rh_size r")
    case True
    then have "chase V (hole_after sz) x s = Ret (Some (x, rh_vaddr r + rh_size r)) s"
      using Cons.prems(3) r n y0 by (intro chase_exit) (auto simp: hole_after_def load_Some)
    moreover have "aend s x + unat sz \<le> astart s y" using True ux le by (simp add: word_le_nat_alt)
    ultimately show ?thesis using r
      by (intro disjI1 exI [of _ "[]"] exI [of _ x] exI [of _ y] exI [of _ ys]) simp
  next
    case False
    then have "hole_after sz x s = Ret (Inr y) s" using r n y0 by (simp add: hole_after_def load_Some)
    then have step: "chase V (hole_after sz) x s = chase (insert x V) (hole_after sz) y s"
      using Cons.prems(3) by (simp add: chase.simps [of V])
    have small: "astart s y < aend s x + unat sz" using False ux le by (simp add: word_le_nat_alt)
    have "(\<exists>us a b zs. y # ys = us @ a # b # zs \<and> aend s a + unat sz \<le> astart s b \<and>
      chase (insert x V) (hole_after sz) y s =
        Ret (Some (a, rh_vaddr (the (uregs s a)) + rh_size (the (uregs s a)))) s) \<or>
      chase (insert x V) (hole_after sz) y s = Ret None s \<and>
      (\<forall>us a b zs. y # ys = us @ a # b # zs \<longrightarrow> astart s b < aend s a + unat sz)"
      using Cons.prems ar by (intro Cons.IH [where p = x and lo = "aend s x"]) auto
    then show ?thesis
    proof (elim disjE exE conjE)
      fix us a b zs assume "y # ys = us @ a # b # zs" "aend s a + unat sz \<le> astart s b"
        "chase (insert x V) (hole_after sz) y s = Ret (Some (a, rh_vaddr (the (uregs s a)) + rh_size (the (uregs s a)))) s"
      then show ?thesis unfolding step
        by (intro disjI1 exI [of _ "x # us"] exI [of _ a] exI [of _ b] exI [of _ zs]) simp
    next
      assume a: "chase (insert x V) (hole_after sz) y s = Ret None s"
        "\<forall>us a b zs. y # ys = us @ a # b # zs \<longrightarrow> astart s b < aend s a + unat sz"
      have "astart s b < aend s a + unat sz" if "x # y # ys = us @ a # b # zs" for us a b zs
      proof (cases us)
        case Nil
        then show ?thesis using that small by simp
      next
        case (Cons u us')
        then show ?thesis using that a(2) by auto
      qed
      with a(1) show ?thesis unfolding step by blast
    qed
  qed
qed

lemma last_split: "xs \<noteq> [] \<Longrightarrow> \<exists>ys l. xs = ys @ [l] \<and> last_of p xs = l"
  by (cases xs rule: rev_cases) auto

lemma find_hole_ok:
  assumes ok: "ureg_ok s xs" and ne: "xs \<noteq> []" and sz: "0 < sz"
  shows "(\<exists>v prev ys zs. find_hole_in_as sz s = Ret (v, Some prev) s \<and> v \<noteq> 0 \<and> xs = ys @ zs \<and>
      prev = last_of NULL ys \<and> unat v = upto_end s (unat VM_VMALLOC_START) ys \<and>
      unat v + unat sz \<le> from_start s zs (unat VM_VMALLOC_END) \<and>
      (\<forall>x \<in> set xs. aend s x \<le> unat v \<or> unat v + unat sz \<le> astart s x)) \<or>
    (find_hole_in_as sz s = Ret (0, None) s \<and> (\<forall>ys zs. xs = ys @ zs \<longrightarrow> gap s ys zs < unat sz))"
proof -
  let ?lo = "unat VM_VMALLOC_START" and ?hi = "unat VM_VMALLOC_END"
  obtain f fs where f: "xs = f # fs" using ne by (cases xs) auto
  obtain ws l where l: "xs = ws @ [l]" "ureg_last s = l" using last_split [OF ne, of 0] ok by (auto simp: ureg_ok_def)
  have dl: "dll rh_next rh_prev (uregs s) 0 xs 0" "distinct xs" "ureg_first s = f" and ar: "areas s ?lo xs ?hi"
    using ok f by (auto simp: ureg_ok_def dlist_def)
  obtain rf rl where rf: "uregs s f = Some rf" and rl: "uregs s l = Some rl"
    using dll_in_dom [OF dl(1)] f l by (metis in_set_conv_decomp list.set_intros(1))
  have fs: "?lo \<le> astart s f" using ar f by simp
  have le: "aend s l \<le> ?hi" using areas_bounds(2) [OF ar, of l] l by simp
  have ul: "unat (rh_vaddr rl + rh_size rl) = aend s l" by (rule aend_word [OF rl le])
  have u1: "unat (rh_vaddr rf - VM_VMALLOC_START) = astart s f - ?lo"
    using fs rf by (subst unat_sub) (simp_all add: word_le_nat_alt astart_def)
  have u2: "unat (VM_VMALLOC_END - rh_vaddr rl - rh_size rl) = ?hi - aend s l"
  proof -
    have "VM_VMALLOC_END - rh_vaddr rl - rh_size rl = VM_VMALLOC_END - (rh_vaddr rl + rh_size rl)" by simp
    also have "unat \<dots> = ?hi - aend s l" using le ul by (subst unat_sub) (simp_all add: word_le_nat_alt)
    finally show ?thesis .
  qed
  have s0: "0 < unat sz" using sz by (simp add: word_less_nat_alt)
  have front: "rh_vaddr rf > VM_VMALLOC_START \<and> rh_vaddr rf - VM_VMALLOC_START \<ge> sz \<longleftrightarrow> ?lo + unat sz \<le> astart s f"
    using fs u1 s0 rf by (auto simp: word_less_nat_alt word_le_nat_alt astart_def)
  have rear: "rh_vaddr rl + rh_size rl < VM_VMALLOC_END \<and> VM_VMALLOC_END - rh_vaddr rl - rh_size rl \<ge> sz \<longleftrightarrow>
      aend s l + unat sz \<le> ?hi"
    using le u2 ul s0 by (auto simp: word_less_nat_alt word_le_nat_alt)
  note outside = areas_outside [of s ?lo _ _ ?hi]
  show ?thesis
  proof (cases "?lo + unat sz \<le> astart s f")
    case True
    then have "find_hole_in_as sz s = Ret (VM_VMALLOC_START, Some 0) s"
      using front rf dl(3) by (simp add: find_hole_in_as_def load_Some)
    moreover have "\<forall>x \<in> set xs. aend s x \<le> ?lo \<or> ?lo + unat sz \<le> astart s x"
      using outside [of "[]" xs ?lo "unat sz"] ar True f by (simp add: from_start_def)
    ultimately show ?thesis using True f
      by (intro disjI1 exI [of _ VM_VMALLOC_START] exI [of _ 0] exI [of _ "[]"] exI [of _ xs])
        (simp add: from_start_def)
  next
    case False
    have run: "find_hole_in_as sz s = bindR (chase {} (hole_after sz) f s) (\<lambda>hole s.
       case hole of
         Some (tmp, vaddr) \<Rightarrow> Ret (vaddr, Some tmp) s
       | None \<Rightarrow>
           bindR (get_ureg (ureg_last s) s) (\<lambda>l s.
           if rh_vaddr l + rh_size l < VM_VMALLOC_END \<and> VM_VMALLOC_END - rh_vaddr l - rh_size l \<ge> sz
           then Ret (rh_vaddr l + rh_size l, Some (ureg_last s)) s
           else Ret (0, None) s))"
      using False front rf dl(3) by (auto simp: find_hole_in_as_def load_Some)
    have "(\<exists>ys a b zs. xs = ys @ a # b # zs \<and> aend s a + unat sz \<le> astart s b \<and>
      chase {} (hole_after sz) f s =
        Ret (Some (a, rh_vaddr (the (uregs s a)) + rh_size (the (uregs s a)))) s) \<or>
      chase {} (hole_after sz) f s = Ret None s \<and>
      (\<forall>ys a b zs. xs = ys @ a # b # zs \<longrightarrow> astart s b < aend s a + unat sz)"
      using dl ar f hole_search [of s 0 f fs "{}" ?lo sz] by simp
    then show ?thesis
    proof (elim disjE exE conjE)
      fix ys a b zs assume h: "xs = ys @ a # b # zs" "aend s a + unat sz \<le> astart s b"
        "chase {} (hole_after sz) f s = Ret (Some (a, rh_vaddr (the (uregs s a)) + rh_size (the (uregs s a)))) s"
      let ?v = "rh_vaddr (the (uregs s a)) + rh_size (the (uregs s a))"
      obtain ra where ra: "uregs s a = Some ra" using dll_in_dom [OF dl(1), of a] h(1) by auto
      have uv: "unat ?v = aend s a"
        using aend_word [OF ra] areas_bounds(2) [OF ar, of a] h(1) ra by simp
      have lo: "?lo \<le> astart s a" using areas_bounds(1) [OF ar, of a] h(1) by simp
      have "?v \<noteq> 0"
      proof
        assume "?v = 0"
        then show False using uv lo astart_le_aend [of s a] by simp
      qed
      moreover have "\<forall>x \<in> set xs. aend s x \<le> unat ?v \<or> unat ?v + unat sz \<le> astart s x"
        using outside [of "ys @ [a]" "b # zs" "aend s a" "unat sz"] ar h(1,2) uv by (simp add: from_start_def)
      ultimately show ?thesis using run h uv
        by (intro disjI1 exI [of _ ?v] exI [of _ a] exI [of _ "ys @ [a]"] exI [of _ "b # zs"])
          (simp add: from_start_def)
    next
      assume n: "chase {} (hole_after sz) f s = Ret None s"
        "\<forall>ys a b zs. xs = ys @ a # b # zs \<longrightarrow> astart s b < aend s a + unat sz"
      have run2: "find_hole_in_as sz s = (if aend s l + unat sz \<le> ?hi
          then Ret (rh_vaddr rl + rh_size rl, Some l) s else Ret (0, None) s)"
        using run n(1) rl l(2) rear by (simp add: load_Some)
      show ?thesis
      proof (cases "aend s l + unat sz \<le> ?hi")
        case True
        let ?v = "rh_vaddr rl + rh_size rl"
        have "?v \<noteq> 0"
        proof
          assume "?v = 0"
          then have "aend s l = 0" using ul by simp
          then show False using areas_bounds(1) [OF ar, of l] astart_le_aend [of s l] l(1) by simp
        qed
        moreover have "\<forall>x \<in> set xs. aend s x \<le> unat ?v \<or> unat ?v + unat sz \<le> astart s x"
          using outside [of xs "[]" "aend s l" "unat sz"] ar l(1) True ul by (simp add: from_start_def)
        ultimately show ?thesis using run2 True ul l(1)
          by (intro disjI1 exI [of _ ?v] exI [of _ l] exI [of _ xs] exI [of _ "[]"]) (simp add: from_start_def)
      next
        case F2: False
        have "gap s ys zs < unat sz" if yz: "xs = ys @ zs" for ys zs
        proof -
          consider "ys = []" | us a where "ys = us @ [a]" "zs = []" | us a b vs where "ys = us @ [a]" "zs = b # vs"
            by (cases ys rule: rev_cases; cases zs) auto
          then show ?thesis
          proof cases
            case 1
            then have "zs = f # fs" using yz f by simp
            then show ?thesis using 1 False s0 by (simp add: gap_def from_start_def)
          next
            case 2
            then have "a = l" using yz l(1) by simp
            then show ?thesis using 2 F2 s0 by (simp add: gap_def from_start_def)
          next
            case 3
            then have "astart s b < aend s a + unat sz" using n(2) yz by auto
            then show ?thesis using 3 s0 by (simp add: gap_def from_start_def)
          qed
        qed
        then show ?thesis using run2 F2 by simp
      qed
    qed
  qed
qed

text \<open>
  The search for a hole is sound and complete. On a well-formed list of used areas it always
  returns. Either it yields the header to insert behind and the address where that area ends (or the
  start of the vmalloc area), and the requested bytes from that address on lie inside the vmalloc
  area and overlap none of the used areas; or it
  yields zero, and then every gap between neighbouring areas, at the front and at the end is
  smaller than the request.
\<close>

theorem find_hole_correct:
  assumes ok: "ureg_ok s xs" and ne: "xs \<noteq> []" and sz: "0 < sz"
  shows "(\<exists>v prev ys zs. find_hole_in_as sz s = Ret (v, Some prev) s \<and> v \<noteq> 0 \<and> xs = ys @ zs \<and>
      prev = last_of NULL ys \<and> unat v = upto_end s (unat VM_VMALLOC_START) ys \<and>
      unat v + unat sz \<le> from_start s zs (unat VM_VMALLOC_END) \<and>
      (\<forall>x \<in> set xs. aend s x \<le> unat v \<or> unat v + unat sz \<le> astart s x)) \<or>
    (find_hole_in_as sz s = Ret (0, None) s \<and> (\<forall>ys zs. xs = ys @ zs \<longrightarrow> gap s ys zs < unat sz))"
  by (rule find_hole_ok [OF assms])

section \<open>Insertion and removal\<close>

definition hdr :: "region_hdr \<Rightarrow> u32 \<times> u32 \<times> u32" where
  "hdr r = (rh_vaddr r, rh_size r, phy_type r)"

text \<open>The areas themselves do not change, only the links between their headers.\<close>

definition same_areas :: "'a vmem_scheme \<Rightarrow> 'a vmem_scheme \<Rightarrow> bool" where
  "same_areas s s' \<longleftrightarrow> (\<forall>x. map_option hdr (uregs s' x) = map_option hdr (uregs s x))"

lemma same_areas_simps:
  assumes "same_areas s s'" and "x \<in> dom (uregs s)"
  shows "astart s' x = astart s x" and "aend s' x = aend s x"
proof -
  have "map_option hdr (uregs s' x) = map_option hdr (uregs s x)" using assms(1) by (simp add: same_areas_def)
  then show "astart s' x = astart s x" "aend s' x = aend s x"
    using assms(2) by (cases "uregs s' x"; auto simp: hdr_def astart_def aend_def)+
qed

lemma areas_cong:
  assumes "same_areas s s'" and "set xs \<subseteq> dom (uregs s)"
  shows "areas s' lo xs hi = areas s lo xs hi"
  using assms(2) same_areas_simps [OF assms(1)] by (intro ordered_cong) auto

lemmas ureg_simps = load_Some modify_Some Let_def

lemma insert_ureg_ok:
  assumes ok: "ureg_ok s (ys @ zs)" and n: "uregs s x = Some n" "x \<noteq> 0" "x \<notin> set (ys @ zs)"
    and pos: "upto_end s (unat VM_VMALLOC_START) ys \<le> astart s x" "aend s x \<le> from_start s zs (unat VM_VMALLOC_END)"
  shows "\<exists>s'. insert_ureg (last_of 0 ys) x s = Ret () s' \<and> ureg_ok s' (ys @ x # zs) \<and> same_areas s s' \<and>
    used_pages s' = (if ys @ zs = [] then 0 else used_pages s) + rh_size n div PAGE_SIZE \<and>
    kheap.truncate s' = kheap.truncate s"
proof -
  have dl: "dll rh_next rh_prev (uregs s) 0 (ys @ zs) 0" "distinct (ys @ zs)"
    and en: "ureg_first s = first_of 0 (ys @ zs)" "ureg_last s = last_of 0 (ys @ zs)"
    and ar: "areas s (unat VM_VMALLOC_START) (ys @ zs) (unat VM_VMALLOC_END)"
    using ok by (auto simp: ureg_ok_def dlist_def)
  have sub: "set (ys @ x # zs) \<subseteq> dom (uregs s)" using dll_dom [OF dl(1)] n(1) by auto
  have ar': "areas s (unat VM_VMALLOC_START) (ys @ x # zs) (unat VM_VMALLOC_END)" by (rule areas_insert [OF ar pos])
  have finish: "ureg_ok s' (ys @ x # zs)" if "dll rh_next rh_prev (uregs s') 0 (ys @ x # zs) 0" "same_areas s s'"
    "ureg_first s' = first_of 0 (ys @ x # zs)" "ureg_last s' = last_of 0 (ys @ x # zs)" for s'
    using that dl(2) n(3) ar' areas_cong [OF that(2) sub] by (auto simp: ureg_ok_def dlist_def)
  consider "ys = []" "zs = []" | f fs where "ys = []" "zs = f # fs" | us l where "ys = us @ [l]" "zs = []"
    | us a b vs where "ys = us @ [a]" "zs = b # vs"
    by (cases ys rule: rev_cases; cases zs) auto
  then show ?thesis
  proof cases
    case 1
    let ?s' = "s\<lparr>ureg_first := x, ureg_last := x, used_pages := rh_size n div PAGE_SIZE,
      uregs := (uregs s)(x \<mapsto> n\<lparr>rh_prev := 0, rh_next := 0\<rparr>)\<rparr>"
    have "insert_ureg (last_of 0 ys) x s = Ret () ?s'"
      using 1 n en by (simp add: insert_ureg_def ureg_simps)
    moreover have "same_areas s ?s'" using n by (simp add: same_areas_def hdr_def)
    moreover have "ureg_ok ?s' (ys @ x # zs)" by (rule finish) (use 1 n \<open>same_areas s ?s'\<close> in simp_all)
    ultimately show ?thesis using 1 by (intro exI [of _ ?s']) (simp add: kheap.truncate_def)
  next
    case 2
    obtain rf where f: "uregs s f = Some rf" "f \<noteq> 0" "f \<noteq> x" using dl 2 n by auto
    let ?h = "(uregs s)(x \<mapsto> n\<lparr>rh_prev := 0, rh_next := f\<rparr>, f \<mapsto> rf\<lparr>rh_prev := x\<rparr>)"
    let ?s' = "s\<lparr>uregs := ?h, ureg_first := x, used_pages := used_pages s + rh_size n div PAGE_SIZE\<rparr>"
    have "insert_ureg (last_of 0 ys) x s = Ret () ?s'"
      using 2 n en f by (simp add: insert_ureg_def ureg_simps)
    moreover have sa: "same_areas s ?s'" using n f by (simp add: same_areas_def hdr_def)
    moreover have "dll rh_next rh_prev ((uregs s)(f \<mapsto> rf\<lparr>rh_prev := x\<rparr>, x \<mapsto> n\<lparr>rh_prev := 0, rh_next := f\<rparr>)) 0 (x # f # fs) 0"
      using dl 2 n f by (intro ur.prepend_node [where p = 0]) auto
    then have "dll rh_next rh_prev ?h 0 (ys @ x # zs) 0" using 2 f(3) by (simp add: fun_upd_twist)
    then have "ureg_ok ?s' (ys @ x # zs)" by (intro finish) (use 2 sa en in simp_all)
    ultimately show ?thesis using 2 by (intro exI [of _ ?s']) (simp add: kheap.truncate_def)
  next
    case 3
    obtain rl where l: "uregs s l = Some rl" "l \<noteq> 0" "l \<noteq> x" using dl 3 n by (auto simp: dll_append)
    have fz: "first_of l us \<noteq> 0" using dll_nonnull [OF dl(1)] 3 by (cases us) auto
    let ?h = "(uregs s)(x \<mapsto> n\<lparr>rh_next := 0, rh_prev := l\<rparr>, l \<mapsto> rl\<lparr>rh_next := x\<rparr>)"
    let ?s' = "s\<lparr>uregs := ?h, ureg_last := x, used_pages := used_pages s + rh_size n div PAGE_SIZE\<rparr>"
    have "insert_ureg (last_of 0 ys) x s = Ret () ?s'"
      using 3 n en l fz by (simp add: insert_ureg_def ureg_simps)
    moreover have sa: "same_areas s ?s'" using n l by (simp add: same_areas_def hdr_def)
    moreover have "dll rh_next rh_prev ((uregs s)(l \<mapsto> rl\<lparr>rh_next := x\<rparr>, x \<mapsto> n\<lparr>rh_next := 0, rh_prev := l\<rparr>)) 0 (us @ [l, x]) 0"
      using dl 3 n l by (intro ur.append_node [where q = 0]) auto
    then have "dll rh_next rh_prev ?h 0 (ys @ x # zs) 0" using 3 l(3) by (simp add: fun_upd_twist)
    then have "ureg_ok ?s' (ys @ x # zs)" by (intro finish) (use 3 sa en in simp_all)
    ultimately show ?thesis using 3 by (intro exI [of _ ?s']) (simp add: kheap.truncate_def)
  next
    case 4
    obtain ra rb where a: "uregs s a = Some ra" "a \<noteq> 0" "a \<noteq> x" and b: "uregs s b = Some rb" "b \<noteq> 0" "b \<noteq> x"
      using dl 4 n by (auto simp: dll_append)
    have ab: "a \<noteq> b" and nx: "rh_next ra = b" and la: "last_of b vs \<noteq> a"
      using dl 4 a by (auto simp: dll_append) (metis disjoint_insert(1) last_of.simps last_of_last last_in_set list.set_intros(2))+
    have fz: "first_of a us \<noteq> 0" using dll_nonnull [OF dl(1)] 4 by (cases us) auto
    let ?n = "n\<lparr>rh_prev := a, rh_next := b\<rparr>"
    let ?h = "(uregs s)(x \<mapsto> ?n, b \<mapsto> rb\<lparr>rh_prev := x\<rparr>, a \<mapsto> ra\<lparr>rh_next := x\<rparr>)"
    let ?s' = "s\<lparr>uregs := ?h, used_pages := used_pages s + rh_size n div PAGE_SIZE\<rparr>"
    have "insert_ureg (last_of 0 ys) x s = Ret () ?s'"
      using 4 n en a b ab nx la fz by (simp add: insert_ureg_def ureg_simps)
    moreover have sa: "same_areas s ?s'" using n a b by (simp add: same_areas_def hdr_def)
    moreover have "dll rh_next rh_prev ((uregs s)(a \<mapsto> ra\<lparr>rh_next := x\<rparr>, b \<mapsto> rb\<lparr>rh_prev := x\<rparr>, x \<mapsto> ?n)) 0 (us @ a # x # b # vs) 0"
      using dl 4 n a b by (intro ur.insert_node) auto
    then have "dll rh_next rh_prev ?h 0 (ys @ x # zs) 0" using 4 ab a(3) b(3) by (simp add: fun_upd_twist)
    then have "ureg_ok ?s' (ys @ x # zs)" by (intro finish) (use 4 sa en in simp_all)
    ultimately show ?thesis using 4 by (intro exI [of _ ?s']) (simp add: kheap.truncate_def)
  qed
qed

lemma ureg_search:
  assumes "dll rh_next rh_prev (uregs s) p xs 0" and "distinct xs" and "set xs \<inter> V = {}" and "0 \<notin> V"
  shows "chase V (ureg_at v) (first_of 0 xs) s =
    Ret (case find (\<lambda>x. rh_vaddr (the (uregs s x)) = v) xs of None \<Rightarrow> 0 | Some x \<Rightarrow> x) s"
  using assms
proof (induction xs arbitrary: V p)
  case Nil
  then show ?case by (simp add: chase_exit ureg_at_def)
next
  case (Cons x xs)
  obtain r where r: "uregs s x = Some r" "rh_next r = first_of 0 xs" "x \<noteq> 0" using Cons.prems(1) by auto
  show ?case
  proof (cases "rh_vaddr r = v")
    case True
    then have "chase V (ureg_at v) x s = Ret x s"
      using r Cons.prems(3) by (intro chase_exit) (auto simp: ureg_at_def load_Some)
    with True r show ?thesis by simp
  next
    case False
    then have "ureg_at v x s = Ret (Inr (first_of 0 xs)) s" using r by (simp add: ureg_at_def load_Some)
    then have "chase V (ureg_at v) x s = chase (insert x V) (ureg_at v) (first_of 0 xs) s"
      using Cons.prems(3) by (simp add: chase.simps [of V])
    also have "\<dots> = Ret (case find (\<lambda>x. rh_vaddr (the (uregs s x)) = v) xs of None \<Rightarrow> 0 | Some x \<Rightarrow> x) s"
      using Cons.prems r by (intro Cons.IH [where p = x]) auto
    finally show ?thesis using False r by simp
  qed
qed

lemma unlink_ureg_ok:
  assumes ok: "ureg_ok s (ys @ x # zs)" and n: "uregs s x = Some n"
  shows "\<exists>s'. unlink_ureg x s = Ret () s' \<and> ureg_ok s' (ys @ zs) \<and> same_areas s s' \<and>
    used_pages s' = used_pages s - rh_size n div PAGE_SIZE \<and> kheap.truncate s' = kheap.truncate s"
proof -
  have dl: "dll rh_next rh_prev (uregs s) 0 (ys @ x # zs) 0" "distinct (ys @ x # zs)"
    and en: "ureg_first s = first_of 0 (ys @ x # zs)" "ureg_last s = last_of 0 (ys @ x # zs)"
    and ar: "areas s (unat VM_VMALLOC_START) (ys @ x # zs) (unat VM_VMALLOC_END)"
    using ok by (auto simp: ureg_ok_def dlist_def)
  have sub: "set (ys @ zs) \<subseteq> dom (uregs s)" using dll_dom [OF dl(1)] by auto
  have lk: "rh_prev n = last_of 0 ys" "rh_next n = first_of 0 zs" using dll_mid [OF dl(1) n] by auto
  have finish: "ureg_ok s' (ys @ zs)" if "dll rh_next rh_prev (uregs s') 0 (ys @ zs) 0" "same_areas s s'"
    "ureg_first s' = first_of 0 (ys @ zs)" "ureg_last s' = last_of 0 (ys @ zs)" for s'
    using that dl(2) areas_remove [OF ar] areas_cong [OF that(2) sub] by (auto simp: ureg_ok_def dlist_def)
  have xu: "ureg_first s = x \<longleftrightarrow> ys = []" using dl(2) en by (cases ys) auto
  have xl: "ureg_last s = x \<longleftrightarrow> zs = []"
    using dl(2) en last_of_last [of zs x] last_in_set [of zs] by (cases "zs = []") auto
  consider "ys = []" "zs = []" | b ws where "ys = []" "zs = b # ws" | us a where "ys = us @ [a]" "zs = []"
    | us a b ws where "ys = us @ [a]" "zs = b # ws"
    by (cases ys rule: rev_cases; cases zs) auto
  then show ?thesis
  proof cases
    case 1
    let ?s' = "s\<lparr>ureg_first := 0, ureg_last := 0, used_pages := used_pages s - rh_size n div PAGE_SIZE\<rparr>"
    have "unlink_ureg x s = Ret () ?s'" using 1 n lk xu by (simp add: unlink_ureg_def ureg_simps)
    moreover have sa: "same_areas s ?s'" by (simp add: same_areas_def)
    moreover have "ureg_ok ?s' (ys @ zs)" by (rule finish) (use 1 sa in simp_all)
    ultimately show ?thesis by (intro exI [of _ ?s']) (simp add: kheap.truncate_def)
  next
    case 2
    obtain rb where b: "uregs s b = Some rb" "b \<noteq> 0" using dl 2 by auto
    let ?h = "(uregs s)(b \<mapsto> rb\<lparr>rh_prev := 0\<rparr>)"
    let ?s' = "s\<lparr>ureg_first := b, uregs := ?h, used_pages := used_pages s - rh_size n div PAGE_SIZE\<rparr>"
    have "unlink_ureg x s = Ret () ?s'" using 2 n lk xu b by (simp add: unlink_ureg_def ureg_simps)
    moreover have sa: "same_areas s ?s'" using b by (simp add: same_areas_def hdr_def)
    moreover have "dll rh_next rh_prev ?h 0 (b # ws) 0"
      using dl 2 b by (intro ur.relink_first [where p = x]) auto
    then have "ureg_ok ?s' (ys @ zs)" by (intro finish) (use 2 sa en in simp_all)
    ultimately show ?thesis by (intro exI [of _ ?s']) (simp add: kheap.truncate_def)
  next
    case 3
    obtain ra where a: "uregs s a = Some ra" "a \<noteq> 0" using dl 3 by (auto simp: dll_append)
    let ?h = "(uregs s)(a \<mapsto> ra\<lparr>rh_next := 0\<rparr>)"
    let ?s' = "s\<lparr>ureg_last := a, uregs := ?h, used_pages := used_pages s - rh_size n div PAGE_SIZE\<rparr>"
    have "unlink_ureg x s = Ret () ?s'" using 3 n lk xu xl a by (simp add: unlink_ureg_def ureg_simps)
    moreover have sa: "same_areas s ?s'" using a by (simp add: same_areas_def hdr_def)
    moreover have "dll rh_next rh_prev ?h 0 (us @ [a]) 0"
      using dl 3 a by (intro ur.relink_last [where q = x]) (auto simp: dll_append)
    then have "ureg_ok ?s' (ys @ zs)" by (intro finish) (use 3 sa en in simp_all)
    ultimately show ?thesis by (intro exI [of _ ?s']) (simp add: kheap.truncate_def)
  next
    case 4
    obtain ra rb where a: "uregs s a = Some ra" "a \<noteq> 0" and b: "uregs s b = Some rb" "b \<noteq> 0"
      using dl 4 by (auto simp: dll_append)
    have ne: "a \<noteq> b" using dl(2) 4 by auto
    let ?h = "(uregs s)(a \<mapsto> ra\<lparr>rh_next := b\<rparr>, b \<mapsto> rb\<lparr>rh_prev := a\<rparr>)"
    let ?s' = "s\<lparr>uregs := ?h, used_pages := used_pages s - rh_size n div PAGE_SIZE\<rparr>"
    have "unlink_ureg x s = Ret () ?s'" using 4 n lk xu xl a b ne by (simp add: unlink_ureg_def ureg_simps)
    moreover have sa: "same_areas s ?s'" using a b by (simp add: same_areas_def hdr_def)
    moreover have "dll rh_next rh_prev ?h 0 (us @ a # b # ws) 0"
      using dl 4 a b by (intro ur.remove_mid [where x = x]) auto
    then have "ureg_ok ?s' (ys @ zs)" by (intro finish) (use 4 sa en in simp_all)
    ultimately show ?thesis by (intro exI [of _ ?s']) (simp add: kheap.truncate_def)
  qed
qed

text \<open>
  Removing an area by its address: when no used area starts there the result is \<open>NULL\<close> and
  nothing changes; otherwise the first header with that address is returned and taken out, the
  remaining areas stay in order and unchanged, and their pages are subtracted from the count.
\<close>

theorem remove_ureg_correct:
  assumes "ureg_ok s xs"
  shows "case find (\<lambda>x. rh_vaddr (the (uregs s x)) = v) xs of
      None \<Rightarrow> remove_ureg v s = Ret NULL s
    | Some x \<Rightarrow> \<exists>s'. remove_ureg v s = Ret x s' \<and> ureg_ok s' (remove1 x xs) \<and> same_areas s s' \<and>
        used_pages s' = used_pages s - rh_size (the (uregs s x)) div PAGE_SIZE"
proof -
  have dl: "dll rh_next rh_prev (uregs s) 0 xs 0" "distinct xs" "ureg_first s = first_of 0 xs"
    using assms by (auto simp: ureg_ok_def dlist_def)
  have ch: "chase {} (ureg_at v) (ureg_first s) s =
    Ret (case find (\<lambda>x. rh_vaddr (the (uregs s x)) = v) xs of None \<Rightarrow> 0 | Some x \<Rightarrow> x) s"
    using ureg_search [OF dl(1,2), of "{}"] dl(3) by simp
  show ?thesis
  proof (cases "find (\<lambda>x. rh_vaddr (the (uregs s x)) = v) xs")
    case None
    then show ?thesis using ch by (simp add: remove_ureg_def)
  next
    case (Some x)
    then have x: "x \<in> set xs" by (auto simp: find_Some_iff)
    then obtain ys zs where yz: "xs = ys @ x # zs" by (auto dest: split_list)
    obtain n where n: "uregs s x = Some n" using dll_in_dom [OF dl(1) x] by blast
    have x0: "x \<noteq> 0" using dll_nonnull [OF dl(1)] x by auto
    obtain s' where "unlink_ureg x s = Ret () s'" "ureg_ok s' (ys @ zs)" "same_areas s s'"
      "used_pages s' = used_pages s - rh_size n div PAGE_SIZE"
      using unlink_ureg_ok [OF assms [unfolded yz] n] by blast
    moreover have "remove1 x xs = ys @ zs" using yz dl(2) by (simp add: remove1_append)
    ultimately show ?thesis using Some ch x0 n by (simp add: remove_ureg_def)
  qed
qed

section \<open>What the lower layers leave alone\<close>

lemma pmm_get_frame_more: "pmm_get_frame s = Ret a s' \<Longrightarrow> pmm.more s' = pmm.more s"
proof -
  have "pmm_get_frame_fuel n s = Ret a s' \<Longrightarrow> pmm.more s' = pmm.more s" for n
  proof (induction n arbitrary: s)
    case (Suc n)
    then show ?case
      by (auto simp: pmm_get_frame_fuel.simps(2) Let_def IDX_SET_def split: if_splits option.splits)
  qed simp
  then show "pmm_get_frame s = Ret a s' \<Longrightarrow> pmm.more s' = pmm.more s" by (simp add: pmm_get_frame_def)
qed

lemma pmm_get_pool_more: "pmm_get_pool n s = Ret a s' \<Longrightarrow> pmm.more s' = pmm.more s"
proof -
  have "pmm.more (fold (\<lambda>i. IDX_SET (of_nat i)) xs s) = pmm.more s" for xs :: "nat list"
    by (induction xs arbitrary: s) (auto simp: IDX_SET_def)
  then show "pmm_get_pool n s = Ret a s' \<Longrightarrow> pmm.more s' = pmm.more s"
    by (auto simp: pmm_get_pool_def split: if_splits option.splits prod.splits)
qed

lemma mmu_more: "pmm.more s' = pmm.more s \<Longrightarrow> mmu.more s' = mmu.more s"
  by (cases s; cases s') simp

lemma vld32_more: "vld32 a s = Ret v s' \<Longrightarrow> s' = s"
  by (auto simp: vld32_def split: option.splits)

lemma vst32_more: "vst32 a v s = Ret x s' \<Longrightarrow> mmu.more s' = mmu.more s"
  by (auto simp: vst32_def split: option.splits)

lemma pg_map_more: "pg_map pa va fl s = Ret x s' \<Longrightarrow> mmu.more s' = mmu.more s"
  by (auto simp: pg_map_def bindR_eq_Ret_conv split: if_splits
      dest!: vld32_more vst32_more pmm_get_frame_more mmu_more)

lemma for_each_more:
  assumes "for_each xs body s = Ret x s'" and "\<And>i s y t. body i s = Ret y t \<Longrightarrow> F t = F s"
  shows "F s' = F s"
  using assms(1)
proof (induction xs arbitrary: s)
  case (Cons i xs)
  then obtain t where "body i s = Ret () t" "for_each xs body t = Ret x s'" by (auto simp: bindR_eq_Ret_conv)
  then show ?case using Cons.IH assms(2) by metis
qed simp

lemma vmm_cont_map_more:
  assumes "vmm_cont_map va n fl c s = Ret x s'"
  shows "mmu.more s' = mmu.more s"
proof (cases c)
  case True
  then obtain pa t where "pmm_get_pool (SIZE_TO_FRAMES n) s = Ret pa t"
    "for_each [0 ..< unat (SIZE_TO_FRAMES n)] (\<lambda>i s.
      pg_map (pa + of_nat i * FRAME_SIZE) (va + of_nat i * FRAME_SIZE) (fl OR PG_PRESENT) s) t = Ret x s'"
    using assms by (auto simp: vmm_cont_map_def Let_def bindR_eq_Ret_conv)
  moreover from this(2) have "mmu.more s' = mmu.more t" by (rule for_each_more) (auto dest: pg_map_more)
  ultimately show ?thesis using mmu_more [OF pmm_get_pool_more] by metis
next
  case False
  then have "for_each [0 ..< unat (SIZE_TO_FRAMES n)] (\<lambda>i s.
      bindR (pmm_get_frame s) (\<lambda>frame s. pg_map frame (va + of_nat i * FRAME_SIZE) (fl OR PG_PRESENT) s)) s = Ret x s'"
    using assms by (simp add: vmm_cont_map_def Let_def)
  then show ?thesis
    by (rule for_each_more) (auto simp: bindR_eq_Ret_conv dest!: pg_map_more pmm_get_frame_more mmu_more)
qed

lemma vmm_void_map_more: "vmm_void_map va n fl s = Ret x s' \<Longrightarrow> mmu.more s' = mmu.more s"
  unfolding vmm_void_map_def by (rule for_each_more) (auto dest: pg_map_more)

lemma mmu_more_sels:
  assumes "mmu.more s' = mmu.more s"
  shows "chunks s' = chunks s" "bins s' = bins s" "void_chunk s' = void_chunk s" "is_initialized s' = is_initialized s"
    "kernel_end s' = kernel_end s" "kheap.more s' = kheap.more s"
  using assms by (cases s; cases s'; simp)+

lemma heap_inv_mmu:
  assumes "mmu.more s' = mmu.more s"
  shows "heap_inv s' = heap_inv s" "live s' = live s" "heap_end s' = heap_end s"
  using mmu_more_sels [OF assms]
  by (simp_all add: heap_inv_def heap_ok_def sizebin_ok_def sortedbin_ok_def heap_start_def live_def heap_end_def)

section \<open>Allocation as a whole\<close>

lemma new_ureg_ok:
  assumes inv: "heap_inv s" "kmalloc_fits 20 s" "dom (uregs s) \<subseteq> live s" and run: "new_ureg v n ty s = Ret x s'"
  shows "heap_inv s'" "x \<notin> dom (uregs s)" "x \<noteq> NULL" "dom (uregs s') \<subseteq> live s'"
    "\<exists>r. uregs s' = (uregs s)(x \<mapsto> r) \<and> hdr r = (v, n, ty)"
    "ureg_first s' = ureg_first s" "ureg_last s' = ureg_last s" "used_pages s' = used_pages s"
proof -
  obtain t where t: "kmalloc 20 s = Ret x t"
    "s' = t\<lparr>uregs := (uregs t)(x \<mapsto> \<lparr>rh_vaddr = v, rh_size = n, phy_type = ty,
       rh_prev = stale t (x + 12), rh_next = stale t (x + 16)\<rparr>)\<rparr>"
    using run by (auto simp: new_ureg_def bindR_eq_Ret_conv)
  have more: "kheap.more t = kheap.more s" by (rule kmalloc_more [OF inv(1,2) t(1)])
  then have sel: "uregs t = uregs s" "ureg_first t = ureg_first s" "ureg_last t = ureg_last s" "used_pages t = used_pages s"
    by (cases s; cases t; simp)+
  note new = kheap.alloc_new_object [OF inv(1,2) t(1) inv(3)]
  have lv: "live s' = live t" "heap_inv s' = heap_inv t"
    using t(2) by (simp_all add: live_def heap_inv_def heap_ok_def sizebin_ok_def sortedbin_ok_def heap_start_def)
  show "x \<notin> dom (uregs s)" "x \<noteq> NULL" "heap_inv s'" using new lv by auto
  show "dom (uregs s') \<subseteq> live s'" using new(3) lv t(2) sel by auto
  show "\<exists>r. uregs s' = (uregs s)(x \<mapsto> r) \<and> hdr r = (v, n, ty)" using t(2) sel by (auto simp: hdr_def)
  show "ureg_first s' = ureg_first s" "ureg_last s' = ureg_last s" "used_pages s' = used_pages s"
    using t(2) sel by auto
qed

lemma ureg_ok_cong:
  assumes "\<And>x. x \<in> set xs \<Longrightarrow> uregs s' x = uregs s x" and "ureg_first s' = ureg_first s" and "ureg_last s' = ureg_last s"
  shows "ureg_ok s' xs = ureg_ok s xs"
proof -
  have "areas s' lo xs hi = areas s lo xs hi" for lo hi
    by (rule ordered_cong) (simp add: assms(1) astart_def aend_def)
  then show ?thesis
    using assms dll_cong [of xs rh_next rh_prev "uregs s'" "uregs s" 0 0] by (simp add: ureg_ok_def dlist_def)
qed

lemma upto_end_cong:
  assumes "\<And>x. x \<in> set xs \<Longrightarrow> uregs s' x = uregs s x"
  shows "upto_end s' lo xs = upto_end s lo xs" and "from_start s' xs hi = from_start s xs hi"
  using assms by (auto simp: astart_def aend_def intro!: end_of_cong start_of_cong)

text \<open>The place of a new area: behind \<open>ys\<close>, in front of \<open>zs\<close>.\<close>

lemma vmalloc_place:
  assumes ok: "ureg_ok s xs" and n: "0 < n" "unat n \<le> unat VM_VMALLOC_END - unat VM_VMALLOC_START"
    and run: "(if ureg_first s = NULL then Ret (VM_VMALLOC_START, NULL) s
             else
               bindR (find_hole_in_as n s) (\<lambda>(vaddr, prev) s.
               case prev of
                 None \<Rightarrow> Panic ''[PANIC] vmalloc cannot satisfy the request''
               | Some prev \<Rightarrow> if vaddr = 0 then Panic ''[PANIC] vmalloc cannot satisfy the request''
                              else Ret (vaddr, prev) s)) = Ret (v, prev) t"
  shows "t = s \<and> (\<exists>ys zs. xs = ys @ zs \<and> prev = last_of NULL ys \<and>
    unat v = upto_end s (unat VM_VMALLOC_START) ys \<and> unat v + unat n \<le> from_start s zs (unat VM_VMALLOC_END))"
proof (cases "xs = []")
  case True
  then have "ureg_first s = 0" using ok by (simp add: ureg_ok_def)
  then show ?thesis using run n(2) True by (auto simp: from_start_def)
next
  case False
  have "first_of 0 xs \<noteq> 0" using ok False by (cases xs) (auto simp: ureg_ok_def dlist_def)
  then have "ureg_first s \<noteq> 0" using ok by (simp add: ureg_ok_def)
  with find_hole_ok [OF ok False n(1)] run show ?thesis by auto blast
qed

text \<open>The steps of a successful call: a hole is found, memory is mapped, a header is made and linked into the list.\<close>

lemma vmalloc_steps:
  assumes "ureg_ok s xs" and "0 < page_round req"
    and "unat (page_round req) \<le> unat VM_VMALLOC_END - unat VM_VMALLOC_START" and "vmalloc req ty s = Ret p s'"
  shows "\<exists>ys zs s1 s2 x. xs = ys @ zs \<and> unat p = upto_end s (unat VM_VMALLOC_START) ys \<and>
    unat p + unat (page_round req) \<le> from_start s zs (unat VM_VMALLOC_END) \<and> mmu.more s1 = mmu.more s \<and>
    (ty = ON_DEMAND \<longrightarrow> vmm_void_map p (page_round req) VMM_RW s = Ret () s1) \<and>
    new_ureg p (page_round req) ty s1 = Ret x s2 \<and> insert_ureg (last_of NULL ys) x s2 = Ret () s'"
proof -
  let ?n = "page_round req"
  obtain v prev t where place: "(if ureg_first s = NULL then Ret (VM_VMALLOC_START, NULL) s
             else
               bindR (find_hole_in_as ?n s) (\<lambda>(vaddr, prev) s.
               case prev of
                 None \<Rightarrow> Panic ''[PANIC] vmalloc cannot satisfy the request''
               | Some prev \<Rightarrow> if vaddr = 0 then Panic ''[PANIC] vmalloc cannot satisfy the request''
                              else Ret (vaddr, prev) s)) = Ret (v, prev) t"
    and rest: "bindR (if ty = MAPPED then vmm_cont_map v ?n VMM_RW False t
             else if ty = PHY_CONT then vmm_cont_map v ?n VMM_RW True t
             else if ty = ON_DEMAND then vmm_void_map v ?n VMM_RW t
             else Panic ''[ERROR] vmalloc unknown phy_type!'') (\<lambda>_ s.
      bindR (new_ureg v ?n ty s) (\<lambda>new s.
      bindR (insert_ureg prev new s) (\<lambda>_ s.
      Ret v s))) = Ret p s'"
    using assms(4) unfolding vmalloc_def Let_def bindR_eq_Ret_conv [of _ "\<lambda>(vaddr, prev) s. _ vaddr prev s"]
    by (auto elim!: bindR_RetE)
  obtain ys zs where t: "t = s" and yz: "xs = ys @ zs" "prev = last_of NULL ys"
    "unat v = upto_end s (unat VM_VMALLOC_START) ys" "unat v + unat ?n \<le> from_start s zs (unat VM_VMALLOC_END)"
    using vmalloc_place [OF assms(1-3) place] by blast
  obtain s1 s2 x where "mmu.more s1 = mmu.more s" "ty = ON_DEMAND \<longrightarrow> vmm_void_map v ?n VMM_RW s = Ret () s1"
    "new_ureg v ?n ty s1 = Ret x s2" "insert_ureg prev x s2 = Ret () s'" "p = v"
    using rest t by (auto simp: bindR_eq_Ret_conv split: if_splits dest: vmm_cont_map_more vmm_void_map_more)
  with yz show ?thesis by blast
qed

lemma ureg_inserted:
  assumes ok: "ureg_ok s (ys @ zs)" and x: "x \<notin> set (ys @ zs)" "x \<noteq> NULL" and r: "uregs s2 x = Some r" "hdr r = (v, n, ty)"
    and same: "\<forall>y \<in> set (ys @ zs). uregs s2 y = uregs s y" "ureg_first s2 = ureg_first s" "ureg_last s2 = ureg_last s"
    and room: "unat v = upto_end s (unat VM_VMALLOC_START) ys" "unat v + unat n \<le> from_start s zs (unat VM_VMALLOC_END)"
    and ins: "insert_ureg (last_of NULL ys) x s2 = Ret () s'"
  shows "ureg_ok s' (ys @ x # zs)" "same_areas s2 s'" "kheap.truncate s' = kheap.truncate s2"
    "\<forall>y \<in> set (ys @ zs). aend s' x \<le> astart s' y \<or> aend s' y \<le> astart s' x"
proof -
  have ok2: "ureg_ok s2 (ys @ zs)" using ureg_ok_cong [of "ys @ zs" s2 s] same ok by simp
  have ux: "unat (rh_vaddr r) = unat v" "unat (rh_size r) = unat n" using r(2) by (auto simp: hdr_def)
  have ends: "upto_end s2 (unat VM_VMALLOC_START) ys \<le> astart s2 x" "aend s2 x \<le> from_start s2 zs (unat VM_VMALLOC_END)"
    using upto_end_cong [of ys s2 s] upto_end_cong(2) [of zs s2 s] same(1) room r(1) ux
    by (auto simp: astart_def aend_def)
  obtain s3 where s3: "insert_ureg (last_of NULL ys) x s2 = Ret () s3" "ureg_ok s3 (ys @ x # zs)" "same_areas s2 s3"
    "kheap.truncate s3 = kheap.truncate s2"
    using insert_ureg_ok [OF ok2 _ x(2) _ ends] x(1) r(1) by auto
  then show "ureg_ok s' (ys @ x # zs)" "same_areas s2 s'" "kheap.truncate s' = kheap.truncate s2" using ins by simp_all
  then show "\<forall>y \<in> set (ys @ zs). aend s' x \<le> astart s' y \<or> aend s' y \<le> astart s' x"
    using areas_disjoint [of s' "unat VM_VMALLOC_START" ys x zs "unat VM_VMALLOC_END"] by (simp add: ureg_ok_def)
qed

lemma truncated_heap:
  assumes "kheap.truncate s' = kheap.truncate s"
  shows "heap_inv s' = heap_inv s" "live s' = live s"
  using assms unfolding kheap.truncate_def
  by (simp_all add: live_def heap_inv_def heap_ok_def sizebin_ok_def sortedbin_ok_def heap_start_def)

lemma truncated_mmu: "kheap.truncate s' = kheap.truncate s \<Longrightarrow> mmu.truncate s' = mmu.truncate s"
  by (simp add: kheap.truncate_def mmu.truncate_def)

text \<open>\<open>keeps_frame M K r\<close>: when \<open>r\<close> returns, the state of the layers above is \<open>M\<close> and the state below the list is \<open>K\<close>.\<close>

definition keeps_frame :: "'a \<Rightarrow> kheap \<Rightarrow> ('b, 'a vmem_scheme) res \<Rightarrow> bool" where
  "keeps_frame M K r \<longleftrightarrow> (\<forall>x s. r = Ret x s \<longrightarrow> vmem.more s = M \<and> kheap.truncate s = K)"

lemma truncate_vmem [simp]:
  "kheap.truncate (uregs_update f s) = kheap.truncate s" "kheap.truncate (ureg_first_update g s) = kheap.truncate s"
  "kheap.truncate (ureg_last_update g s) = kheap.truncate s" "kheap.truncate (used_pages_update k s) = kheap.truncate s"
  by (simp_all add: kheap.truncate_def)

lemma keeps_frame_Ret: "vmem.more s = M \<Longrightarrow> kheap.truncate s = K \<Longrightarrow> keeps_frame M K (Ret x s)"
  by (simp add: keeps_frame_def)

lemma keeps_frame_bind:
  assumes "keeps_frame M K r" and "\<And>x s. vmem.more s = M \<Longrightarrow> kheap.truncate s = K \<Longrightarrow> keeps_frame M K (f x s)"
  shows "keeps_frame M K (bindR r f)"
proof (cases r)
  case (Ret x s)
  then show ?thesis using assms(1) assms(2) [of s x] by (simp add: keeps_frame_def)
qed (simp_all add: keeps_frame_def)

lemma keeps_frame_load: "vmem.more s = M \<Longrightarrow> kheap.truncate s = K \<Longrightarrow> keeps_frame M K (load st p s)"
  by (cases "st s p") (simp_all add: keeps_frame_def load_def)

lemma keeps_frame_modify: "vmem.more s = M \<Longrightarrow> kheap.truncate s = K \<Longrightarrow> keeps_frame M K (modify uregs uregs_update p g s)"
  by (cases "uregs s p") (simp_all add: keeps_frame_def modify_def)

lemma keeps_frame_if: "keeps_frame M K r \<Longrightarrow> keeps_frame M K r' \<Longrightarrow> keeps_frame M K (if b then r else r')"
  by simp

lemmas keeps_frame_intros = keeps_frame_bind keeps_frame_if keeps_frame_load keeps_frame_modify keeps_frame_Ret

lemma keeps_frameD: "keeps_frame M K r \<Longrightarrow> r = Ret x s \<Longrightarrow> vmem.more s = M \<and> kheap.truncate s = K"
  by (simp add: keeps_frame_def)

lemma insert_ureg_keeps: "keeps_frame (vmem.more s) (kheap.truncate s) (insert_ureg prev new s)"
  unfolding insert_ureg_def Let_def by (intro keeps_frame_intros) simp_all

lemma unlink_ureg_keeps: "keeps_frame (vmem.more s) (kheap.truncate s) (unlink_ureg x s)"
  unfolding unlink_ureg_def Let_def by (intro keeps_frame_intros) simp_all

lemma insert_ureg_more: "insert_ureg prev new s = Ret () s' \<Longrightarrow> vmem.more s' = vmem.more s"
  using keeps_frameD [OF insert_ureg_keeps] by blast

lemma same_areas_dom:
  assumes "same_areas s s'"
  shows "dom (uregs s') = dom (uregs s)"
proof (rule set_eqI)
  fix y
  have "map_option hdr (uregs s' y) = map_option hdr (uregs s y)" using assms by (simp add: same_areas_def)
  then show "y \<in> dom (uregs s') \<longleftrightarrow> y \<in> dom (uregs s)" by (cases "uregs s' y"; cases "uregs s y") auto
qed

lemma vmem_more_kheap: "kheap.more s' = kheap.more s \<Longrightarrow> vmem.more s' = vmem.more s"
  by (cases s; cases s'; simp)

lemma new_ureg_frame:
  assumes "heap_inv s" and "kmalloc_fits 20 s" and "new_ureg v n ty s = Ret x s'"
  shows "mmu.truncate s' = mmu.truncate s" "vmem.more s' = vmem.more s"
proof -
  obtain t where t: "kmalloc 20 s = Ret x t" "s' = t\<lparr>uregs := uregs s'\<rparr>"
    using assms(3) by (auto simp: new_ureg_def bindR_eq_Ret_conv)
  have "mmu.truncate s' = mmu.truncate t" by (subst t(2)) (simp add: mmu.truncate_def)
  then show "mmu.truncate s' = mmu.truncate s" using kmalloc_mmu [OF assms(1,2) t(1)] by simp
  have "vmem.more s' = vmem.more t" by (subst t(2)) simp
  then show "vmem.more s' = vmem.more s" using vmem_more_kheap [OF kmalloc_more [OF assms(1,2) t(1)]] by simp
qed

lemma vmalloc_result:
  assumes "ureg_ok s xs" and "heap_inv s" and "kmalloc_fits 20 s" and "dom (uregs s) \<subseteq> live s"
    and "0 < page_round req" and "unat (page_round req) \<le> unat VM_VMALLOC_END - unat VM_VMALLOC_START"
    and "vmalloc req ty s = Ret p s'"
  shows "\<exists>x us vs s1. xs = us @ vs \<and> ureg_ok s' (us @ x # vs) \<and> x \<notin> set xs \<and>
    map_option hdr (uregs s' x) = Some (p, page_round req, ty) \<and>
    (\<forall>y \<in> set xs. map_option hdr (uregs s' y) = map_option hdr (uregs s y) \<and>
       (aend s' x \<le> astart s' y \<or> aend s' y \<le> astart s' x)) \<and>
    heap_inv s' \<and> dom (uregs s') \<subseteq> live s' \<and> x \<in> live s' \<and>
    unat p = upto_end s (unat VM_VMALLOC_START) us \<and> unat p + unat (page_round req) \<le> unat VM_VMALLOC_END \<and>
    mmu.more s1 = mmu.more s \<and> (ty = ON_DEMAND \<longrightarrow> vmm_void_map p (page_round req) VMM_RW s = Ret () s1) \<and>
    mmu.truncate s' = mmu.truncate s1 \<and> vmem.more s' = vmem.more s"
proof -
  let ?n = "page_round req"
  obtain ys zs s1 s2 x where yz: "xs = ys @ zs"
    and room: "unat p = upto_end s (unat VM_VMALLOC_START) ys" "unat p + unat ?n \<le> from_start s zs (unat VM_VMALLOC_END)"
    and m: "mmu.more s1 = mmu.more s" and od: "ty = ON_DEMAND \<longrightarrow> vmm_void_map p ?n VMM_RW s = Ret () s1" and nu: "new_ureg p ?n ty s1 = Ret x s2"
    and ins: "insert_ureg (last_of NULL ys) x s2 = Ret () s'"
    using vmalloc_steps [OF assms(1,5-7)] by blast
  have k1: "heap_inv s1" "kmalloc_fits 20 s1" "kheap.more s1 = kheap.more s" "live s1 = live s"
    using heap_inv_mmu [OF m] mmu_more_sels [OF m] assms(2,3) by (auto simp: kmalloc_fits_def)
  have sel: "uregs s1 = uregs s" "ureg_first s1 = ureg_first s" "ureg_last s1 = ureg_last s"
    using k1(3) by (cases s; cases s1; simp)+
  have d1: "dom (uregs s1) \<subseteq> live s1" using assms(4) sel k1(4) by simp
  note nw = new_ureg_ok [OF k1(1,2) d1 nu]
  obtain r where r: "uregs s2 = (uregs s1)(x \<mapsto> r)" "hdr r = (p, ?n, ty)" using nw(5) by blast
  have "set xs \<subseteq> dom (uregs s)" using assms(1) by (auto simp: ureg_ok_def dlist_def dest: dll_in_dom)
  then have xn: "x \<notin> set (ys @ zs)" using nw(2) sel yz by auto
  then have same: "\<forall>y \<in> set (ys @ zs). uregs s2 y = uregs s y" using r(1) sel by auto
  have "uregs s2 x = Some r" "ureg_first s2 = ureg_first s" "ureg_last s2 = ureg_last s" using r(1) nw(6,7) sel by simp_all
  note linked = ureg_inserted [OF assms(1) [unfolded yz] xn nw(3) this(1) r(2) same this(2,3) room ins]
  have "map_option hdr (uregs s' y) = map_option hdr (uregs s2 y)" for y using linked(2) by (simp add: same_areas_def)
  moreover have "mmu.truncate s' = mmu.truncate s1" "vmem.more s' = vmem.more s"
    using truncated_mmu [OF linked(3)] new_ureg_frame [OF k1(1,2) nu] insert_ureg_more [OF ins] vmem_more_kheap [OF k1(3)] by simp_all
  moreover have "x \<in> live s'" using truncated_heap(2) [OF linked(3)] nw(4) r(1) by auto
  moreover have "from_start s zs (unat VM_VMALLOC_END) \<le> unat VM_VMALLOC_END"
    using assms(1) yz areas_bounds [of s "unat VM_VMALLOC_START" xs "unat VM_VMALLOC_END" "hd zs"]
    by (cases zs) (auto simp: ureg_ok_def from_start_def intro: le_trans [OF astart_le_aend])
  then have "unat p + unat ?n \<le> unat VM_VMALLOC_END" using room(2) by simp
  ultimately show ?thesis
    using yz linked(1,4) xn r same truncated_heap [OF linked(3)] same_areas_dom [OF linked(2)] nw(1,4) m od room(1)
    by (intro exI [of _ x] exI [of _ ys] exI [of _ zs] exI [of _ s1]) auto
qed

text \<open>
  C11: \<open>vmalloc\<close> hands out an area of its own. Whenever it returns, for a request that fits the
  vmalloc area, the result is the start of a new entry of the list of used areas with the rounded
  size, the entry overlaps no other used area, the other entries are unchanged, and the list, the
  heap and the link between the two stay well formed.
\<close>

theorem vmalloc_correct:
  assumes "ureg_ok s xs" and "heap_inv s" and "kmalloc_fits 20 s" and "dom (uregs s) \<subseteq> live s"
    and "0 < page_round req" and "unat (page_round req) \<le> unat VM_VMALLOC_END - unat VM_VMALLOC_START"
    and "vmalloc req ty s = Ret p s'"
  shows "\<exists>x us vs. xs = us @ vs \<and> ureg_ok s' (us @ x # vs) \<and> x \<notin> set xs \<and>
    map_option hdr (uregs s' x) = Some (p, page_round req, ty) \<and>
    (\<forall>y \<in> set xs. map_option hdr (uregs s' y) = map_option hdr (uregs s y) \<and>
       (aend s' x \<le> astart s' y \<or> aend s' y \<le> astart s' x)) \<and>
    heap_inv s' \<and> dom (uregs s') \<subseteq> live s'"
  using vmalloc_result [OF assms] by blast

text \<open>
  A one-page request on demand is satisfied when some gap of the list takes it, a frame for a page table is left and the
  heap has room for the header.
\<close>

lemma vmalloc_returns:
  assumes ok: "ureg_ok s xs" and "xs \<noteq> []" and heap: "heap_inv s" "kmalloc_fits 20 s" "dom (uregs s) \<subseteq> live s"
    and pg: "pg_inv s" and fr: "\<exists>a t. pmm_get_frame s = Ret a t" and "xs = ys @ zs" and "unat (page_round req) \<le> gap s ys zs"
    and pr: "page_round req = 0x1000" and room: "\<not> the (chsize s (void_chunk s)) < align_request 20"
  shows "\<exists>p s'. vmalloc req ON_DEMAND s = Ret p s'"
proof -
  obtain v prev us vs where hole: "find_hole_in_as 0x1000 s = Ret (v, Some prev) s" "v \<noteq> 0" "xs = us @ vs" "prev = last_of NULL us"
    "unat v = upto_end s (unat VM_VMALLOC_START) us" "unat v + 4096 \<le> from_start s vs (unat VM_VMALLOC_END)"
    using find_hole_ok [OF ok assms(2), of "0x1000"] assms(8,9) pr by (auto simp: not_less [symmetric])
  have "from_start s vs (unat VM_VMALLOC_END) \<le> unat VM_VMALLOC_END"
    using ok hole(3) areas_bounds [of s "unat VM_VMALLOC_START" xs "unat VM_VMALLOC_END" "hd vs"]
    by (cases vs) (auto simp: ureg_ok_def from_start_def intro: le_trans [OF astart_le_aend])
  then have d: "drop_bit 22 v < 1022" using hole(6) by (simp add: word_less_nat_alt unat_drop22 less_mult_imp_div_less)
  obtain s1 where s1: "pg_map 0 v VMM_RW s = Ret () s1"
    using pg_map_existing [OF pg d] pg_map_fresh [OF pg d] fr by (cases "slot s (drop_bit 22 v) = 0") blast+
  then have map: "vmm_void_map v 0x1000 VMM_RW s = Ret () s1" by (simp add: vmm_void_map_def SIZE_TO_FRAMES_def)
  have m: "mmu.more s1 = mmu.more s" by (rule pg_map_more [OF s1])
  have k1: "heap_inv s1" "kmalloc_fits 20 s1" "live s1 = live s" and km: "kheap.more s1 = kheap.more s"
    using heap_inv_mmu [OF m] mmu_more_sels [OF m] heap by (auto simp: kmalloc_fits_def)
  have sel: "uregs s1 = uregs s" "ureg_first s1 = ureg_first s" "ureg_last s1 = ureg_last s" using km by (cases s1; cases s; simp)+
  have d1: "dom (uregs s1) \<subseteq> live s1" using heap(3) sel k1(3) by simp
  have "\<not> the (chsize s1 (void_chunk s1)) < align_request 20" using room mmu_more_sels [OF m] by simp
  then obtain x t where "kmalloc 20 s1 = Ret x t" using kmalloc_cases [of s1 20] k1(1,2) by (auto simp: kmalloc_fits_def)
  then obtain x s2 where nu: "new_ureg v 0x1000 ON_DEMAND s1 = Ret x s2" by (auto simp: new_ureg_def)
  note nw = new_ureg_ok [OF k1(1,2) d1 nu]
  obtain r where r: "uregs s2 = (uregs s1)(x \<mapsto> r)" "hdr r = (v, 0x1000, ON_DEMAND)" using nw(5) by blast
  have "set xs \<subseteq> dom (uregs s)" using ok by (auto simp: ureg_ok_def dlist_def dest: dll_in_dom)
  then have xn: "x \<notin> set (us @ vs)" using nw(2) sel hole(3) by auto
  then have u: "uregs s2 y = uregs s y" if "y \<in> set (us @ vs)" for y using that r(1) sel by auto
  have ok2: "ureg_ok s2 (us @ vs)" using ureg_ok_cong [of "us @ vs" s2 s] u nw(6,7) sel ok hole(3) by simp
  have "astart s2 x = unat v" "aend s2 x = unat v + 4096" using r by (auto simp: hdr_def astart_def aend_def)
  then have "\<exists>s'. insert_ureg (last_of 0 us) x s2 = Ret () s'"
    using insert_ureg_ok [OF ok2, of x r] nw(3) xn r(1) hole(5,6) upto_end_cong [of us s2 s] upto_end_cong(2) [of vs s2 s] u
    by auto
  moreover have "ureg_first s \<noteq> 0" using ok assms(2) by (cases xs) (auto simp: ureg_ok_def dlist_def)
  ultimately show ?thesis using hole(1,2,4) map nu by (auto simp: vmalloc_def pr)
qed

section \<open>A concrete list of areas\<close>

definition vmem_demo :: vmem where
  "vmem_demo = kheap.extend kheap_two
     \<lparr>uregs = [0xc0101008 \<mapsto> \<lparr>rh_vaddr = 0xd0001000, rh_size = 0x2000, phy_type = 2, rh_prev = 0, rh_next = 0\<rparr>],
      ureg_first = 0xc0101008, ureg_last = 0xc0101008, used_pages = 2\<rparr>"

lemmas vmem_demo_simps = vmem_demo_def kheap.extend_def kheap_two_def kheap_demo_simps

lemma ureg_ok_demo: "ureg_ok vmem_demo [0xc0101008]"
  by (simp add: ureg_ok_def dlist_def astart_def aend_def vmem_demo_def kheap.extend_def)

lemma vmem_demo_heap:
  "heap_inv vmem_demo" "live vmem_demo = live kheap_two" "kmalloc_fits 20 vmem_demo" "dom (uregs vmem_demo) \<subseteq> live vmem_demo"
proof -
  have "chunks vmem_demo = chunks kheap_two" "bins vmem_demo = bins kheap_two"
    "void_chunk vmem_demo = void_chunk kheap_two" "is_initialized vmem_demo = is_initialized kheap_two"
    "kernel_end vmem_demo = kernel_end kheap_two"
    by (simp_all add: vmem_demo_def kheap.extend_def)
  then have "heap_inv vmem_demo = heap_inv kheap_two" and l: "live vmem_demo = live kheap_two"
    by (simp_all add: heap_inv_def heap_ok_def sizebin_ok_def sortedbin_ok_def heap_start_def live_def)
  then show "heap_inv vmem_demo" "live vmem_demo = live kheap_two" using heap_inv_two by auto
  show "kmalloc_fits 20 vmem_demo" by (simp add: kmalloc_fits_def heap_end_def vmem_demo_simps)
  show "dom (uregs vmem_demo) \<subseteq> live vmem_demo"
    unfolding l using heap_inv_two(2) by (simp add: vmem_demo_def kheap.extend_def)
qed

lemma vmem_demo_mmu: "pg_inv vmem_demo" "slot vmem_demo (GET_PD_IDX 0xd0000000) = 0"
proof -
  have sel: "slot vmem_demo = slot mmu_demo" "cr3 vmem_demo = cr3 mmu_demo" "free_set vmem_demo = free_set mmu_demo"
    "pmm_inv vmem_demo = pmm_inv mmu_demo"
    by (simp_all add: slot_def fun_eq_iff free_set_def pmm_inv_def vmem_demo_simps)
  then have "pg_inv vmem_demo = pg_inv mmu_demo" by (simp add: pg_inv_def recursive_pd_def tables_ok_def)
  then show "pg_inv vmem_demo" using pg_inv_demo by simp
  show "slot vmem_demo (GET_PD_IDX 0xd0000000) = 0" using sel demo_slot by (simp add: GET_PD_IDX_def drop_bit_eq_div)
qed

lemma vmem_demo_frame: "\<exists>a t. pmm_get_frame vmem_demo = Ret a t"
  using pmm_get_frame_two_calls [of vmem_demo 2] vmem_demo_mmu(1)
  by (simp add: pmm_get_frame_def vmem_demo_simps mmu_demo_def scan_free.simps bit_get_def IDX_TO_ADDR_def pg_inv_def)

lemma vmem_demo_run: "\<exists>p s'. vmalloc 100 ON_DEMAND vmem_demo = Ret p s'"
proof (rule vmalloc_returns [OF ureg_ok_demo _ vmem_demo_heap(1,3,4) vmem_demo_mmu(1) vmem_demo_frame, of "[]" "[0xc0101008]"])
  show "unat (page_round 100) \<le> gap vmem_demo [] [0xc0101008]"
    by (simp add: page_round_def gap_def from_start_def astart_def vmem_demo_def kheap.extend_def)
qed (simp_all add: page_round_def vmem_demo_simps align_request_def)

theorem find_hole_correct_witness:
  "ureg_ok vmem_demo [0xc0101008] \<and> (\<exists>v prev. find_hole_in_as 0x1000 vmem_demo = Ret (v, Some prev) vmem_demo \<and> v \<noteq> 0)"
proof -
  have "gap vmem_demo [] [0xc0101008] = 0x1000"
    by (simp add: gap_def from_start_def astart_def vmem_demo_def kheap.extend_def)
  then show ?thesis
    using find_hole_correct [OF ureg_ok_demo, of "0x1000"] ureg_ok_demo by force
qed

theorem remove_ureg_correct_witness:
  "\<exists>s'. remove_ureg 0xd0001000 vmem_demo = Ret 0xc0101008 s' \<and> ureg_ok s' []"
  using remove_ureg_correct [OF ureg_ok_demo, of "0xd0001000"]
  by (auto simp: vmem_demo_def kheap.extend_def)

theorem vmalloc_correct_witness:
  "\<exists>p s' x us vs. vmalloc 100 ON_DEMAND vmem_demo = Ret p s' \<and> ureg_ok s' (us @ x # vs) \<and>
     map_option hdr (uregs s' x) = Some (p, 0x1000, ON_DEMAND)"
proof -
  have pr: "page_round 100 = 0x1000" by (simp add: page_round_def)
  obtain p s' where run: "vmalloc 100 ON_DEMAND vmem_demo = Ret p s'" using vmem_demo_run by blast
  from vmalloc_correct [OF ureg_ok_demo vmem_demo_heap(1,3,4) _ _ run] pr run show ?thesis by auto
qed

end
