(* ===== verification/Vmm.thy ===== *)
theory Vmm
  imports Vmalloc
begin

text \<open>
  User address spaces, \<^verbatim>\<open>kernel/memory/vmm.c\<close>: an address space owns a page directory and a
  doubly linked list of regions ordered by address. This theory holds the region list, the data
  segment (\<^verbatim>\<open>brk\<close>), unmapping, forking and the copies between address spaces; \<^verbatim>\<open>vmm_mmap_at\<close> and
  the page-fault handler need the file system and signals and are modelled on top of those.
\<close>

record region =
  r_addr :: u32
  r_size :: u32
  r_flags :: u32
  r_prev :: ptr
  r_next :: ptr

record aspace =
  as_pd :: u32
  code_entry :: u32
  elf_end :: u32
  data_end :: u32
  stack_end :: u32
  stack_size :: u32
  page_counter :: u32
  as_first :: ptr
  as_last :: ptr

text \<open>
  \<open>kmem\<close> holds the bytes between \<^verbatim>\<open>VM_KERN_START\<close> and \<^verbatim>\<open>VM_KMALLOC_END\<close> that belong to no object with
  a record of its own: the initial ramdisk and the character buffers on the heap. That range is
  mapped for the whole life of the system. Every other kernel address, of the vmalloc area or of
  one of the temporary windows, is reached through the page tables.
\<close>

record vmm = vmem +
  kmem :: "ptr \<Rightarrow> u8"
  regions :: "ptr \<rightharpoonup> region"
  aspaces :: "ptr \<rightharpoonup> aspace"

abbreviation (input) get_region :: "ptr \<Rightarrow> 'a vmm_scheme \<Rightarrow> (region, 'a vmm_scheme) res" where
  "get_region p s \<equiv> load regions p s"
abbreviation (input) set_region :: "ptr \<Rightarrow> (region \<Rightarrow> region) \<Rightarrow> 'a vmm_scheme \<Rightarrow> (unit, 'a vmm_scheme) res" where
  "set_region p f s \<equiv> modify regions regions_update p f s"
abbreviation (input) get_as :: "ptr \<Rightarrow> 'a vmm_scheme \<Rightarrow> (aspace, 'a vmm_scheme) res" where
  "get_as p s \<equiv> load aspaces p s"
abbreviation (input) set_as :: "ptr \<Rightarrow> (aspace \<Rightarrow> aspace) \<Rightarrow> 'a vmm_scheme \<Rightarrow> (unit, 'a vmm_scheme) res" where
  "set_as p f s \<equiv> modify aspaces aspaces_update p f s"

abbreviation (input) ENOMEM :: u32 where "ENOMEM \<equiv> 12"
abbreviation (input) EFAULT :: u32 where "EFAULT \<equiv> 14"
abbreviation (input) EINVAL :: u32 where "EINVAL \<equiv> 22"
abbreviation (input) E2BIG :: u32 where "E2BIG \<equiv> 7"

definition set_errno :: "u32 \<Rightarrow> 'a mmu_scheme \<Rightarrow> 'a mmu_scheme" where
  "set_errno e s = s\<lparr>errno := e\<rparr>"

definition kld8 :: "ptr \<Rightarrow> 'a vmm_scheme \<Rightarrow> (u8, 'a vmm_scheme) res" where
  "kld8 a s = (if VM_KERN_START \<le> a \<and> a < VM_KMALLOC_END then Ret (kmem s a) s else vld8 a s)"

definition kst8 :: "ptr \<Rightarrow> u8 \<Rightarrow> 'a vmm_scheme \<Rightarrow> (unit, 'a vmm_scheme) res" where
  "kst8 a c s =
     (if VM_KERN_START \<le> a \<and> a < VM_KMALLOC_END then Ret () (s\<lparr>kmem := (kmem s)(a := c)\<rparr>) else vst8 a c s)"

section \<open>The region list\<close>

definition area_scan :: "u32 \<Rightarrow> u32 \<Rightarrow> ptr \<Rightarrow> 'a vmm_scheme \<Rightarrow> (bool + ptr, 'a vmm_scheme) res" where
  "area_scan addr sz tmp s =
     (if tmp = NULL then Ret (Inl False) s
      else bindR (get_region tmp s) (\<lambda>t s.
        if addr \<le> r_addr t then Ret (Inl (addr + sz \<le> r_addr t)) s
        else Ret (Inr (r_next t)) s))"

definition is_area_free :: "ptr \<Rightarrow> u32 \<Rightarrow> u32 \<Rightarrow> 'a vmm_scheme \<Rightarrow> (bool, 'a vmm_scheme) res" where
  "is_area_free as addr sz s =
     bindR (get_as as s) (\<lambda>a s.
     if as_first a = NULL then Ret True s
     else
       bindR (get_region (as_last a) s) (\<lambda>l s.
       if addr \<ge> r_addr l + r_size l then Ret (addr + sz \<le> VM_USER_END) s
       else chase {} (area_scan addr sz) (as_first a) s))"

definition place_scan :: "region \<Rightarrow> ptr \<Rightarrow> 'a vmm_scheme \<Rightarrow> (ptr option + ptr, 'a vmm_scheme) res" where
  "place_scan r tmp s =
     bindR (get_region tmp s) (\<lambda>t s.
     if r_next t = NULL then Ret (Inl None) s
     else
       bindR (get_region (r_next t) s) (\<lambda>n s.
       if r_addr r \<ge> r_addr t + r_size t \<and> r_addr r + r_size r \<le> r_addr n then Ret (Inl (Some tmp)) s
       else Ret (Inr (r_next t)) s))"

definition insert_region :: "ptr \<Rightarrow> ptr \<Rightarrow> 'a vmm_scheme \<Rightarrow> (unit, 'a vmm_scheme) res" where
  "insert_region as reg s =
     bindR (get_as as s) (\<lambda>a s.
     bindR (get_region reg s) (\<lambda>r s.
     bindR (if as_first a = NULL then Ret True s
            else bindR (get_region (as_first a) s) (\<lambda>f s. Ret (r_addr f \<ge> r_addr r + r_size r) s)) (\<lambda>front s.
     if front then
       bindR (set_region reg (r_next_update (\<lambda>_. as_first a)) s) (\<lambda>_ s.
       bindR (set_as as (as_first_update (\<lambda>_. reg)) s) (\<lambda>_ s.
       bindR (if as_first a \<noteq> NULL then set_region (as_first a) (r_prev_update (\<lambda>_. reg)) s
              else Ret () s) (\<lambda>_ s.
       bindR (set_region reg (r_prev_update (\<lambda>_. NULL)) s) (\<lambda>_ s.
       if as_last a = NULL then set_as as (as_last_update (\<lambda>_. reg)) s else Ret () s))))
     else
       bindR (get_region (as_last a) s) (\<lambda>l s.
       if r_addr l + r_size l \<le> r_addr r then
         bindR (set_region reg (r_next_update (\<lambda>_. NULL)) s) (\<lambda>_ s.
         bindR (set_region reg (r_prev_update (\<lambda>_. as_last a)) s) (\<lambda>_ s.
         bindR (set_as as (as_last_update (\<lambda>_. reg)) s) (\<lambda>_ s.
         set_region (as_last a) (r_next_update (\<lambda>_. reg)) s)))
       else
         bindR (chase {} (place_scan r) (as_first a) s) (\<lambda>place s.
         case place of
           None \<Rightarrow> Ret () s
         | Some tmp \<Rightarrow>
             bindR (get_region tmp s) (\<lambda>t s.
             bindR (set_region reg (r_next_update (\<lambda>_. r_next t)) s) (\<lambda>_ s.
             bindR (set_region (r_next t) (r_prev_update (\<lambda>_. reg)) s) (\<lambda>_ s.
             bindR (set_region reg (r_prev_update (\<lambda>_. tmp)) s) (\<lambda>_ s.
             set_region tmp (r_next_update (\<lambda>_. reg)) s)))))))))"

definition remove_region :: "ptr \<Rightarrow> ptr \<Rightarrow> 'a vmm_scheme \<Rightarrow> (unit, 'a vmm_scheme) res" where
  "remove_region as reg s =
     bindR (get_as as s) (\<lambda>a s.
     bindR (get_region reg s) (\<lambda>r s.
     bindR (get_region (as_first a) s) (\<lambda>f s.
     bindR (if r_addr f = r_addr r then
              bindR (set_as as (as_first_update (\<lambda>_. r_next r)) s) (\<lambda>_ s.
              bindR (if r_next r \<noteq> NULL then set_region (r_next r) (r_prev_update (\<lambda>_. NULL)) s
                     else Ret () s) (\<lambda>_ s. Ret True s))
            else Ret False s) (\<lambda>done s.
     bindR (get_region (as_last a) s) (\<lambda>l s.
     bindR (get_region reg s) (\<lambda>r s.
     if r_addr l = r_addr r then
       bindR (set_as as (as_last_update (\<lambda>_. r_prev r)) s) (\<lambda>_ s.
       if r_prev r \<noteq> NULL then set_region (r_prev r) (r_next_update (\<lambda>_. NULL)) s else Ret () s)
     else if done then Ret () s
     else
       bindR (set_region (r_prev r) (r_next_update (\<lambda>_. r_next r)) s) (\<lambda>_ s.
       set_region (r_next r) (r_prev_update (\<lambda>_. r_prev r)) s)))))))"

definition region_scan :: "u32 \<Rightarrow> ptr \<Rightarrow> 'a vmm_scheme \<Rightarrow> (ptr + ptr, 'a vmm_scheme) res" where
  "region_scan vaddr tmp s =
     (if tmp = NULL then Ret (Inl NULL) s
      else bindR (get_region tmp s) (\<lambda>t s.
        if vaddr \<ge> r_addr t \<and> vaddr \<le> r_addr t + r_size t then Ret (Inl tmp) s
        else Ret (Inr (r_next t)) s))"

definition find_region :: "ptr \<Rightarrow> u32 \<Rightarrow> 'a vmm_scheme \<Rightarrow> (ptr, 'a vmm_scheme) res" where
  "find_region as vaddr s =
     bindR (get_as as s) (\<lambda>a s. chase {} (region_scan vaddr) (as_first a) s)"

definition create_region :: "u32 \<Rightarrow> u32 \<Rightarrow> u32 \<Rightarrow> 'a vmm_scheme \<Rightarrow> (ptr, 'a vmm_scheme) res" where
  "create_region addr sz flags s =
     bindR (kmalloc 20 s) (\<lambda>reg s.
     Ret reg (s\<lparr>regions := (regions s)(reg \<mapsto>
       \<lparr>r_addr = addr, r_size = sz, r_flags = flags, r_prev = NULL, r_next = NULL\<rparr>)\<rparr>))"

text \<open>
  The page loop of \<^verbatim>\<open>_destroy_region\<close>. Both branches of \<^verbatim>\<open>(tmp % PAGE_SIZE) ? tmp : tmp - (tmp % PAGE_SIZE)\<close>
  give \<open>tmp\<close>. The counter advances by a page; after \<open>2 ^ 20\<close> steps without an end it has returned to
  its start and runs for ever.
\<close>

fun destroy_pages :: "nat \<Rightarrow> u32 \<Rightarrow> u32 \<Rightarrow> u32 \<Rightarrow> 'a mmu_scheme \<Rightarrow> (unit, 'a mmu_scheme) res" where
  "destroy_pages 0 pd tmp end_addr s = Timeout"
| "destroy_pages (Suc fuel) pd tmp end_addr s =
     (if tmp < end_addr then
        bindR (pg_unmap_from pd tmp s) (\<lambda>paddr s.
        destroy_pages fuel pd (tmp + PAGE_SIZE) end_addr (if paddr \<noteq> 0 then pmm_free_frame paddr s else s))
      else Ret () s)"

definition destroy_region :: "ptr \<Rightarrow> ptr \<Rightarrow> 'a vmm_scheme \<Rightarrow> (unit, 'a vmm_scheme) res" where
  "destroy_region as reg s =
     bindR (remove_region as reg s) (\<lambda>_ s.
     bindR (get_region reg s) (\<lambda>r s.
     bindR (get_as as s) (\<lambda>a s.
     bindR (destroy_pages (2 ^ 20 + 1) (as_pd a) (r_addr r) (r_addr r + r_size r) s) (\<lambda>_ s.
     kfree reg (s\<lparr>regions := (regions s)(reg := None)\<rparr>)))))"

text \<open>The candidate loop of \<^verbatim>\<open>_find_free_area\<close>, walking down through addresses.\<close>

definition free_area_step :: "ptr \<Rightarrow> u32 \<Rightarrow> aspace \<Rightarrow> u32 \<Rightarrow> 'a vmm_scheme \<Rightarrow> (u32 + u32, 'a vmm_scheme) res" where
  "free_area_step as sz a vaddr s =
     (if vaddr \<ge> data_end a + 0x1000 then
        bindR (is_area_free as vaddr sz s) (\<lambda>free s.
        if free then Ret (Inl vaddr) s
        else
          bindR (find_region as vaddr s) (\<lambda>reg s.
          if reg = NULL then Ret (Inr (vaddr - sz)) s
          else bindR (get_region reg s) (\<lambda>r s. Ret (Inr (r_addr r - sz)) s)))
      else Ret (Inl NULL) s)"

definition find_free_area :: "ptr \<Rightarrow> u32 \<Rightarrow> 'a vmm_scheme \<Rightarrow> (u32, 'a vmm_scheme) res" where
  "find_free_area as sz s =
     bindR (get_as as s) (\<lambda>a s.
     chase {} (free_area_step as sz a) (stack_end a - 0x1000 - sz) s)"

definition vaddr_to_paddr :: "u32 \<Rightarrow> u32 \<Rightarrow> 'a mmu_scheme \<Rightarrow> (u32, 'a mmu_scheme) res" where
  "vaddr_to_paddr pd vaddr s = pg_get_frame_from pd vaddr s"

section \<open>Creating, forking and destroying address spaces\<close>

fun fork_pages :: "nat \<Rightarrow> u32 \<Rightarrow> u32 \<Rightarrow> u32 \<Rightarrow> u32 \<Rightarrow> u32 \<Rightarrow> 'a mmu_scheme \<Rightarrow> (unit, 'a mmu_scheme) res" where
  "fork_pages 0 src_pd dst_pd vaddr end_addr flags s = Timeout"
| "fork_pages (Suc fuel) src_pd dst_pd vaddr end_addr flags s =
     (if vaddr < end_addr then
        bindR (pg_duplicate_page src_pd vaddr s) (\<lambda>paddr s.
        bindR (pg_map_to dst_pd paddr vaddr (flags OR PG_PRESENT) s) (\<lambda>_ s.
        fork_pages fuel src_pd dst_pd (vaddr + PAGE_SIZE) end_addr flags s))
      else Ret () s)"

text \<open>The outer loop of \<^verbatim>\<open>_fork_aspace\<close>; coming back to a region already copied means a cyclic list.\<close>

function fork_regions :: "ptr set \<Rightarrow> ptr \<Rightarrow> ptr \<Rightarrow> ptr \<Rightarrow> 'a vmm_scheme \<Rightarrow> (unit, 'a vmm_scheme) res" where
  "fork_regions V src dst tmp s =
     (if tmp = NULL then Ret () s
      else if tmp \<in> V then Timeout
      else
        bindR (get_as src s) (\<lambda>a s.
        bindR (get_as dst s) (\<lambda>d s.
        bindR (get_region tmp s) (\<lambda>t s.
        bindR (fork_pages (2 ^ 20 + 1) (as_pd a) (as_pd d) (r_addr t) (r_addr t + r_size t) (r_flags t) s) (\<lambda>_ s.
        bindR (create_region (r_addr t) (r_size t) (r_flags t) s) (\<lambda>new s.
        bindR (insert_region dst new s) (\<lambda>_ s.
        bindR (get_region tmp s) (\<lambda>t s.
        fork_regions (insert tmp V) src dst (r_next t) s))))))))"
  by pat_completeness auto
termination
  by (relation "measure (\<lambda>(V, _). card (- V))") (auto intro!: psubset_card_mono)

declare fork_regions.simps [simp del] destroy_pages.simps(2) [simp del] fork_pages.simps(2) [simp del]

definition fork_aspace :: "ptr \<Rightarrow> ptr \<Rightarrow> 'a vmm_scheme \<Rightarrow> (unit, 'a vmm_scheme) res" where
  "fork_aspace src dst s =
     bindR (get_as src s) (\<lambda>a s.
     bindR (fork_regions {} src dst (as_first a) s) (\<lambda>_ s.
     bindR (get_as src s) (\<lambda>a s.
     set_as dst (\<lambda>d. d\<lparr>code_entry := code_entry a, elf_end := elf_end a, data_end := data_end a,
       stack_end := stack_end a, stack_size := stack_size a, page_counter := page_counter a\<rparr>) s)))"

definition zero_aspace :: aspace where
  "zero_aspace = \<lparr>as_pd = 0, code_entry = 0, elf_end = 0, data_end = 0, stack_end = 0, stack_size = 0,
     page_counter = 0, as_first = NULL, as_last = NULL\<rparr>"

definition vmm_aspace_create :: "ptr \<Rightarrow> 'a vmm_scheme \<Rightarrow> (ptr, 'a vmm_scheme) res" where
  "vmm_aspace_create parent_as s =
     bindR (kmalloc 36 s) (\<lambda>new s.
     let s = s\<lparr>aspaces := (aspaces s)(new \<mapsto> zero_aspace)\<rparr> in
     if parent_as = NULL then
       bindR (pg_create_directory 0 s) (\<lambda>pd s.
       bindR (set_as new (as_pd_update (\<lambda>_. pd)) s) (\<lambda>_ s. Ret new s))
     else
       bindR (get_as parent_as s) (\<lambda>p s.
       bindR (pg_create_directory (as_pd p) s) (\<lambda>pd s.
       bindR (set_as new (as_pd_update (\<lambda>_. pd)) s) (\<lambda>_ s.
       bindR (fork_aspace parent_as new s) (\<lambda>_ s. Ret new s)))))"

text \<open>Each step releases the region it visits; a second visit would read a released object.\<close>

function destroy_regions :: "ptr set \<Rightarrow> ptr \<Rightarrow> ptr \<Rightarrow> 'a vmm_scheme \<Rightarrow> (unit, 'a vmm_scheme) res" where
  "destroy_regions V as region s =
     (if region = NULL then Ret () s
      else if region \<in> V then Fault region
      else
        bindR (get_region region s) (\<lambda>r s.
        bindR (destroy_region as region s) (\<lambda>_ s.
        destroy_regions (insert region V) as (r_next r) s)))"
  by pat_completeness auto
termination
  by (relation "measure (\<lambda>(V, _). card (- V))") (auto intro!: psubset_card_mono)

declare destroy_regions.simps [simp del]

definition vmm_aspace_destroy :: "ptr \<Rightarrow> 'a vmm_scheme \<Rightarrow> (unit, 'a vmm_scheme) res" where
  "vmm_aspace_destroy aspace s =
     bindR (get_as aspace s) (\<lambda>a s.
     bindR (destroy_regions {} aspace (as_first a) s) (\<lambda>_ s.
     kfree aspace (s\<lparr>aspaces := (aspaces s)(aspace := None)\<rparr>)))"

section \<open>Unmapping a region\<close>

text \<open>
  The loop of \<^verbatim>\<open>vmm_munmap\<close> over the pages of a region. It looks up the frame of \<open>vaddr\<close>, the address
  given by the caller, in every round, not that of \<open>current_vaddr\<close>.
\<close>

definition destroy_interval :: "u32 \<Rightarrow> u32 \<Rightarrow> u32" where
  "destroy_interval rem_size current_vaddr =
     (let destroy_int = PAGE_SIZE - current_vaddr mod PAGE_SIZE
      in if destroy_int > rem_size then rem_size else destroy_int)"

lemma destroy_interval_less:
  assumes "0 < rem"
  shows "unat (rem - destroy_interval rem c) < unat rem"
proof -
  have m: "unat (c mod 4096) < 4096" by (simp add: unat_mod)
  have le: "c mod 4096 \<le> 4096" using m by (simp add: word_le_nat_alt)
  have u: "unat (4096 - c mod 4096) = 4096 - unat (c mod 4096)" using unat_sub [OF le] by simp
  show ?thesis
  proof (cases "rem < 4096 - c mod 4096")
    case True
    then show ?thesis using assms by (simp add: word_less_nat_alt destroy_interval_def)
  next
    case False
    then have "4096 - c mod 4096 \<le> rem" by simp
    then have "unat (rem - (4096 - c mod 4096)) = unat rem - (4096 - unat (c mod 4096))"
      using u by (simp add: unat_sub)
    then show ?thesis using False m assms by (simp add: word_less_nat_alt destroy_interval_def)
  qed
qed

function munmap_pages ::
  "ptr \<Rightarrow> ptr \<Rightarrow> u32 \<Rightarrow> u32 \<Rightarrow> u32 \<Rightarrow> u32 \<Rightarrow> 'a vmm_scheme \<Rightarrow> (u32, 'a vmm_scheme) res" where
  "munmap_pages as reg vaddr rem_size current_vaddr page_ctr s =
     (if rem_size > 0 then
        bindR (get_as as s) (\<lambda>a s.
        bindR (vaddr_to_paddr (as_pd a) vaddr s) (\<lambda>paddr s.
        if paddr = 0 then Panic ''[ERROR] VMM bad physical address of region!''
        else
          bindR (pg_map paddr VM_TMP2_MAP PG_KERN_PAGE_FLAG s) (\<lambda>_ s.
          let destroy_int = destroy_interval rem_size current_vaddr;
              clear = for_each [0 ..< unat rem_size] (\<lambda>i s. vst8 (VM_TMP2_MAP + current_vaddr mod PAGE_SIZE + of_nat i) 0 s)
          in
          bindR (get_region reg s) (\<lambda>r s.
          bindR (if destroy_int mod PAGE_SIZE \<noteq> 0 then
                   bindR (if r_prev r \<noteq> NULL
                          then bindR (get_region (r_prev r) s) (\<lambda>p s.
                            Ret (r_addr r - (r_addr p + r_size p) < PAGE_SIZE) s)
                          else Ret False s) (\<lambda>prev_near s.
                   if prev_near then Ret True s
                   else if r_next r \<noteq> NULL
                   then bindR (get_region (r_next r) s) (\<lambda>n s.
                     Ret (r_addr n - (r_addr r + r_size r) < PAGE_SIZE) s)
                   else Ret False s)
                 else Ret False s) (\<lambda>shared s.
          if shared then
            bindR (clear s) (\<lambda>_ s.
            munmap_pages as reg vaddr (rem_size - destroy_int) (current_vaddr + destroy_int) page_ctr s)
          else
            bindR (pg_unmap_from (as_pd a) current_vaddr s) (\<lambda>_ s.
            let s = pmm_free_frame paddr s in
            bindR (pg_unmap VM_TMP2_MAP s) (\<lambda>_ s.
            munmap_pages as reg vaddr (rem_size - destroy_int) (current_vaddr + destroy_int) (page_ctr + 1) s)))))))
      else Ret page_ctr s)"
  by pat_completeness auto

termination munmap_pages
  by (relation "measure (\<lambda>(_, _, _, rem_size, _). unat rem_size)") (auto simp: destroy_interval_less)

declare munmap_pages.simps [simp del]

definition vmm_munmap :: "ptr \<Rightarrow> u32 \<Rightarrow> 'a vmm_scheme \<Rightarrow> (int, 'a vmm_scheme) res" where
  "vmm_munmap as vaddr s =
     bindR (find_region as vaddr s) (\<lambda>reg s.
     if reg = NULL then Ret (- 1) (set_errno EINVAL s)
     else
       bindR (pg_unmap VM_TMP2_MAP s) (\<lambda>tmp s.
       bindR (get_region reg s) (\<lambda>r s.
       bindR (munmap_pages as reg vaddr (r_size r) (r_addr r) 0 s) (\<lambda>page_ctr s.
       bindR (destroy_region as reg s) (\<lambda>_ s.
       bindR (set_as as (page_counter_update (\<lambda>n. n - page_ctr)) s) (\<lambda>_ s.
       bindR (pg_map tmp VM_TMP2_MAP PG_KERN_PAGE_FLAG s) (\<lambda>_ s. Ret 0 s)))))))"

section \<open>Copies between address spaces\<close>

text \<open>
  The copy loop of \<^verbatim>\<open>vmm_copy_string_from\<close>. The result is the final \<open>i\<close>, or \<open>None\<close> when a further
  page of the source is not mapped.
\<close>

function copy_string_loop ::
  "u32 \<Rightarrow> u32 \<Rightarrow> ptr \<Rightarrow> u32 \<Rightarrow> u32 \<Rightarrow> u32 \<Rightarrow> u32 \<Rightarrow> 'a vmm_scheme \<Rightarrow> (u32 option, 'a vmm_scheme) res" where
  "copy_string_loop pd max_len buff vaddr src_buff i i_after s =
     (if i < max_len then
        bindR (if (src_buff + (i - i_after)) mod PAGE_SIZE = 0 then
                 (let vaddr = vaddr + i in
                  bindR (pg_unmap VM_TMP_MAP s) (\<lambda>_ s.
                  bindR (pg_get_frame_from pd vaddr s) (\<lambda>paddr s.
                  if paddr = 0 then Ret None s
                  else bindR (pg_map paddr VM_TMP_MAP PG_KERN_PAGE_FLAG s) (\<lambda>_ s.
                    Ret (Some (vaddr, VM_TMP_MAP, i)) s))))
               else Ret (Some (vaddr, src_buff, i_after)) s) (\<lambda>st s.
        case st of
          None \<Rightarrow> Ret None s
        | Some (vaddr, src_buff, i_after) \<Rightarrow>
            bindR (vld8 (src_buff + (i - i_after)) s) (\<lambda>c s.
            let s = s\<lparr>kmem := (kmem s)(buff + i := c)\<rparr> in
            if c = 0 then Ret (Some i) s
            else copy_string_loop pd max_len buff vaddr src_buff (i + 1) i_after s))
      else Ret (Some i) s)"
  by pat_completeness auto
termination
  by (relation "measure (\<lambda>(_, max_len, _, _, _, i, _). unat max_len - unat i)")
    (auto simp: unat_Suc_less word_less_nat_alt)

declare copy_string_loop.simps [simp del]

definition vmm_copy_string_from :: "ptr \<Rightarrow> u32 \<Rightarrow> u32 \<Rightarrow> 'a vmm_scheme \<Rightarrow> (ptr, 'a vmm_scheme) res" where
  "vmm_copy_string_from as vaddr max_len s =
     bindR (get_as as s) (\<lambda>a s.
     bindR (pg_get_frame_from (as_pd a) vaddr s) (\<lambda>paddr s.
     if paddr = 0 then Ret NULL (set_errno EFAULT s)
     else
       bindR (pg_unmap VM_TMP_MAP s) (\<lambda>old_tmp s.
       bindR (pg_map paddr VM_TMP_MAP PG_KERN_PAGE_FLAG s) (\<lambda>_ s.
       bindR (kmalloc max_len s) (\<lambda>buff s.
       bindR (copy_string_loop (as_pd a) max_len buff vaddr (VM_TMP_MAP + vaddr mod PAGE_SIZE) 0 0 s) (\<lambda>res s.
       case res of
         None \<Rightarrow>
           bindR (kfree buff s) (\<lambda>_ s.
           bindR (pg_map old_tmp VM_TMP_MAP PG_KERN_PAGE_FLAG s) (\<lambda>_ s.
           Ret NULL (set_errno EFAULT s)))
       | Some i \<Rightarrow>
           bindR (pg_unmap VM_TMP_MAP s) (\<lambda>_ s.
           bindR (pg_map old_tmp VM_TMP_MAP PG_KERN_PAGE_FLAG s) (\<lambda>_ s.
           if i = max_len then bindR (kfree buff s) (\<lambda>_ s. Ret NULL (set_errno E2BIG s))
           else Ret buff s))))))))"

function copy_data_loop ::
  "u32 \<Rightarrow> u32 \<Rightarrow> ptr \<Rightarrow> u32 \<Rightarrow> u32 \<Rightarrow> u32 \<Rightarrow> u32 \<Rightarrow> 'a vmm_scheme \<Rightarrow> (bool, 'a vmm_scheme) res" where
  "copy_data_loop pd vaddr src sz dst i i_after s =
     (if i < sz then
        bindR (if (dst + (i - i_after)) mod PAGE_SIZE = 0 then
                 bindR (pg_unmap VM_TMP_MAP s) (\<lambda>_ s.
                 bindR (vaddr_to_paddr pd (vaddr + i) s) (\<lambda>paddr s.
                 if paddr = 0 then Ret None s
                 else bindR (pg_map paddr VM_TMP_MAP PG_KERN_PAGE_FLAG s) (\<lambda>_ s.
                   Ret (Some (VM_TMP_MAP, i)) s)))
               else Ret (Some (dst, i_after)) s) (\<lambda>st s.
        case st of
          None \<Rightarrow> Ret False s
        | Some (dst, i_after) \<Rightarrow>
            bindR (kld8 (src + i) s) (\<lambda>c s.
            bindR (vst8 (dst + (i - i_after)) c s) (\<lambda>_ s.
            copy_data_loop pd vaddr src sz dst (i + 1) i_after s)))
      else Ret True s)"
  by pat_completeness auto
termination
  by (relation "measure (\<lambda>(_, _, _, sz, _, i, _). unat sz - unat i)")
    (auto simp: unat_Suc_less word_less_nat_alt)

declare copy_data_loop.simps [simp del]

definition vmm_copy_data_to :: "ptr \<Rightarrow> u32 \<Rightarrow> ptr \<Rightarrow> u32 \<Rightarrow> 'a vmm_scheme \<Rightarrow> (int, 'a vmm_scheme) res" where
  "vmm_copy_data_to as vaddr buff sz s =
     bindR (get_as as s) (\<lambda>a s.
     bindR (vaddr_to_paddr (as_pd a) vaddr s) (\<lambda>paddr s.
     if paddr = 0 then Ret (- 1) (set_errno EFAULT s)
     else
       bindR (pg_unmap VM_TMP_MAP s) (\<lambda>old_tmp s.
       bindR (pg_map paddr VM_TMP_MAP PG_KERN_PAGE_FLAG s) (\<lambda>_ s.
       bindR (copy_data_loop (as_pd a) vaddr buff sz (VM_TMP_MAP + vaddr mod PAGE_SIZE) 0 0 s) (\<lambda>ok s.
       if \<not> ok then
         bindR (pg_map old_tmp VM_TMP_MAP PG_KERN_PAGE_FLAG (set_errno EFAULT s)) (\<lambda>_ s. Ret (- 1) s)
       else
         bindR (pg_unmap VM_TMP_MAP s) (\<lambda>_ s.
         bindR (pg_map old_tmp VM_TMP_MAP PG_KERN_PAGE_FLAG s) (\<lambda>_ s. Ret (sint sz) s)))))))"

section \<open>The data segment\<close>

text \<open>
  \<^verbatim>\<open>vmm_set_brk\<close>. \<open>brk_grow\<close> is the code behind the label \<^verbatim>\<open>end\<close>, \<open>brk_shrink\<close> the code that the
  expansion falls into when the data segment is the last region.
\<close>

definition brk_grow :: "ptr \<Rightarrow> u32 \<Rightarrow> u32 \<Rightarrow> 'a vmm_scheme \<Rightarrow> (u32, 'a vmm_scheme) res" where
  "brk_grow as old_brk prog_size s =
     bindR (set_as as (data_end_update (\<lambda>d. d + prog_size)) s) (\<lambda>_ s. Ret old_brk s)"

definition brk_shrink :: "ptr \<Rightarrow> ptr \<Rightarrow> u32 \<Rightarrow> u32 \<Rightarrow> 'a vmm_scheme \<Rightarrow> (u32, 'a vmm_scheme) res" where
  "brk_shrink as reg old_brk vaddr s =
     bindR (get_as as s) (\<lambda>a s.
     bindR (get_region reg s) (\<lambda>r s.
     let new_size = data_end a - vaddr in
     if data_end a - new_size > elf_end a then
       if new_size < PAGE_SIZE then
         bindR (set_as as (data_end_update (\<lambda>d. d - new_size)) s) (\<lambda>_ s. Ret old_brk s)
       else
         (let ctr = new_size div PAGE_SIZE in
          bindR (for_each [0 ..< unat ctr] (\<lambda>i s.
                   bindR (pg_unmap_from (as_pd a) (r_addr r + r_size r - of_nat i * PAGE_SIZE) s) (\<lambda>paddr s.
                   Ret () (if paddr \<noteq> 0 then pmm_free_frame paddr s else s))) s) (\<lambda>_ s.
          bindR (set_region reg (r_size_update (\<lambda>n. n - ctr * PAGE_SIZE)) s) (\<lambda>_ s.
          bindR (set_as as (data_end_update (\<lambda>d. d - new_size)) s) (\<lambda>_ s. Ret old_brk s))))
     else Ret NULL (set_errno ENOMEM s)))"

definition page_ceil :: "u32 \<Rightarrow> u32" where
  "page_ceil n = (if n mod 0x1000 \<noteq> 0 then (n - n mod 0x1000) + 0x1000 else n)"

definition vmm_set_brk :: "ptr \<Rightarrow> u32 \<Rightarrow> 'a vmm_scheme \<Rightarrow> (u32, 'a vmm_scheme) res" where
  "vmm_set_brk as vaddr s =
     bindR (get_as as s) (\<lambda>a s.
     if vaddr < elf_end a then Ret NULL (set_errno ENOMEM s)
     else
       (let old_brk = data_end a in
        if data_end a = elf_end a \<and> vaddr \<ge> data_end a then
          (let prog_size = vaddr - data_end a; new_size = page_ceil prog_size in
           bindR (is_area_free as (data_end a) new_size s) (\<lambda>free s.
           if \<not> free then Ret NULL (set_errno ENOMEM s)
           else
             bindR (create_region (data_end a) new_size (VMM_RW OR VMM_USER) s) (\<lambda>reg s.
             bindR (insert_region as reg s) (\<lambda>_ s.
             brk_grow as old_brk prog_size s))))
        else
          bindR (find_region as (elf_end a + 1) s) (\<lambda>reg s.
          if reg = NULL then Panic ''[BUG] There is no data segment!''
          else if vaddr > data_end a then
            (let new_size = vaddr - data_end a; prog_size = new_size in
             bindR (get_region reg s) (\<lambda>r s.
             if vaddr \<le> r_addr r + r_size r then brk_grow as old_brk prog_size s
             else if r_next r \<noteq> NULL then
               bindR (get_region (r_next r) s) (\<lambda>n s.
               let new_size = page_ceil new_size in
               if r_addr r + r_size r + new_size \<le> r_addr n then
                 bindR (set_region reg (r_size_update (\<lambda>z. z + new_size)) s) (\<lambda>_ s.
                 brk_grow as old_brk prog_size s)
               else Ret NULL (set_errno ENOMEM s))
             else brk_shrink as reg old_brk vaddr s))
          else brk_shrink as reg old_brk vaddr s)))"

definition vmm_set_stack :: "ptr \<Rightarrow> u32 \<Rightarrow> u32 \<Rightarrow> 'a vmm_scheme \<Rightarrow> (unit, 'a vmm_scheme) res" where
  "vmm_set_stack as stack_end_addr sz s =
     set_as as (\<lambda>a. a\<lparr>stack_end := stack_end_addr, stack_size := sz\<rparr>) s"

section \<open>The invariant of an address space\<close>

interpretation rg: dll_node r_next r_prev "\<lambda>a. r_next_update (\<lambda>_. a)" "\<lambda>a. r_prev_update (\<lambda>_. a)"
  by unfold_locales simp_all

definition rstart :: "'a vmm_scheme \<Rightarrow> ptr \<Rightarrow> nat" where
  "rstart s x = unat (r_addr (the (regions s x)))"

definition rend :: "'a vmm_scheme \<Rightarrow> ptr \<Rightarrow> nat" where
  "rend s x = rstart s x + unat (r_size (the (regions s x)))"

interpretation ra: area_list "rstart s" "rend s" for s
  by unfold_locales (simp add: rend_def)

text \<open>
  \<open>aspace_ok s as xs\<close>: the regions of address space \<open>as\<close> are \<open>xs\<close>, in ascending order, without
  overlap, none of them empty, all below \<^verbatim>\<open>VM_USER_END\<close>.
\<close>

definition aspace_ok :: "'a vmm_scheme \<Rightarrow> ptr \<Rightarrow> ptr list \<Rightarrow> bool" where
  "aspace_ok s as xs \<longleftrightarrow>
     (\<exists>a. aspaces s as = Some a \<and> as_first a = first_of NULL xs \<and> as_last a = last_of NULL xs) \<and>
     dlist r_next r_prev (regions s) xs \<and> ordered (rstart s) (rend s) 0 xs (unat VM_USER_END) \<and>
     (\<forall>x \<in> set xs. rstart s x < rend s x)"

definition rdata :: "region \<Rightarrow> u32 \<times> u32 \<times> u32" where
  "rdata r = (r_addr r, r_size r, r_flags r)"

definition same_regions :: "'a vmm_scheme \<Rightarrow> 'a vmm_scheme \<Rightarrow> bool" where
  "same_regions s s' \<longleftrightarrow> (\<forall>x. map_option rdata (regions s' x) = map_option rdata (regions s x))"

lemma same_regions_simps:
  assumes "same_regions s s'" and "x \<in> dom (regions s)"
  shows "rstart s' x = rstart s x" and "rend s' x = rend s x"
proof -
  have "map_option rdata (regions s' x) = map_option rdata (regions s x)" using assms(1) by (simp add: same_regions_def)
  then show "rstart s' x = rstart s x" "rend s' x = rend s x"
    using assms(2) by (cases "regions s' x"; auto simp: rdata_def rstart_def rend_def)+
qed

lemma aspace_okD:
  assumes "aspace_ok s as xs"
  shows "dll r_next r_prev (regions s) 0 xs 0" "distinct xs" "ordered (rstart s) (rend s) 0 xs (unat VM_USER_END)"
    "\<And>x. x \<in> set xs \<Longrightarrow> rstart s x < rend s x" "\<And>x. x \<in> set xs \<Longrightarrow> \<exists>r. regions s x = Some r"
    "\<And>x. x \<in> set xs \<Longrightarrow> rend s x \<le> unat VM_USER_END" "0 \<notin> set xs"
  using assms ra.ordered_bounds(2) [of s 0 xs "unat VM_USER_END"]
  by (auto simp: aspace_ok_def dlist_def dest: dll_in_dom dll_nonnull)

lemma rend_word:
  assumes "regions s x = Some r" and "rend s x \<le> unat VM_USER_END"
  shows "unat (r_addr r + r_size r) = rend s x"
  using assms unat_add_no_wrap [of "r_addr r" "r_size r"] by (simp add: rend_def rstart_def)

lemma aspace_ok_intro:
  assumes "same_regions s s'" and "set xs \<subseteq> dom (regions s)" and "aspaces s' as = Some a"
    and "as_first a = first_of 0 xs" and "as_last a = last_of 0 xs" and "dll r_next r_prev (regions s') 0 xs 0"
    and "distinct xs" and "ordered (rstart s) (rend s) 0 xs (unat VM_USER_END)"
    and "\<And>x. x \<in> set xs \<Longrightarrow> rstart s x < rend s x"
  shows "aspace_ok s' as xs"
proof -
  have e: "rstart s x = rstart s' x \<and> rend s x = rend s' x" if "x \<in> set xs" for x
    using same_regions_simps [OF assms(1), of x] subsetD [OF assms(2) that] by simp
  then show ?thesis
    using assms ordered_cong [of xs "rstart s" "rstart s'" "rend s" "rend s'"] by (auto simp: aspace_ok_def dlist_def)
qed

text \<open>The search for the neighbours of a new region.\<close>

lemma region_place:
  assumes "dll r_next r_prev (regions s) p (us @ a # b # vs) 0" and "distinct (us @ a # b # vs)"
    and "set (us @ a # b # vs) \<inter> V = {}" and "ordered (rstart s) (rend s) lo (us @ a # b # vs) (unat VM_USER_END)"
    and "\<And>x. x \<in> set (us @ a # b # vs) \<Longrightarrow> rstart s x < rend s x"
    and "rend s a \<le> unat (r_addr r)" and "unat (r_addr r) + unat (r_size r) \<le> rstart s b"
  shows "chase V (place_scan r) (first_of 0 (us @ a # b # vs)) s = Ret (Some a) s"
  using assms
proof (induction us arbitrary: V p lo)
  case Nil
  obtain ra rb where a: "regions s a = Some ra" "r_next ra = b" and b: "regions s b = Some rb" "b \<noteq> 0" "a \<noteq> 0"
    using Nil.prems(1) by auto
  have ea: "rend s a \<le> unat VM_USER_END" and eb: "rend s b \<le> unat VM_USER_END"
    using ra.ordered_bounds(2) [OF Nil.prems(4), of a] ra.ordered_bounds(2) [OF Nil.prems(4), of b] by auto
  have "unat (r_addr r + r_size r) = unat (r_addr r) + unat (r_size r)"
    using Nil.prems(7) eb b(1) by (intro unat_add_no_wrap) (auto simp: rstart_def rend_def)
  then have "place_scan r a s = Ret (Inl (Some a)) s"
    using a b Nil.prems(6,7) rend_word [OF a(1) ea]
    by (simp add: place_scan_def load_Some word_le_nat_alt rstart_def)
  then show ?case using Nil.prems(3) by (simp add: chase_exit)
next
  case (Cons x us)
  let ?n = "first_of 0 (us @ a # b # vs)"
  obtain rx rn where x: "regions s x = Some rx" "r_next rx = ?n" and n: "regions s ?n = Some rn" "?n \<noteq> 0"
    using Cons.prems(1) by (cases us) auto
  have nin: "?n \<in> set (us @ a # b # vs)" by (cases us) auto
  have "rend s ?n \<le> rend s a"
    using ra.ordered_bounds(2) ordered_append [of "rstart s" "rend s" "rend s x" "us @ [a]" "b # vs"] Cons.prems(4)
    by (cases us) fastforce+
  then have st: "rstart s ?n < unat (r_addr r)" using Cons.prems(5) [of ?n] Cons.prems(6) nin by simp
  have "rend s b \<le> unat VM_USER_END" using ra.ordered_bounds(2) [OF Cons.prems(4), of b] by auto
  then have "unat (r_addr r + r_size r) = unat (r_addr r) + unat (r_size r)"
    using Cons.prems(5) [of b] Cons.prems(7) by (intro unat_add_no_wrap) auto
  then have "place_scan r x s = Ret (Inr ?n) s"
    using x n st by (simp add: place_scan_def load_Some word_le_nat_alt rstart_def)
  then have "chase V (place_scan r) x s = chase (insert x V) (place_scan r) ?n s"
    using Cons.prems(3) by (simp add: chase.simps [of V])
  also have "\<dots> = Ret (Some a) s"
    using Cons.prems by (intro Cons.IH [where p = x and lo = "rend s x"]) auto
  finally show ?case by simp
qed

lemma first_end:
  assumes "ordered (rstart s) (rend s) lo (us @ l # zs) hi" and "y \<in> set (us @ [l])"
  shows "rend s y \<le> rend s l"
proof -
  have "ordered (rstart s) (rend s) lo (us @ [l]) (rend s l)"
    using assms(1) ordered_append [of "rstart s" "rend s" lo "us @ [l]" zs] by simp
  then show ?thesis using ra.ordered_bounds(2) assms(2) by blast
qed

lemmas region_simps = load_Some modify_Some Let_def

lemma insert_region_ok:
  assumes ok: "aspace_ok s as (ys @ zs)" and r: "regions s x = Some r" "x \<noteq> 0" "x \<notin> set (ys @ zs)"
    and pos: "end_of (rend s) 0 ys \<le> rstart s x" "rend s x \<le> start_of (rstart s) zs (unat VM_USER_END)"
    and ne: "rstart s x < rend s x"
  shows "\<exists>s'. insert_region as x s = Ret () s' \<and> aspace_ok s' as (ys @ x # zs) \<and> same_regions s s'"
proof -
  note D = aspace_okD [OF ok]
  obtain a where a: "aspaces s as = Some a" "as_first a = first_of 0 (ys @ zs)" "as_last a = last_of 0 (ys @ zs)"
    using ok by (auto simp: aspace_ok_def)
  have sub: "set (ys @ x # zs) \<subseteq> dom (regions s)" using dll_dom [OF D(1)] r(1) by auto
  have od: "ordered (rstart s) (rend s) 0 (ys @ x # zs) (unat VM_USER_END)"
    by (rule ra.ordered_insert [OF D(3) pos])
  have ex: "rend s x \<le> unat VM_USER_END" using ra.ordered_bounds(2) [OF od, of x] by simp
  note ux = rend_word [OF r(1) ex]
  have sx: "rstart s x = unat (r_addr r)" using r(1) by (simp add: rstart_def)
  have finish: "aspace_ok s' as (ys @ x # zs)" if "dll r_next r_prev (regions s') 0 (ys @ x # zs) 0" "same_regions s s'"
    "aspaces s' as = Some a'" "as_first a' = first_of 0 (ys @ x # zs)" "as_last a' = last_of 0 (ys @ x # zs)" for s' a'
    using that D(2,4) r(3) ne by (intro aspace_ok_intro [OF that(2) sub that(3,4,5,1) _ od]) auto
  consider "ys = []" "zs = []" | f fs where "ys = []" "zs = f # fs" | us l where "ys = us @ [l]" "zs = []"
    | us c b vs where "ys = us @ [c]" "zs = b # vs"
    by (cases ys rule: rev_cases; cases zs) auto
  then show ?thesis
  proof cases
    case 1
    let ?s' = "s\<lparr>regions := (regions s)(x \<mapsto> r\<lparr>r_next := 0, r_prev := 0\<rparr>),
      aspaces := (aspaces s)(as \<mapsto> a\<lparr>as_first := x, as_last := x\<rparr>)\<rparr>"
    have "insert_region as x s = Ret () ?s'" using 1 a r by (simp add: insert_region_def region_simps)
    moreover have sa: "same_regions s ?s'" using r by (simp add: same_regions_def rdata_def)
    moreover have "aspace_ok ?s' as (ys @ x # zs)" using 1 r sa by (intro finish [where a' = "a\<lparr>as_first := x, as_last := x\<rparr>"]) simp_all
    ultimately show ?thesis by blast
  next
    case 2
    obtain rf where f: "regions s f = Some rf" "f \<noteq> 0" "f \<noteq> x" using D(1) 2 r by auto
    have front: "r_addr rf \<ge> r_addr r + r_size r"
      using pos(2) 2 f(1) ux by (simp add: start_of_def rstart_def word_le_nat_alt)
    have lz: "last_of f fs \<noteq> 0" using D(7) 2 last_of_last [of fs f] last_in_set [of fs] by (cases fs) auto
    let ?h = "(regions s)(x \<mapsto> r\<lparr>r_next := f, r_prev := 0\<rparr>, f \<mapsto> rf\<lparr>r_prev := x\<rparr>)"
    let ?s' = "s\<lparr>aspaces := (aspaces s)(as \<mapsto> a\<lparr>as_first := x\<rparr>), regions := ?h\<rparr>"
    have "insert_region as x s = Ret () ?s'"
      using 2 a r f front lz by (simp add: insert_region_def region_simps fun_upd_twist)
    moreover have sa: "same_regions s ?s'" using r f by (simp add: same_regions_def rdata_def)
    moreover have "dll r_next r_prev ((regions s)(f \<mapsto> rf\<lparr>r_prev := x\<rparr>, x \<mapsto> r\<lparr>r_next := f, r_prev := 0\<rparr>)) 0 (x # f # fs) 0"
      using D(1,2) 2 r f by (intro rg.prepend_node [where p = 0]) auto
    then have "dll r_next r_prev ?h 0 (ys @ x # zs) 0" using 2 f(3) by (simp add: fun_upd_twist)
    then have "aspace_ok ?s' as (ys @ x # zs)"
      using 2 sa a by (intro finish [where a' = "a\<lparr>as_first := x\<rparr>"]) simp_all
    ultimately show ?thesis by blast
  next
    case 3
    obtain rl where l: "regions s l = Some rl" "l \<noteq> 0" "l \<noteq> x" using D(1) 3 r by (auto simp: dll_append)
    let ?f = "first_of l us"
    obtain rf where f: "regions s ?f = Some rf" "?f \<noteq> 0"
      using D(5) [of ?f] D(7) 3 by (cases us) auto
    have ul: "unat (r_addr rl + r_size rl) = rend s l" by (rule rend_word [OF l(1) D(6)]) (simp add: 3)
    have fin: "?f \<in> set (us @ [l])" by (cases us) auto
    have "rend s ?f \<le> rend s l" using first_end [of s 0 us l "[]"] D(3) 3 fin by simp
    then have nf: "\<not> r_addr rf \<ge> r_addr r + r_size r"
      using pos(1) 3 f(1) ux ne sx D(4) [of ?f] fin by (auto simp: word_le_nat_alt rstart_def)
    have rear: "r_addr rl + r_size rl \<le> r_addr r" using pos(1) 3 ul sx by (simp add: word_le_nat_alt)
    let ?h = "(regions s)(x \<mapsto> r\<lparr>r_next := 0, r_prev := l\<rparr>, l \<mapsto> rl\<lparr>r_next := x\<rparr>)"
    let ?s' = "s\<lparr>aspaces := (aspaces s)(as \<mapsto> a\<lparr>as_last := x\<rparr>), regions := ?h\<rparr>"
    have "insert_region as x s = Ret () ?s'"
      using 3 a r l f nf rear by (simp add: insert_region_def region_simps)
    moreover have sa: "same_regions s ?s'" using r l by (simp add: same_regions_def rdata_def)
    moreover have "dll r_next r_prev ((regions s)(l \<mapsto> rl\<lparr>r_next := x\<rparr>, x \<mapsto> r\<lparr>r_next := 0, r_prev := l\<rparr>)) 0 (us @ [l, x]) 0"
      using D(1,2) 3 r l by (intro rg.append_node [where q = 0]) auto
    then have "dll r_next r_prev ?h 0 (ys @ x # zs) 0" using 3 l(3) by (simp add: fun_upd_twist)
    then have "aspace_ok ?s' as (ys @ x # zs)"
      using 3 sa a by (intro finish [where a' = "a\<lparr>as_last := x\<rparr>"]) simp_all
    ultimately show ?thesis by blast
  next
    case 4
    obtain rc rb where c: "regions s c = Some rc" "c \<noteq> 0" "c \<noteq> x" "r_next rc = b" and b: "regions s b = Some rb" "b \<noteq> 0" "b \<noteq> x"
      using D(1) 4 r by (auto simp: dll_append)
    have cb: "c \<noteq> b" using D(2) 4 by auto
    let ?f = "first_of c us" and ?l = "last_of b vs"
    have fin: "?f \<in> set (us @ [c])" by (cases us) auto
    have lin: "?l \<in> set (b # vs)" using last_of_last [of vs b] last_in_set [of vs] by (cases "vs = []") auto
    obtain rf rl where f: "regions s ?f = Some rf" "?f \<noteq> 0" and l: "regions s ?l = Some rl" "?l \<noteq> 0"
      using D(5) [of ?f] D(5) [of ?l] D(7) 4 fin lin by (metis Un_iff set_append)
    have "rend s ?f \<le> rend s c" using first_end [of s 0 us c "b # vs"] D(3) 4 fin by simp
    then have nf: "\<not> r_addr rf \<ge> r_addr r + r_size r"
      using pos(1) 4 f(1) ux ne sx D(4) [of ?f] fin by (auto simp: word_le_nat_alt rstart_def)
    have "ordered (rstart s) (rend s) (rstart s b) (b # vs) (unat VM_USER_END)"
      using D(3) 4 ordered_append [of "rstart s" "rend s" 0 "us @ [c]" "b # vs"] by simp
    then have "rstart s b \<le> rstart s ?l" using ra.ordered_bounds(1) lin by blast
    moreover have "rstart s ?l < rend s ?l" using D(4) [of ?l] lin 4 by auto
    moreover have "rend s x \<le> rstart s b" using pos(2) 4 by (simp add: start_of_def)
    ultimately have "unat (r_addr r) < rend s ?l" using ne sx by linarith
    then have nb: "\<not> r_addr rl + r_size rl \<le> r_addr r"
      using rend_word [OF l(1) D(6)] lin 4 by (auto simp: word_le_nat_alt)
    have ch: "chase {} (place_scan r) ?f s = Ret (Some c) s"
      using region_place [of s 0 us c b vs "{}" 0 r] D 4 pos sx ux r(1) by (simp add: start_of_def rend_def rstart_def)
    let ?h = "(regions s)(x \<mapsto> r\<lparr>r_next := b, r_prev := c\<rparr>, b \<mapsto> rb\<lparr>r_prev := x\<rparr>, c \<mapsto> rc\<lparr>r_next := x\<rparr>)"
    let ?s' = "s\<lparr>regions := ?h\<rparr>"
    have "insert_region as x s = Ret () ?s'"
      using 4 a r c b cb f l nf nb ch by (simp add: insert_region_def region_simps fun_upd_twist)
    moreover have sa: "same_regions s ?s'" using r c b by (simp add: same_regions_def rdata_def)
    moreover have "dll r_next r_prev ((regions s)(c \<mapsto> rc\<lparr>r_next := x\<rparr>, b \<mapsto> rb\<lparr>r_prev := x\<rparr>, x \<mapsto> r\<lparr>r_next := b, r_prev := c\<rparr>)) 0
        (us @ c # x # b # vs) 0"
      using D(1,2) 4 r c b by (intro rg.insert_node) auto
    then have "dll r_next r_prev ?h 0 (ys @ x # zs) 0" using 4 cb c(3) b(3) by (simp add: fun_upd_twist)
    then have "aspace_ok ?s' as (ys @ x # zs)"
      using 4 sa a by (intro finish [where a' = "a"]) simp_all
    ultimately show ?thesis by blast
  qed
qed

lemma find_region_ok:
  assumes ok: "aspace_ok s as xs"
  shows "find_region as v s =
    Ret (case find (\<lambda>x. rstart s x \<le> unat v \<and> unat v \<le> rend s x) xs of None \<Rightarrow> 0 | Some x \<Rightarrow> x) s"
proof -
  note D = aspace_okD [OF ok]
  obtain a where a: "aspaces s as = Some a" "as_first a = first_of 0 xs" using ok by (auto simp: aspace_ok_def)
  have b: "region_scan v x s =
      Ret (if rstart s x \<le> unat v \<and> unat v \<le> rend s x then Inl x else Inr (r_next r)) s"
    if "x \<in> set xs" "regions s x = Some r" for x r
    using rend_word [OF that(2) D(6) [OF that(1)]] that D(7)
    by (auto simp: region_scan_def load_Some word_le_nat_alt rstart_def)
  have e: "region_scan v 0 s = Ret (Inl 0) s" by (simp add: region_scan_def)
  have "chase {} (region_scan v) (first_of 0 xs) s =
      Ret (case find (\<lambda>x. rstart s x \<le> unat v \<and> unat v \<le> rend s x) xs of None \<Rightarrow> 0 | Some x \<Rightarrow> x) s"
    by (rule chase_list [OF D(1,2)]) (simp_all only: b e, simp_all)
  then show ?thesis using a by (simp add: find_region_def load_Some)
qed

text \<open>\<open>overlaps s x v n\<close>: the \<open>n\<close> bytes at \<open>v\<close> and region \<open>x\<close> share an address.\<close>

definition overlaps :: "'a vmm_scheme \<Rightarrow> ptr \<Rightarrow> u32 \<Rightarrow> u32 \<Rightarrow> bool" where
  "overlaps s x v n \<longleftrightarrow> rstart s x < unat v + unat n \<and> unat v < rend s x"

lemma is_area_free_ok:
  assumes ok: "aspace_ok s as xs" and nowrap: "unat v + unat n < 2 ^ 32" and ne: "xs \<noteq> []"
  shows "is_area_free as v n s =
    Ret (if rend s (last xs) \<le> unat v then unat v + unat n \<le> unat VM_USER_END
         else case find (\<lambda>x. unat v \<le> rstart s x) xs of None \<Rightarrow> False | Some x \<Rightarrow> unat v + unat n \<le> rstart s x) s"
proof -
  note D = aspace_okD [OF ok]
  obtain a where a: "aspaces s as = Some a" "as_first a = first_of 0 xs" "as_last a = last xs"
    using ok ne by (auto simp: aspace_ok_def last_of_last)
  have un: "unat (v + n) = unat v + unat n" using nowrap by (intro unat_add_no_wrap) simp
  have f: "first_of 0 xs \<noteq> 0" using D(7) ne by (cases xs) auto
  obtain l where l: "regions s (last xs) = Some l" using D(5) [of "last xs"] ne by auto
  note ul = rend_word [OF l D(6)]
  have b: "area_scan v n x s = Ret (if unat v \<le> rstart s x then Inl (unat v + unat n \<le> rstart s x) else Inr (r_next r)) s"
    if "x \<in> set xs" "regions s x = Some r" for x r
    using that D(7) un by (auto simp: area_scan_def load_Some word_le_nat_alt rstart_def)
  have e: "area_scan v n 0 s = Ret (Inl False) s" by (simp add: area_scan_def)
  have "chase {} (area_scan v n) (first_of 0 xs) s =
      Ret (case find (\<lambda>x. unat v \<le> rstart s x) xs of None \<Rightarrow> False | Some x \<Rightarrow> unat v + unat n \<le> rstart s x) s"
    by (rule chase_list [OF D(1,2)]) (simp_all only: b e, simp_all)
  then show ?thesis
    using a l f un ul ne by (simp add: is_area_free_def load_Some word_le_nat_alt)
qed

lemma remove_region_ok:
  assumes ok: "aspace_ok s as (ys @ x # zs)"
  shows "\<exists>s'. remove_region as x s = Ret () s' \<and> aspace_ok s' as (ys @ zs) \<and> same_regions s s'"
proof -
  note D = aspace_okD [OF ok]
  obtain a where a: "aspaces s as = Some a" "as_first a = first_of x ys" "as_last a = last_of x zs"
    using ok by (auto simp: aspace_ok_def)
  obtain r where r: "regions s x = Some r" "r_prev r = last_of 0 ys" "r_next r = first_of 0 zs" "x \<noteq> 0"
    using D(1) by (auto simp: dll_append)
  have sub: "set (ys @ zs) \<subseteq> dom (regions s)" using dll_dom [OF D(1)] by auto
  have od: "ordered (rstart s) (rend s) 0 (ys @ zs) (unat VM_USER_END)" by (rule ra.ordered_remove [OF D(3)])
  have addr: "r_addr r' = r_addr r \<longleftrightarrow> y = x" if "y \<in> set (ys @ x # zs)" "regions s y = Some r'" for y r'
  proof
    assume "r_addr r' = r_addr r"
    then have "rstart s y = rstart s x" using that(2) r(1) by (simp add: rstart_def)
    moreover have "rstart s y < rend s y" "rstart s x < rend s x" using D(4) that(1) by auto
    ultimately have "y \<notin> set (ys @ zs)" using ra.ordered_disjoint [OF D(3), of y] by linarith
    then show "y = x" using that(1) by auto
  qed (use that r in simp)
  have finish: "aspace_ok s' as (ys @ zs)" if "dll r_next r_prev (regions s') 0 (ys @ zs) 0" "same_regions s s'"
    "aspaces s' as = Some a'" "as_first a' = first_of 0 (ys @ zs)" "as_last a' = last_of 0 (ys @ zs)" for s' a'
    using that D(2,4) by (intro aspace_ok_intro [OF that(2) sub that(3,4,5,1) _ od]) auto
  consider "ys = []" "zs = []" | b vs where "ys = []" "zs = b # vs" | us c where "ys = us @ [c]" "zs = []"
    | us c b vs where "ys = us @ [c]" "zs = b # vs"
    by (cases ys rule: rev_cases; cases zs) auto
  then show ?thesis
  proof cases
    case 1
    let ?s' = "s\<lparr>aspaces := (aspaces s)(as \<mapsto> a\<lparr>as_first := 0, as_last := 0\<rparr>)\<rparr>"
    have "remove_region as x s = Ret () ?s'" using 1 a r by (simp add: remove_region_def region_simps)
    moreover have "aspace_ok ?s' as (ys @ zs)"
      using 1 by (intro finish [where a' = "a\<lparr>as_first := 0, as_last := 0\<rparr>"]) (simp_all add: same_regions_def)
    ultimately show ?thesis by (force simp: same_regions_def)
  next
    case 2
    obtain rb where b: "regions s b = Some rb" "b \<noteq> 0" "b \<noteq> x" using D(1,2) 2 by auto
    have lin: "last_of b vs \<in> set (b # vs)" by (rule last_of_in)
    obtain rl where l: "regions s (last_of b vs) = Some rl" using D(5) lin 2 by (metis append_Nil list.set_intros(2))
    have lx: "last_of b vs \<noteq> x" using D(2) 2 lin by auto
    have nl: "r_addr rl \<noteq> r_addr r" using addr [OF _ l] lx lin 2 by auto
    let ?h = "(regions s)(b \<mapsto> rb\<lparr>r_prev := 0\<rparr>)"
    let ?s' = "s\<lparr>aspaces := (aspaces s)(as \<mapsto> a\<lparr>as_first := b\<rparr>), regions := ?h\<rparr>"
    have "remove_region as x s = Ret () ?s'"
      using 2 a r b l nl by (cases "last_of b vs = b") (simp_all add: remove_region_def region_simps)
    moreover have sa: "same_regions s ?s'" using b by (simp add: same_regions_def rdata_def)
    moreover have "dll r_next r_prev ?h 0 (b # vs) 0" using D(1,2) 2 b by (intro rg.relink_first [where p = x]) auto
    then have "aspace_ok ?s' as (ys @ zs)" using 2 a sa by (intro finish [where a' = "a\<lparr>as_first := b\<rparr>"]) simp_all
    ultimately show ?thesis by blast
  next
    case 3
    obtain rc where c: "regions s c = Some rc" "c \<noteq> 0" "c \<noteq> x" using D(1,2) 3 by (auto simp: dll_append)
    have fin: "first_of c us \<in> set (us @ [c])" by (cases us) auto
    obtain rf where f: "regions s (first_of c us) = Some rf" using D(5) fin 3 by (metis Un_iff set_append)
    have fx: "first_of c us \<noteq> x" using D(2) 3 fin by auto
    have nf: "r_addr rf \<noteq> r_addr r" using addr [OF _ f] fx fin 3 by auto
    let ?h = "(regions s)(c \<mapsto> rc\<lparr>r_next := 0\<rparr>)"
    let ?s' = "s\<lparr>aspaces := (aspaces s)(as \<mapsto> a\<lparr>as_last := c\<rparr>), regions := ?h\<rparr>"
    have "remove_region as x s = Ret () ?s'"
      using 3 a r c f nf by (simp add: remove_region_def region_simps)
    moreover have sa: "same_regions s ?s'" using c by (simp add: same_regions_def rdata_def)
    moreover have "dll r_next r_prev ?h 0 (us @ [c]) 0"
      using D(1,2) 3 c by (intro rg.relink_last [where q = x]) (auto simp: dll_append)
    then have "aspace_ok ?s' as (ys @ zs)" using 3 a sa by (intro finish [where a' = "a\<lparr>as_last := c\<rparr>"]) simp_all
    ultimately show ?thesis by blast
  next
    case 4
    obtain rc rb where c: "regions s c = Some rc" "c \<noteq> 0" "c \<noteq> x" and b: "regions s b = Some rb" "b \<noteq> 0" "b \<noteq> x" "b \<noteq> c"
      using D(1,2) 4 by (auto simp: dll_append)
    have fin: "first_of c us \<in> set (us @ [c])" by (cases us) auto
    have lin: "last_of b vs \<in> set (b # vs)" by (rule last_of_in)
    obtain rf rl where f: "regions s (first_of c us) = Some rf" and l: "regions s (last_of b vs) = Some rl"
      using D(5) [of "first_of c us"] D(5) [of "last_of b vs"] fin lin 4 by auto
    have nfl: "r_addr rf \<noteq> r_addr r" "r_addr rl \<noteq> r_addr r"
      using addr [OF _ f] addr [OF _ l] fin lin 4 D(2) by auto
    let ?h = "(regions s)(c \<mapsto> rc\<lparr>r_next := b\<rparr>, b \<mapsto> rb\<lparr>r_prev := c\<rparr>)"
    have "remove_region as x s = Ret () (s\<lparr>regions := ?h\<rparr>)"
      using 4 a r c b f l nfl by (simp add: remove_region_def region_simps)
    moreover have sa: "same_regions s (s\<lparr>regions := ?h\<rparr>)" using c b by (simp add: same_regions_def rdata_def)
    moreover have "dll r_next r_prev ?h 0 (us @ c # b # vs) 0"
      using D(1,2) 4 c b by (intro rg.remove_mid [where x = x]) auto
    then have "aspace_ok (s\<lparr>regions := ?h\<rparr>) as (ys @ zs)" using 4 a sa by (intro finish [where a' = a]) simp_all
    ultimately show ?thesis by blast
  qed
qed

section \<open>The contract of the region list\<close>

text \<open>
  C12: \<^verbatim>\<open>_insert_region\<close> puts a non-empty region that lies below \<^verbatim>\<open>VM_USER_END\<close> and overlaps no region of
  the address space at its place: the list stays doubly linked, ordered and free of overlap, it
  gains exactly this region, and no region changes its address, size or flags.
\<close>

theorem insert_region_correct:
  assumes "aspace_ok s as xs" and "regions s x = Some r" and "x \<noteq> 0" and "x \<notin> set xs"
    and "r_size r \<noteq> 0" and "unat (r_addr r) + unat (r_size r) \<le> unat VM_USER_END"
    and "\<forall>y \<in> set xs. \<not> overlaps s y (r_addr r) (r_size r)"
  shows "\<exists>s' ys zs. insert_region as x s = Ret () s' \<and> xs = ys @ zs \<and> aspace_ok s' as (ys @ x # zs) \<and> same_regions s s'"
proof -
  have e: "rstart s x = unat (r_addr r)" "rend s x = unat (r_addr r) + unat (r_size r)"
    using assms(2) by (simp_all add: rstart_def rend_def)
  have ne: "rstart s x < rend s x" using assms(5) e by (simp add: unat_gt_0)
  obtain ys zs where xs: "xs = ys @ zs" "end_of (rend s) 0 ys \<le> rstart s x" "rend s x \<le> start_of (rstart s) zs (unat VM_USER_END)"
    using ra.ordered_place [OF aspace_okD(3) [OF assms(1)], of "rstart s x" "rend s x"] assms(6,7) e
    by (auto simp: overlaps_def not_less)
  then show ?thesis
    using insert_region_ok [of s as ys zs x r] assms(1-4) ne by blast
qed

text \<open>
  C13: \<^verbatim>\<open>_remove_region\<close> takes exactly the given region out of the list of an address space and keeps
  the order and the links of the others.
\<close>

theorem remove_region_correct:
  assumes "aspace_ok s as xs" and "x \<in> set xs"
  shows "\<exists>s'. remove_region as x s = Ret () s' \<and> aspace_ok s' as (remove1 x xs) \<and> same_regions s s'"
proof -
  obtain ys zs where xs: "xs = ys @ x # zs" using assms(2) by (auto dest: split_list)
  moreover have "remove1 x xs = ys @ zs" using aspace_okD(2) [OF assms(1)] xs by (simp add: remove1_append)
  ultimately show ?thesis using remove_region_ok [of s as ys x zs] assms(1) by simp
qed

lemma ordered_starts:
  assumes "aspace_ok s as (ys @ x # zs)" and "z \<in> set zs"
  shows "rend s x \<le> rstart s z" "rstart s x < rstart s z"
proof -
  note D = aspace_okD [OF assms(1)]
  have "ordered (rstart s) (rend s) (rend s x) zs (unat VM_USER_END)" using D(3) by (simp add: ordered_append)
  then show le: "rend s x \<le> rstart s z" using ra.ordered_bounds(1) assms(2) by blast
  show "rstart s x < rstart s z" using D(4) [of x] le by simp
qed

lemma ordered_ends:
  assumes "aspace_ok s as (ys @ x # zs)" and "z \<in> set ys"
  shows "rend s z \<le> rstart s x"
proof -
  obtain us vs where "ys = us @ z # vs" using assms(2) by (auto dest: split_list)
  then show ?thesis using ordered_starts(1) [of s as us z "vs @ x # zs" x] assms(1) by simp
qed

text \<open>
  \<^verbatim>\<open>_find_region\<close> returns the first region that contains the address or ends exactly at it, and
  NULL when there is none. A region whose predecessor ends at its start is therefore not found by
  its own start address.
\<close>

theorem find_region_correct:
  assumes "aspace_ok s as xs"
  shows "find_region as v s =
      Ret (case find (\<lambda>x. rstart s x \<le> unat v \<and> unat v \<le> rend s x) xs of None \<Rightarrow> NULL | Some x \<Rightarrow> x) s \<and>
    (\<forall>ys x y zs. xs = ys @ x # y # zs \<and> rend s x = rstart s y \<and> unat v = rstart s y \<longrightarrow> find_region as v s = Ret x s)"
proof -
  have "find (\<lambda>x. rstart s x \<le> unat v \<and> unat v \<le> rend s x) xs = Some x"
    if xs: "xs = ys @ x # y # zs" and v: "rend s x = rstart s y" "unat v = rstart s y" for ys x y zs
  proof -
    have ok: "aspace_ok s as (ys @ x # y # zs)" using assms xs by simp
    have sx: "rstart s x < rend s x" using aspace_okD(4) [OF ok, of x] by simp
    have "\<not> (rstart s z \<le> unat v \<and> unat v \<le> rend s z)" if "z \<in> set ys" for z
      using ordered_ends [OF ok that] sx v by simp
    then show ?thesis unfolding xs using sx v by (intro find_first) auto
  qed
  then show ?thesis using find_region_ok [OF assms, of v] by auto
qed

text \<open>The test that the loop makes, and what it says of the list of regions.\<close>

definition next_start_after :: "'a vmm_scheme \<Rightarrow> ptr list \<Rightarrow> u32 \<Rightarrow> u32 \<Rightarrow> bool" where
  "next_start_after s xs v n \<longleftrightarrow>
     (case find (\<lambda>x. unat v \<le> rstart s x) xs of None \<Rightarrow> False | Some x \<Rightarrow> unat v + unat n \<le> rstart s x)"

lemma free_area_accepted:
  assumes "aspace_ok s as xs" and "xs \<noteq> []" and "\<not> rend s (last xs) \<le> unat v" and "\<forall>x \<in> set xs. \<not> overlaps s x v n"
  shows "next_start_after s xs v n"
proof -
  let ?P = "\<lambda>x. unat v \<le> rstart s x"
  have lx: "last xs \<in> set xs" using assms(2) by simp
  then have "?P (last xs)" using assms(3,4) by (fastforce simp: overlaps_def)
  then obtain x where x: "find ?P xs = Some x" using lx by (cases "find ?P xs") (auto simp: find_None_iff)
  then obtain ys zs where xs: "xs = ys @ x # zs" "unat v \<le> rstart s x" by (auto dest: find_split)
  moreover have "rstart s x < rend s x" using aspace_okD(4) [OF assms(1)] xs(1) by simp
  ultimately show ?thesis using assms(4) x by (auto simp: overlaps_def next_start_after_def)
qed

lemma accepted_no_later_overlap:
  assumes "aspace_ok s as xs" and "next_start_after s xs v n" and "x \<in> set xs" and "unat v \<le> rstart s x"
  shows "\<not> overlaps s x v n"
proof -
  let ?P = "\<lambda>x. unat v \<le> rstart s x"
  obtain y where y: "find ?P xs = Some y" "unat v + unat n \<le> rstart s y"
    using assms(2) by (cases "find ?P xs") (auto simp: next_start_after_def)
  then obtain ys zs where xs: "xs = ys @ y # zs" "\<forall>z \<in> set ys. \<not> ?P z" by (auto dest: find_split)
  then have "x = y \<or> x \<in> set zs" using assms(3,4) by auto
  then have "rstart s y \<le> rstart s x" using ordered_starts(2) [of s as ys y zs x] assms(1) xs by auto
  then show ?thesis using y by (simp add: overlaps_def)
qed

lemma start_inside_accepted:
  assumes "aspace_ok s as (ys @ x # y # zs)" and "rstart s x < unat v" and "unat v + unat n \<le> rstart s y"
  shows "next_start_after s (ys @ x # y # zs) v n"
proof -
  let ?P = "\<lambda>x. unat v \<le> rstart s x"
  have "\<not> ?P z" if z: "z \<in> set (ys @ [x])" for z
  proof (cases "z = x")
    case False
    then have "rend s z \<le> rstart s x" "rstart s z < rend s z"
      using ordered_ends [OF assms(1), of z] aspace_okD(4) [OF assms(1), of z] z by auto
    then show ?thesis using assms(2) by simp
  qed (use assms(2) in simp)
  then have "find ?P ((ys @ [x]) @ y # zs) = Some y" using assms(3) by (intro find_first) auto
  then show ?thesis using assms(3) by (simp add: next_start_after_def)
qed

lemma accepted_user_end:
  assumes "aspace_ok s as xs" and "next_start_after s xs v n"
  shows "unat v + unat n \<le> unat VM_USER_END"
proof -
  obtain y where y: "find (\<lambda>x. unat v \<le> rstart s x) xs = Some y" "unat v + unat n \<le> rstart s y"
    using assms(2) by (cases "find (\<lambda>x. unat v \<le> rstart s x) xs") (auto simp: next_start_after_def)
  then have "y \<in> set xs" by (auto simp: find_Some_iff)
  then show ?thesis using y(2) aspace_okD(4,6) [OF assms(1), of y] by simp
qed


text \<open>
  The loop does not look at the region in front of the area: an area that begins inside a region
  is reported free when a further region follows and the area ends before that one.
\<close>

lemma is_area_free_inside:
  assumes "aspace_ok s as (ys @ x # y # zs)" and "rstart s x < unat v" and "unat v < rend s x"
    and "unat v + unat n \<le> rstart s y"
  shows "is_area_free as v n s = Ret True s"
proof -
  note D = aspace_okD [OF assms(1)]
  let ?xs = "ys @ x # y # zs"
  obtain us l where us: "?xs = us @ [l]" by (cases "ys @ x # y # zs" rule: rev_cases) auto
  have "y \<in> set ?xs" by simp
  then have "rend s y \<le> rend s (last ?xs)"
    using first_end [OF D(3) [unfolded us], of y] unfolding us by simp
  moreover have "rstart s y < rend s y" "rend s y \<le> unat VM_USER_END" using D(4,6) [of y] by auto
  ultimately have "\<not> rend s (last ?xs) \<le> unat v" "unat v + unat n < 2 ^ 32" using assms(4) by auto
  then show ?thesis
    using is_area_free_ok [OF assms(1), of v n] start_inside_accepted [OF assms(1,2,4)]
    by (simp add: next_start_after_def)
qed

section \<open>A concrete address space\<close>

definition vmm_demo :: vmm where
  "vmm_demo = vmem.extend vmem_demo
     \<lparr>kmem = (\<lambda>_. 0),
      regions = [0xc0101030 \<mapsto> \<lparr>r_addr = 0x8048000, r_size = 0x2000, r_flags = 6, r_prev = 0, r_next = 0xc0101060\<rparr>,
        0xc0101060 \<mapsto> \<lparr>r_addr = 0x804a000, r_size = 0x1000, r_flags = 6, r_prev = 0xc0101030, r_next = 0xc0101090\<rparr>,
        0xc0101090 \<mapsto> \<lparr>r_addr = 0xb0000000, r_size = 0x1000, r_flags = 6, r_prev = 0xc0101060, r_next = 0\<rparr>,
        0xc01010c0 \<mapsto> \<lparr>r_addr = 0x9000000, r_size = 0x3000, r_flags = 6, r_prev = 0, r_next = 0\<rparr>],
      aspaces = [0xc0101008 \<mapsto> \<lparr>as_pd = 0x5000, code_entry = 0x8048000, elf_end = 0x804b000, data_end = 0x804b000,
        stack_end = 0xb0000000, stack_size = 0x1000, page_counter = 0, as_first = 0xc0101030, as_last = 0xc0101090\<rparr>]\<rparr>"

abbreviation (input) demo_regions :: "ptr list" where "demo_regions \<equiv> [0xc0101030, 0xc0101060, 0xc0101090]"

lemma aspace_demo: "aspace_ok vmm_demo 0xc0101008 demo_regions"
  by (simp add: aspace_ok_def dlist_def rstart_def rend_def vmm_demo_def vmem.extend_def)

theorem insert_region_correct_witness:
  "\<exists>s' ys zs. insert_region 0xc0101008 0xc01010c0 vmm_demo = Ret () s' \<and> demo_regions = ys @ zs \<and>
     aspace_ok s' 0xc0101008 (ys @ 0xc01010c0 # zs) \<and> same_regions vmm_demo s'"
  by (rule insert_region_correct [OF aspace_demo,
      of _ "\<lparr>r_addr = 0x9000000, r_size = 0x3000, r_flags = 6, r_prev = 0, r_next = 0\<rparr>"])
    (simp_all add: overlaps_def rstart_def rend_def vmm_demo_def vmem.extend_def)

theorem remove_region_correct_witness:
  "\<exists>s'. remove_region 0xc0101008 0xc0101060 vmm_demo = Ret () s' \<and>
     aspace_ok s' 0xc0101008 (remove1 0xc0101060 demo_regions) \<and> same_regions vmm_demo s'"
  by (rule remove_region_correct [OF aspace_demo]) simp

text \<open>The second region starts at \<^verbatim>\<open>0x804a000\<close>; the search finds the first one.\<close>

theorem find_region_correct_witness: "find_region 0xc0101008 0x804a000 vmm_demo = Ret 0xc0101030 vmm_demo"
proof -
  have "demo_regions = [] @ 0xc0101030 # 0xc0101060 # [0xc0101090]" by simp
  moreover have "rend vmm_demo 0xc0101030 = rstart vmm_demo 0xc0101060" "unat (0x804a000 :: u32) = rstart vmm_demo 0xc0101060"
    by (simp_all add: rstart_def rend_def vmm_demo_def vmem.extend_def)
  ultimately show ?thesis using find_region_correct [OF aspace_demo, of "0x804a000"] by blast
qed


end
