(* ===== verification/Vfs.thy ===== *)
theory Vfs
  imports Vmm Klib
begin

text \<open>
  The file tree of the kernel: the nodes of \<^verbatim>\<open>include/kernel/vfs.h\<close>, the tree operations and the path
  lookup of \<^verbatim>\<open>kernel/vfs/namei.c\<close>, and the list of open file descriptions of \<^verbatim>\<open>kernel/vfs/fd.c\<close>. An
  operation table holds tags instead of code addresses; the dispatchers of \<^verbatim>\<open>vfs.c\<close> stand behind
  the drivers they call.
\<close>

section \<open>Nodes\<close>

datatype vtype = VFS_FILE | VFS_DIR | VFS_CHRDEV | VFS_BLKDEV | VFS_PIPE | VFS_SYMLINK | VFS_MNTPT

datatype open_fn = Ramfs_open | Tarfs_open | Zero_open
datatype close_fn = Ramfs_close | Tarfs_close | Zero_close
datatype read_fn = Ramfs_read | Tarfs_read | Zero_read | Stdin_read
datatype write_fn = Ramfs_write | Zero_write | Stdout_write
datatype touch_fn = Ramfs_touch
datatype remove_fn = Ramfs_remove
datatype mkdir_fn = Ramfs_mkdir
datatype rmdir_fn = Ramfs_rmdir
datatype readdir_fn = Ramfs_readdir | Tarfs_readdir

record vfs_ops =
  op_open :: "open_fn option"
  op_close :: "close_fn option"
  op_read :: "read_fn option"
  op_write :: "write_fn option"
  op_touch :: "touch_fn option"
  op_remove :: "remove_fn option"
  op_mkdir :: "mkdir_fn option"
  op_rmdir :: "rmdir_fn option"
  op_readdir :: "readdir_fn option"

record vnode =
  v_name :: "u8 list"
  v_type :: vtype
  v_ino :: u32
  v_size :: u32
  active_fds :: u32
  v_op :: vfs_ops
  v_parent :: ptr
  v_first :: ptr
  v_last :: ptr
  v_prev :: ptr
  v_next :: ptr
  v_data :: ptr

record tar_inode =
  ti_vaddr :: u32
  ti_hdr :: ptr

record fd =
  fd_position :: u32
  fd_mode :: u32
  fd_vnode :: ptr
  fd_next :: ptr
  fd_prev :: ptr

record vfs = vmm +
  vnodes :: "ptr \<rightharpoonup> vnode"
  tree_root :: ptr
  ramfs_inodes :: "ptr \<rightharpoonup> u32"
  tar_inodes :: "ptr \<rightharpoonup> tar_inode"
  devdir :: ptr
  dev_zero :: ptr
  dev_stdin :: ptr
  dev_stdout :: ptr
  fds :: "ptr \<rightharpoonup> fd"
  first_fd :: ptr

abbreviation (input) get_node :: "ptr \<Rightarrow> 'a vfs_scheme \<Rightarrow> (vnode, 'a vfs_scheme) res" where
  "get_node p s \<equiv> load vnodes p s"
abbreviation (input) set_node :: "ptr \<Rightarrow> (vnode \<Rightarrow> vnode) \<Rightarrow> 'a vfs_scheme \<Rightarrow> (unit, 'a vfs_scheme) res" where
  "set_node p f s \<equiv> modify vnodes vnodes_update p f s"
abbreviation (input) get_fd :: "ptr \<Rightarrow> 'a vfs_scheme \<Rightarrow> (fd, 'a vfs_scheme) res" where
  "get_fd p s \<equiv> load fds p s"
abbreviation (input) set_fd :: "ptr \<Rightarrow> (fd \<Rightarrow> fd) \<Rightarrow> 'a vfs_scheme \<Rightarrow> (unit, 'a vfs_scheme) res" where
  "set_fd p f s \<equiv> modify fds fds_update p f s"

abbreviation (input) MAX_FILENAME :: nat where "MAX_FILENAME \<equiv> 128"
abbreviation (input) SLASH :: u8 where "SLASH \<equiv> 0x2f"

definition no_ops :: vfs_ops where
  "no_ops = \<lparr>op_open = None, op_close = None, op_read = None, op_write = None, op_touch = None, op_remove = None,
     op_mkdir = None, op_rmdir = None, op_readdir = None\<rparr>"

text \<open>
  A node after \<^verbatim>\<open>memset(vnode, 0, sizeof(vfs_node_t))\<close>. Zero is no value of \<^verbatim>\<open>vfs_type\<close>; every caller
  sets the type before the node is used.
\<close>

definition zero_node :: vnode where
  "zero_node = \<lparr>v_name = replicate MAX_FILENAME 0, v_type = VFS_FILE, v_ino = 0, v_size = 0, active_fds = 0,
     v_op = no_ops, v_parent = NULL, v_first = NULL, v_last = NULL, v_prev = NULL, v_next = NULL, v_data = NULL\<rparr>"

text \<open>An access behind the end of a local array has no value to go on with.\<close>

definition in_bounds :: "'a option \<Rightarrow> 's \<Rightarrow> ('a, 's) res" where
  "in_bounds x s = (case x of None \<Rightarrow> Fault NULL | Some v \<Rightarrow> Ret v s)"

section \<open>Path lookup\<close>

definition child_scan :: "u8 list \<Rightarrow> ptr \<Rightarrow> 'a vfs_scheme \<Rightarrow> (ptr + ptr, 'a vfs_scheme) res" where
  "child_scan name tmp s =
     (if tmp = NULL then Ret (Inl NULL) s
      else bindR (get_node tmp s) (\<lambda>t s.
        bindR (in_bounds (strcmp (v_name t) name) s) (\<lambda>c s.
        if c = 0 then Ret (Inl tmp) s else Ret (Inr (v_next t)) s)))"

definition find_child :: "ptr \<Rightarrow> u8 list \<Rightarrow> 'a vfs_scheme \<Rightarrow> (ptr, 'a vfs_scheme) res" where
  "find_child parent name s =
     bindR (get_node parent s) (\<lambda>p s. chase {} (child_scan name) (v_first p) s)"

text \<open>
  The loop of \<^verbatim>\<open>_path_deconcatenator\<close> copies one component to \<open>buff\<close>. \<open>Inr\<close> is a normal end of the
  loop with the new index; \<open>Inl\<close> is the early return when the component does not fit.
\<close>

function component_loop ::
  "u8 list \<Rightarrow> nat \<Rightarrow> nat \<Rightarrow> nat \<Rightarrow> u8 list \<Rightarrow> ((unit + nat) \<times> u8 list) option" where
  "component_loop path path_len prev_idx buff_eof buff =
     (if prev_idx < path_len then
        if prev_idx < length path then
          if path ! prev_idx = SLASH \<or> path ! prev_idx = 0 then
            if buff_eof < length buff then Some (Inr (prev_idx + 1), buff[buff_eof := 0]) else None
          else if buff_eof = MAX_FILENAME then Some (Inl (), buff[MAX_FILENAME - 1 := 0])
          else if buff_eof < length buff then
            component_loop path path_len (prev_idx + 1) (buff_eof + 1) (buff[buff_eof := path ! prev_idx])
          else None
        else None
      else Some (Inr prev_idx, buff))"
  by pat_completeness auto
termination by (relation "measure (\<lambda>(_, path_len, prev_idx, _). path_len - prev_idx)") auto

declare component_loop.simps [simp del]

definition path_deconcatenator :: "u8 list \<Rightarrow> nat \<Rightarrow> nat \<Rightarrow> u8 list \<Rightarrow> (nat \<times> u8 list) option" where
  "path_deconcatenator path path_len prev_idx buff =
     (case component_loop path path_len prev_idx 0 buff of
        None \<Rightarrow> None
      | Some (Inl _, buff) \<Rightarrow> Some (0, buff)
      | Some (Inr prev_idx, buff) \<Rightarrow>
          if prev_idx = 0 \<or> length path < prev_idx then None
          else if path ! (prev_idx - 1) = SLASH \<and> length path = prev_idx then None
          else
            (let prev_idx = (if path ! (prev_idx - 1) = SLASH \<and> path ! prev_idx = 0 then prev_idx + 1 else prev_idx)
             in Some (if prev_idx = path_len then 0 else prev_idx, buff)))"

lemma component_loop_progress:
  "component_loop path path_len i k buff = Some (Inr j, buff') \<Longrightarrow> i < path_len \<Longrightarrow> i < j"
proof (induction path path_len i k buff rule: component_loop.induct)
  case (1 path path_len i k buff)
  show ?case
  proof (cases "component_loop path path_len (i + 1) (k + 1) (buff[k := path ! i]) = Some (Inr j, buff') \<and> i + 1 < path_len \<and>
      \<not> (path ! i = SLASH \<or> path ! i = 0) \<and> k \<noteq> MAX_FILENAME \<and> k < length buff \<and> i < length path")
    case True
    then show ?thesis using "1.IH" "1.prems" by fastforce
  next
    case False
    then show ?thesis
      using "1.prems" component_loop.simps [of path path_len i k buff]
        component_loop.simps [of path path_len "i + 1" "k + 1" "buff[k := path ! i]"]
      by (auto split: if_splits)
  qed
qed

lemma path_deconcatenator_progress:
  "path_deconcatenator path path_len i buff = Some (j, buff') \<Longrightarrow> i < path_len \<Longrightarrow> j = 0 \<or> i < j"
  by (auto simp: path_deconcatenator_def Let_def split: option.splits sum.splits prod.splits if_splits
      dest!: component_loop_progress)

text \<open>
  The loop of \<^verbatim>\<open>namei_path_to_vfs_node\<close>: the result and what is stored through \<open>parent\<close>. Every turn but
  the last consumes a part of the path, so as many turns as the path has bytes are enough.
\<close>

fun namei_walk ::
  "nat \<Rightarrow> u8 list \<Rightarrow> nat \<Rightarrow> nat \<Rightarrow> u8 list \<Rightarrow> ptr \<Rightarrow> 'a vfs_scheme \<Rightarrow> (ptr \<times> ptr, 'a vfs_scheme) res" where
  "namei_walk 0 path path_len prev_idx fname tmp s = Timeout"
| "namei_walk (Suc fuel) path path_len prev_idx fname tmp s =
     (if fname ! 0 = 0 then Ret (tmp, tmp) s
      else
        bindR (find_child tmp fname s) (\<lambda>child s.
        if child = NULL then Ret (NULL, if prev_idx = 0 then tmp else NULL) s
        else if prev_idx = 0 then Ret (child, tmp) s
        else
          bindR (in_bounds (path_deconcatenator path path_len prev_idx fname) s) (\<lambda>(prev_idx, fname) s.
          namei_walk fuel path path_len prev_idx fname child s)))"

text \<open>
  The array \<^verbatim>\<open>fname\<close> starts with unspecified bytes; the first call overwrites it up to its terminator.
  With an empty tree nothing is stored through \<open>parent\<close>, which the second component \<open>None\<close> says.
\<close>

definition namei_path_to_vfs_node ::
  "ptr \<Rightarrow> u8 list \<Rightarrow> 'a vfs_scheme \<Rightarrow> (ptr \<times> ptr option, 'a vfs_scheme) res" where
  "namei_path_to_vfs_node root path s =
     (case path of
        [] \<Rightarrow> Fault NULL
      | c # _ \<Rightarrow>
          if c \<noteq> SLASH then Ret (NULL, Some NULL) s
          else
            bindR (in_bounds (strlen path) s) (\<lambda>n s.
            bindR (in_bounds (path_deconcatenator path (n + 1) 1 (replicate MAX_FILENAME 0)) s) (\<lambda>(prev_idx, fname) s.
            let tmp = (if root = NULL then tree_root s else root) in
            if tmp = NULL then Ret (NULL, None) s
            else bindR (namei_walk (n + 2) path (n + 1) prev_idx fname tmp s) (\<lambda>(tmp, parent) s. Ret (tmp, Some parent) s))))"

text \<open>The index of the last slash that is not the last byte of the path.\<close>

fun last_slash :: "u8 list \<Rightarrow> nat \<Rightarrow> nat \<Rightarrow> nat option" where
  "last_slash [] i last_idx = None"
| "last_slash (c # path) i last_idx =
     (if c = 0 then Some last_idx
      else if c = SLASH \<and> path = [] then None
      else last_slash path (i + 1) (if c = SLASH \<and> hd path \<noteq> 0 then i else last_idx))"

definition namei_path_to_filename :: "u8 list \<Rightarrow> u8 list \<Rightarrow> u8 list option" where
  "namei_path_to_filename path buff =
     (case last_slash path 0 0 of
        None \<Rightarrow> None
      | Some last_idx \<Rightarrow>
          (case strncpy buff (drop (last_idx + 1) path) MAX_FILENAME of
             None \<Rightarrow> None
           | Some buff \<Rightarrow>
               (case strlen buff of
                  None \<Rightarrow> None
                | Some 0 \<Rightarrow> None
                | Some len \<Rightarrow> Some (if buff ! (len - 1) = SLASH then buff[len - 1 := 0] else buff))))"

section \<open>Tree operations\<close>

definition namei_add_child :: "ptr \<Rightarrow> ptr \<Rightarrow> 'a vfs_scheme \<Rightarrow> (unit, 'a vfs_scheme) res" where
  "namei_add_child parent child s =
     bindR (set_node child (v_parent_update (\<lambda>_. parent)) s) (\<lambda>_ s.
     bindR (get_node parent s) (\<lambda>p s.
     if v_first p = NULL then
       bindR (set_node child (\<lambda>c. c\<lparr>v_prev := NULL, v_next := NULL\<rparr>) s) (\<lambda>_ s.
       set_node parent (\<lambda>p. p\<lparr>v_first := child, v_last := child\<rparr>) s)
     else
       bindR (set_node (v_last p) (v_next_update (\<lambda>_. child)) s) (\<lambda>_ s.
       bindR (set_node child (v_prev_update (\<lambda>_. v_last p)) s) (\<lambda>_ s.
       bindR (set_node child (v_next_update (\<lambda>_. NULL)) s) (\<lambda>_ s.
       set_node parent (v_last_update (\<lambda>_. child)) s)))))"

definition namei_remove_child :: "ptr \<Rightarrow> 'a vfs_scheme \<Rightarrow> (unit, 'a vfs_scheme) res" where
  "namei_remove_child child s =
     bindR (get_node child s) (\<lambda>c s.
     bindR (if v_prev c = NULL then
              bindR (set_node (v_parent c) (v_first_update (\<lambda>_. v_next c)) s) (\<lambda>_ s.
              if v_next c \<noteq> NULL then
                bindR (set_node (v_next c) (v_prev_update (\<lambda>_. NULL)) s) (\<lambda>_ s. Ret True s)
              else Ret False s)
            else Ret False s) (\<lambda>done s.
     if done then Ret () s
     else
       bindR (get_node child s) (\<lambda>c s.
       if v_next c = NULL then
         bindR (set_node (v_parent c) (v_last_update (\<lambda>_. v_prev c)) s) (\<lambda>_ s.
         if v_prev c \<noteq> NULL then set_node (v_prev c) (v_next_update (\<lambda>_. NULL)) s else Ret () s)
       else
         bindR (set_node (v_prev c) (v_next_update (\<lambda>_. v_next c)) s) (\<lambda>_ s.
         bindR (get_node child s) (\<lambda>c s. set_node (v_next c) (v_prev_update (\<lambda>_. v_prev c)) s)))))"

text \<open>The loop of \<^verbatim>\<open>namei_mount\<close> hands the children of the mounted root to the mount point.\<close>

function reparent :: "ptr set \<Rightarrow> ptr \<Rightarrow> ptr \<Rightarrow> 'a vfs_scheme \<Rightarrow> (unit, 'a vfs_scheme) res" where
  "reparent V mp tmp s =
     (if tmp = NULL then Ret () s
      else if tmp \<in> V then Timeout
      else
        bindR (set_node tmp (v_parent_update (\<lambda>_. mp)) s) (\<lambda>_ s.
        bindR (get_node tmp s) (\<lambda>t s. reparent (insert tmp V) mp (v_next t) s)))"
  by pat_completeness auto
termination
proof (relation "measure (\<lambda>(V, _). card (- V))", goal_cases)
  case (2 V mp tmp s)
  then have "- insert tmp V \<subset> - V" by auto
  then show ?case by (simp add: psubset_card_mono)
qed simp

declare reparent.simps [simp del]

definition namei_mount :: "ptr \<Rightarrow> ptr \<Rightarrow> 'a vfs_scheme \<Rightarrow> (int, 'a vfs_scheme) res" where
  "namei_mount mp fs_root s =
     bindR (get_node mp s) (\<lambda>m s.
     if v_type m \<noteq> VFS_DIR \<and> v_first m \<noteq> NULL then Ret 1 s
     else
       bindR (set_node mp (v_type_update (\<lambda>_. VFS_MNTPT)) s) (\<lambda>_ s.
       bindR (get_node fs_root s) (\<lambda>f s.
       bindR (set_node mp (\<lambda>m. m\<lparr>v_op := v_op f, v_first := v_first f, v_last := v_last f\<rparr>) s) (\<lambda>_ s.
       bindR (reparent {} mp (v_first f) s) (\<lambda>_ s. Ret 0 s)))))"

definition new_node :: "vnode \<Rightarrow> 'a vfs_scheme \<Rightarrow> (ptr, 'a vfs_scheme) res" where
  "new_node n s = bindR (kmalloc 204 s) (\<lambda>p s. Ret p (s\<lparr>vnodes := (vnodes s)(p \<mapsto> n)\<rparr>))"

definition namei_init :: "'a vfs_scheme \<Rightarrow> (unit, 'a vfs_scheme) res" where
  "namei_init s =
     bindR (new_node zero_node s) (\<lambda>p s.
     bindR (in_bounds (strncpy (v_name zero_node) [SLASH, 0] MAX_FILENAME) s) (\<lambda>name s.
     bindR (set_node p (\<lambda>n. n\<lparr>v_name := name, v_type := VFS_DIR,
       v_op := no_ops\<lparr>op_touch := Some Ramfs_touch, op_remove := Some Ramfs_remove, op_mkdir := Some Ramfs_mkdir,
         op_readdir := Some Ramfs_readdir\<rparr>\<rparr>) s) (\<lambda>_ s.
     Ret () (s\<lparr>tree_root := p\<rparr>))))"

section \<open>Open file descriptions\<close>

definition fd_add :: "ptr \<Rightarrow> 'a vfs_scheme \<Rightarrow> (unit, 'a vfs_scheme) res" where
  "fd_add p s =
     (if first_fd s = NULL then Ret () (s\<lparr>first_fd := p\<rparr>)
      else
        bindR (set_fd p (fd_next_update (\<lambda>_. first_fd s)) s) (\<lambda>_ s.
        bindR (set_fd (first_fd s) (fd_prev_update (\<lambda>_. p)) s) (\<lambda>_ s.
        Ret () (s\<lparr>first_fd := p\<rparr>))))"

definition fd_remove :: "ptr \<Rightarrow> 'a vfs_scheme \<Rightarrow> (unit, 'a vfs_scheme) res" where
  "fd_remove p s =
     bindR (get_fd p s) (\<lambda>f s.
     if fd_prev f = NULL then
       bindR (set_fd (first_fd s) (fd_prev_update (\<lambda>_. NULL)) s) (\<lambda>_ s.
       bindR (get_fd p s) (\<lambda>f s. Ret () (s\<lparr>first_fd := fd_next f\<rparr>)))
     else if fd_next f = NULL then set_fd (fd_prev f) (fd_next_update (\<lambda>_. NULL)) s
     else
       bindR (set_fd (fd_prev f) (fd_next_update (\<lambda>_. fd_next f)) s) (\<lambda>_ s.
       bindR (get_fd p s) (\<lambda>f s. set_fd (fd_next f) (fd_prev_update (\<lambda>_. fd_prev f)) s)))"

section \<open>Children of a node\<close>

interpretation vn: dll_node v_next v_prev "\<lambda>a. v_next_update (\<lambda>_. a)" "\<lambda>a. v_prev_update (\<lambda>_. a)"
  by unfold_locales simp_all

text \<open>\<open>kids_ok s p xs\<close>: the children of \<open>p\<close> are \<open>xs\<close>, in order, and know their parent.\<close>

definition kids_ok :: "'a vfs_scheme \<Rightarrow> ptr \<Rightarrow> ptr list \<Rightarrow> bool" where
  "kids_ok s p xs \<longleftrightarrow>
     (\<exists>n. vnodes s p = Some n \<and> v_first n = first_of NULL xs \<and> v_last n = last_of NULL xs) \<and>
     dlist v_next v_prev (vnodes s) xs \<and> p \<notin> set xs \<and>
     (\<forall>x \<in> set xs. map_option v_parent (vnodes s x) = Some p)"

text \<open>\<open>same_nodes s s' X\<close>: outside \<open>X\<close> no node has changed, and no node has changed its name, type or contents.\<close>

definition node_data :: "vnode \<Rightarrow> u8 list \<times> vtype \<times> u32 \<times> u32 \<times> u32 \<times> vfs_ops \<times> ptr" where
  "node_data n = (v_name n, v_type n, v_ino n, v_size n, active_fds n, v_op n, v_data n)"

definition same_nodes :: "'a vfs_scheme \<Rightarrow> 'a vfs_scheme \<Rightarrow> ptr set \<Rightarrow> bool" where
  "same_nodes s s' X \<longleftrightarrow>
     (\<forall>x. map_option node_data (vnodes s' x) = map_option node_data (vnodes s x) \<and>
          (x \<notin> X \<longrightarrow> vnodes s' x = vnodes s x)) \<and> (\<exists>h. s' = s\<lparr>vnodes := h\<rparr>)"

lemmas node_simps = load_Some modify_Some Let_def

lemma kids_okD:
  assumes "kids_ok s p xs"
  shows "dll v_next v_prev (vnodes s) 0 xs 0" "distinct xs" "p \<notin> set xs" "0 \<notin> set xs"
    "\<And>x. x \<in> set xs \<Longrightarrow> \<exists>n. vnodes s x = Some n \<and> v_parent n = p"
  using assms by (auto simp: kids_ok_def dlist_def dest: dll_nonnull)

lemma kids_ok_parent:
  assumes "kids_ok s p xs"
  obtains n where "vnodes s p = Some n" "v_first n = first_of 0 xs" "v_last n = last_of 0 xs"
  using assms by (auto simp: kids_ok_def)

lemma same_nodesI:
  assumes "\<And>x. map_option node_data (h x) = map_option node_data (vnodes s x)" and "\<And>x. x \<notin> X \<Longrightarrow> h x = vnodes s x"
  shows "same_nodes s (s\<lparr>vnodes := h\<rparr>) X"
  using assms by (auto simp: same_nodes_def)

lemma same_nodes_dom:
  assumes "same_nodes s s' X"
  shows "dom (vnodes s') = dom (vnodes s)"
proof (rule set_eqI)
  fix x
  have "map_option node_data (vnodes s' x) = map_option node_data (vnodes s x)" using assms unfolding same_nodes_def by blast
  then have "(vnodes s' x = None) = (vnodes s x = None)" by (metis map_option_is_None)
  then show "x \<in> dom (vnodes s') \<longleftrightarrow> x \<in> dom (vnodes s)" by (simp add: domIff)
qed

lemma same_nodes_frame:
  assumes "same_nodes s s' X"
  obtains h where "s' = s\<lparr>vnodes := h\<rparr>"
  using assms unfolding same_nodes_def by (elim conjE exE)

text \<open>
  Adding the node behind the last child. The two cases of the code differ in which nodes they touch;
  \<open>kids_okI\<close> collects what both have to show of the new store.
\<close>

lemma kids_okI:
  assumes "vnodes s p = Some n" and "v_first n = first_of 0 xs" and "v_last n = last_of 0 xs" and "p \<notin> set xs"
    and "dll v_next v_prev (vnodes s) 0 xs 0" and "distinct xs"
    and "\<And>x. x \<in> set xs \<Longrightarrow> map_option v_parent (vnodes s x) = Some p"
  shows "kids_ok s p xs"
  using assms by (auto simp: kids_ok_def dlist_def)

lemma add_child_ok:
  assumes ok: "kids_ok s p xs" and c: "vnodes s c = Some nc" "c \<noteq> 0" "c \<noteq> p" "c \<notin> set xs"
  shows "\<exists>s'. namei_add_child p c s = Ret () s' \<and> kids_ok s' p (xs @ [c]) \<and> same_nodes s s' ({p, c} \<union> set xs)"
proof -
  note D = kids_okD [OF ok]
  obtain n where n: "vnodes s p = Some n" "v_first n = first_of 0 xs" "v_last n = last_of 0 xs"
    by (rule kids_ok_parent [OF ok])
  show ?thesis
  proof (cases xs rule: rev_cases)
    case Nil
    let ?h = "(vnodes s)(c \<mapsto> nc\<lparr>v_parent := p, v_prev := 0, v_next := 0\<rparr>, p \<mapsto> n\<lparr>v_first := c, v_last := c\<rparr>)"
    have "namei_add_child p c s = Ret () (s\<lparr>vnodes := ?h\<rparr>)"
      using c n Nil by (simp add: namei_add_child_def node_simps)
    moreover have "kids_ok (s\<lparr>vnodes := ?h\<rparr>) p (xs @ [c])"
      using c n Nil by (intro kids_okI [where n = "n\<lparr>v_first := c, v_last := c\<rparr>"]) auto
    moreover have "same_nodes s (s\<lparr>vnodes := ?h\<rparr>) ({p, c} \<union> set xs)"
      using c n by (intro same_nodesI) (auto simp: node_data_def)
    ultimately show ?thesis by blast
  next
    case (snoc us l)
    obtain nl where l: "vnodes s l = Some nl" "l \<noteq> 0" "l \<noteq> c" "l \<noteq> p" "v_parent nl = p"
      using D(3,4) D(5) [of l] snoc c(4) by auto
    have f: "first_of 0 xs \<noteq> 0" using D(4) snoc by (cases us) auto
    let ?c = "nc\<lparr>v_parent := p, v_prev := l, v_next := 0\<rparr>" and ?n = "n\<lparr>v_last := c\<rparr>"
    let ?h = "(vnodes s)(l \<mapsto> nl\<lparr>v_next := c\<rparr>, c \<mapsto> ?c, p \<mapsto> ?n)"
    have "namei_add_child p c s = Ret () (s\<lparr>vnodes := ?h\<rparr>)"
      using c n l f snoc by (simp add: namei_add_child_def node_simps fun_upd_twist)
    moreover have "dll v_next v_prev ((vnodes s)(l \<mapsto> nl\<lparr>v_next := c\<rparr>, c \<mapsto> ?c)) 0 (us @ [l, c]) 0"
      using D(1,2) snoc c l by (intro vn.append_node [where q = 0]) auto
    then have "dll v_next v_prev ?h 0 (xs @ [c]) 0" using D(3) c(3) snoc by simp
    then have "kids_ok (s\<lparr>vnodes := ?h\<rparr>) p (xs @ [c])"
      using c n l snoc D(2,3,5) by (intro kids_okI [where n = ?n]) (auto split: if_splits)
    moreover have "same_nodes s (s\<lparr>vnodes := ?h\<rparr>) ({p, c} \<union> set xs)"
      using c n l snoc by (intro same_nodesI) (auto simp: node_data_def)
    ultimately show ?thesis by blast
  qed
qed

lemma remove_child_ok:
  assumes ok: "kids_ok s p (ys @ c # zs)"
  shows "\<exists>s'. namei_remove_child c s = Ret () s' \<and> kids_ok s' p (ys @ zs) \<and> same_nodes s s' ({p} \<union> set (ys @ zs))"
proof -
  note D = kids_okD [OF ok]
  obtain n where n: "vnodes s p = Some n" "v_first n = first_of c ys" "v_last n = last_of c zs"
    using kids_ok_parent [OF ok] by auto
  obtain nc where c: "vnodes s c = Some nc" "c \<noteq> 0" "c \<noteq> p" "v_parent nc = p" "v_prev nc = last_of 0 ys" "v_next nc = first_of 0 zs"
  proof -
    obtain m where m: "vnodes s c = Some m" "v_parent m = p" using D(5) [of c] by auto
    moreover have "c \<noteq> 0" "c \<noteq> p" using D(3,4) by auto
    moreover have "v_prev m = last_of 0 ys" "v_next m = first_of 0 zs" using dll_mid [OF D(1) m(1)] by simp_all
    ultimately show ?thesis by (intro that)
  qed
  consider "ys = []" "zs = []" | b vs where "ys = []" "zs = b # vs" | us a where "ys = us @ [a]" "zs = []"
    | us a b vs where "ys = us @ [a]" "zs = b # vs"
    by (cases ys rule: rev_cases; cases zs) auto
  then show ?thesis
  proof cases
    case 1
    let ?h = "(vnodes s)(p \<mapsto> n\<lparr>v_first := 0, v_last := 0\<rparr>)"
    have "namei_remove_child c s = Ret () (s\<lparr>vnodes := ?h\<rparr>)"
      using 1 c n by (simp add: namei_remove_child_def node_simps)
    moreover have "kids_ok (s\<lparr>vnodes := ?h\<rparr>) p (ys @ zs)" 
      using 1 by (intro kids_okI [where n = "n\<lparr>v_first := 0, v_last := 0\<rparr>"]) simp_all
    moreover have "same_nodes s (s\<lparr>vnodes := ?h\<rparr>) ({p} \<union> set (ys @ zs))"
      using n by (intro same_nodesI) (auto simp: node_data_def)
    ultimately show ?thesis by blast
  next
    case 2
    obtain nb where b: "vnodes s b = Some nb" "b \<noteq> 0" "b \<noteq> p" "b \<noteq> c" "v_parent nb = p"
      using D(2,3,4) D(5) [of b] 2 by auto
    let ?h = "(vnodes s)(p \<mapsto> n\<lparr>v_first := b\<rparr>, b \<mapsto> nb\<lparr>v_prev := 0\<rparr>)"
    have "namei_remove_child c s = Ret () (s\<lparr>vnodes := ?h\<rparr>)"
      using 2 c n b by (simp add: namei_remove_child_def node_simps)
    moreover have "dll v_next v_prev ((vnodes s)(b \<mapsto> nb\<lparr>v_prev := 0\<rparr>)) 0 (b # vs) 0"
      using D(1,2) 2 b by (intro vn.relink_first [where p = c]) auto
    then have "dll v_next v_prev ?h 0 (ys @ zs) 0" using D(3) 2 b(3) by (simp add: fun_upd_twist)
    then have "kids_ok (s\<lparr>vnodes := ?h\<rparr>) p (ys @ zs)"
      using 2 n b D(2,3,5) by (intro kids_okI [where n = "n\<lparr>v_first := b\<rparr>"]) auto
    moreover have "same_nodes s (s\<lparr>vnodes := ?h\<rparr>) ({p} \<union> set (ys @ zs))"
      using n b 2 by (intro same_nodesI) (auto simp: node_data_def)
    ultimately show ?thesis by blast
  next
    case 3
    obtain na where a: "vnodes s a = Some na" "a \<noteq> 0" "a \<noteq> p" "a \<noteq> c" "v_parent na = p"
      using D(2,3,4) D(5) [of a] 3 by auto
    let ?h = "(vnodes s)(p \<mapsto> n\<lparr>v_last := a\<rparr>, a \<mapsto> na\<lparr>v_next := 0\<rparr>)"
    have "namei_remove_child c s = Ret () (s\<lparr>vnodes := ?h\<rparr>)"
      using 3 c n a by (simp add: namei_remove_child_def node_simps)
    moreover have "dll v_next v_prev ((vnodes s)(a \<mapsto> na\<lparr>v_next := 0\<rparr>)) 0 (us @ [a]) 0"
      using D(1,2) 3 a by (intro vn.relink_last [where q = c]) (auto simp: dll_append)
    then have "dll v_next v_prev ?h 0 (ys @ zs) 0" using D(3) 3 a(3) by (simp add: fun_upd_twist)
    then have "kids_ok (s\<lparr>vnodes := ?h\<rparr>) p (ys @ zs)"
      using 3 n a D(2,3,5) by (intro kids_okI [where n = "n\<lparr>v_last := a\<rparr>"]) auto
    moreover have "same_nodes s (s\<lparr>vnodes := ?h\<rparr>) ({p} \<union> set (ys @ zs))"
      using n a 3 by (intro same_nodesI) (auto simp: node_data_def)
    ultimately show ?thesis by blast
  next
    case 4
    obtain na nb where a: "vnodes s a = Some na" "a \<noteq> 0" "a \<noteq> p" "a \<noteq> c" "v_parent na = p"
      and b: "vnodes s b = Some nb" "b \<noteq> 0" "b \<noteq> p" "b \<noteq> c" "b \<noteq> a" "v_parent nb = p"
      using D(2,3,4) D(5) [of a] D(5) [of b] 4 by auto
    let ?h = "(vnodes s)(a \<mapsto> na\<lparr>v_next := b\<rparr>, b \<mapsto> nb\<lparr>v_prev := a\<rparr>)"
    have "namei_remove_child c s = Ret () (s\<lparr>vnodes := ?h\<rparr>)"
      using 4 c n a b by (simp add: namei_remove_child_def node_simps)
    moreover have "dll v_next v_prev ?h 0 (us @ a # b # vs) 0"
      using D(1,2) 4 a b by (intro vn.remove_mid [where x = c]) auto
    then have "kids_ok (s\<lparr>vnodes := ?h\<rparr>) p (ys @ zs)"
      using 4 n a b D(2,3,5) by (intro kids_okI [where n = n]) auto
    moreover have "same_nodes s (s\<lparr>vnodes := ?h\<rparr>) ({p} \<union> set (ys @ zs))"
      using n a b 4 by (intro same_nodesI) (auto simp: node_data_def)
    ultimately show ?thesis by blast
  qed
qed

section \<open>Lookup along a path\<close>

definition name_of :: "'a vfs_scheme \<Rightarrow> ptr \<Rightarrow> u8 list" where
  "name_of s x = cstr (v_name (the (vnodes s x)))"

text \<open>
  \<open>tree_ok s T kids\<close>: the nodes \<open>T\<close> form a tree whose branching is \<open>kids\<close>, and every name in it is
  terminated inside its array.
\<close>

definition tree_ok :: "'a vfs_scheme \<Rightarrow> ptr set \<Rightarrow> (ptr \<Rightarrow> ptr list) \<Rightarrow> bool" where
  "tree_ok s T kids \<longleftrightarrow>
     (\<forall>p \<in> T. kids_ok s p (kids p) \<and> set (kids p) \<subseteq> T \<and> 0 \<in> set (v_name (the (vnodes s p))))"

definition child_of :: "'a vfs_scheme \<Rightarrow> (ptr \<Rightarrow> ptr list) \<Rightarrow> ptr \<Rightarrow> u8 list \<Rightarrow> ptr option" where
  "child_of s kids p n = find (\<lambda>x. name_of s x = n) (kids p)"

fun path_lookup :: "'a vfs_scheme \<Rightarrow> (ptr \<Rightarrow> ptr list) \<Rightarrow> ptr \<Rightarrow> u8 list list \<Rightarrow> ptr option" where
  "path_lookup s kids p [] = Some p"
| "path_lookup s kids p (n # ns) =
     (case child_of s kids p n of None \<Rightarrow> None | Some c \<Rightarrow> path_lookup s kids c ns)"

text \<open>What the kernel's lookup promises: the node, and the directory that holds or would hold it.\<close>

definition resolve :: "'a vfs_scheme \<Rightarrow> (ptr \<Rightarrow> ptr list) \<Rightarrow> ptr \<Rightarrow> u8 list list \<Rightarrow> ptr \<times> ptr" where
  "resolve s kids p ns =
     (case path_lookup s kids p (butlast ns) of
        None \<Rightarrow> (NULL, NULL)
      | Some d \<Rightarrow> (case child_of s kids d (last ns) of None \<Rightarrow> (NULL, d) | Some c \<Rightarrow> (c, d)))"

definition component :: "u8 list \<Rightarrow> bool" where
  "component n \<longleftrightarrow> n \<noteq> [] \<and> SLASH \<notin> set n \<and> 0 \<notin> set n \<and> length n < MAX_FILENAME"

definition path_of :: "u8 list list \<Rightarrow> u8 list" where
  "path_of ns = concat (map ((#) SLASH) ns)"

lemma find_child_ok:
  assumes ok: "tree_ok s T kids" and p: "p \<in> T" and f: "0 \<in> set fname"
  shows "find_child p fname s = Ret (case child_of s kids p (cstr fname) of None \<Rightarrow> 0 | Some c \<Rightarrow> c) s"
proof -
  have k: "kids_ok s p (kids p)" "set (kids p) \<subseteq> T" using ok p by (auto simp: tree_ok_def)
  note D = kids_okD [OF k(1)]
  obtain n where n: "vnodes s p = Some n" "v_first n = first_of 0 (kids p)" by (rule kids_ok_parent [OF k(1)])
  have b: "child_scan fname x s = Ret (if name_of s x = cstr fname then Inl x else Inr (v_next nx)) s"
    if "x \<in> set (kids p)" "vnodes s x = Some nx" for x nx
  proof -
    have "0 \<in> set (v_name (the (vnodes s x)))" using ok k(2) that(1) by (auto simp: tree_ok_def)
    then have "0 \<in> set (v_name nx)" using that(2) by simp
    then show ?thesis
      using strcmp_zero [OF _ f, of "v_name nx"] that D(4)
      by (auto simp: child_scan_def load_Some in_bounds_def name_of_def)
  qed
  have e: "child_scan fname 0 s = Ret (Inl 0) s" by (simp add: child_scan_def)
  have "chase {} (child_scan fname) (first_of 0 (kids p)) s =
      Ret (case find (\<lambda>x. name_of s x = cstr fname) (kids p) of None \<Rightarrow> 0 | Some c \<Rightarrow> c) s"
    by (rule chase_list [OF D(1,2)]) (simp_all only: b e, simp_all)
  then show ?thesis using n by (simp add: find_child_def load_Some child_of_def)
qed

lemma component_loop_ok:
  assumes "path = A @ n @ d # rest" and "SLASH \<notin> set n" and "0 \<notin> set n" and "d = SLASH \<or> d = 0"
    and "length A + length n < path_len" and "k + length n < MAX_FILENAME" and "length buff = MAX_FILENAME"
  shows "\<exists>buff'. component_loop path path_len (length A) k buff = Some (Inr (length A + length n + 1), buff') \<and>
    length buff' = MAX_FILENAME \<and> take (k + length n) buff' = take k buff @ n \<and> buff' ! (k + length n) = 0"
  using assms
proof (induction n arbitrary: A k buff)
  case Nil
  then show ?case by (subst component_loop.simps) (auto simp: nth_append)
next
  case (Cons c n)
  have r: "component_loop path path_len (length A) k buff =
      component_loop path path_len (length (A @ [c])) (k + 1) (buff[k := c])"
    using Cons.prems by (subst component_loop.simps) (auto simp: nth_append)
  have "\<exists>buff'. component_loop path path_len (length (A @ [c])) (k + 1) (buff[k := c]) =
      Some (Inr (length (A @ [c]) + length n + 1), buff') \<and>
    length buff' = MAX_FILENAME \<and> take (k + 1 + length n) buff' = take (k + 1) (buff[k := c]) @ n \<and> buff' ! (k + 1 + length n) = 0"
    using Cons.prems by (intro Cons.IH) auto
  moreover have "take (k + 1) (buff[k := c]) = take k buff @ [c]"
    using Cons.prems by (simp add: take_Suc_conv_app_nth)
  ultimately show ?case unfolding r by auto
qed

lemma deconcatenate:
  assumes "path = A @ n @ path_of ns @ 0 # rest" and "component n" and "\<forall>m \<in> set ns. component m" and "A \<noteq> []"
    and "path_len = length A + length n + length (path_of ns) + 1" and "length buff = MAX_FILENAME"
  shows "\<exists>buff'. path_deconcatenator path path_len (length A) buff =
      Some (if ns = [] then 0 else length A + length n + 1, buff') \<and>
    length buff' = MAX_FILENAME \<and> cstr buff' = n \<and> 0 \<in> set buff' \<and> buff' ! 0 \<noteq> 0"
proof -
  obtain d rest' where d: "path_of ns @ 0 # rest = d # rest'" "d = SLASH \<or> d = 0"
    by (cases ns) (auto simp: path_of_def)
  obtain b where b: "component_loop path path_len (length A) 0 buff = Some (Inr (length A + length n + 1), b)"
    "length b = MAX_FILENAME" "take (length n) b = n" "b ! length n = 0"
    using component_loop_ok [of path A n d rest' path_len 0 buff] assms d by (auto simp: component_def)
  have "cstr b = n" using cstr_take [of "length n" b] b assms(2) by (simp add: component_def)
  moreover have "0 \<in> set b" using b nth_mem [of "length n" b] assms(2) by (simp add: component_def)
  moreover have "b ! 0 \<noteq> 0"
    using assms(2) b(3) by (cases n; cases b) (auto simp: component_def)
  moreover have "path_deconcatenator path path_len (length A) buff =
      Some (if ns = [] then 0 else length A + length n + 1, b)"
  proof (cases ns)
    case Nil
    then show ?thesis using assms b by (simp add: path_deconcatenator_def path_of_def nth_append)
  next
    case (Cons m ms)
    then have "m \<noteq> []" "0 \<notin> set m" using assms(3) by (auto simp: component_def)
    then obtain e m' where m: "m = e # m'" "e \<noteq> 0" by (cases m) auto
    show ?thesis using assms b Cons m by (simp add: path_deconcatenator_def path_of_def nth_append)
  qed
  ultimately show ?thesis using b(2) by blast
qed

lemma resolve_Cons:
  "resolve s kids p [n] = (case child_of s kids p n of None \<Rightarrow> (NULL, p) | Some c \<Rightarrow> (c, p))"
  "resolve s kids p (n # m # ns) =
     (case child_of s kids p n of None \<Rightarrow> (NULL, NULL) | Some c \<Rightarrow> resolve s kids c (m # ns))"
  by (simp_all add: resolve_def split: option.split)

lemma child_of_in: "tree_ok s T kids \<Longrightarrow> p \<in> T \<Longrightarrow> child_of s kids p n = Some c \<Longrightarrow> c \<in> T \<and> c \<noteq> 0"
proof -
  assume a: "tree_ok s T kids" "p \<in> T" "child_of s kids p n = Some c"
  have "c \<in> set (kids p)" using a(3) by (auto simp: child_of_def dest: find_split)
  moreover have "kids_ok s p (kids p)" "set (kids p) \<subseteq> T" using a(1,2) by (auto simp: tree_ok_def)
  ultimately show ?thesis using kids_okD(4) by auto
qed

lemma namei_walk_ok:
  assumes "tree_ok s T kids" and "p \<in> T" and "path = A @ n @ path_of ns @ 0 # rest"
    and "component n" and "\<forall>m \<in> set ns. component m" and "A \<noteq> []"
    and "path_len = length A + length n + length (path_of ns) + 1"
    and "cstr fname = n" and "0 \<in> set fname" and "fname ! 0 \<noteq> 0" and "length fname = MAX_FILENAME"
    and "length ns < fuel"
  shows "namei_walk fuel path path_len (if ns = [] then 0 else length A + length n + 1) fname p s =
    Ret (resolve s kids p (n # ns)) s"
  using assms
proof (induction ns arbitrary: A n fname p fuel)
  case Nil
  obtain f where "fuel = Suc f" using Nil.prems(12) by (cases fuel) auto
  then show ?case
    using Nil.prems find_child_ok [OF Nil.prems(1,2,9)] child_of_in [OF Nil.prems(1,2)]
    by (cases "child_of s kids p n") (simp_all add: resolve_Cons)
next
  case (Cons m ns)
  obtain f where f: "fuel = Suc f" using Cons.prems(12) by (cases fuel) auto
  have find: "find_child p fname s = Ret (case child_of s kids p n of None \<Rightarrow> 0 | Some c \<Rightarrow> c) s"
    using find_child_ok [OF Cons.prems(1,2,9)] Cons.prems(8) by simp
  show ?case
  proof (cases "child_of s kids p n")
    case None
    then show ?thesis using f find Cons.prems(10) by (simp add: resolve_Cons)
  next
    case (Some c)
    have c: "c \<in> T" "c \<noteq> 0" using child_of_in [OF Cons.prems(1,2) Some] by auto
    let ?A = "A @ n @ [SLASH]"
    have path: "path = ?A @ m @ path_of ns @ 0 # rest" using Cons.prems(3) by (simp add: path_of_def)
    have pl: "path_len = length ?A + length m + length (path_of ns) + 1" using Cons.prems(7) by (simp add: path_of_def)
    have cm: "component m" "\<forall>m \<in> set ns. component m" "?A \<noteq> []" using Cons.prems(5) by auto
    obtain b where b: "path_deconcatenator path path_len (length ?A) fname =
        Some (if ns = [] then 0 else length ?A + length m + 1, b)"
      "length b = MAX_FILENAME" "cstr b = m" "0 \<in> set b" "b ! 0 \<noteq> 0"
      using deconcatenate [OF path cm pl Cons.prems(11)] by (elim exE conjE) (rule that)
    have "namei_walk f path path_len (if ns = [] then 0 else length ?A + length m + 1) b c s =
        Ret (resolve s kids c (m # ns)) s"
      using Cons.prems(12) f by (intro Cons.IH [OF Cons.prems(1) c(1) path cm pl b(3,4,5,2)]) auto
    moreover have "length ?A = length A + length n + 1" by simp
    ultimately show ?thesis
      using f find Some c(2) Cons.prems(10) b(1) by (simp add: resolve_Cons in_bounds_def)
  qed
qed

lemma path_of_nonzero: "\<forall>m \<in> set ns. component m \<Longrightarrow> 0 \<notin> set (path_of ns)"
  by (auto simp: path_of_def component_def)

lemma path_to_vfs_node_run:
  assumes "path = SLASH # q" and "strlen path = Some n"
    and "path_deconcatenator path (n + 1) 1 (replicate MAX_FILENAME 0) = Some (i, b)"
    and "(if root = NULL then tree_root s else root) = r" and "r \<noteq> 0"
    and "namei_walk (n + 2) path (n + 1) i b r s = Ret (x, y) s"
  shows "namei_path_to_vfs_node root path s = Ret (x, Some y) s"
proof -
  have "namei_path_to_vfs_node root path s =
    bindR (in_bounds (strlen path) s) (\<lambda>n s.
      bindR (in_bounds (path_deconcatenator path (n + 1) 1 (replicate MAX_FILENAME 0)) s) (\<lambda>(prev_idx, fname) s.
      let tmp = (if root = NULL then tree_root s else root) in
      if tmp = NULL then Ret (NULL, None) s
      else bindR (namei_walk (n + 2) path (n + 1) prev_idx fname tmp s) (\<lambda>(tmp, parent) s. Ret (tmp, Some parent) s)))"
    unfolding namei_path_to_vfs_node_def assms(1) by (simp only: list.case simp_thms if_False)
  then show ?thesis using assms(2-6) by (simp add: in_bounds_def Let_def del: namei_walk.simps)
qed

lemma path_to_vfs_node_ok:
  assumes ok: "tree_ok s T kids" and root: "root \<in> T \<or> root = NULL \<and> tree_root s \<in> T" and nz: "NULL \<notin> T"
    and ns: "ns \<noteq> []" "\<forall>n \<in> set ns. component n"
  shows "namei_path_to_vfs_node root (path_of ns @ 0 # rest) s =
    (let (node, dir) = resolve s kids (if root = NULL then tree_root s else root) ns in Ret (node, Some dir) s)"
proof -
  obtain n ms where c: "ns = n # ms" using ns(1) by (cases ns) auto
  let ?path = "path_of ns @ 0 # rest" and ?r = "if root = NULL then tree_root s else root"
  have r: "?r \<in> T" "?r \<noteq> 0" using root nz by auto
  have path: "?path = [SLASH] @ n @ path_of ms @ 0 # rest" using c by (simp add: path_of_def)
  have cm: "component n" "\<forall>m \<in> set ms. component m" using ns(2) c by auto
  have cs: "cstr ?path = path_of ns" using cstr_append_zero [OF path_of_nonzero [OF ns(2)]] .
  have sl: "strlen ?path = Some (length (path_of ns))" by (simp add: strlen_conv cs)
  have pl: "length (path_of ns) + 1 = length [SLASH] + length n + length (path_of ms) + 1"
    using c by (simp add: path_of_def)
  obtain b where b: "path_deconcatenator ?path (length (path_of ns) + 1) 1 (replicate MAX_FILENAME 0) =
      Some (if ms = [] then 0 else length n + 2, b)"
    "length b = MAX_FILENAME" "cstr b = n" "0 \<in> set b" "b ! 0 \<noteq> 0"
    using deconcatenate [OF path cm _ pl, of "replicate MAX_FILENAME 0"] by auto
  have len: "length ms < length (path_of ns) + 2"
    unfolding c path_of_def by (induction ms) auto
  have "namei_walk (length (path_of ns) + 2) ?path (length (path_of ns) + 1) (if ms = [] then 0 else length [SLASH] + length n + 1) b ?r s =
      Ret (resolve s kids ?r (n # ms)) s"
    by (rule namei_walk_ok [OF ok r(1) path cm _ pl b(3,4,5,2) len]) simp
  then have walk: "namei_walk (length (path_of ns) + 2) ?path (length (path_of ns) + 1) (if ms = [] then 0 else length n + 2) b ?r s =
      Ret (fst (resolve s kids ?r ns), snd (resolve s kids ?r ns)) s"
    using c by (cases "ms = []") (simp_all only: if_True if_False prod.collapse list.size add_0 add.assoc numeral_2_eq_2 One_nat_def add_Suc_right add_Suc simp_thms)
  have q: "?path = SLASH # tl ?path" using path by simp
  show ?thesis using path_to_vfs_node_run [OF q sl b(1) refl r(2) walk] by (simp add: case_prod_beta)
qed

text \<open>
  C15: Lookup of an absolute path with components of one to 127 bytes walks the file tree component by
  component: it returns the named node, or NULL, and stores the directory that holds (or would hold)
  the last component, or NULL when an earlier component is missing. Nothing in the state changes.
\<close>

theorem namei_lookup_correct:
  assumes "tree_ok s T kids" and "NULL \<notin> T" and "tree_root s \<in> T" and "ns \<noteq> []" and "\<forall>n \<in> set ns. component n"
  shows "namei_path_to_vfs_node NULL (path_of ns @ 0 # rest) s =
    (case path_lookup s kids (tree_root s) (butlast ns) of
       None \<Rightarrow> Ret (NULL, Some NULL) s
     | Some dir \<Rightarrow> Ret (case path_lookup s kids (tree_root s) ns of None \<Rightarrow> NULL | Some node \<Rightarrow> node, Some dir) s)"
proof -
  have "path_lookup s kids p (xs @ [x]) =
    (case path_lookup s kids p xs of None \<Rightarrow> None | Some d \<Rightarrow> child_of s kids d x)" for p xs x
    by (induction xs arbitrary: p) (auto split: option.split)
  from this [of "tree_root s" "butlast ns" "last ns"]
  have l: "path_lookup s kids (tree_root s) ns =
    (case path_lookup s kids (tree_root s) (butlast ns) of None \<Rightarrow> None | Some d \<Rightarrow> child_of s kids d (last ns))"
    using assms(4) by simp
  show ?thesis
    using path_to_vfs_node_ok [of s T kids NULL ns rest] assms
    by (simp add: l resolve_def split: option.splits)
qed

text \<open>
  C16: Appending a child and removing one keep the children of a directory a well-formed list that
  differs by exactly this node; no node changes its name, type, size, operations or contents, and
  nodes outside the directory do not change at all.
\<close>

theorem children_correct:
  assumes "kids_ok s p xs"
  shows "(\<forall>c. vnodes s c \<noteq> None \<and> c \<noteq> NULL \<and> c \<noteq> p \<and> c \<notin> set xs \<longrightarrow>
      (\<exists>s'. namei_add_child p c s = Ret () s' \<and> kids_ok s' p (xs @ [c]) \<and> same_nodes s s' ({p, c} \<union> set xs))) \<and>
    (\<forall>c \<in> set xs. \<exists>s'. namei_remove_child c s = Ret () s' \<and> kids_ok s' p (remove1 c xs) \<and> same_nodes s s' ({p} \<union> set xs))"
proof (intro conjI allI ballI impI)
  fix c assume "vnodes s c \<noteq> None \<and> c \<noteq> NULL \<and> c \<noteq> p \<and> c \<notin> set xs"
  then show "\<exists>s'. namei_add_child p c s = Ret () s' \<and> kids_ok s' p (xs @ [c]) \<and> same_nodes s s' ({p, c} \<union> set xs)"
    using add_child_ok [OF assms] by blast
next
  fix c assume "c \<in> set xs"
  then obtain ys zs where xs: "xs = ys @ c # zs" by (auto dest: split_list)
  moreover have "remove1 c xs = ys @ zs" using kids_okD(2) [OF assms] xs by (simp add: remove1_append)
  moreover have "X \<subseteq> Y \<Longrightarrow> same_nodes s s' X \<Longrightarrow> same_nodes s s' Y" for s' :: "'a vfs_scheme" and X Y
    unfolding same_nodes_def by blast
  from this [of "{p} \<union> set (ys @ zs)" "{p} \<union> set xs"]
  have "same_nodes s s' ({p} \<union> set (ys @ zs)) \<Longrightarrow> same_nodes s s' ({p} \<union> set xs)" for s' :: "'a vfs_scheme"
    using xs by auto
  ultimately show "\<exists>s'. namei_remove_child c s = Ret () s' \<and> kids_ok s' p (remove1 c xs) \<and> same_nodes s s' ({p} \<union> set xs)"
    using remove_child_ok [of s p ys c zs] assms by metis
qed

lemma component_loop_fill:
  assumes "path = A @ m @ rest" and "SLASH \<notin> set m" and "0 \<notin> set m" and "length A + length m \<le> path_len"
    and "k + length m \<le> MAX_FILENAME" and "length buff = MAX_FILENAME"
  shows "component_loop path path_len (length A) k buff =
    component_loop path path_len (length A + length m) (k + length m) (take k buff @ m @ drop (k + length m) buff)"
  using assms
proof (induction m arbitrary: A k buff)
  case (Cons c m)
  have "component_loop path path_len (length A) k buff =
      component_loop path path_len (length (A @ [c])) (k + 1) (buff[k := c])"
    using Cons.prems by (subst component_loop.simps) (auto simp: nth_append)
  also have "\<dots> = component_loop path path_len (length (A @ [c]) + length m) (k + 1 + length m)
      (take (k + 1) (buff[k := c]) @ m @ drop (k + 1 + length m) (buff[k := c]))"
    using Cons.prems by (intro Cons.IH) auto
  also have "take (k + 1) (buff[k := c]) = take k buff @ [c]"
    using Cons.prems by (simp add: take_Suc_conv_app_nth)
  finally show ?case by simp
qed simp

text \<open>
  The component buffer of the lookup has 128 bytes. A component of exactly 128 bytes writes its
  terminator behind the end of the buffer; a longer one is cut to 127 bytes and treated as the last
  component of the path, whatever follows.
\<close>

theorem path_component_bounds:
  assumes "path = A @ n @ rest" and "SLASH \<notin> set n" and "0 \<notin> set n" and "length A + length n < path_len"
    and "length buff = MAX_FILENAME"
  shows "(length n = MAX_FILENAME \<and> rest \<noteq> [] \<and> hd rest \<in> {SLASH, 0} \<longrightarrow>
      path_deconcatenator path path_len (length A) buff = None) \<and>
    (MAX_FILENAME < length n \<longrightarrow>
      (\<exists>b. path_deconcatenator path path_len (length A) buff = Some (0, b) \<and> cstr b = take (MAX_FILENAME - 1) n))"
proof (intro conjI impI)
  assume n: "length n = MAX_FILENAME \<and> rest \<noteq> [] \<and> hd rest \<in> {SLASH, 0}"
  then obtain d r where r: "rest = d # r" "d = SLASH \<or> d = 0" by (cases rest) auto
  have "component_loop path path_len (length A) 0 buff =
      component_loop path path_len (length A + MAX_FILENAME) MAX_FILENAME n"
    using component_loop_fill [OF assms(1-3), of path_len 0 buff] assms(4,5) n by simp
  moreover have "path ! (length A + MAX_FILENAME) = d" "length A + MAX_FILENAME < length path"
    using assms(1) n r by (simp_all add: nth_append)
  then have "component_loop path path_len (length A + MAX_FILENAME) MAX_FILENAME n = None"
    using assms(4) n r(2) by (subst component_loop.simps) auto
  ultimately show "path_deconcatenator path path_len (length A) buff = None"
    by (simp add: path_deconcatenator_def)
next
  assume n: "MAX_FILENAME < length n"
  let ?m = "take MAX_FILENAME n" and ?c = "n ! MAX_FILENAME"
  have sp: "path = A @ ?m @ (drop MAX_FILENAME n @ rest)" using assms(1) by simp
  have nz: "SLASH \<notin> set ?m" "0 \<notin> set ?m" using assms(2,3) by (auto dest: in_set_takeD)
  have "component_loop path path_len (length A) 0 buff =
      component_loop path path_len (length A + MAX_FILENAME) MAX_FILENAME ?m"
    using component_loop_fill [OF sp nz, of path_len 0 buff] assms(4,5) n by simp
  moreover have "path ! (length A + MAX_FILENAME) = ?c" "length A + MAX_FILENAME < length path" "?c \<noteq> SLASH" "?c \<noteq> 0"
    using assms(1,2,3) n nth_mem [OF n] by (auto simp: nth_append simp del: nth_mem)
  then have "component_loop path path_len (length A + MAX_FILENAME) MAX_FILENAME ?m = Some (Inl (), ?m[127 := 0])"
    using assms(4) n by (subst component_loop.simps) simp
  ultimately have "path_deconcatenator path path_len (length A) buff = Some (0, ?m[127 := 0])"
    by (simp add: path_deconcatenator_def)
  moreover have "take 127 (?m[127 := 0]) = take 127 n" "(?m[127 := 0]) ! 127 = 0" using n by simp_all
  then have "cstr (?m[127 := 0]) = take 127 n"
    using cstr_take [of 127 "?m[127 := 0]"] n nz(2) assms(3) by (auto dest: in_set_takeD)
  ultimately show "\<exists>b. path_deconcatenator path path_len (length A) buff = Some (0, b) \<and> cstr b = take (MAX_FILENAME - 1) n"
    by simp
qed

section \<open>A concrete tree\<close>

definition demo_name :: "u8 list \<Rightarrow> u8 list" where
  "demo_name n = n @ replicate (MAX_FILENAME - length n) 0"

definition vfs_demo :: vfs where
  "vfs_demo = vmm.extend vmm_demo
     \<lparr>vnodes = [0xc0102000 \<mapsto> zero_node\<lparr>v_name := demo_name [SLASH], v_type := VFS_DIR, v_first := 0xc0102100, v_last := 0xc0102200\<rparr>,
        0xc0102100 \<mapsto> zero_node\<lparr>v_name := demo_name [0x62], v_type := VFS_DIR, v_parent := 0xc0102000, v_next := 0xc0102200\<rparr>,
        0xc0102200 \<mapsto> zero_node\<lparr>v_name := demo_name [0x64], v_type := VFS_DIR, v_parent := 0xc0102000, v_prev := 0xc0102100,
          v_first := 0xc0102300, v_last := 0xc0102300\<rparr>,
        0xc0102300 \<mapsto> zero_node\<lparr>v_name := demo_name [0x7a], v_type := VFS_CHRDEV, v_parent := 0xc0102200\<rparr>,
        0xc0102400 \<mapsto> zero_node\<lparr>v_name := demo_name [0x78]\<rparr>],
      tree_root = 0xc0102000, ramfs_inodes = Map.empty, tar_inodes = Map.empty, devdir = 0xc0102200, dev_zero = 0xc0102300,
      dev_stdin = 0, dev_stdout = 0, fds = Map.empty, first_fd = 0\<rparr>"

definition demo_kids :: "ptr \<Rightarrow> ptr list" where
  "demo_kids p = (if p = 0xc0102000 then [0xc0102100, 0xc0102200] else if p = 0xc0102200 then [0xc0102300] else [])"

lemmas vfs_demo_simps = vfs_demo_def vmm.extend_def demo_kids_def demo_name_def zero_node_def

lemma tree_demo: "tree_ok vfs_demo {0xc0102000, 0xc0102100, 0xc0102200, 0xc0102300} demo_kids"
  by (simp add: tree_ok_def kids_ok_def dlist_def vfs_demo_simps)

lemma cstr_zeros: "cstr (replicate n 0) = []"
  by (cases n) auto

lemma demo_names:
  "name_of vfs_demo 0xc0102100 = [0x62]" "name_of vfs_demo 0xc0102200 = [0x64]" "name_of vfs_demo 0xc0102300 = [0x7a]"
  by (simp_all add: name_of_def vfs_demo_simps cstr_zeros)

text \<open>The lookup of \<^verbatim>\<open>/d/z\<close>.\<close>

theorem namei_lookup_correct_witness:
  "namei_path_to_vfs_node NULL (path_of [[0x64], [0x7a]] @ 0 # []) vfs_demo = Ret (0xc0102300, Some 0xc0102200) vfs_demo"
proof -
  have "tree_root vfs_demo = 0xc0102000" by (simp add: vfs_demo_simps)
  then show ?thesis
    using namei_lookup_correct [OF tree_demo, of "[[0x64], [0x7a]]" "[]"]
    by (simp add: component_def child_of_def demo_kids_def demo_names)
qed

theorem children_correct_witness:
  "\<exists>s'. namei_add_child 0xc0102200 0xc0102400 vfs_demo = Ret () s' \<and> kids_ok s' 0xc0102200 [0xc0102300, 0xc0102400]"
proof -
  have "kids_ok vfs_demo 0xc0102200 [0xc0102300]" by (simp add: kids_ok_def dlist_def vfs_demo_simps)
  moreover have "vnodes vfs_demo 0xc0102400 \<noteq> None" by (simp add: vfs_demo_simps)
  ultimately show ?thesis
    using children_correct [of vfs_demo "0xc0102200" "[0xc0102300]"] by fastforce
qed

theorem path_component_bounds_witness:
  "path_deconcatenator ([SLASH] @ replicate 128 0x61 @ [0]) 130 (length [SLASH]) (replicate 128 0) = None"
  using path_component_bounds [of "[SLASH] @ replicate 128 0x61 @ [0]" "[SLASH]" "replicate 128 0x61" "[0]" 130 "replicate 128 0"]
  by simp

end
