(* ===== verification/Filesystems.thy ===== *)
theory Filesystems
  imports Vfs
begin

text \<open>
  The file systems of the kernel: \<^verbatim>\<open>ramfs.c\<close> (files of one page frame), \<^verbatim>\<open>tarfs.c\<close> (the initial ramdisk,
  a tar archive in memory), the nodes of the pseudo devices and \<^verbatim>\<open>devfs.c\<close>, and the dispatchers of
  \<^verbatim>\<open>vfs.c\<close> that need no scheduler: open, close, touch, remove, mkdir, rmdir and readdir.
\<close>

abbreviation (input) EIO :: u32 where "EIO \<equiv> 5"
abbreviation (input) EBADF :: u32 where "EBADF \<equiv> 9"
abbreviation (input) EACCES :: u32 where "EACCES \<equiv> 13"

section \<open>Copying file contents\<close>

text \<open>
  The loop \<^verbatim>\<open>while (n < size && node->size - offset - n > 0) dst[n] = src[n++]\<close> of \<^verbatim>\<open>ramfs_read\<close>,
  \<^verbatim>\<open>ramfs_write\<close> and \<^verbatim>\<open>tarfs_read\<close>. The subtraction is unsigned, so the second test fails only when
  the difference is exactly zero; \<open>avail\<close> is \<^verbatim>\<open>node->size - offset\<close>.
\<close>

function copy_loop :: "ptr \<Rightarrow> ptr \<Rightarrow> u32 \<Rightarrow> u32 \<Rightarrow> u32 \<Rightarrow> 'a vmm_scheme \<Rightarrow> (u32, 'a vmm_scheme) res" where
  "copy_loop dst src sz avail n s =
     (if n < sz \<and> avail - n > 0 then
        bindR (kld8 (src + n) s) (\<lambda>c s.
        bindR (kst8 (dst + n) c s) (\<lambda>_ s.
        copy_loop dst src sz avail (n + 1) s))
      else Ret n s)"
  by pat_completeness auto
termination
  by (relation "measure (\<lambda>(_, _, sz, _, n, _). unat sz - unat n)") (auto simp: unat_Suc_less word_less_nat_alt)

declare copy_loop.simps [simp del]

section \<open>ramfs\<close>

definition ramfs_open :: "ptr \<Rightarrow> u32 \<Rightarrow> 'a vfs_scheme \<Rightarrow> (int, 'a vfs_scheme) res" where
  "ramfs_open node mode s = Ret 0 s"

definition ramfs_close :: "ptr \<Rightarrow> 'a vfs_scheme \<Rightarrow> (int, 'a vfs_scheme) res" where
  "ramfs_close node s = Ret 0 s"

definition ramfs_read :: "ptr \<Rightarrow> u32 \<Rightarrow> u32 \<Rightarrow> ptr \<Rightarrow> 'a vfs_scheme \<Rightarrow> (int, 'a vfs_scheme) res" where
  "ramfs_read node offset sz buffer s =
     bindR (get_node node s) (\<lambda>n s.
     bindR (vmalloc 4096 ON_DEMAND s) (\<lambda>src s.
     bindR (load ramfs_inodes (v_data n) s) (\<lambda>paddr s.
     bindR (pg_map paddr src PG_KERN_PAGE_RO_FLAG s) (\<lambda>_ s.
     bindR (copy_loop buffer (src + offset) sz (v_size n - offset) 0 s) (\<lambda>read_data s.
     bindR (pg_unmap src s) (\<lambda>_ s.
     bindR (vfree src s) (\<lambda>_ s.
     Ret (sint read_data) (if read_data = 0 then set_errno EIO s else s))))))))"

definition ramfs_write :: "ptr \<Rightarrow> u32 \<Rightarrow> ptr \<Rightarrow> u32 \<Rightarrow> 'a vfs_scheme \<Rightarrow> (int, 'a vfs_scheme) res" where
  "ramfs_write node offset buffer sz s =
     bindR (get_node node s) (\<lambda>n s.
     bindR (vmalloc 4096 ON_DEMAND s) (\<lambda>dst s.
     bindR (load ramfs_inodes (v_data n) s) (\<lambda>paddr s.
     bindR (pg_map paddr dst PG_KERN_PAGE_FLAG s) (\<lambda>_ s.
     bindR (copy_loop (dst + offset) buffer sz (v_size n - offset) 0 s) (\<lambda>written_data s.
     bindR (pg_unmap dst s) (\<lambda>_ s.
     bindR (vfree dst s) (\<lambda>_ s.
     Ret (sint written_data) (if written_data = 0 then set_errno EIO s else s))))))))"

definition ramfs_file_ops :: vfs_ops where
  "ramfs_file_ops = no_ops\<lparr>op_open := Some Ramfs_open, op_close := Some Ramfs_close, op_read := Some Ramfs_read,
     op_write := Some Ramfs_write, op_remove := Some Ramfs_remove\<rparr>"

definition ramfs_dir_ops :: vfs_ops where
  "ramfs_dir_ops = no_ops\<lparr>op_open := Some Ramfs_open, op_close := Some Ramfs_close, op_touch := Some Ramfs_touch,
     op_mkdir := Some Ramfs_mkdir, op_rmdir := Some Ramfs_rmdir, op_readdir := Some Ramfs_readdir\<rparr>"

text \<open>The functions that create a node return it next to their result, in place of \<^verbatim>\<open>*node\<close>.\<close>

definition ramfs_touch :: "u8 list \<Rightarrow> 'a vfs_scheme \<Rightarrow> (int \<times> ptr, 'a vfs_scheme) res" where
  "ramfs_touch name s =
     bindR (kmalloc 4 s) (\<lambda>inode s.
     bindR (new_node zero_node s) (\<lambda>vnode s.
     bindR (pmm_get_frame s) (\<lambda>paddr s.
     let s = s\<lparr>ramfs_inodes := (ramfs_inodes s)(inode \<mapsto> paddr)\<rparr> in
     bindR (in_bounds (strncpy (v_name zero_node) name MAX_FILENAME) s) (\<lambda>nm s.
     bindR (set_node vnode (\<lambda>n. n\<lparr>v_name := nm, v_size := 4096, v_type := VFS_FILE, v_op := ramfs_file_ops, v_data := inode\<rparr>) s) (\<lambda>_ s.
     Ret (0, vnode) s)))))"

definition ramfs_remove :: "ptr \<Rightarrow> 'a vfs_scheme \<Rightarrow> (int, 'a vfs_scheme) res" where
  "ramfs_remove node s =
     bindR (get_node node s) (\<lambda>n s.
     bindR (load ramfs_inodes (v_data n) s) (\<lambda>paddr s.
     bindR (kfree (v_data n) ((pmm_free_frame paddr s)\<lparr>ramfs_inodes := (ramfs_inodes s)(v_data n := None)\<rparr>)) (\<lambda>_ s.
     bindR (set_node node (v_data_update (\<lambda>_. NULL)) s) (\<lambda>_ s. Ret 0 s))))"

definition ramfs_mkdir :: "u8 list \<Rightarrow> 'a vfs_scheme \<Rightarrow> (int \<times> ptr, 'a vfs_scheme) res" where
  "ramfs_mkdir name s =
     bindR (new_node zero_node s) (\<lambda>vnode s.
     bindR (in_bounds (strncpy (v_name zero_node) name MAX_FILENAME) s) (\<lambda>nm s.
     bindR (set_node vnode (\<lambda>n. n\<lparr>v_name := nm, v_type := VFS_DIR, v_op := ramfs_dir_ops\<rparr>) s) (\<lambda>_ s.
     Ret (0, vnode) s)))"

definition ramfs_rmdir :: "ptr \<Rightarrow> 'a vfs_scheme \<Rightarrow> (int, 'a vfs_scheme) res" where
  "ramfs_rmdir node s = Ret 0 s"

record dirent =
  d_name :: "u8 list"
  d_ino :: u32

text \<open>
  The loop of \<^verbatim>\<open>ramfs_readdir\<close> and \<^verbatim>\<open>tarfs_readdir\<close>; \<open>no\<close> counts down where the code counts up to it.
  \<open>None\<close> is the result 0 (end of directory), \<open>Some\<close> the entry with the result 1.
\<close>

fun readdir_scan :: "nat \<Rightarrow> ptr \<Rightarrow> 'a vfs_scheme \<Rightarrow> (dirent option, 'a vfs_scheme) res" where
  "readdir_scan no child s =
     (if child = NULL then Ret None s
      else
        bindR (get_node child s) (\<lambda>c s.
        case no of
          0 \<Rightarrow> bindR (in_bounds (strncpy (replicate MAX_FILENAME 0) (v_name c) MAX_FILENAME) s) (\<lambda>nm s.
                 Ret (Some \<lparr>d_name = nm, d_ino = v_ino c\<rparr>) s)
        | Suc m \<Rightarrow> readdir_scan m (v_next c) s))"

declare readdir_scan.simps [simp del]

definition ramfs_readdir :: "ptr \<Rightarrow> u32 \<Rightarrow> 'a vfs_scheme \<Rightarrow> (dirent option, 'a vfs_scheme) res" where
  "ramfs_readdir node no s = bindR (get_node node s) (\<lambda>n s. readdir_scan (unat no) (v_first n) s)"

section \<open>tarfs\<close>

text \<open>The octal size field: the loop runs from the eleventh digit to the first.\<close>

definition get_size :: "u8 list \<Rightarrow> u32" where
  "get_size f = fst (foldl (\<lambda>(sz, count) i. (sz + (scast (f ! (i - 1)) - 48) * count, count * 8)) (0, 1) (rev [1 ..< 12]))"

text \<open>
  The fields of the archive header at address \<open>a\<close>. The ramdisk lies in the range whose bytes are \<open>kmem\<close>.
\<close>

definition kbytes :: "'a vmm_scheme \<Rightarrow> ptr \<Rightarrow> nat \<Rightarrow> u8 list" where
  "kbytes s a n = map (\<lambda>i. kmem s (a + of_nat i)) [0 ..< n]"

definition tar_filename :: "'a vmm_scheme \<Rightarrow> ptr \<Rightarrow> u8 list" where
  "tar_filename s a = kbytes s a 100"

definition tar_size_field :: "'a vmm_scheme \<Rightarrow> ptr \<Rightarrow> u8 list" where
  "tar_size_field s a = kbytes s (a + 124) 12"

definition tar_typeflag :: "'a vmm_scheme \<Rightarrow> ptr \<Rightarrow> u8" where
  "tar_typeflag s a = kmem s (a + 156)"

definition init_vnode :: "ptr \<Rightarrow> u32 \<Rightarrow> 'a vfs_scheme \<Rightarrow> (ptr, 'a vfs_scheme) res" where
  "init_vnode hptr fsize s =
     bindR (new_node zero_node s) (\<lambda>vnode s.
     bindR (kmalloc 8 s) (\<lambda>inode s.
     let s = s\<lparr>tar_inodes := (tar_inodes s)(inode \<mapsto> \<lparr>ti_vaddr = hptr + 512, ti_hdr = hptr\<rparr>)\<rparr> in
     bindR (in_bounds (namei_path_to_filename (tar_filename s hptr) (replicate MAX_FILENAME 0)) s) (\<lambda>filename s.
     bindR (in_bounds (strncpy (v_name zero_node) filename 100) s) (\<lambda>nm s.
     bindR (set_node vnode (\<lambda>n. n\<lparr>v_name := nm, v_size := fsize - 512\<rparr>) s) (\<lambda>_ s.
     let ty = tar_typeflag s hptr in
     bindR (if ty = 0x30 \<or> ty = 0 then
              set_node vnode (\<lambda>n. n\<lparr>v_type := VFS_FILE,
                v_op := no_ops\<lparr>op_open := Some Tarfs_open, op_close := Some Tarfs_close, op_read := Some Tarfs_read\<rparr>\<rparr>) s
            else if ty = 0x35 then
              set_node vnode (\<lambda>n. n\<lparr>v_type := VFS_DIR,
                v_op := no_ops\<lparr>op_open := Some Tarfs_open, op_close := Some Tarfs_close, op_readdir := Some Tarfs_readdir\<rparr>\<rparr>) s
            else Panic '''') (\<lambda>_ s.
     bindR (set_node vnode (v_data_update (\<lambda>_. inode)) s) (\<lambda>_ s. Ret vnode s)))))))"

text \<open>
  The loop of \<^verbatim>\<open>tarfs_init\<close>, one header per turn. Headers lie on multiples of 512 bytes from the start,
  so after \<open>2 ^ 23\<close> turns every address has been a header.
\<close>

definition tar_block_size :: "u32 \<Rightarrow> u32" where
  "tar_block_size sz = (if sz mod 512 \<noteq> 0 then sz + 512 else sz)"

fun tarfs_loop :: "nat \<Rightarrow> ptr \<Rightarrow> ptr \<Rightarrow> 'a vfs_scheme \<Rightarrow> (ptr, 'a vfs_scheme) res" where
  "tarfs_loop 0 root hptr s = Timeout"
| "tarfs_loop (Suc fuel) root hptr s =
     (if tar_filename s hptr ! 0 = 0 then Ret root s
      else
        (let sz = tar_block_size (get_size (tar_size_field s hptr)) in
         bindR (init_vnode hptr sz s) (\<lambda>tmp s.
         bindR (namei_path_to_vfs_node root (drop 1 (tar_filename s hptr)) s) (\<lambda>(_, parent) s.
         case parent of
           None \<Rightarrow> Fault NULL
         | Some p \<Rightarrow>
             if p = NULL then Ret NULL s
             else
               bindR (namei_add_child p tmp s) (\<lambda>_ s.
               tarfs_loop fuel root (hptr + (sz div 512 + 1) * 512) s)))))"

definition tarfs_init :: "ptr \<Rightarrow> 'a vfs_scheme \<Rightarrow> (ptr, 'a vfs_scheme) res" where
  "tarfs_init start_of_archive s =
     bindR (new_node zero_node s) (\<lambda>root s.
     bindR (in_bounds (strncpy (v_name zero_node) [SLASH, 0] 2) s) (\<lambda>nm s.
     bindR (set_node root (\<lambda>n. n\<lparr>v_name := nm, v_type := VFS_DIR, v_op := no_ops\<lparr>op_readdir := Some Tarfs_readdir\<rparr>\<rparr>) s) (\<lambda>_ s.
     tarfs_loop (2 ^ 23 + 1) root start_of_archive s)))"

definition tarfs_open :: "ptr \<Rightarrow> u32 \<Rightarrow> 'a vfs_scheme \<Rightarrow> (int, 'a vfs_scheme) res" where
  "tarfs_open node mode s = Ret 0 s"

definition tarfs_close :: "ptr \<Rightarrow> 'a vfs_scheme \<Rightarrow> (int, 'a vfs_scheme) res" where
  "tarfs_close node s = Ret 0 s"

definition tarfs_read :: "ptr \<Rightarrow> u32 \<Rightarrow> u32 \<Rightarrow> ptr \<Rightarrow> 'a vfs_scheme \<Rightarrow> (int, 'a vfs_scheme) res" where
  "tarfs_read node offset sz buffer s =
     bindR (get_node node s) (\<lambda>n s.
     bindR (load tar_inodes (v_data n) s) (\<lambda>inode s.
     bindR (copy_loop buffer (ti_vaddr inode + offset) sz (v_size n - offset) 0 s) (\<lambda>read_data s.
     Ret (sint read_data) (if read_data = 0 then set_errno EIO s else s))))"

definition tarfs_readdir :: "ptr \<Rightarrow> u32 \<Rightarrow> 'a vfs_scheme \<Rightarrow> (dirent option, 'a vfs_scheme) res" where
  "tarfs_readdir node no s = bindR (get_node node s) (\<lambda>n s. readdir_scan (unat no) (v_first n) s)"

section \<open>Dispatchers\<close>

text \<open>\<^verbatim>\<open>dev_zero.c\<close>\<close>

definition zero_open :: "ptr \<Rightarrow> u32 \<Rightarrow> 'a vfs_scheme \<Rightarrow> (int, 'a vfs_scheme) res" where
  "zero_open node mode s = Ret 0 s"

definition zero_close :: "ptr \<Rightarrow> 'a vfs_scheme \<Rightarrow> (int, 'a vfs_scheme) res" where
  "zero_close node s = Ret 0 s"

definition zero_read :: "ptr \<Rightarrow> u32 \<Rightarrow> u32 \<Rightarrow> ptr \<Rightarrow> 'a vfs_scheme \<Rightarrow> (int, 'a vfs_scheme) res" where
  "zero_read node offset sz buffer s =
     bindR (for_each [0 ..< unat sz] (\<lambda>i s. kst8 (buffer + of_nat i) 0 s) s) (\<lambda>_ s. Ret (sint sz) s)"

definition zero_write :: "ptr \<Rightarrow> u32 \<Rightarrow> ptr \<Rightarrow> u32 \<Rightarrow> 'a vfs_scheme \<Rightarrow> (int, 'a vfs_scheme) res" where
  "zero_write node offset buffer sz s = Ret (sint sz) s"

definition vfs_open :: "ptr \<Rightarrow> u32 \<Rightarrow> 'a vfs_scheme \<Rightarrow> (int, 'a vfs_scheme) res" where
  "vfs_open node mode s =
     bindR (get_node node s) (\<lambda>n s.
     bindR (case op_open (v_op n) of
              None \<Rightarrow> Ret (- 1) s
            | Some Ramfs_open \<Rightarrow> ramfs_open node mode s
            | Some Tarfs_open \<Rightarrow> tarfs_open node mode s
            | Some Zero_open \<Rightarrow> zero_open node mode s) (\<lambda>ret s.
     if ret < 0 then Ret ret (set_errno EACCES s)
     else bindR (set_node node (active_fds_update (\<lambda>k. k + 1)) s) (\<lambda>_ s. Ret ret s)))"

definition vfs_close :: "ptr \<Rightarrow> 'a vfs_scheme \<Rightarrow> (int, 'a vfs_scheme) res" where
  "vfs_close node s =
     bindR (get_node node s) (\<lambda>n s.
     bindR (case op_close (v_op n) of
              None \<Rightarrow> Ret (- 1) s
            | Some Ramfs_close \<Rightarrow> ramfs_close node s
            | Some Tarfs_close \<Rightarrow> tarfs_close node s
            | Some Zero_close \<Rightarrow> zero_close node s) (\<lambda>ret s.
     if ret < 0 then Ret ret (set_errno EBADF s)
     else bindR (set_node node (active_fds_update (\<lambda>k. k - 1)) s) (\<lambda>_ s. Ret ret s)))"

definition vfs_touch :: "ptr \<Rightarrow> u8 list \<Rightarrow> 'a vfs_scheme \<Rightarrow> (int \<times> ptr, 'a vfs_scheme) res" where
  "vfs_touch p_node name s =
     bindR (get_node p_node s) (\<lambda>p s.
     bindR (case op_touch (v_op p) of
              None \<Rightarrow> Ret (- 1, NULL) s
            | Some Ramfs_touch \<Rightarrow> ramfs_touch name s) (\<lambda>(ret, node) s.
     bindR (if ret = 0 then namei_add_child p_node node s else Ret () s) (\<lambda>_ s.
     Ret (ret, node) (if ret < 0 then set_errno EACCES s else s))))"

definition vfs_remove :: "ptr \<Rightarrow> 'a vfs_scheme \<Rightarrow> (int, 'a vfs_scheme) res" where
  "vfs_remove node s =
     bindR (get_node node s) (\<lambda>n s.
     bindR (case op_remove (v_op n) of
              None \<Rightarrow> Ret (- 1) s
            | Some Ramfs_remove \<Rightarrow> ramfs_remove node s) (\<lambda>ret s.
     bindR (if ret = 0 then
              bindR (namei_remove_child node s) (\<lambda>_ s. kfree node (s\<lparr>vnodes := (vnodes s)(node := None)\<rparr>))
            else Ret () s) (\<lambda>_ s.
     Ret ret (if ret < 0 then set_errno EACCES s else s))))"

definition vfs_mkdir :: "ptr \<Rightarrow> u8 list \<Rightarrow> 'a vfs_scheme \<Rightarrow> (int \<times> ptr, 'a vfs_scheme) res" where
  "vfs_mkdir p_node name s =
     bindR (get_node p_node s) (\<lambda>p s.
     bindR (case op_mkdir (v_op p) of
              None \<Rightarrow> Ret (- 1, NULL) s
            | Some Ramfs_mkdir \<Rightarrow> ramfs_mkdir name s) (\<lambda>(ret, node) s.
     bindR (if ret = 0 then namei_add_child p_node node s else Ret () s) (\<lambda>_ s.
     Ret (ret, node) (if ret < 0 then set_errno EACCES s else s))))"

definition vfs_rmdir :: "ptr \<Rightarrow> 'a vfs_scheme \<Rightarrow> (int, 'a vfs_scheme) res" where
  "vfs_rmdir node s =
     bindR (get_node node s) (\<lambda>n s.
     bindR (case op_rmdir (v_op n) of
              None \<Rightarrow> Ret (- 1) s
            | Some Ramfs_rmdir \<Rightarrow> ramfs_rmdir node s) (\<lambda>ret s.
     bindR (if ret = 0 then
              bindR (namei_remove_child node s) (\<lambda>_ s. kfree node (s\<lparr>vnodes := (vnodes s)(node := None)\<rparr>))
            else Ret () s) (\<lambda>_ s.
     Ret ret (if ret < 0 then set_errno EACCES s else s))))"

definition vfs_readdir :: "ptr \<Rightarrow> u32 \<Rightarrow> 'a vfs_scheme \<Rightarrow> (int \<times> dirent option, 'a vfs_scheme) res" where
  "vfs_readdir node no s =
     bindR (get_node node s) (\<lambda>n s.
     case op_readdir (v_op n) of
       None \<Rightarrow> Ret (- 1, None) (set_errno EACCES s)
     | Some Ramfs_readdir \<Rightarrow>
         bindR (ramfs_readdir node no s) (\<lambda>d s. Ret (case d of None \<Rightarrow> (0, None) | Some e \<Rightarrow> (1, Some e)) s)
     | Some Tarfs_readdir \<Rightarrow>
         bindR (tarfs_readdir node no s) (\<lambda>d s. Ret (case d of None \<Rightarrow> (0, None) | Some e \<Rightarrow> (1, Some e)) s))"

section \<open>Device nodes and the initial ramdisk\<close>

definition dev_init :: "u8 list \<Rightarrow> nat \<Rightarrow> vfs_ops \<Rightarrow> 'a vfs_scheme \<Rightarrow> (ptr, 'a vfs_scheme) res" where
  "dev_init name n ops s =
     bindR (new_node zero_node s) (\<lambda>vnode s.
     bindR (in_bounds (strncpy (v_name zero_node) name n) s) (\<lambda>nm s.
     bindR (set_node vnode (\<lambda>n. n\<lparr>v_name := nm, v_type := VFS_CHRDEV, v_op := ops\<rparr>) s) (\<lambda>_ s. Ret vnode s)))"

definition dev_zero_init :: "'a vfs_scheme \<Rightarrow> (ptr, 'a vfs_scheme) res" where
  "dev_zero_init s =
     bindR (dev_init [0x7a, 0x65, 0x72, 0x6f, 0] 5 (no_ops\<lparr>op_open := Some Zero_open, op_close := Some Zero_close,
       op_read := Some Zero_read, op_write := Some Zero_write\<rparr>) s) (\<lambda>p s. Ret p (s\<lparr>dev_zero := p\<rparr>))"

definition dev_stdin_init :: "'a vfs_scheme \<Rightarrow> (ptr, 'a vfs_scheme) res" where
  "dev_stdin_init s =
     bindR (dev_init [0x73, 0x74, 0x64, 0x69, 0x6e, 0] 6 (no_ops\<lparr>op_read := Some Stdin_read\<rparr>) s) (\<lambda>p s.
     Ret p (s\<lparr>dev_stdin := p\<rparr>))"

definition dev_stdout_init :: "'a vfs_scheme \<Rightarrow> (ptr, 'a vfs_scheme) res" where
  "dev_stdout_init s =
     bindR (dev_init [0x73, 0x74, 0x64, 0x6f, 0x75, 0x74, 0] 7 (no_ops\<lparr>op_write := Some Stdout_write\<rparr>) s) (\<lambda>p s.
     Ret p (s\<lparr>dev_stdout := p\<rparr>))"

definition init_pseudo_devs :: "'a vfs_scheme \<Rightarrow> (unit, 'a vfs_scheme) res" where
  "init_pseudo_devs s =
     bindR (dev_zero_init s) (\<lambda>p s.
     bindR (namei_add_child (devdir s) p s) (\<lambda>_ s.
     bindR (dev_stdin_init s) (\<lambda>p s.
     bindR (namei_add_child (devdir s) p s) (\<lambda>_ s.
     bindR (dev_stdout_init s) (\<lambda>p s. namei_add_child (devdir s) p s)))))"

definition devfs_init :: "'a vfs_scheme \<Rightarrow> (unit, 'a vfs_scheme) res" where
  "devfs_init s =
     bindR (namei_path_to_vfs_node NULL [SLASH, 0x64, 0x65, 0x76, 0] s) (\<lambda>(dir, parent) s.
     if dir \<noteq> NULL then Panic ''[ERROR] /dev already exist''
     else
       (case parent of
          None \<Rightarrow> Fault NULL
        | Some p \<Rightarrow>
            if p \<noteq> NULL then
              bindR (vfs_mkdir p [0x64, 0x65, 0x76, 0] s) (\<lambda>(ret, dir) s.
              if ret \<noteq> 0 then Panic ''[ERROR] Failed to create directory for devfs''
              else init_pseudo_devs (s\<lparr>devdir := dir\<rparr>))
            else Panic ''[ERROR] Failed to create directory for devfs''))"

definition dev_scan :: "(int \<Rightarrow> bool) \<Rightarrow> u8 list \<Rightarrow> ptr \<Rightarrow> 'a vfs_scheme \<Rightarrow> (ptr + ptr, 'a vfs_scheme) res" where
  "dev_scan stop name tmp s =
     (if tmp = NULL then Ret (Inl NULL) s
      else bindR (get_node tmp s) (\<lambda>t s.
        bindR (in_bounds (strcmp (v_name t) name) s) (\<lambda>c s.
        if stop c then Ret (Inl tmp) s else Ret (Inr (v_next t)) s)))"

definition devfs_add_dev :: "ptr \<Rightarrow> 'a vfs_scheme \<Rightarrow> (int, 'a vfs_scheme) res" where
  "devfs_add_dev dev s =
     bindR (get_node (devdir s) s) (\<lambda>d s.
     bindR (get_node dev s) (\<lambda>n s.
     bindR (chase {} (dev_scan (\<lambda>c. c = 0) (v_name n)) (v_first d) s) (\<lambda>tmp s.
     if tmp \<noteq> NULL then Ret (- 1) s
     else bindR (namei_add_child (devdir s) dev s) (\<lambda>_ s. Ret 0 s))))"

text \<open>The search stops at the first device whose name \<^verbatim>\<open>strcmp\<close> finds different.\<close>

definition devfs_remove_dev :: "u8 list \<Rightarrow> 'a vfs_scheme \<Rightarrow> (ptr, 'a vfs_scheme) res" where
  "devfs_remove_dev name s =
     bindR (get_node (devdir s) s) (\<lambda>d s.
     bindR (chase {} (dev_scan (\<lambda>c. c \<noteq> 0) name) (v_first d) s) (\<lambda>tmp s.
     bindR (if tmp \<noteq> NULL then namei_remove_child tmp s else Ret () s) (\<lambda>_ s. Ret tmp s)))"

definition initrd_load :: "ptr \<Rightarrow> 'a vfs_scheme \<Rightarrow> (unit, 'a vfs_scheme) res" where
  "initrd_load start_of_initrd s =
     bindR (namei_init s) (\<lambda>_ s.
     bindR (tarfs_init start_of_initrd s) (\<lambda>initrd_root s.
     if initrd_root = NULL then Panic ''Unrecognized initrd format or initrd is corrupted!''
     else
       bindR (namei_mount (tree_root s) initrd_root s) (\<lambda>_ s.
       bindR (set_node (tree_root s) (v_op_update (\<lambda>ops. ops\<lparr>op_open := Some Ramfs_open, op_close := Some Ramfs_close,
         op_touch := Some Ramfs_touch, op_remove := Some Ramfs_remove, op_mkdir := Some Ramfs_mkdir,
         op_readdir := Some Ramfs_readdir\<rparr>)) s) (\<lambda>_ s.
       kfree initrd_root (s\<lparr>vnodes := (vnodes s)(initrd_root := None)\<rparr>)))))"

section \<open>Reading a file\<close>

lemma copy_loop_count:
  "copy_loop dst src sz avail n s = Ret k s' \<Longrightarrow> n \<le> sz \<Longrightarrow> n \<le> avail \<Longrightarrow> k = min sz avail"
proof (induction dst src sz avail n s rule: copy_loop.induct)
  case (1 dst src sz avail n s)
  show ?case
  proof (cases "n < sz \<and> avail - n > 0")
    case True
    then have lt: "n < sz" "n < avail" using "1.prems"(3) by (auto simp: order.strict_iff_order)
    then have le: "n + 1 \<le> sz" "n + 1 \<le> avail" by (auto simp: inc_le)
    obtain c s1 s2 where "kld8 (src + n) s = Ret c s1" "kst8 (dst + n) c s1 = Ret () s2"
      "copy_loop dst src sz avail (n + 1) s2 = Ret k s'"
      using "1.prems"(1) True by (subst (asm) copy_loop.simps) (auto simp: bindR_eq_Ret_conv)
    then show ?thesis using "1.IH" True le by blast
  next
    case False
    then have "k = n" using "1.prems"(1) by (subst (asm) copy_loop.simps) (simp split: if_splits)
    moreover have "n = sz \<or> n = avail" using False "1.prems"(2,3) by (auto simp: word_gt_0)
    ultimately show ?thesis using "1.prems"(2,3) by (auto simp: min_def)
  qed
qed

text \<open>
  A read of a ramfs or tarfs file that returns has transferred exactly the smaller of the requested
  size and the distance from the offset to the end of the file, computed modulo \<open>2 ^ 32\<close>: up to the end
  of the file for an offset inside it, and as much as was asked for with an offset behind the end.
\<close>

theorem file_read_count:
  assumes "vnodes s node = Some n"
  shows "(ramfs_read node offset sz buffer s = Ret r s' \<longrightarrow> r = sint (min sz (v_size n - offset))) \<and>
    (tarfs_read node offset sz buffer s = Ret r s' \<longrightarrow> r = sint (min sz (v_size n - offset))) \<and>
    (ramfs_write node offset buffer sz s = Ret r s' \<longrightarrow> r = sint (min sz (v_size n - offset)))"
proof -
  have c: "copy_loop dst src sz (v_size n - offset) 0 t = Ret k t' \<Longrightarrow> k = min sz (v_size n - offset)" for dst src k and t t' :: "'a vfs_scheme"
    by (erule copy_loop_count) (rule word_zero_le)+
  show ?thesis
    using assms by (auto simp: ramfs_read_def tarfs_read_def ramfs_write_def bindR_eq_Ret_conv load_Some dest!: c)
qed

section \<open>The size of an archive member\<close>

lemma octal_digit: "48 \<le> unat c \<Longrightarrow> unat c \<le> 55 \<Longrightarrow> scast c = (of_nat (digit_val c) + 48 :: u32)"
proof -
  assume c: "48 \<le> unat c" "unat c \<le> 55"
  then have "unat c = 48 \<or> unat c = 49 \<or> unat c = 50 \<or> unat c = 51 \<or> unat c = 52 \<or> unat c = 53 \<or> unat c = 54 \<or> unat c = 55"
    by linarith
  then have "c = 48 \<or> c = 49 \<or> c = 50 \<or> c = 51 \<or> c = 52 \<or> c = 53 \<or> c = 54 \<or> c = 55"
    by (simp add: word_unat_eq_iff)
  then show ?thesis by (auto simp: digit_val_def)
qed

text \<open>
  The size field of an archive header is read as an octal number of eleven digits, modulo \<open>2 ^ 32\<close>.
\<close>

theorem get_size_correct:
  assumes "11 \<le> length f" and "\<forall>c \<in> set (take 11 f). 48 \<le> unat c \<and> unat c \<le> 55"
  shows "get_size f = of_nat (denotes 8 (take 11 f))"
proof -
  have "\<exists>a b c d e g h i j k m. l = [a, b, c, d, e, g, h, i, j, k, m]" if "length l = 11" for l :: "u8 list"
    using that by (auto simp: length_Suc_conv eval_nat_numeral)
  then obtain a b c d e g h i j k m where t: "take 11 f = [a, b, c, d, e, g, h, i, j, k, m]"
    using assms(1) by fastforce
  have n: "f ! q = take 11 f ! q" if "q < 11" for q using that by simp
  have "rev [1 ..< 12] = [11, 10, 9, 8, 7, 6, 5, 4, 3, 2, Suc 0]" by (simp add: upt_rec)
  then have "get_size f = fst (foldl (\<lambda>(sz, count) i. (sz + (scast (take 11 f ! (i - 1)) - 48) * count, count * 8)) (0, 1)
      [11, 10, 9, 8, 7, 6, 5, 4, 3, 2, Suc 0])"
    by (simp add: get_size_def)
  also have "\<dots> = of_nat (denotes 8 (take 11 f))"
    using assms(2) unfolding t by (simp add: octal_digit denotes_def)
  finally show ?thesis .
qed

theorem get_size_correct_witness:
  "get_size [0x30, 0x30, 0x30, 0x30, 0x30, 0x30, 0x30, 0x32, 0x30, 0x30, 0x30, 0x20] = 1024"
  using get_size_correct [of "[0x30, 0x30, 0x30, 0x30, 0x30, 0x30, 0x30, 0x32, 0x30, 0x30, 0x30, 0x20]"]
  by (simp add: denotes_def digit_val_def)

text \<open>
  The node of an archive member of \<open>n\<close> bytes gets the size \<open>n\<close> only when \<open>n\<close> is no multiple of 512;
  otherwise it gets \<open>n - 512\<close>, which wraps around for empty members and directories.
\<close>

theorem tar_member_size:
  assumes "init_vnode hptr (tar_block_size n) s = Ret v s'"
  shows "\<exists>nd. vnodes s' v = Some nd \<and> v_size nd = (if n mod 512 = 0 then n - 512 else n) \<and> v_type nd \<in> {VFS_FILE, VFS_DIR} \<and>
    (\<exists>i. tar_inodes s' (v_data nd) = Some i \<and> ti_vaddr i = hptr + 512)"
  using assms
  by (auto simp: init_vnode_def bindR_eq_Ret_conv modify_eq_Ret_conv Let_def tar_block_size_def in_bounds_def
      split: if_splits option.splits)

lemma readdir_scan_ok:
  assumes "dll v_next v_prev (vnodes s) p xs 0"
  shows "readdir_scan k (first_of 0 xs) s =
    (if k < length xs then
       bindR (get_node (xs ! k) s) (\<lambda>c s. bindR (in_bounds (strncpy (replicate MAX_FILENAME 0) (v_name c) MAX_FILENAME) s)
         (\<lambda>nm s. Ret (Some \<lparr>d_name = nm, d_ino = v_ino c\<rparr>) s))
     else Ret None s)"
  using assms
proof (induction xs arbitrary: k p)
  case Nil
  then show ?case by (simp add: readdir_scan.simps)
next
  case (Cons x xs)
  then obtain n where n: "x \<noteq> 0" "vnodes s x = Some n" "v_next n = first_of 0 xs" "dll v_next v_prev (vnodes s) x xs 0" by auto
  then show ?case using Cons.IH [OF n(4)] by (cases k) (simp_all add: readdir_scan.simps [of _ x] load_Some)
qed

text \<open>
  \<^verbatim>\<open>readdir\<close> at position \<open>k\<close> yields the name of the \<open>k\<close>-th child of the directory and reports the end of
  the directory behind the last child.
\<close>

theorem readdir_correct:
  assumes "kids_ok s p xs"
    and "\<forall>x \<in> set xs. 0 \<in> set (v_name (the (vnodes s x))) \<and> length (name_of s x) < MAX_FILENAME"
  shows "\<exists>d. ramfs_readdir p k s = Ret d s \<and>
    (if unat k < length xs then \<exists>e. d = Some e \<and> cstr (d_name e) = name_of s (xs ! unat k) else d = None)"
proof -
  note D = kids_okD [OF assms(1)]
  obtain n where n: "vnodes s p = Some n" "v_first n = first_of 0 xs" by (rule kids_ok_parent [OF assms(1)])
  note run = readdir_scan_ok [OF D(1), of "unat k"]
  show ?thesis
  proof (cases "unat k < length xs")
    case True
    then obtain c where c: "vnodes s (xs ! unat k) = Some c" using D(5) [of "xs ! unat k"] by auto
    have "xs ! unat k \<in> set xs" using True by simp
    then have "0 \<in> set (v_name c)" "length (cstr (v_name c)) < MAX_FILENAME"
      using assms(2) c by (auto simp: name_of_def dest!: bspec)
    then obtain d where "strncpy (replicate MAX_FILENAME 0) (v_name c) MAX_FILENAME = Some d" "cstr d = cstr (v_name c)"
      using strncpy_cstr [of "v_name c" MAX_FILENAME "replicate MAX_FILENAME 0"] by auto
    then show ?thesis using True run c n by (simp add: ramfs_readdir_def load_Some in_bounds_def name_of_def)
  next
    case False
    then show ?thesis using run n by (simp add: ramfs_readdir_def load_Some)
  qed
qed

section \<open>Creating a directory\<close>

lemma kheap_more_vfs:
  assumes "kheap.more s' = kheap.more s"
  shows "vnodes s' = vnodes s" "tree_root s' = tree_root s" "kmem s' = kmem s"
  using assms by (cases s; cases s'; simp)+

lemma live_vnodes: "live (s\<lparr>vnodes := h\<rparr>) = live s" "heap_inv (s\<lparr>vnodes := h\<rparr>) = heap_inv s"
  by (simp_all add: live_def heap_inv_def heap_ok_def sizebin_ok_def sortedbin_ok_def heap_start_def)

lemma new_node_ok:
  assumes "heap_inv s" and "kmalloc_fits 204 s" and "dom (vnodes s) \<subseteq> live s"
  shows "(\<exists>c s'. new_node nd s = Ret c s' \<and> c \<noteq> 0 \<and> c \<notin> dom (vnodes s) \<and> vnodes s' = (vnodes s)(c \<mapsto> nd) \<and>
      heap_inv s' \<and> dom (vnodes s') \<subseteq> live s' \<and> tree_root s' = tree_root s) \<or>
    kmalloc 204 s = Panic ''[PANIC] kmalloc run out of memory!''"
proof (cases "kmalloc 204 s = Panic ''[PANIC] kmalloc run out of memory!''")
  case True
  then show ?thesis by simp
next
  case False
  then obtain c s1 where k: "kmalloc 204 s = Ret c s1" using kmalloc_cases [of s 204] assms(1,2) by (auto simp: kmalloc_fits_def)
  note K = kmalloc_Ret [OF assms(1,2) k] and M = kheap_more_vfs [OF kmalloc_more [OF assms(1,2) k]]
  have "new_node nd s = Ret c (s1\<lparr>vnodes := (vnodes s)(c \<mapsto> nd)\<rparr>)" using k M(1) by (simp add: new_node_def)
  moreover have "c \<notin> dom (vnodes s)" using K(1) assms(3) by auto
  ultimately show ?thesis using K(2,3,6) M(2) assms(3) by (auto simp: live_vnodes)
qed

lemma kids_ok_store:
  assumes "kids_ok s p xs" and "vnodes s' = (vnodes s)(c := v)" and "c \<noteq> p" and "c \<notin> set xs"
  shows "kids_ok s' p xs"
  using assms by (auto simp: kids_ok_def dlist_def)

text \<open>
  C17: \<^verbatim>\<open>vfs_mkdir\<close> in a ramfs directory either runs out of kernel memory or creates a fresh directory node
  with the given name and appends it to the children; every other node outside the directory stays as it
  is, and the heap stays well formed with one more live block.
\<close>

theorem vfs_mkdir_correct:
  assumes ok: "kids_ok s p xs" and p: "vnodes s p = Some n" "op_mkdir (v_op n) = Some Ramfs_mkdir"
    and heap: "heap_inv s" "kmalloc_fits 204 s" "dom (vnodes s) \<subseteq> live s"
    and name: "0 \<in> set name" "length (cstr name) < MAX_FILENAME"
  shows "(\<exists>c s' d. vfs_mkdir p name s = Ret (0, c) s' \<and> c \<notin> dom (vnodes s) \<and> kids_ok s' p (xs @ [c]) \<and>
      vnodes s' c = Some d \<and> cstr (v_name d) = cstr name \<and> v_type d = VFS_DIR \<and> v_op d = ramfs_dir_ops \<and>
      (\<forall>y. y \<notin> {p, c} \<union> set xs \<longrightarrow> vnodes s' y = vnodes s y) \<and> heap_inv s' \<and> dom (vnodes s') \<subseteq> live s') \<or>
    (kmalloc 204 s = Panic ''[PANIC] kmalloc run out of memory!'' \<and>
     vfs_mkdir p name s = Panic ''[PANIC] kmalloc run out of memory!'')"
proof (cases "kmalloc 204 s = Panic ''[PANIC] kmalloc run out of memory!''")
  case True
  then show ?thesis using p by (simp add: vfs_mkdir_def ramfs_mkdir_def new_node_def load_Some)
next
  case False
  then obtain c s1 where c: "new_node zero_node s = Ret c s1" "c \<noteq> 0" "c \<notin> dom (vnodes s)"
    "vnodes s1 = (vnodes s)(c \<mapsto> zero_node)" "heap_inv s1" "dom (vnodes s1) \<subseteq> live s1"
    using new_node_ok [OF heap, of zero_node] by blast
  obtain nm where nm: "strncpy (v_name zero_node) name MAX_FILENAME = Some nm" "cstr nm = cstr name"
    using strncpy_cstr [OF name, of "v_name zero_node"] by (auto simp: zero_node_def)
  let ?d = "zero_node\<lparr>v_name := nm, v_type := VFS_DIR, v_op := ramfs_dir_ops\<rparr>"
  let ?s2 = "s1\<lparr>vnodes := (vnodes s1)(c \<mapsto> ?d)\<rparr>"
  have u: "vnodes_update (\<lambda>h. h(c \<mapsto> ?d)) s1 = ?s2" by (cases s1) simp
  have cp: "c \<noteq> p" "c \<notin> set xs" using c(3) p(1) kids_okD(5) [OF ok, of c] by auto
  have "kids_ok ?s2 p xs" by (rule kids_ok_store [OF ok _ cp]) (simp add: c(4))
  then obtain s' where s': "namei_add_child p c ?s2 = Ret () s'" "kids_ok s' p (xs @ [c])" "same_nodes ?s2 s' ({p, c} \<union> set xs)"
    using add_child_ok [of ?s2 p xs c ?d] cp c(2) by auto
  have add: "namei_add_child p c (vnodes_update (\<lambda>h. h(c \<mapsto> ?d)) s1) = Ret () s'" using s'(1) by (simp only: u)
  have "map_option node_data (vnodes s' c) = Some (node_data ?d)" using s'(3) by (simp add: same_nodes_def)
  then obtain d where d: "vnodes s' c = Some d" "node_data d = node_data ?d" by auto
  have "\<forall>y. y \<notin> {p, c} \<union> set xs \<longrightarrow> vnodes s' y = vnodes s y" using s'(3) c(4) by (auto simp: same_nodes_def)
  moreover obtain h where h: "s' = ?s2\<lparr>vnodes := h\<rparr>" by (rule same_nodes_frame [OF s'(3)])
  have "heap_inv s'" "live s' = live s1" using c(5) unfolding h by (simp_all add: live_vnodes)
  moreover have "dom (vnodes s') = dom (vnodes s1)" using same_nodes_dom [OF s'(3)] c(4) by auto
  then have "dom (vnodes s') \<subseteq> live s'" using c(6) \<open>live s' = live s1\<close> by simp
  moreover have "vfs_mkdir p name s = Ret (0, c) s'"
    using p c(1,4) nm(1) add by (simp add: vfs_mkdir_def ramfs_mkdir_def load_Some modify_Some in_bounds_def)
  ultimately show ?thesis using c(3) s'(2) d nm(2) by (auto simp: node_data_def)
qed

section \<open>Concrete runs\<close>

definition fs_demo :: vfs where
  "fs_demo = vfs_demo\<lparr>vnodes := (vnodes vfs_demo)(0xc0102400 \<mapsto> zero_node\<lparr>v_size := 2, v_data := 0xc0102500\<rparr>),
     tar_inodes := [0xc0102500 \<mapsto> \<lparr>ti_vaddr = 0xc0200200, ti_hdr = 0xc0200000\<rparr>]\<rparr>"

theorem file_read_count_witness:
  "\<exists>s'. tarfs_read 0xc0102400 1 100 0xc0300000 fs_demo = Ret 1 s'"
proof -
  let ?n = "zero_node\<lparr>v_size := 2, v_data := 0xc0102500\<rparr>"
  have n: "vnodes fs_demo 0xc0102400 = Some ?n" by (simp add: fs_demo_def)
  have "\<exists>r s'. tarfs_read 0xc0102400 1 100 0xc0300000 fs_demo = Ret r s'"
    by (simp add: tarfs_read_def load_def fs_demo_def copy_loop.simps kld8_def kst8_def zero_node_def)
  then obtain r s' where r: "tarfs_read 0xc0102400 1 100 0xc0300000 fs_demo = Ret r s'" by blast
  then have "r = sint (min 100 (v_size ?n - 1))" using file_read_count [OF n] by blast
  then show ?thesis using r by (simp add: min_def word_le_nat_alt)
qed

text \<open>An archive member of 1024 bytes whose node gets the size 512.\<close>

definition tar_demo :: vfs where
  "tar_demo = fs_demo\<lparr>kmem := (\<lambda>_. 0)(0xc0200000 := 0x2e, 0xc0200001 := SLASH, 0xc0200002 := 0x61, 0xc020009c := 0x30)\<rparr>"

theorem readdir_correct_witness:
  "\<exists>d e. ramfs_readdir 0xc0102000 1 vfs_demo = Ret d vfs_demo \<and> d = Some e \<and> cstr (d_name e) = [0x64]"
proof -
  have k: "kids_ok vfs_demo 0xc0102000 [0xc0102100, 0xc0102200]" using tree_demo by (simp add: tree_ok_def demo_kids_def)
  have n: "\<forall>x \<in> set [0xc0102100, 0xc0102200]. 0 \<in> set (v_name (the (vnodes vfs_demo x))) \<and> length (name_of vfs_demo x) < MAX_FILENAME"
    using tree_demo by (simp add: tree_ok_def demo_names)
  show ?thesis using readdir_correct [OF k n, of 1] by (simp add: demo_names)
qed

lemma room_demo: "heap_room 0xff00 vfs_demo" "heap_room 0xff00 tar_demo"
  by (simp_all add: heap_room_def tar_demo_def fs_demo_def vfs_demo_def vmm.extend_def vmm_demo_def vmem.extend_def vmem_demo_simps)

lemma tar_demo_name:
  assumes "kmem s = kmem tar_demo"
  shows "\<exists>r. tar_filename s 0xc0200000 = [0x2e, SLASH, 0x61, 0] @ r" "tar_typeflag s 0xc0200000 = 0x30"
proof -
  have u: "[0 ..< 100 :: nat] = [0 ..< 4] @ [4 ..< 100]" using upt_add_eq_append [of 0 4 96] by (simp only: arith_simps le0)
  have f: "map (\<lambda>i. kmem s (0xc0200000 + of_nat i)) [0 ..< 4] = [0x2e, SLASH, 0x61, 0]"
    by (simp add: assms tar_demo_def upt_rec)
  show "\<exists>r. tar_filename s 0xc0200000 = [0x2e, SLASH, 0x61, 0] @ r"
    unfolding tar_filename_def kbytes_def u map_append f by (rule exI) (rule refl)
  show "tar_typeflag s 0xc0200000 = 0x30" by (simp add: assms tar_typeflag_def tar_demo_def)
qed

lemma demo_filename:
  "\<exists>nm. namei_path_to_filename ([0x2e, SLASH, 0x61, 0] @ r) (replicate MAX_FILENAME 0) = Some nm \<and> cstr nm = [0x61] \<and> 0 \<in> set nm"
proof -
  obtain d where d: "strncpy (replicate MAX_FILENAME 0) ([0x61, 0] @ r) MAX_FILENAME = Some d" "cstr d = [0x61]" "0 \<in> set d"
    using strncpy_cstr [of "[0x61, 0] @ r" MAX_FILENAME "replicate MAX_FILENAME 0"] by auto
  have "d ! 0 = 0x61" using d(2) by (cases d) (auto split: if_splits)
  then show ?thesis using d by (simp add: namei_path_to_filename_def strlen_conv)
qed

lemma tar_run: "\<exists>v s'. init_vnode 0xc0200000 (tar_block_size 1024) tar_demo = Ret v s'"
proof -
  have a: "unat (align_request 204) = 224" "unat (align_request 8) = 16" by (simp_all add: align_request_def)
  obtain p s1 where p: "kmalloc 204 tar_demo = Ret p s1" "heap_room (0xff00 - 224) s1" "kheap.more s1 = kheap.more tar_demo"
    using kmalloc_room [OF room_demo(2), of 204] a by (auto simp: word_le_nat_alt)
  let ?s1 = "s1\<lparr>vnodes := (vnodes s1)(p \<mapsto> zero_node)\<rparr>"
  have "heap_room (0xff00 - 224) ?s1" using p(2) by (simp add: heap_room_def)
  then obtain q s2 where q: "kmalloc 8 ?s1 = Ret q s2" "kheap.more s2 = kheap.more ?s1"
    using kmalloc_room [of "0xff00 - 224" ?s1 8] a by (auto simp: word_le_nat_alt)
  have k: "kmem s2 = kmem tar_demo" "vnodes s2 p = Some zero_node"
    using kheap_more_vfs [OF q(2)] kheap_more_vfs [OF p(3)] by simp_all
  let ?s3 = "s2\<lparr>tar_inodes := (tar_inodes s2)(q \<mapsto> \<lparr>ti_vaddr = 0xc0200000 + 512, ti_hdr = 0xc0200000\<rparr>)\<rparr>"
  have k3: "kmem ?s3 = kmem tar_demo" "vnodes ?s3 p = Some zero_node" using k by simp_all
  obtain r where r: "tar_filename ?s3 0xc0200000 = [0x2e, SLASH, 0x61, 0] @ r" using tar_demo_name(1) [OF k3(1)] by blast
  obtain nm where nm: "namei_path_to_filename ([0x2e, SLASH, 0x61, 0] @ r) (replicate MAX_FILENAME 0) = Some nm"
    "cstr nm = [0x61]" "0 \<in> set nm" using demo_filename by blast
  obtain nm' where nm': "strncpy (v_name zero_node) nm 100 = Some nm'"
    using strncpy_cstr [OF nm(3), of 100 "v_name zero_node"] nm(2) by (auto simp: zero_node_def)
  have nn: "new_node zero_node tar_demo = Ret p ?s1" using p(1) by (simp add: new_node_def)
  let ?s4 = "vnodes_update (\<lambda>h. h(p \<mapsto> zero_node\<lparr>v_name := nm', v_size := tar_block_size 1024 - 512\<rparr>)) ?s3"
  have "kmem ?s4 = kmem tar_demo" using k3(1) by simp
  note ty = tar_demo_name(2) [OF this]
  show ?thesis
    unfolding init_vnode_def nn bindR.simps q(1) Let_def r nm(1) in_bounds_def option.case nm' modify_Some [where st = vnodes, OF k3(2)] ty
    by (simp add: modify_def)
qed

theorem tar_member_size_witness:
  "\<exists>v s' nd. init_vnode 0xc0200000 (tar_block_size 1024) tar_demo = Ret v s' \<and> vnodes s' v = Some nd \<and> v_size nd = 512"
proof -
  obtain v s' where "init_vnode 0xc0200000 (tar_block_size 1024) tar_demo = Ret v s'" using tar_run by blast
  then show ?thesis using tar_member_size [of "0xc0200000" 1024 tar_demo v s'] by auto
qed

definition mkdir_demo :: vfs where
  "mkdir_demo = vfs_demo\<lparr>vnodes := [0xc0101008 \<mapsto> zero_node\<lparr>v_type := VFS_DIR, v_op := ramfs_dir_ops\<rparr>]\<rparr>"

theorem vfs_mkdir_correct_witness:
  "\<exists>c s' d. vfs_mkdir 0xc0101008 [0x64, 0] mkdir_demo = Ret (0, c) s' \<and> kids_ok s' 0xc0101008 [c] \<and>
     vnodes s' c = Some d \<and> cstr (v_name d) = [0x64]"
proof -
  let ?n = "zero_node\<lparr>v_type := VFS_DIR, v_op := ramfs_dir_ops\<rparr>"
  have k: "kids_ok mkdir_demo 0xc0101008 []" by (simp add: kids_ok_def dlist_def mkdir_demo_def zero_node_def)
  have eq: "chunks mkdir_demo = chunks kheap_two" "bins mkdir_demo = bins kheap_two"
    "void_chunk mkdir_demo = void_chunk kheap_two" "is_initialized mkdir_demo = is_initialized kheap_two"
    "kernel_end mkdir_demo = kernel_end kheap_two"
    by (simp_all add: mkdir_demo_def vfs_demo_def vmm.extend_def vmm_demo_def vmem.extend_def vmem_demo_def kheap.extend_def)
  then have h: "heap_inv mkdir_demo" and l: "live mkdir_demo = live kheap_two"
    using heap_inv_two(1) by (simp_all add: heap_inv_def heap_ok_def sizebin_ok_def sortedbin_ok_def heap_start_def live_def)
  have f: "kmalloc_fits 204 mkdir_demo" using eq by (simp add: kmalloc_fits_def heap_end_def kheap_two_def kheap_demo_simps)
  have d: "dom (vnodes mkdir_demo) \<subseteq> live mkdir_demo" 
    unfolding l using heap_inv_two(2) by (simp add: mkdir_demo_def)
  have room: "heap_room 0xff00 mkdir_demo" using eq by (simp add: heap_room_def kheap_two_def kheap_demo_simps)
  have "kmalloc 204 mkdir_demo \<noteq> Panic ''[PANIC] kmalloc run out of memory!''"
    using kmalloc_room [OF room, of 204] by (auto simp: align_request_def word_le_nat_alt)
  then show ?thesis
    using vfs_mkdir_correct [OF k _ _ h f d, of ?n "[0x64, 0]"] by (auto simp: mkdir_demo_def ramfs_dir_ops_def)
qed

end
