(* ===== verification/File_Contents.thy ===== *)
theory File_Contents
  imports Filesystems
begin

text \<open>
  What \<^verbatim>\<open>ramfs_read\<close> and \<^verbatim>\<open>ramfs_write\<close> do to the contents of a file. A file is one page frame; both functions map it to a
  window that \<^verbatim>\<open>vmalloc\<close> gives them, copy, and take the window down again. The lemmas follow the frame through the changes
  of the page tables: it is neither free nor a page table, so nothing of this touches it.
\<close>

section \<open>The frame of a file\<close>

definition file_frame :: "'a mmu_scheme \<Rightarrow> u32 \<Rightarrow> bool" where
  "file_frame s f \<longleftrightarrow> ADDR_TO_IDX f \<notin> free_set s \<and> ADDR_TO_IDX f \<noteq> ADDR_TO_IDX (cr3 s) \<and>
     (\<forall>i < 1022. slot s i \<noteq> 0 \<longrightarrow> ADDR_TO_IDX (slot s i) \<noteq> ADDR_TO_IDX f)"

text \<open>The tables stay in order, the frame stays the frame of a file and keeps its bytes.\<close>

definition same_file :: "u32 \<Rightarrow> 'a mmu_scheme \<Rightarrow> 'a mmu_scheme \<Rightarrow> bool" where
  "same_file f s s' \<longleftrightarrow> pg_inv s' \<and> file_frame s' f \<and> (\<forall>a. ADDR_TO_IDX a = ADDR_TO_IDX f \<longrightarrow> pmem s' a = pmem s a)"

lemma same_file_trans: "same_file f s t \<Longrightarrow> same_file f t u \<Longrightarrow> same_file f s u"
  by (simp add: same_file_def)

lemma entry_idx:
  assumes "i < 1024" and "k < 4"
  shows "ADDR_TO_IDX (entry b i + of_nat k) = ADDR_TO_IDX b"
proof -
  have i: "unat i < 1024" using assms(1) by (simp add: word_less_nat_alt)
  have b: "unat b div 4096 < 1048576" using unat32_bound [of b] by (simp add: less_mult_imp_div_less)
  have "unat (entry b i + of_nat k) = unat (entry b i) + k"
    using i b assms(2) by (subst unat_add_no_wrap) (simp_all add: unat_entry [OF assms(1)] unat_of_nat32)
  then have "unat (entry b i + of_nat k) div 4096 = unat b div 4096" using i assms(2) by (simp add: unat_entry [OF assms(1)])
  then show ?thesis by (simp add: ADDR_TO_IDX_def word_unat_eq_iff unat_div)
qed

lemma st32_other_frame:
  assumes "i < 1024" and "ADDR_TO_IDX a \<noteq> ADDR_TO_IDX b"
  shows "st32 (entry b i) v m a = m a"
proof -
  have "a \<noteq> entry b i + of_nat k" if "k < 4" for k using entry_idx [OF assms(1) that, of b] assms(2) by auto
  from this [of 0] this [of 1] this [of 2] this [of 3] show ?thesis by (simp add: st32_def)
qed

lemma set_pte_same_file:
  assumes "pg_inv s" and "file_frame s f" and "drop_bit 22 va < 1022" and "slot s (drop_bit 22 va) \<noteq> 0"
  shows "same_file f s (set_pte va e s)"
proof -
  have sl: "slot (set_pte va e s) i = slot s i" if "i < 1022" for i
    using assms that less_1022 [OF that] by (intro slot_set_pte) (auto simp: pg_inv_def)
  have "ADDR_TO_IDX (slot s (drop_bit 22 va)) \<noteq> ADDR_TO_IDX f" using assms(2-4) by (simp add: file_frame_def)
  then have "pmem (set_pte va e s) a = pmem s a" if "ADDR_TO_IDX a = ADDR_TO_IDX f" for a
    using that by (simp add: set_pte_def st32_other_frame pt_idx_less)
  moreover have "file_frame (set_pte va e s) f" using assms(2) sl by (simp add: file_frame_def)
  ultimately show ?thesis using pg_inv_set_pte [OF assms(1,3,4)] by (simp add: same_file_def)
qed

lemma add_table_same_file:
  assumes "pg_inv s" and "file_frame s f" and "pmm_get_frame s = Ret g s1" and "d < 1022" and "slot s d = 0"
  shows "same_file f s (add_table d g s1)"
proof -
  have inv: "pmm_inv s" using assms(1) by (simp add: pg_inv_def)
  note g = get_frame_mmu [OF inv assms(3)] and d = less_1022 [OF assms(4)]
  have sl: "slot (add_table d g s1) j = (if d = j then CREATE_PD_ENTRY g else slot s j)" if "j < 1022" for j
    using slot_add_table [of d j g s1] d less_1022 [OF that] g(3) by simp
  have "ADDR_TO_IDX (CREATE_PD_ENTRY g) = ADDR_TO_IDX g" using CREATE_PD_ENTRY_bits(1) by (simp add: align_eq_idx)
  moreover have "ADDR_TO_IDX g \<noteq> ADDR_TO_IDX f" using g(5) assms(2) by (auto simp: file_frame_def)
  moreover have "free_set (add_table d g s1) = free_set s - {ADDR_TO_IDX g}" "cr3 (add_table d g s1) = cr3 s"
    by (simp_all add: add_table_def g free_set_def [of "_\<lparr>pmem := _\<rparr>"] free_set_def [symmetric])
  ultimately have "file_frame (add_table d g s1) f" using assms(2) sl by (auto simp: file_frame_def)
  moreover have "pmem (add_table d g s1) a = pmem s a" if "ADDR_TO_IDX a = ADDR_TO_IDX f" for a
    using that assms(2) d g(1,2) by (simp add: add_table_def st32_other_frame file_frame_def)
  ultimately show ?thesis using pg_inv_add_table [OF assms(1,3-5)] by (simp add: same_file_def)
qed

lemma pg_map_same_file:
  assumes "pg_inv s" and "file_frame s f" and "drop_bit 22 va < 1022" and "pg_map pa va fl s = Ret () s'"
  shows "same_file f s s' \<and> slot s' (drop_bit 22 va) \<noteq> 0"
proof (cases "slot s (drop_bit 22 va) = 0")
  case False
  then have "s' = set_pte va ((pa AND PG_ALIGN) OR fl) s" using pg_map_existing [OF assms(1,3)] assms(4) by simp
  then show ?thesis using set_pte_same_file [OF assms(1-3) False] False assms(1,3) less_1022 [OF assms(3)]
    by (simp add: pg_inv_def)
next
  case True
  obtain g s1 where g: "pmm_get_frame s = Ret g s1"
    using assms(1,4) True by (auto simp: pg_map_def pg_inv_def window_simps not_present_zero bindR_eq_Ret_conv)
  let ?t = "add_table (drop_bit 22 va) g s1"
  have s': "s' = set_pte va ((pa AND PG_ALIGN) OR fl) ?t" using pg_map_fresh [OF assms(1,3) True g] assms(4) by simp
  have t: "same_file f s ?t" by (rule add_table_same_file [OF assms(1,2) g assms(3) True])
  have nz: "slot ?t (drop_bit 22 va) \<noteq> 0" by (simp add: slot_add_table pd_idx_less CREATE_PD_ENTRY_bits)
  have "same_file f ?t s'" unfolding s' using t assms(3) nz by (intro set_pte_same_file) (auto simp: same_file_def)
  moreover have "slot s' (drop_bit 22 va) = slot ?t (drop_bit 22 va)"
    unfolding s' using t assms(3) nz by (intro slot_set_pte) (auto simp: same_file_def pg_inv_def pd_idx_less)
  ultimately show ?thesis using same_file_trans [OF t] nz by simp
qed

text \<open>The tables, the bitmap of frames and memory are the same; the rest may differ.\<close>

definition same_tables :: "'a mmu_scheme \<Rightarrow> 'a mmu_scheme \<Rightarrow> bool" where
  "same_tables s s' \<longleftrightarrow> pmem s' = pmem s \<and> cr3 s' = cr3 s \<and> total_frames s' = total_frames s \<and>
     free_frames s' = free_frames s \<and> pmm_bitmap s' = pmm_bitmap s"

lemma same_tables_simps:
  assumes "same_tables s s'"
  shows "pg_inv s' = pg_inv s" "file_frame s' f = file_frame s f" "pmem s' = pmem s" "slot s' = slot s" "walk s' = walk s"
proof -
  show sl: "slot s' = slot s" "walk s' = walk s" using assms by (intro ext; simp add: same_tables_def slot_def walk_def Let_def)+
  have fr: "free_set s' = free_set s" "cr3 s' = cr3 s" "pmem s' = pmem s" "pmm_inv s' = pmm_inv s"
    using assms by (simp_all add: same_tables_def free_set_def pmm_inv_def)
  show "pg_inv s' = pg_inv s" "file_frame s' f = file_frame s f" "pmem s' = pmem s"
    by (simp_all add: pg_inv_def recursive_pd_def tables_ok_def file_frame_def sl fr)
qed

lemma truncated_tables: "mmu.truncate s' = mmu.truncate s \<Longrightarrow> same_tables s s'"
  by (simp add: same_tables_def mmu.truncate_def)

lemma same_tables_file: "same_tables s s' \<Longrightarrow> pg_inv s \<Longrightarrow> file_frame s f \<Longrightarrow> same_file f s s'"
  by (simp add: same_file_def same_tables_simps)

text \<open>The frame that \<^verbatim>\<open>ramfs_touch\<close> takes becomes the frame of a file, a different one from those of all files before.\<close>

lemma new_file_frame:
  assumes "pg_inv s" and "pmm_get_frame s = Ret f s1"
  shows "file_frame s1 f" "file_frame s g \<Longrightarrow> file_frame s1 g \<and> ADDR_TO_IDX g \<noteq> ADDR_TO_IDX f"
proof -
  have inv: "pmm_inv s" and ok: "tables_ok s" using assms(1) by (simp_all add: pg_inv_def)
  note g = get_frame_mmu [OF inv assms(2)]
  have "ADDR_TO_IDX (slot s i) \<noteq> ADDR_TO_IDX f" if "i < 1022" "slot s i \<noteq> 0" for i
    using ok that g(5) unfolding tables_ok_def by metis
  moreover have "ADDR_TO_IDX (cr3 s) \<noteq> ADDR_TO_IDX f" using ok g(5) unfolding tables_ok_def by metis
  ultimately show "file_frame s1 f" using g by (simp add: file_frame_def)
  show "file_frame s1 g \<and> ADDR_TO_IDX g \<noteq> ADDR_TO_IDX f" if "file_frame s g"
    using that g unfolding file_frame_def by auto
qed

section \<open>The window\<close>

text \<open>\<open>window f v s\<close>: the page at \<open>v\<close>, of the vmalloc area, shows the frame of the file \<open>f\<close>.\<close>

definition vpage :: "u32 \<Rightarrow> bool" where
  "vpage v \<longleftrightarrow> 4096 dvd unat v \<and> unat VM_VMALLOC_START \<le> unat v \<and> unat v + 4096 \<le> unat VM_VMALLOC_END"

definition window :: "u32 \<Rightarrow> u32 \<Rightarrow> 'a mmu_scheme \<Rightarrow> bool" where
  "window f v s \<longleftrightarrow> pg_inv s \<and> file_frame s f \<and> vpage v \<and>
     (\<forall>i < 4096. walk s (v + of_nat i) = Some ((f AND PG_ALIGN) + of_nat i))"

lemma vpage_bits:
  assumes "vpage v" and "i < 4096"
  shows "unat (v + of_nat i) = unat v + i" "drop_bit 12 (v + of_nat i) = drop_bit 12 v"
    "drop_bit 22 (v + of_nat i) < 1022" "(v + of_nat i) AND 0xfff = of_nat i"
    "\<not> v + of_nat i < VM_KMALLOC_END"
proof -
  have b: "unat v + i < 3758092288" "3489660928 \<le> unat v" using assms by (simp_all add: vpage_def)
  show u: "unat (v + of_nat i) = unat v + i" using b assms(2) by (subst unat_add_no_wrap) (simp_all add: unat_of_nat32)
  have "unat v mod 4096 = 0" using assms(1) by (simp add: vpage_def dvd_eq_mod_eq_0)
  then obtain q where q: "unat v = 4096 * q" by auto
  show "drop_bit 12 (v + of_nat i) = drop_bit 12 v" using assms(2) u q by (simp add: word_unat_eq_iff unat_drop12)
  show "(v + of_nat i) AND 0xfff = of_nat i" using assms(2) u q by (simp add: word_unat_eq_iff unat_page_off unat_of_nat32)
  show "drop_bit 22 (v + of_nat i) < 1022" using b(1) by (simp add: word_less_nat_alt unat_drop22 u less_mult_imp_div_less)
  show "\<not> v + of_nat i < VM_KMALLOC_END" using b(2) u by (simp add: word_less_nat_alt)
qed

lemma vpage_dir: "vpage v \<Longrightarrow> drop_bit 22 v < 1022"
  using vpage_bits(3) [of v 0] by simp

text \<open>The areas handed out by \<open>vmalloc\<close> are whole pages; an empty request would make an empty area.\<close>

definition page_areas :: "'a vmem_scheme \<Rightarrow> ptr list \<Rightarrow> bool" where
  "page_areas s xs \<longleftrightarrow> (\<forall>x \<in> set xs. 4096 dvd aend s x \<and> astart s x < aend s x)"

definition areas_inv :: "'a vmem_scheme \<Rightarrow> ptr list \<Rightarrow> bool" where
  "areas_inv s xs \<longleftrightarrow> pg_inv s \<and> heap_inv s \<and> ureg_ok s xs \<and> page_areas s xs \<and> dom (uregs s) \<subseteq> live s"

text \<open>The area of the window is in the list, between \<open>us\<close> and \<open>vs\<close>, with the header \<open>x\<close>.\<close>

definition window_area :: "u32 \<Rightarrow> ptr \<Rightarrow> ptr list \<Rightarrow> ptr list \<Rightarrow> 'a vmem_scheme \<Rightarrow> bool" where
  "window_area v x us vs s \<longleftrightarrow> ureg_ok s (us @ x # vs) \<and> page_areas s (us @ x # vs) \<and>
     map_option hdr (uregs s x) = Some (v, 4096, ON_DEMAND) \<and> heap_inv s \<and> dom (uregs s) \<subseteq> live s"

lemma hdr_area:
  assumes "map_option hdr (uregs s x) = Some (v, n, ty)"
  shows "astart s x = unat v" "aend s x = unat v + unat n"
  using assms by (auto simp: astart_def aend_def hdr_def)

lemma hdr_area_cong:
  assumes "map_option hdr (uregs s' x) = map_option hdr (uregs s x)" and "x \<in> dom (uregs s)"
  shows "astart s' x = astart s x" "aend s' x = aend s x"
  using assms by (auto simp: astart_def aend_def hdr_def)

lemma page_areas_cong:
  assumes "\<And>x. x \<in> set xs \<Longrightarrow> map_option hdr (uregs s' x) = map_option hdr (uregs s x)" and "set xs \<subseteq> dom (uregs s)"
  shows "page_areas s' xs = page_areas s xs"
  using hdr_area_cong [OF assms(1)] assms(2) by (auto simp: page_areas_def subset_iff)

lemma upto_end_pages: "page_areas s us \<Longrightarrow> 4096 dvd lo \<Longrightarrow> 4096 dvd upto_end s lo us"
  by (induction us arbitrary: lo) (auto simp: page_areas_def)

lemma vmalloc_window:
  assumes "areas_inv s xs" and "kmalloc_fits 20 s" and "vmalloc 4096 ON_DEMAND s = Ret v s1"
  shows "\<exists>x us vs t. xs = us @ vs \<and> window_area v x us vs s1 \<and> vpage v \<and> pg_map 0 v VMM_RW s = Ret () t \<and>
    mmu.truncate s1 = mmu.truncate t \<and> vmem.more s1 = vmem.more s"
proof -
  have pr: "page_round 4096 = 4096" by (simp add: page_round_def)
  have inv: "ureg_ok s xs" "heap_inv s" "dom (uregs s) \<subseteq> live s" "page_areas s xs" using assms(1) by (simp_all add: areas_inv_def)
  obtain x us vs t where r: "xs = us @ vs" "ureg_ok s1 (us @ x # vs)" "x \<notin> set xs"
    "map_option hdr (uregs s1 x) = Some (v, 4096, ON_DEMAND)"
    "\<forall>y \<in> set xs. map_option hdr (uregs s1 y) = map_option hdr (uregs s y)"
    "heap_inv s1" "dom (uregs s1) \<subseteq> live s1"
    "unat v = upto_end s (unat VM_VMALLOC_START) us" "unat v + 4096 \<le> unat VM_VMALLOC_END"
    "vmm_void_map v 4096 VMM_RW s = Ret () t" "mmu.truncate s1 = mmu.truncate t" "vmem.more s1 = vmem.more s"
    using vmalloc_result [OF inv(1,2) assms(2) inv(3) _ _ assms(3)] unfolding pr by auto
  have "page_areas s us" using inv(4) r(1) by (auto simp: page_areas_def)
  then have dv: "4096 dvd unat v" using upto_end_pages [of s us "unat VM_VMALLOC_START"] r(8) by simp
  have "unat VM_VMALLOC_START \<le> unat v"
    using areas_bounds(1) [of s1 "unat VM_VMALLOC_START" "us @ x # vs" "unat VM_VMALLOC_END" x] r(2) hdr_area(1) [OF r(4)]
    by (simp add: ureg_ok_def)
  with dv r(9) have vp: "vpage v" by (simp add: vpage_def)
  have "set xs \<subseteq> dom (uregs s)" using inv(1) by (auto simp: ureg_ok_def dlist_def dest: dll_in_dom)
  then have "page_areas s1 xs" using page_areas_cong [of xs s1 s] r(5) inv(4) by simp
  then have "page_areas s1 (us @ x # vs)" using r(1) dv hdr_area [OF r(4)] by (auto simp: page_areas_def)
  moreover have "pg_map 0 v VMM_RW s = Ret () t"
    using r(10) by (simp add: vmm_void_map_def SIZE_TO_FRAMES_def bindR_eq_Ret_conv)
  ultimately show ?thesis using r vp unfolding window_area_def by blast
qed

lemma window_open:
  assumes "areas_inv s xs" and "kmalloc_fits 20 s" and "file_frame s f" and "vmalloc 4096 ON_DEMAND s = Ret v s1"
    and "flags AND PG_PRESENT \<noteq> 0" and "flags AND PG_ALIGN = 0"
  shows "\<exists>x us vs s2. pg_map f v flags s1 = Ret () s2 \<and> xs = us @ vs \<and> window f v s2 \<and> window_area v x us vs s2 \<and>
    vmem.more s1 = vmem.more s \<and> vmem.more s2 = vmem.more s \<and> (\<forall>g. file_frame s g \<longrightarrow> same_file g s s2)"
proof -
  have pg: "pg_inv s" using assms(1) by (simp add: areas_inv_def)
  obtain x us vs t where w: "xs = us @ vs" "window_area v x us vs s1" and vp: "vpage v" and m: "pg_map 0 v VMM_RW s = Ret () t"
    and tr: "mmu.truncate s1 = mmu.truncate t" "vmem.more s1 = vmem.more s"
    using vmalloc_window [OF assms(1,2,4)] by blast
  note d = vpage_dir [OF vp] and st = truncated_tables [OF tr(1)]
  have nz: "slot s1 (drop_bit 22 v) \<noteq> 0" using pg_map_same_file [OF pg assms(3) d m] st by (simp add: same_tables_simps)
  have sf1: "same_file g s s1" if "file_frame s g" for g
    using pg_map_same_file [OF pg that d m] same_tables_file [OF st] by (auto simp: same_file_def)
  have pg1: "pg_inv s1" using sf1 [OF assms(3)] by (simp add: same_file_def)
  let ?s2 = "set_pte v ((f AND PG_ALIGN) OR flags) s1"
  have run: "pg_map f v flags s1 = Ret () ?s2" by (rule pg_map_existing [OF pg1 d nz])
  have sf2: "same_file g s ?s2" if "file_frame s g" for g
    using sf1 [OF that] set_pte_same_file [OF pg1 _ d nz] same_file_trans by (metis same_file_def)
  have "walk ?s2 (v + of_nat i) = Some ((f AND PG_ALIGN) + of_nat i)" if "i < 4096" for i
    using walk_set_pte [OF _ d nz vpage_bits(3) [OF vp that], of "(f AND PG_ALIGN) OR flags"] pg1 assms(5,6) vpage_bits [OF vp that]
    by (simp add: pg_inv_def pte_flags)
  then have "window f v ?s2" using vp sf2 [OF assms(3)] by (simp add: window_def same_file_def)
  moreover have "window_area v x us vs ?s2"
    using w(2) ureg_ok_cong [of "us @ x # vs" ?s2 s1] heap_inv_mmu [of ?s2 s1]
    by (simp add: window_area_def page_areas_def set_pte_def astart_def aend_def)
  moreover have "vmem.more ?s2 = vmem.more s" using tr(2) by (simp add: set_pte_def)
  ultimately show ?thesis using run w(1) tr(2) sf2 by blast
qed

lemma remove_ureg_keeps: "remove_ureg v s = Ret x s' \<Longrightarrow> vmem.more s' = vmem.more s \<and> kheap.truncate s' = kheap.truncate s"
  by (auto simp: remove_ureg_def bindR_eq_Ret_conv split: if_splits dest!: chase_Ret_state dest: keeps_frameD [OF unlink_ureg_keeps])

lemma find_behind: "find P us = None \<Longrightarrow> P x \<Longrightarrow> find P (us @ x # vs) = Some x"
  by (induction us) (auto split: if_splits)

lemma remove_window:
  assumes "window_area v x us vs s"
  shows "\<exists>s'. remove_ureg v s = Ret x s' \<and> ureg_ok s' (us @ vs) \<and> same_areas s s'"
proof -
  have ok: "ureg_ok s (us @ x # vs)" and h: "map_option hdr (uregs s x) = Some (v, 4096, ON_DEMAND)" and pa: "page_areas s (us @ x # vs)"
    using assms by (simp_all add: window_area_def)
  have di: "distinct (us @ x # vs)" using ok by (simp add: ureg_ok_def dlist_def)
  have "astart s y \<noteq> astart s x" if "y \<in> set us" for y
  proof -
    have "areas s (unat VM_VMALLOC_START) us (upto_end s (unat VM_VMALLOC_START) us)"
      "upto_end s (unat VM_VMALLOC_START) us \<le> astart s x" using ok by (auto simp: ureg_ok_def areas_append)
    then have "aend s y \<le> astart s x" using areas_bounds(2) that le_trans by blast
    moreover have "astart s y < aend s y" using pa that by (simp add: page_areas_def)
    ultimately show ?thesis by simp
  qed
  then have "find (\<lambda>x. rh_vaddr (the (uregs s x)) = v) us = None" using hdr_area(1) [OF h] by (auto simp: find_None_iff astart_def)
  then have "find (\<lambda>x. rh_vaddr (the (uregs s x)) = v) (us @ x # vs) = Some x"
    using hdr_area(1) [OF h] by (intro find_behind) (simp_all add: astart_def word_unat_eq_iff)
  moreover have "remove1 x (us @ x # vs) = us @ vs" using di by (simp add: remove1_append)
  ultimately show ?thesis using remove_ureg_correct [OF ok, of v] by auto
qed

lemma vfree_window:
  assumes "window_area v x us vs s" and "vpage v" and "pg_inv s" and "walk s v = None"
  shows "\<exists>s'. vfree v s = Ret () s' \<and> ureg_ok s' (us @ vs) \<and> page_areas s' (us @ vs) \<and> heap_inv s' \<and> dom (uregs s') \<subseteq> live s' \<and>
    mmu.truncate s' = mmu.truncate s \<and> vmem.more s' = vmem.more s"
proof -
  have w: "ureg_ok s (us @ x # vs)" "page_areas s (us @ x # vs)" "heap_inv s" "dom (uregs s) \<subseteq> live s"
    "map_option hdr (uregs s x) = Some (v, 4096, ON_DEMAND)" using assms(1) by (simp_all add: window_area_def)
  obtain s1 where s1: "remove_ureg v s = Ret x s1" "ureg_ok s1 (us @ vs)" "same_areas s s1" using remove_window [OF assms(1)] by blast
  have k: "vmem.more s1 = vmem.more s" "kheap.truncate s1 = kheap.truncate s" using remove_ureg_keeps [OF s1(1)] by simp_all
  note st = truncated_tables [OF truncated_mmu [OF k(2)]]
  have h1: "map_option hdr (uregs s1 x) = Some (v, 4096, ON_DEMAND)" using s1(3) w(5) by (simp add: same_areas_def)
  then obtain r where r: "uregs s1 x = Some r" "rh_vaddr r = v" "rh_size r = 4096" "phy_type r = ON_DEMAND" by (auto simp: hdr_def)
  have dl: "dll rh_next rh_prev (uregs s) 0 (us @ x # vs) 0" "distinct (us @ x # vs)" using w(1) by (simp_all add: ureg_ok_def dlist_def)
  have x0: "x \<noteq> 0" using dll_nonnull [OF dl(1)] by auto
  have "pg_unmap v s1 = Ret 0 s1"
    using pg_unmap_run [of s1 v] assms(3,4) vpage_dir [OF assms(2)] st by (simp add: same_tables_simps)
  then have um: "vmm_cont_unmap v 4096 False s1 = Ret () s1" by (simp add: vmm_cont_unmap_def SIZE_TO_FRAMES_def)
  let ?t = "s1\<lparr>uregs := (uregs s1)(x := None)\<rparr>"
  have kt: "kheap.truncate ?t = kheap.truncate s" using k(2) by simp
  have xl: "x \<in> live ?t" "heap_inv ?t" using truncated_heap [OF kt] w(3,4,5) by auto
  obtain s' where s': "kfree x ?t = Ret () s'" "heap_inv s'" "live s' = live ?t - {x}" using kheap.release_law [OF xl(2,1)] by blast
  note ho = heap_only_sels(5,6) [OF kfree_heap_only [OF xl(2,1) s'(1)]]
  have sel: "uregs s' = (uregs s1)(x := None)" "ureg_first s' = ureg_first s1" "ureg_last s' = ureg_last s1" "vmem.more s' = vmem.more s1"
    using ho(2) by (cases s'; cases s1; simp)+
  have run: "vfree v s = Ret () s'" using s1(1) x0 r um s'(1) by (simp add: vfree_def load_Some)
  have other: "uregs s' y = uregs s1 y" if "y \<in> set (us @ vs)" for y using that dl(2) sel(1) by auto
  have "ureg_ok s' (us @ vs)" using ureg_ok_cong [of "us @ vs" s' s1] other sel s1(2) by simp
  moreover have "page_areas s' (us @ vs)"
    using w(2) other s1(3) dll_dom [OF dl(1)] by (subst page_areas_cong [of _ _ s]) (auto simp: page_areas_def same_areas_def)
  moreover have "dom (uregs s') \<subseteq> live s'" using sel(1) s'(3) same_areas_dom [OF s1(3)] truncated_heap(2) [OF kt] w(4) by auto
  moreover have "mmu.truncate s' = mmu.truncate s" using ho(1) truncated_mmu [OF kt] by simp
  ultimately show ?thesis using run s'(2) sel(4) k(1) by auto
qed

lemma window_close:
  assumes "window f v s" and "window_area v x us vs s"
  shows "\<exists>r s1 s2. pg_unmap v s = Ret r s1 \<and> vfree v s1 = Ret () s2 \<and> areas_inv s2 (us @ vs) \<and> vmem.more s1 = vmem.more s \<and>
    vmem.more s2 = vmem.more s \<and> (\<forall>g. file_frame s g \<longrightarrow> same_file g s s2)"
proof -
  have pg: "pg_inv s" and vp: "vpage v" and fr: "file_frame s f" and "walk s v \<noteq> None"
    using assms(1) by (auto simp: window_def dest: spec [of _ "0 :: nat"])
  note d = vpage_dir [OF vp]
  obtain e where nz: "slot s (drop_bit 22 v) \<noteq> 0" and u: "pg_unmap v s = Ret (e OR PG_ALIGN) (set_pte v 0 s)"
    using pg_unmap_run [OF pg d] \<open>walk s v \<noteq> None\<close> by auto
  let ?t = "set_pte v 0 s"
  have sf: "same_file g s ?t" if "file_frame s g" for g by (rule set_pte_same_file [OF pg that d nz])
  have pgt: "pg_inv ?t" using sf [OF fr] by (simp add: same_file_def)
  have "walk ?t v = None" using walk_set_pte [OF _ d nz d, of 0] pg by (simp add: pg_inv_def)
  moreover have "window_area v x us vs ?t"
    using assms(2) ureg_ok_cong [of "us @ x # vs" ?t s] heap_inv_mmu [of ?t s]
    by (simp add: window_area_def page_areas_def set_pte_def astart_def aend_def)
  ultimately obtain s2 where s2: "vfree v ?t = Ret () s2" "ureg_ok s2 (us @ vs)" "page_areas s2 (us @ vs)" "heap_inv s2"
    "dom (uregs s2) \<subseteq> live s2" "mmu.truncate s2 = mmu.truncate ?t" "vmem.more s2 = vmem.more ?t"
    using vfree_window [OF _ vp pgt] by blast
  note st = truncated_tables [OF s2(6)]
  have "same_file g s s2" if "file_frame s g" for g
  proof (rule same_file_trans [OF sf [OF that]])
    have "file_frame ?t g" using sf [OF that] by (simp add: same_file_def)
    then show "same_file g ?t s2" by (rule same_tables_file [OF st pgt])
  qed
  moreover have "areas_inv s2 (us @ vs)" using s2 pgt st by (simp add: areas_inv_def same_tables_simps)
  moreover have "vmem.more ?t = vmem.more s" by (simp add: set_pte_def)
  ultimately show ?thesis using u s2 by auto
qed

section \<open>Copying through the window\<close>

lemma frame_addr:
  assumes "i < 4096"
  shows "unat ((f AND PG_ALIGN) + of_nat i) = unat f div 4096 * 4096 + i" "ADDR_TO_IDX ((f AND PG_ALIGN) + of_nat i) = ADDR_TO_IDX f"
proof -
  have b: "unat f div 4096 < 1048576" using unat32_bound [of f] by (simp add: less_mult_imp_div_less)
  show u: "unat ((f AND PG_ALIGN) + of_nat i) = unat f div 4096 * 4096 + i"
    using assms b by (subst unat_add_no_wrap) (simp_all add: unat_align unat_of_nat32)
  then show "ADDR_TO_IDX ((f AND PG_ALIGN) + of_nat i) = ADDR_TO_IDX f"
    using assms by (simp add: ADDR_TO_IDX_def word_unat_eq_iff unat_div)
qed

lemma frame_addr_inj: "i < 4096 \<Longrightarrow> j < 4096 \<Longrightarrow> (f AND PG_ALIGN) + of_nat i = (f AND PG_ALIGN) + of_nat j \<longleftrightarrow> i = j"
  by (metis add_left_cancel frame_addr(1))

text \<open>A store into the frame of a file changes no page table.\<close>

lemma file_store:
  fixes c :: u8
  assumes "pg_inv s" and "file_frame s f" and "ADDR_TO_IDX a = ADDR_TO_IDX f"
  defines "s' \<equiv> s\<lparr>pmem := (pmem s)(a := c)\<rparr>"
  shows "pg_inv s'" "file_frame s' g = file_frame s g" "drop_bit 22 v < 1022 \<Longrightarrow> walk s' v = walk s v"
proof -
  have ld: "ld32 (pmem s') (entry b i) = ld32 (pmem s) (entry b i)" if "ADDR_TO_IDX b \<noteq> ADDR_TO_IDX f" "i < 1024" for b i
  proof -
    have "entry b i + of_nat k \<noteq> a" if "k < 4" for k using entry_idx [OF \<open>i < 1024\<close> that, of b] \<open>ADDR_TO_IDX b \<noteq> _\<close> assms(3) by auto
    from this [of 0] this [of 1] this [of 2] this [of 3] show ?thesis by (simp add: ld32_def s'_def)
  qed
  have sl: "slot s' i = slot s i" if "i < 1024" for i
  proof -
    have "ADDR_TO_IDX (cr3 s) \<noteq> ADDR_TO_IDX f" using assms(2) unfolding file_frame_def by auto
    then show ?thesis using ld [OF _ that] by (simp add: slot_def s'_def)
  qed
  have fr: "free_set s' = free_set s" "cr3 s' = cr3 s" "pmm_inv s' = pmm_inv s" by (simp_all add: s'_def free_set_def pmm_inv_def)
  have lt: "i < 1022 \<Longrightarrow> i < 1024" for i :: u32 using less_1022 by blast
  show "pg_inv s'" "file_frame s' g = file_frame s g"
    using assms(1) by (simp_all add: pg_inv_def recursive_pd_def tables_ok_def file_frame_def sl lt fr)
  show "walk s' v = walk s v" if "drop_bit 22 v < 1022"
  proof (cases "slot s (drop_bit 22 v) = 0")
    case True
    then show ?thesis by (simp add: walk_slot sl pd_idx_less)
  next
    case False
    then have "ADDR_TO_IDX (slot s (drop_bit 22 v)) \<noteq> ADDR_TO_IDX f" using assms(2) that by (simp add: file_frame_def)
    then show ?thesis by (simp add: walk_slot sl pd_idx_less ld pt_idx_less Let_def)
  qed
qed

lemma window_store:
  assumes "window f v s" and "i < 4096"
  shows "window f v (s\<lparr>pmem := (pmem s)((f AND PG_ALIGN) + of_nat i := c)\<rparr>)"
  using assms file_store [of s f "(f AND PG_ALIGN) + of_nat i"] vpage_bits(3) [of v] frame_addr(2) [OF assms(2)]
  by (simp add: window_def)

text \<open>\<open>kbuf b n\<close>: \<open>n\<close> bytes at \<open>b\<close> in the part of the kernel that is always mapped.\<close>

definition kbuf :: "ptr \<Rightarrow> nat \<Rightarrow> bool" where
  "kbuf b n \<longleftrightarrow> unat VM_KERN_START \<le> unat b \<and> unat b + n \<le> unat VM_KMALLOC_END"

definition contents :: "'a mmu_scheme \<Rightarrow> u32 \<Rightarrow> u8 list" where
  "contents s f = map (\<lambda>i. pmem s ((f AND PG_ALIGN) + of_nat i)) [0..<4096]"

lemma kbuf_addr:
  assumes "kbuf b n" and "i < n"
  shows "unat (b + of_nat i) = unat b + i" "VM_KERN_START \<le> b + of_nat i" "b + of_nat i < VM_KMALLOC_END"
proof -
  have "unat b + i < 3489660928" "i < 2 ^ 32" using assms by (simp_all add: kbuf_def)
  then show u: "unat (b + of_nat i) = unat b + i" by (subst unat_add_no_wrap) (simp_all add: unat_of_nat32)
  then show "VM_KERN_START \<le> b + of_nat i" "b + of_nat i < VM_KMALLOC_END"
    using assms by (simp_all add: word_le_nat_alt word_less_nat_alt kbuf_def)
qed

lemma window_access:
  assumes "window f v s" and "i < 4096"
  shows "kld8 (v + of_nat i) s = Ret (pmem s ((f AND PG_ALIGN) + of_nat i)) s"
    "kst8 (v + of_nat i) c s = Ret () (s\<lparr>pmem := (pmem s)((f AND PG_ALIGN) + of_nat i := c)\<rparr>)"
  using assms vpage_bits(5) [of v i] by (simp_all add: window_def kld8_def kst8_def vld8_def vst8_def)

lemma kbuf_access:
  assumes "kbuf b n" and "i < n"
  shows "kld8 (b + of_nat i) s = Ret (kmem s (b + of_nat i)) s"
    "kst8 (b + of_nat i) c s = Ret () (s\<lparr>kmem := (kmem s)(b + of_nat i := c)\<rparr>)"
  using kbuf_addr [OF assms] by (simp_all add: kld8_def kst8_def)

lemma copy_more:
  assumes "n < unat (min sz avail)"
  shows "of_nat n < sz \<and> avail - of_nat n > (0 :: u32)"
proof -
  have "n < 2 ^ 32" using assms unat32_bound [of "min sz avail"] by simp
  then have u: "unat (of_nat n :: u32) = n" by (simp add: unat_of_nat32)
  have "of_nat n < min sz avail" using assms u by (simp add: word_less_nat_alt)
  then show ?thesis by (auto simp: word_gt_0)
qed

lemma copy_done: "unat (min sz avail) = n \<Longrightarrow> copy_loop dst src sz avail (of_nat n) s = Ret (of_nat n) s"
  by (subst copy_loop.simps) (auto simp: min_def)

text \<open>From a kernel buffer into the file, beginning with the byte of index \<open>n\<close>.\<close>

lemma copy_to_frame:
  assumes "window f v s" and "kbuf b k" and "k = unat (min sz avail)" and "p + k \<le> 4096" and "n \<le> k"
  shows "\<exists>m. copy_loop (v + of_nat p) b sz avail (of_nat n) s = Ret (of_nat k) (s\<lparr>pmem := m\<rparr>) \<and>
    window f v (s\<lparr>pmem := m\<rparr>) \<and> (\<forall>g. file_frame (s\<lparr>pmem := m\<rparr>) g = file_frame s g) \<and>
    (\<forall>i < 4096. m ((f AND PG_ALIGN) + of_nat i) =
       (if p + n \<le> i \<and> i < p + k then kmem s (b + of_nat (i - p)) else pmem s ((f AND PG_ALIGN) + of_nat i))) \<and>
    (\<forall>a. ADDR_TO_IDX a \<noteq> ADDR_TO_IDX f \<longrightarrow> m a = pmem s a)"
  using assms(1,5)
proof (induction "k - n" arbitrary: n s)
  case 0
  then have "copy_loop (v + of_nat p) b sz avail (of_nat n) s = Ret (of_nat k) (s\<lparr>pmem := pmem s\<rparr>)" "n = k"
    using assms(3) copy_done [of sz avail n] by simp_all
  then show ?case using "0.prems"(1) by (intro exI [of _ "pmem s"]) auto
next
  case (Suc d)
  let ?a = "(f AND PG_ALIGN) + of_nat (p + n)" and ?c = "kmem s (b + of_nat n)"
  let ?s1 = "s\<lparr>pmem := (pmem s)(?a := ?c)\<rparr>"
  have n: "n < k" "p + n < 4096" using Suc.hyps(2) assms(4) by linarith+
  have dk: "d = k - Suc n" "Suc n \<le> k" using Suc.hyps(2) by linarith+
  have e: "v + of_nat p + of_nat n = v + of_nat (p + n)" by simp
  have e2: "of_nat (Suc n) = (of_nat n + 1 :: u32)" by simp
  have w1: "window f v ?s1" by (rule window_store [OF Suc.prems(1) n(2)])
  have step: "copy_loop (v + of_nat p) b sz avail (of_nat n) s = copy_loop (v + of_nat p) b sz avail (of_nat (Suc n)) ?s1"
    using copy_more [of n sz avail] n(1) assms(3) kbuf_access(1) [OF assms(2) n(1), of s] window_access(2) [OF Suc.prems(1) n(2)]
    unfolding e2 by (subst copy_loop.simps) (simp add: e del: of_nat_add)
  obtain m where m: "copy_loop (v + of_nat p) b sz avail (of_nat (Suc n)) ?s1 = Ret (of_nat k) (?s1\<lparr>pmem := m\<rparr>)"
    "window f v (?s1\<lparr>pmem := m\<rparr>)" "\<forall>g. file_frame (?s1\<lparr>pmem := m\<rparr>) g = file_frame ?s1 g"
    "\<forall>i < 4096. m ((f AND PG_ALIGN) + of_nat i) =
       (if p + Suc n \<le> i \<and> i < p + k then kmem ?s1 (b + of_nat (i - p)) else pmem ?s1 ((f AND PG_ALIGN) + of_nat i))"
    "\<forall>a. ADDR_TO_IDX a \<noteq> ADDR_TO_IDX f \<longrightarrow> m a = pmem ?s1 a"
    using Suc.hyps(1) [OF dk(1) w1 dk(2)] by blast
  have "file_frame ?s1 g = file_frame s g" for g
    using file_store(2) [where s = s and f = f and a = ?a and c = ?c and g = g] Suc.prems(1) frame_addr(2) [OF n(2)] by (simp add: window_def)
  moreover have "m ((f AND PG_ALIGN) + of_nat i) =
       (if p + n \<le> i \<and> i < p + k then kmem s (b + of_nat (i - p)) else pmem s ((f AND PG_ALIGN) + of_nat i))" if "i < 4096" for i
    using m(4) that frame_addr_inj [OF that n(2), of f] n(1) by (auto simp: not_less_eq_eq le_Suc_eq)
  moreover have "m a = pmem s a" if "ADDR_TO_IDX a \<noteq> ADDR_TO_IDX f" for a using m(5) that frame_addr(2) [OF n(2), of f] by auto
  ultimately show ?case using step m(1-3) by (intro exI [of _ m]) simp
qed

text \<open>From the file into a kernel buffer.\<close>

lemma window_kmem [simp]: "window f v (s\<lparr>kmem := K\<rparr>) = window f v s" "file_frame (s\<lparr>kmem := K\<rparr>) f = file_frame s f"
proof -
  have "same_tables s (s\<lparr>kmem := K\<rparr>)" by (simp add: same_tables_def)
  then show "window f v (s\<lparr>kmem := K\<rparr>) = window f v s" "file_frame (s\<lparr>kmem := K\<rparr>) f = file_frame s f"
    by (simp_all add: window_def same_tables_simps)
qed

lemma copy_from_frame:
  assumes "window f v s" and "kbuf b k" and "k = unat (min sz avail)" and "p + k \<le> 4096" and "n \<le> k"
  shows "\<exists>m. copy_loop b (v + of_nat p) sz avail (of_nat n) s = Ret (of_nat k) (s\<lparr>kmem := m\<rparr>) \<and>
    (\<forall>a. m a = (if unat b + n \<le> unat a \<and> unat a < unat b + k
       then pmem s ((f AND PG_ALIGN) + of_nat (p + (unat a - unat b))) else kmem s a))"
  using assms(1,5)
proof (induction "k - n" arbitrary: n s)
  case 0
  then have "copy_loop b (v + of_nat p) sz avail (of_nat n) s = Ret (of_nat k) (s\<lparr>kmem := kmem s\<rparr>)" "n = k"
    using assms(3) copy_done [of sz avail n] by simp_all
  then show ?case by (intro exI [of _ "kmem s"]) auto
next
  case (Suc d)
  let ?c = "pmem s ((f AND PG_ALIGN) + of_nat (p + n))"
  let ?s1 = "s\<lparr>kmem := (kmem s)(b + of_nat n := ?c)\<rparr>"
  have n: "n < k" "p + n < 4096" using Suc.hyps(2) assms(4) by linarith+
  have dk: "d = k - Suc n" "Suc n \<le> k" using Suc.hyps(2) by linarith+
  have e: "v + of_nat p + of_nat n = v + of_nat (p + n)" by simp
  have e2: "of_nat (Suc n) = (of_nat n + 1 :: u32)" by simp
  have w1: "window f v ?s1" using Suc.prems(1) by simp
  have step: "copy_loop b (v + of_nat p) sz avail (of_nat n) s = copy_loop b (v + of_nat p) sz avail (of_nat (Suc n)) ?s1"
    using copy_more [of n sz avail] n(1) assms(3) kbuf_access(2) [OF assms(2) n(1), where s = s] window_access(1) [OF Suc.prems(1) n(2)]
    unfolding e2 by (subst copy_loop.simps) (simp add: e del: of_nat_add)
  obtain m where m: "copy_loop b (v + of_nat p) sz avail (of_nat (Suc n)) ?s1 = Ret (of_nat k) (?s1\<lparr>kmem := m\<rparr>)"
    "\<forall>a. m a = (if unat b + Suc n \<le> unat a \<and> unat a < unat b + k
       then pmem ?s1 ((f AND PG_ALIGN) + of_nat (p + (unat a - unat b))) else kmem ?s1 a)"
    using Suc.hyps(1) [OF dk(1) w1 dk(2)] by blast
  have "m a = (if unat b + n \<le> unat a \<and> unat a < unat b + k
       then pmem s ((f AND PG_ALIGN) + of_nat (p + (unat a - unat b))) else kmem s a)" for a
  proof (cases "a = b + of_nat n")
    case True
    then have "unat a = unat b + n" using kbuf_addr(1) [OF assms(2) n(1)] by simp
    then show ?thesis using m(2) n(1) True by simp
  next
    case False
    then have "unat a \<noteq> unat b + n" using kbuf_addr(1) [OF assms(2) n(1)] by (metis word_unat_eq_iff)
    then show ?thesis using m(2) False by (auto simp: not_less_eq_eq)
  qed
  then show ?case using step m(1) by (intro exI [of _ m]) simp
qed

section \<open>Files as lists of bytes\<close>

text \<open>What the two operations do to the bytes of a file, with no page tables, windows or frames.\<close>

definition write_bytes :: "nat \<Rightarrow> u8 list \<Rightarrow> u8 list \<Rightarrow> u8 list" where
  "write_bytes p bs c = take p c @ bs @ drop (p + length bs) c"

definition read_bytes :: "nat \<Rightarrow> nat \<Rightarrow> u8 list \<Rightarrow> u8 list" where
  "read_bytes p k c = take k (drop p c)"

lemma read_write_bytes: "p + length bs \<le> length c \<Longrightarrow> read_bytes p (length bs) (write_bytes p bs c) = bs"
  by (simp add: read_bytes_def write_bytes_def)

lemma length_contents [simp]: "length (contents s f) = 4096" "length (kbytes s' b k) = k"
  by (simp_all add: contents_def kbytes_def)

lemma nth_contents: "i < 4096 \<Longrightarrow> contents s f ! i = pmem s ((f AND PG_ALIGN) + of_nat i)"
  "i < k \<Longrightarrow> kbytes s' b k ! i = kmem s' (b + of_nat i)"
  by (simp_all add: contents_def kbytes_def)

lemma same_file_contents: "same_file g s s' \<Longrightarrow> contents s' g = contents s g"
  by (rule nth_equalityI) (simp_all add: nth_contents same_file_def frame_addr(2))

lemma contents_cong: "(\<And>a. ADDR_TO_IDX a = ADDR_TO_IDX g \<Longrightarrow> pmem s' a = pmem s a) \<Longrightarrow> contents s' g = contents s g"
  by (rule nth_equalityI) (simp_all add: nth_contents frame_addr(2))

lemma contents_written:
  assumes "p + k \<le> 4096" and "\<And>i. i < 4096 \<Longrightarrow> pmem s' ((f AND PG_ALIGN) + of_nat i) =
      (if p \<le> i \<and> i < p + k then kmem s0 (b + of_nat (i - p)) else pmem s ((f AND PG_ALIGN) + of_nat i))"
  shows "contents s' f = write_bytes p (kbytes s0 b k) (contents s f)"
  using assms by (intro nth_equalityI) (auto simp: nth_contents write_bytes_def nth_append)

text \<open>The states of the layers above the list of areas.\<close>

lemma vmem_more_sels:
  assumes "vmem.more s' = vmem.more s"
  shows "kmem s' = kmem s" "vnodes s' = vnodes s" "ramfs_inodes s' = ramfs_inodes s" "vmm.more s' = vmm.more s"
  using assms by (cases s; cases s'; simp)+

lemma areas_inv_errno: "areas_inv (set_errno e s) xs = areas_inv s xs" "file_frame (set_errno e s) g = file_frame s g"
  "contents (set_errno e s) g = contents s g" "vmem.more (set_errno e s) = vmem.more s"
proof -
  have st: "same_tables s (set_errno e s)" by (simp add: same_tables_def set_errno_def)
  have m: "mmu.more (set_errno e s) = mmu.more s" by (simp add: set_errno_def)
  show "areas_inv (set_errno e s) xs = areas_inv s xs"
    using ureg_ok_cong [of xs "set_errno e s" s] heap_inv_mmu [OF m] same_tables_simps(1) [OF st]
    by (simp add: areas_inv_def page_areas_def astart_def aend_def) (simp add: set_errno_def)
  show "file_frame (set_errno e s) g = file_frame s g" "contents (set_errno e s) g = contents s g"
    using same_tables_simps [OF st] by (simp_all add: contents_def)
  show "vmem.more (set_errno e s) = vmem.more s" by (simp add: set_errno_def)
qed

text \<open>
  \<open>ramfs_file s xs node f\<close>: the node is a regular file of ramfs whose contents are in the frame \<open>f\<close>, and memory is in order.
\<close>

definition ramfs_file :: "'a vfs_scheme \<Rightarrow> ptr list \<Rightarrow> ptr \<Rightarrow> u32 \<Rightarrow> bool" where
  "ramfs_file s xs node f \<longleftrightarrow> areas_inv s xs \<and> file_frame s f \<and>
     (case vnodes s node of None \<Rightarrow> False | Some n \<Rightarrow> v_size n = 4096 \<and> ramfs_inodes s (v_data n) = Some f)"

lemma ramfs_file_errno: "ramfs_file (set_errno e s) xs node f = ramfs_file s xs node f" "kmem (set_errno e s) = kmem s"
  "vmm.more (set_errno e s) = vmm.more s"
proof -
  show "kmem (set_errno e s) = kmem s" "vmm.more (set_errno e s) = vmm.more s" by (simp_all add: set_errno_def)
  have "vnodes (set_errno e s) = vnodes s" "ramfs_inodes (set_errno e s) = ramfs_inodes s" by (simp_all add: set_errno_def)
  then show "ramfs_file (set_errno e s) xs node f = ramfs_file s xs node f" by (simp add: ramfs_file_def areas_inv_errno split: option.split)
qed

lemma count_small:
  assumes "k = unat (min sz (4096 - off))" and "off \<le> (4096 :: u32)"
  shows "unat off + k \<le> 4096" "sint (of_nat k :: u32) = int k"
proof -
  have "unat (4096 - off) = 4096 - unat off" "unat off \<le> 4096" using assms(2) by (simp_all add: unat_sub word_le_nat_alt)
  then show a: "unat off + k \<le> 4096" using assms(1) by (simp add: min_def word_le_nat_alt split: if_splits)
  then show "sint (of_nat k :: u32) = int k" by (simp add: sint_unat unat_of_nat32)
qed

lemma ramfs_write_run:
  assumes rf: "ramfs_file s xs node f" and "kmalloc_fits 20 s" and vm: "vmalloc 4096 ON_DEMAND s = Ret v s1"
    and k: "k = unat (min sz (4096 - off))" "off \<le> 4096" and buf: "kbuf b k"
  shows "\<exists>s'. ramfs_write node off b sz s = Ret (int k) s' \<and> ramfs_file s' xs node f \<and> vmem.more s' = vmem.more s \<and>
    contents s' f = write_bytes (unat off) (kbytes s b k) (contents s f) \<and>
    (\<forall>g. file_frame s g \<longrightarrow> file_frame s' g \<and> (ADDR_TO_IDX g \<noteq> ADDR_TO_IDX f \<longrightarrow> contents s' g = contents s g))"
proof -
  obtain n where n: "vnodes s node = Some n" "v_size n = 4096" "ramfs_inodes s (v_data n) = Some f"
    and inv: "areas_inv s xs" "file_frame s f" using rf by (auto simp: ramfs_file_def split: option.splits)
  obtain x us vs s2 where o: "pg_map f v PG_KERN_PAGE_FLAG s1 = Ret () s2" "xs = us @ vs" "window f v s2" "window_area v x us vs s2"
    "vmem.more s1 = vmem.more s" "vmem.more s2 = vmem.more s" "\<forall>g. file_frame s g \<longrightarrow> same_file g s s2"
    using window_open [OF inv(1) assms(2) inv(2) vm, of PG_KERN_PAGE_FLAG] by auto
  note small = count_small [OF k] and sel1 = vmem_more_sels [OF o(5)] and sel2 = vmem_more_sels [OF o(6)]
  obtain m where m: "copy_loop (v + off) b sz (4096 - off) 0 s2 = Ret (of_nat k) (s2\<lparr>pmem := m\<rparr>)" "window f v (s2\<lparr>pmem := m\<rparr>)"
    "\<forall>g. file_frame (s2\<lparr>pmem := m\<rparr>) g = file_frame s2 g"
    "\<forall>i < 4096. m ((f AND PG_ALIGN) + of_nat i) =
       (if unat off \<le> i \<and> i < unat off + k then kmem s2 (b + of_nat (i - unat off)) else pmem s2 ((f AND PG_ALIGN) + of_nat i))"
    "\<forall>a. ADDR_TO_IDX a \<noteq> ADDR_TO_IDX f \<longrightarrow> m a = pmem s2 a"
    using copy_to_frame [OF o(3) buf k(1) small(1), of 0] by auto
  let ?s3 = "s2\<lparr>pmem := m\<rparr>"
  have "window_area v x us vs ?s3"
    using o(4) ureg_ok_cong [of "us @ x # vs" ?s3 s2] heap_inv_mmu [of ?s3 s2]
    by (simp add: window_area_def page_areas_def astart_def aend_def)
  from window_close [OF m(2) this] obtain r s4 s5 where c: "pg_unmap v ?s3 = Ret r s4" "vfree v s4 = Ret () s5" "areas_inv s5 xs" "vmem.more s5 = vmem.more s2"
    "\<forall>g. file_frame ?s3 g \<longrightarrow> same_file g ?s3 s5"
    using o(2) by auto
  let ?s' = "if of_nat k = (0 :: u32) then set_errno EIO s5 else s5"
  have run: "ramfs_write node off b sz s = Ret (int k) ?s'"
    using n vm sel1 o(1) m(1) c(1,2) small(2) by (simp add: ramfs_write_def load_Some)
  have fr: "file_frame s5 g" "contents s5 g = contents ?s3 g" if "file_frame s g" for g
    using c(5) m(3) o(7) that same_file_contents [of g ?s3 s5] by (auto simp: same_file_def)
  have "contents ?s3 f = write_bytes (unat off) (kbytes s b k) (contents s2 f)"
    using contents_written [OF small(1), of ?s3 f s b s2] m(4) sel2(1) by simp
  moreover have "contents ?s3 g = contents s2 g" if "ADDR_TO_IDX g \<noteq> ADDR_TO_IDX f" for g
    using m(5) that by (intro contents_cong) simp
  moreover have "contents s2 g = contents s g" if "file_frame s g" for g using same_file_contents o(7) that by blast
  moreover have "vmem.more s5 = vmem.more s" using c(4) o(6) by simp
  moreover have "ramfs_file s5 xs node f" using n c(3) fr(1) [OF inv(2)] vmem_more_sels [OF calculation(4)] by (simp add: ramfs_file_def)
  ultimately show ?thesis using run fr inv(2)
    by (intro exI [of _ ?s']) (auto simp: areas_inv_errno ramfs_file_errno)
qed

lemma ramfs_read_run:
  assumes rf: "ramfs_file s xs node f" and "kmalloc_fits 20 s" and vm: "vmalloc 4096 ON_DEMAND s = Ret v s1"
    and k: "k = unat (min sz (4096 - off))" "off \<le> 4096" and buf: "kbuf b k"
  shows "\<exists>s'. ramfs_read node off sz b s = Ret (int k) s' \<and> ramfs_file s' xs node f \<and> vmm.more s' = vmm.more s \<and>
    kbytes s' b k = read_bytes (unat off) k (contents s f) \<and>
    (\<forall>a. unat a < unat b \<or> unat b + k \<le> unat a \<longrightarrow> kmem s' a = kmem s a) \<and>
    (\<forall>g. file_frame s g \<longrightarrow> file_frame s' g \<and> contents s' g = contents s g)"
proof -
  obtain n where n: "vnodes s node = Some n" "v_size n = 4096" "ramfs_inodes s (v_data n) = Some f"
    and inv: "areas_inv s xs" "file_frame s f" using rf by (auto simp: ramfs_file_def split: option.splits)
  obtain x us vs s2 where o: "pg_map f v PG_KERN_PAGE_RO_FLAG s1 = Ret () s2" "xs = us @ vs" "window f v s2" "window_area v x us vs s2"
    "vmem.more s1 = vmem.more s" "vmem.more s2 = vmem.more s" "\<forall>g. file_frame s g \<longrightarrow> same_file g s s2"
    using window_open [OF inv(1) assms(2) inv(2) vm, of PG_KERN_PAGE_RO_FLAG] by auto
  note small = count_small [OF k] and sel1 = vmem_more_sels [OF o(5)] and sel2 = vmem_more_sels [OF o(6)]
  obtain m where m: "copy_loop b (v + off) sz (4096 - off) 0 s2 = Ret (of_nat k) (s2\<lparr>kmem := m\<rparr>)"
    "\<And>a. m a = (if unat b \<le> unat a \<and> unat a < unat b + k
       then pmem s2 ((f AND PG_ALIGN) + of_nat (unat off + (unat a - unat b))) else kmem s2 a)"
    using copy_from_frame [OF o(3) buf k(1) small(1), of 0] by auto
  let ?s3 = "s2\<lparr>kmem := m\<rparr>"
  have "window_area v x us vs ?s3"
    using o(4) ureg_ok_cong [of "us @ x # vs" ?s3 s2] truncated_heap [of ?s3 s2]
    by (simp add: window_area_def page_areas_def astart_def aend_def kheap.truncate_def)
  moreover have "window f v ?s3" using o(3) by simp
  ultimately obtain r s4 s5 where c: "pg_unmap v ?s3 = Ret r s4" "vfree v s4 = Ret () s5" "areas_inv s5 xs"
    "vmem.more s5 = vmem.more ?s3" "\<forall>g. file_frame ?s3 g \<longrightarrow> same_file g ?s3 s5"
    using window_close [of f v ?s3 x us vs] o(2) by blast
  let ?s' = "if of_nat k = (0 :: u32) then set_errno EIO s5 else s5"
  have run: "ramfs_read node off sz b s = Ret (int k) ?s'"
    using n vm sel1 o(1) m(1) c(1,2) small(2) by (simp add: ramfs_read_def load_Some)
  have "contents ?s3 g = contents s2 g" for g by (simp add: contents_def)
  then have fr: "file_frame s5 g" "contents s5 g = contents s g" if "file_frame s g" for g
    using c(5) o(7) that same_file_contents [of g ?s3 s5] same_file_contents [of g s s2] by (auto simp: same_file_def)
  note sel5 = vmem_more_sels [OF c(4)]
  have "kmem s5 (b + of_nat i) = contents s f ! (unat off + i)" if "i < k" for i
    using sel5(1) m(2) [of "b + of_nat i"] kbuf_addr(1) [OF buf that] that small(1) same_file_contents [of f s s2] o(7) inv(2)
      nth_contents(1) [of "unat off + i" s2 f]
    by (simp del: of_nat_add)
  then have "kbytes s5 b k = read_bytes (unat off) k (contents s f)"
    using small(1) by (intro nth_equalityI) (simp_all add: nth_contents read_bytes_def)
  moreover have "kmem s5 a = kmem s a" if "unat a < unat b \<or> unat b + k \<le> unat a" for a using sel5(1) m(2) sel2(1) that by auto
  moreover have "vmm.more s5 = vmm.more s" using sel5(4) sel2(4) by simp
  moreover have "ramfs_file s5 xs node f" using n c(3) fr(1) [OF inv(2)] sel5 sel2 by (simp add: ramfs_file_def)
  ultimately show ?thesis using run fr inv(2)
    by (intro exI [of _ ?s']) (auto simp: areas_inv_errno ramfs_file_errno kbytes_def)
qed


text \<open>What was written at an offset is what a later read at that offset delivers, to whatever buffer.\<close>

lemma ramfs_round_trip:
  assumes "ramfs_file s xs node f" and "kmalloc_fits 20 s" and "vmalloc 4096 ON_DEMAND s = Ret v s1"
    and "off \<le> 4096" and "k = unat (min sz (4096 - off))" and "kbuf b k"
  shows "\<exists>s'. ramfs_write node off b sz s = Ret (int k) s' \<and>
    (\<forall>b' v' t. kmalloc_fits 20 s' \<longrightarrow> vmalloc 4096 ON_DEMAND s' = Ret v' t \<longrightarrow> kbuf b' k \<longrightarrow>
      (\<exists>s''. ramfs_read node off sz b' s' = Ret (int k) s'' \<and> kbytes s'' b' k = kbytes s b k))"
proof -
  obtain s' where w: "ramfs_write node off b sz s = Ret (int k) s'" "ramfs_file s' xs node f"
    "contents s' f = write_bytes (unat off) (kbytes s b k) (contents s f)"
    using ramfs_write_run [OF assms(1-3,5,4,6)] by blast
  have "read_bytes (unat off) k (contents s' f) = kbytes s b k"
    using read_write_bytes [of "unat off" "kbytes s b k" "contents s f"] w(3) count_small(1) [OF assms(5,4)] by simp
  moreover have "\<exists>s''. ramfs_read node off sz b' s' = Ret (int k) s'' \<and> kbytes s'' b' k = read_bytes (unat off) k (contents s' f)"
    if "kmalloc_fits 20 s'" "vmalloc 4096 ON_DEMAND s' = Ret v' t" "kbuf b' k" for b' v' t
    using ramfs_read_run [OF w(2) that(1,2) assms(5,4) that(3)] by blast
  ultimately show ?thesis using w(1) by auto
qed

section \<open>A concrete file\<close>

text \<open>One file, in the reserved frame 3, on the machine of the vmalloc theory.\<close>

definition file_demo :: vfs where
  "file_demo = vmm.extend (vmem.extend vmem_demo \<lparr>kmem = (\<lambda>a. ucast a), regions = Map.empty, aspaces = Map.empty\<rparr>)
     \<lparr>vnodes = [0xc0102000 \<mapsto> zero_node\<lparr>v_type := VFS_FILE, v_size := 4096, v_op := ramfs_file_ops, v_data := 0xc0103000\<rparr>],
      tree_root = 0, ramfs_inodes = [0xc0103000 \<mapsto> 0x3000], tar_inodes = Map.empty, devdir = 0, dev_zero = 0,
      dev_stdin = 0, dev_stdout = 0, fds = Map.empty, first_fd = 0\<rparr>"

lemmas file_demo_simps = file_demo_def vmm.extend_def vmem.extend_def

lemma file_demo_sels:
  "slot file_demo = slot mmu_demo" "cr3 file_demo = cr3 mmu_demo" "free_set file_demo = free_set mmu_demo" "pmm_inv file_demo = pmm_inv mmu_demo"
  "uregs file_demo = uregs vmem_demo" "ureg_first file_demo = ureg_first vmem_demo" "ureg_last file_demo = ureg_last vmem_demo"
  "chunks file_demo = chunks vmem_demo" "void_chunk file_demo = void_chunk vmem_demo"
  by (simp_all add: slot_def fun_eq_iff free_set_def pmm_inv_def file_demo_simps vmem_demo_simps)

lemma file_demo_mmu: "pg_inv file_demo" "file_frame file_demo 0x3000"
proof -
  have "pg_inv file_demo = pg_inv mmu_demo" by (simp add: pg_inv_def recursive_pd_def tables_ok_def file_demo_sels)
  then show "pg_inv file_demo" using pg_inv_demo by simp
  have "slot mmu_demo i = (if i = 0 then 0x2003 else 0)" if "i < 1022" for i using demo_slot [of i] less_1022 [OF that] by simp
  moreover have "cr3 mmu_demo = 0x1000" by (simp add: mmu_demo_def)
  ultimately show "file_frame file_demo 0x3000"
    by (simp add: file_frame_def file_demo_sels demo_pmm free_set_demo ADDR_TO_IDX_def)
qed

lemma file_demo_heap: "heap_inv file_demo" "kmalloc_fits 20 file_demo" "dom (uregs file_demo) \<subseteq> live file_demo" "ureg_ok file_demo [0xc0101008]"
proof -
  have "bins file_demo = bins vmem_demo" "is_initialized file_demo = is_initialized vmem_demo" "kernel_end file_demo = kernel_end vmem_demo"
    by (simp_all add: file_demo_simps)
  then have "heap_inv file_demo = heap_inv vmem_demo" "live file_demo = live vmem_demo" "heap_end file_demo = heap_end vmem_demo"
    by (simp_all add: heap_inv_def heap_ok_def sizebin_ok_def sortedbin_ok_def heap_start_def live_def heap_end_def file_demo_sels)
  then show "heap_inv file_demo" "kmalloc_fits 20 file_demo" "dom (uregs file_demo) \<subseteq> live file_demo"
    using vmem_demo_heap by (simp_all add: kmalloc_fits_def file_demo_sels)
  show "ureg_ok file_demo [0xc0101008]" by (simp add: ureg_ok_def dlist_def astart_def aend_def file_demo_simps vmem_demo_def kheap.extend_def)
qed

lemma file_demo_file: "ramfs_file file_demo [0xc0101008] 0xc0102000 0x3000"
proof -
  have "page_areas file_demo [0xc0101008]" by (simp add: page_areas_def astart_def aend_def file_demo_simps vmem_demo_def kheap.extend_def)
  then show ?thesis using file_demo_mmu file_demo_heap by (simp add: ramfs_file_def areas_inv_def) (simp add: file_demo_simps)
qed

lemma file_demo_vmalloc: "\<exists>v t. vmalloc 4096 ON_DEMAND file_demo = Ret v t"
proof (rule vmalloc_returns [OF file_demo_heap(4) _ file_demo_heap(1-3) file_demo_mmu(1), of "[]" "[0xc0101008]"])
  show "\<exists>a t. pmm_get_frame file_demo = Ret a t"
    using pmm_get_frame_two_calls [of file_demo 2] file_demo_mmu(1)
    by (simp add: pmm_get_frame_def file_demo_simps vmem_demo_simps mmu_demo_def scan_free.simps bit_get_def IDX_TO_ADDR_def pg_inv_def)
  show "unat (page_round 4096) \<le> gap file_demo [] [0xc0101008]"
    by (simp add: page_round_def gap_def from_start_def astart_def file_demo_simps vmem_demo_def kheap.extend_def)
qed (simp_all add: page_round_def file_demo_simps vmem_demo_simps align_request_def)


end
