(* ===== verification/Tasks.thy ===== *)
theory Tasks
  imports Filesystems
begin

text \<open>
  Tasks: the control block of \<^verbatim>\<open>include/kernel/task.h\<close>, the run queues of \<^verbatim>\<open>kernel/cpu/scheduler.c\<close>, the
  task tree and the switches of \<^verbatim>\<open>kernel/cpu/task.c\<close>, signals (\<^verbatim>\<open>kernel/ipc/signal.c\<close>), closing of file
  descriptors and the system calls \<^verbatim>\<open>exit\<close>, \<^verbatim>\<open>fork\<close>, \<^verbatim>\<open>waitpid\<close>, \<^verbatim>\<open>getpid\<close> and \<^verbatim>\<open>getppid\<close>.

  A task switch does not return: \<^verbatim>\<open>context_switch\<close> ends with \<^verbatim>\<open>iret\<close>. Switching, signal handling,
  destroying and exiting call each other; the definitions count the nested calls down. An access to
  a control block after \<^verbatim>\<open>kfree\<close> is an access to no object.
\<close>

section \<open>Control blocks\<close>

datatype task_state = READY | RUNNING | WAITING | ZOMBIE
datatype task_priority = USER | OS

text \<open>The order of the enumerators, which \<^verbatim>\<open>>\<close> compares in C.\<close>

instantiation task_priority :: linorder
begin

definition less_eq_task_priority :: "task_priority \<Rightarrow> task_priority \<Rightarrow> bool" where
  "less_eq_task_priority a b \<longleftrightarrow> a = b \<or> (a = USER \<and> b = OS)"

definition less_task_priority :: "task_priority \<Rightarrow> task_priority \<Rightarrow> bool" where
  "less_task_priority a b \<longleftrightarrow> a = USER \<and> b = OS"

instance
proof
  fix a b :: task_priority
  show "a \<le> b \<or> b \<le> a" by (cases a; cases b) (simp_all add: less_eq_task_priority_def)
qed (auto simp: less_eq_task_priority_def less_task_priority_def)

end


record task_regs =
  eax :: u32
  ebx :: u32
  ecx :: u32
  edx :: u32
  esi :: u32
  edi :: u32
  esp :: u32
  ebp :: u32
  eip :: u32
  eflags :: u32
  reg_cr3 :: u32
  reg_ds :: u32
  reg_cs :: u32

record tcb =
  task_id :: u32
  kernel_stack :: u32
  exit_code :: u32
  fd_ctr :: u32
  used_fd :: "ptr list"
  sig_mask :: u32
  sig_current :: u32
  wait4 :: ptr
  t_parent :: ptr
  t_first :: ptr
  t_last :: ptr
  t_psib :: ptr
  t_nsib :: ptr
  t_state :: task_state
  t_prio :: task_priority
  t_next :: ptr
  t_prev :: ptr
  t_regs :: task_regs
  t_aspace :: ptr

record queue =
  q_counter :: u32
  q_first :: ptr
  q_last :: ptr

text \<open>
  \<open>pic1_mask\<close> and \<open>pic2_mask\<close> are the mask registers behind the data ports of the interrupt controllers,
  \<open>esp0\<close> the kernel stack in the task state segment. \<open>idle\<close> says that the kernel waits in the loop of
  \<^verbatim>\<open>task_switch\<close> for an interrupt.
\<close>

record sched = vfs +
  tcbs :: "ptr \<rightharpoonup> tcb"
  actual_task :: ptr
  kernel_task :: ptr
  next_to_run :: ptr
  os_q :: queue
  user_q :: queue
  sleep_q :: queue
  total_tasks :: u32
  running_tasks :: u32
  sleeping_tasks :: u32
  old_tid :: u32
  task_tree_root :: ptr
  pic1_mask :: u8
  pic2_mask :: u8
  esp0 :: u32
  idle :: bool

abbreviation (input) MAX_FDS :: nat where "MAX_FDS \<equiv> 256"
abbreviation (input) MAX_TID :: u32 where "MAX_TID \<equiv> 0xffffffff"
abbreviation (input) SIGKILL :: u32 where "SIGKILL \<equiv> 1"
abbreviation (input) SIGSEGV :: u32 where "SIGSEGV \<equiv> 2"
abbreviation (input) SIGCHLD :: u32 where "SIGCHLD \<equiv> 4"
abbreviation (input) ESRCH :: u32 where "ESRCH \<equiv> 3"
abbreviation (input) IRQ0 :: u16 where "IRQ0 \<equiv> 32"

abbreviation (input) get_task :: "ptr \<Rightarrow> 'a sched_scheme \<Rightarrow> (tcb, 'a sched_scheme) res" where
  "get_task p s \<equiv> load tcbs p s"
abbreviation (input) set_task :: "ptr \<Rightarrow> (tcb \<Rightarrow> tcb) \<Rightarrow> 'a sched_scheme \<Rightarrow> (unit, 'a sched_scheme) res" where
  "set_task p f s \<equiv> modify tcbs tcbs_update p f s"

section \<open>Run queues\<close>

datatype queue_id = Os_q | User_q | Sleep_q

fun queue_of :: "queue_id \<Rightarrow> 'a sched_scheme \<Rightarrow> queue" where
  "queue_of Os_q s = os_q s"
| "queue_of User_q s = user_q s"
| "queue_of Sleep_q s = sleep_q s"

fun upd_queue :: "queue_id \<Rightarrow> (queue \<Rightarrow> queue) \<Rightarrow> 'a sched_scheme \<Rightarrow> 'a sched_scheme" where
  "upd_queue Os_q f s = os_q_update f s"
| "upd_queue User_q f s = user_q_update f s"
| "upd_queue Sleep_q f s = sleep_q_update f s"

definition set_queue :: "tcb \<Rightarrow> queue_id" where
  "set_queue t = (if t_state t = WAITING then Sleep_q else if t_prio t = OS then Os_q else User_q)"

definition queue_scan :: "u32 \<Rightarrow> ptr \<Rightarrow> 'a sched_scheme \<Rightarrow> (ptr + ptr, 'a sched_scheme) res" where
  "queue_scan tid tmp s =
     (if tmp = NULL then Ret (Inl NULL) s
      else bindR (get_task tmp s) (\<lambda>t s.
        if task_id t = tid then Ret (Inl tmp) s else Ret (Inr (t_next t)) s))"

definition find_in_queue :: "u32 \<Rightarrow> queue_id \<Rightarrow> 'a sched_scheme \<Rightarrow> (ptr, 'a sched_scheme) res" where
  "find_in_queue tid q s = chase {} (queue_scan tid) (q_first (queue_of q s)) s"

definition add_to_queue :: "ptr \<Rightarrow> 'a sched_scheme \<Rightarrow> (unit, 'a sched_scheme) res" where
  "add_to_queue p s =
     bindR (get_task p s) (\<lambda>t s.
     let q = set_queue t in
     bindR (if q_first (queue_of q s) = NULL then
              set_task p (t_prev_update (\<lambda>_. NULL)) (upd_queue q (q_first_update (\<lambda>_. p)) s)
            else
              bindR (set_task p (t_prev_update (\<lambda>_. q_last (queue_of q s))) s) (\<lambda>_ s.
              set_task (q_last (queue_of q s)) (t_next_update (\<lambda>_. p)) s)) (\<lambda>_ s.
     bindR (set_task p (t_next_update (\<lambda>_. NULL)) s) (\<lambda>_ s.
     Ret () (upd_queue q (\<lambda>x. x\<lparr>q_last := p, q_counter := q_counter x + 1\<rparr>) s))))"

definition remove_from_queue :: "ptr \<Rightarrow> 'a sched_scheme \<Rightarrow> (unit, 'a sched_scheme) res" where
  "remove_from_queue p s =
     bindR (get_task p s) (\<lambda>t s.
     let q = set_queue t in
     bindR (if q_first (queue_of q s) = p then
              (let s = upd_queue q (q_first_update (\<lambda>_. t_next t)) s in
               if t_next t \<noteq> NULL then set_task (t_next t) (t_prev_update (\<lambda>_. NULL)) s else Ret () s)
            else if q_last (queue_of q s) = p then
              (let s = upd_queue q (q_last_update (\<lambda>_. t_prev t)) s in
               set_task (t_prev t) (t_next_update (\<lambda>_. NULL)) s)
            else
              bindR (set_task (t_prev t) (t_next_update (\<lambda>_. t_next t)) s) (\<lambda>_ s.
              bindR (get_task p s) (\<lambda>t s. set_task (t_next t) (t_prev_update (\<lambda>_. t_prev t)) s))) (\<lambda>_ s.
     bindR (set_task p (\<lambda>t. t\<lparr>t_prev := NULL, t_next := NULL\<rparr>) s) (\<lambda>_ s.
     Ret () (upd_queue q (q_counter_update (\<lambda>n. n - 1)) s))))"

definition sched_get_tcb :: "u32 \<Rightarrow> 'a sched_scheme \<Rightarrow> (ptr, 'a sched_scheme) res" where
  "sched_get_tcb tid s =
     bindR (find_in_queue tid Sleep_q s) (\<lambda>t s.
     if t \<noteq> NULL then Ret t s
     else
       bindR (find_in_queue tid Os_q s) (\<lambda>t s.
       if t \<noteq> NULL then Ret t s
       else
         bindR (find_in_queue tid User_q s) (\<lambda>t s.
         if t \<noteq> NULL then Ret t s else Ret NULL s)))"

definition sched_get_next_task :: "'a sched_scheme \<Rightarrow> (ptr, 'a sched_scheme) res" where
  "sched_get_next_task s =
     (if q_counter (os_q s) > 0 then
        bindR (if next_to_run s \<noteq> NULL then bindR (get_task (next_to_run s) s) (\<lambda>t s. Ret (t_prio t = OS) s)
               else Ret False s) (\<lambda>resume s.
        if resume then Ret (next_to_run s) (s\<lparr>next_to_run := NULL\<rparr>)
        else Ret (q_first (os_q s)) s)
      else if q_counter (user_q s) > 0 then
        if next_to_run s \<noteq> NULL then Ret (next_to_run s) (s\<lparr>next_to_run := NULL\<rparr>)
        else Ret (q_first (user_q s)) s
      else Ret (kernel_task s) s)"

definition sched_remove :: "ptr \<Rightarrow> 'a sched_scheme \<Rightarrow> (unit, 'a sched_scheme) res" where
  "sched_remove p s =
     (let s = s\<lparr>total_tasks := total_tasks s - 1\<rparr> in
      bindR (get_task p s) (\<lambda>t s.
      if t_state t = ZOMBIE then Ret () s
      else
        remove_from_queue p
          (if t_state t = RUNNING \<or> t_state t = READY then s\<lparr>running_tasks := running_tasks s - 1\<rparr>
           else s\<lparr>sleeping_tasks := sleeping_tasks s - 1\<rparr>)))"

section \<open>The task tree\<close>

definition get_tid :: "'a sched_scheme \<Rightarrow> (u32, 'a sched_scheme) res" where
  "get_tid s =
     (if old_tid s = MAX_TID then Panic ''[ERROR] End of tasks ID's!''
      else Ret (old_tid s + 1) (s\<lparr>old_tid := old_tid s + 1\<rparr>))"

definition add_child :: "ptr \<Rightarrow> ptr \<Rightarrow> 'a sched_scheme \<Rightarrow> (unit, 'a sched_scheme) res" where
  "add_child parent child s =
     bindR (get_task parent s) (\<lambda>p s.
     if t_first p = NULL then
       bindR (set_task child (\<lambda>c. c\<lparr>t_psib := NULL, t_nsib := NULL\<rparr>) s) (\<lambda>_ s.
       set_task parent (\<lambda>p. p\<lparr>t_first := child, t_last := child\<rparr>) s)
     else
       bindR (set_task (t_last p) (t_nsib_update (\<lambda>_. child)) s) (\<lambda>_ s.
       bindR (set_task child (t_psib_update (\<lambda>_. t_last p)) s) (\<lambda>_ s.
       bindR (set_task child (t_nsib_update (\<lambda>_. NULL)) s) (\<lambda>_ s.
       set_task parent (t_last_update (\<lambda>_. child)) s))))"

definition remove_child :: "ptr \<Rightarrow> 'a sched_scheme \<Rightarrow> (unit, 'a sched_scheme) res" where
  "remove_child child s =
     bindR (get_task child s) (\<lambda>c s.
     if task_id c = 1 then Panic ''[ERROR] Tried to kill init task''
     else
       bindR (if t_psib c = NULL then
                bindR (set_task (t_parent c) (t_first_update (\<lambda>_. t_nsib c)) s) (\<lambda>_ s.
                if t_nsib c \<noteq> NULL then
                  bindR (set_task (t_nsib c) (t_psib_update (\<lambda>_. NULL)) s) (\<lambda>_ s. Ret True s)
                else Ret False s)
              else Ret False s) (\<lambda>done s.
       if done then Ret () s
       else
         bindR (get_task child s) (\<lambda>c s.
         if t_nsib c = NULL then
           bindR (set_task (t_parent c) (t_last_update (\<lambda>_. t_psib c)) s) (\<lambda>_ s.
           if t_psib c \<noteq> NULL then set_task (t_psib c) (t_nsib_update (\<lambda>_. NULL)) s else Ret () s)
         else
           bindR (set_task (t_psib c) (t_nsib_update (\<lambda>_. t_nsib c)) s) (\<lambda>_ s.
           bindR (get_task child s) (\<lambda>c s. set_task (t_nsib c) (t_psib_update (\<lambda>_. t_psib c)) s)))))"

definition zero_regs :: task_regs where
  "zero_regs = \<lparr>eax = 0, ebx = 0, ecx = 0, edx = 0, esi = 0, edi = 0, esp = 0, ebp = 0, eip = 0, eflags = 0, reg_cr3 = 0,
     reg_ds = 0, reg_cs = 0\<rparr>"

definition zero_tcb :: tcb where
  "zero_tcb = \<lparr>task_id = 0, kernel_stack = 0, exit_code = 0, fd_ctr = 0, used_fd = replicate MAX_FDS NULL, sig_mask = 0,
     sig_current = 0, wait4 = NULL, t_parent = NULL, t_first = NULL, t_last = NULL, t_psib = NULL, t_nsib = NULL,
     t_state = READY, t_prio = USER, t_next = NULL, t_prev = NULL, t_regs = zero_regs, t_aspace = NULL\<rparr>"

definition task_new :: "task_priority \<Rightarrow> ptr \<Rightarrow> 'a sched_scheme \<Rightarrow> (ptr, 'a sched_scheme) res" where
  "task_new prio aspace s =
     bindR (kmalloc 1144 s) (\<lambda>new s.
     let s = s\<lparr>tcbs := (tcbs s)(new \<mapsto> zero_tcb)\<rparr> in
     bindR (get_tid s) (\<lambda>tid s.
     bindR (set_task new (task_id_update (\<lambda>_. tid)) s) (\<lambda>_ s.
     bindR (vmalloc 4096 MAPPED s) (\<lambda>stack s.
     bindR (get_as aspace s) (\<lambda>a s.
     bindR (set_task new (\<lambda>t. t\<lparr>kernel_stack := stack + 0x1000, t_prio := prio,
       t_regs := (t_regs t)\<lparr>reg_cr3 := as_pd a\<rparr>, t_aspace := aspace\<rparr>) s) (\<lambda>_ s.
     if task_tree_root s = NULL then
       bindR (set_task new (t_parent_update (\<lambda>_. NULL)) s) (\<lambda>_ s. Ret new (s\<lparr>task_tree_root := new\<rparr>))
     else
       bindR (set_task new (t_parent_update (\<lambda>_. actual_task s)) s) (\<lambda>_ s.
       bindR (add_child (actual_task s) new s) (\<lambda>_ s. Ret new s))))))))"

section \<open>Closing a file descriptor\<close>

definition fd_slot :: "tcb \<Rightarrow> int \<Rightarrow> 's \<Rightarrow> (ptr, 's) res" where
  "fd_slot t fd s =
     (if 0 \<le> fd \<and> fd < int (length (used_fd t)) then Ret (used_fd t ! nat fd) s else Fault NULL)"

definition do_close :: "ptr \<Rightarrow> int \<Rightarrow> 'a sched_scheme \<Rightarrow> (int, 'a sched_scheme) res" where
  "do_close t fd s =
     bindR (get_task t s) (\<lambda>tcb s.
     bindR (fd_slot tcb fd s) (\<lambda>fd_ptr s.
     if fd_ptr = NULL then Ret (- 1) (set_errno EBADF s)
     else
       bindR (get_task (kernel_task s) s) (\<lambda>k s.
       bindR (fd_slot k fd s) (\<lambda>std s.
       if fd_ptr = std then
         bindR (set_task t (fd_ctr_update (\<lambda>n. n - 1)) s) (\<lambda>_ s. Ret 0 s)
       else
         bindR (get_fd fd_ptr s) (\<lambda>f s.
         bindR (vfs_close (fd_vnode f) s) (\<lambda>r s.
         if r < 0 then Ret (- 1) s
         else
           bindR (fd_remove fd_ptr s) (\<lambda>_ s.
           bindR (set_task t (\<lambda>x. x\<lparr>used_fd := (used_fd x)[nat fd := NULL], fd_ctr := fd_ctr x - 1\<rparr>) s) (\<lambda>_ s.
           bindR (kfree fd_ptr (s\<lparr>fds := (fds s)(fd_ptr := None)\<rparr>)) (\<lambda>_ s. Ret 0 s)))))))))"

definition close :: "int \<Rightarrow> 'a sched_scheme \<Rightarrow> (int, 'a sched_scheme) res" where
  "close fd s = do_close (actual_task s) fd s"

section \<open>Switching, signals and the end of a task\<close>

text \<open>
  \<^verbatim>\<open>tss_set_stack\<close> and the load of \<^verbatim>\<open>CR3\<close>; then \<^verbatim>\<open>iret\<close> leaves the kernel with the saved registers.
\<close>

definition tss_set_stack :: "u32 \<Rightarrow> 'a sched_scheme \<Rightarrow> 'a sched_scheme" where
  "tss_set_stack stack s = s\<lparr>esp0 := stack\<rparr>"

definition context_switch :: "task_regs \<Rightarrow> u32 \<Rightarrow> 'a sched_scheme \<Rightarrow> (unit, 'a sched_scheme) res" where
  "context_switch regs kern_stack s = Iret ((tss_set_stack kern_stack s)\<lparr>cr3 := reg_cr3 regs\<rparr>)"

definition irq_set_int :: "u16 \<Rightarrow> bool \<Rightarrow> 'a sched_scheme \<Rightarrow> 'a sched_scheme" where
  "irq_set_int number m s =
     (let number = number AND 0x0f in
      if number < 8 then
        s\<lparr>pic1_mask := (if m then pic1_mask s OR push_bit (unat number) 1
                         else pic1_mask s AND NOT (push_bit (unat number) 1))\<rparr>
      else
        let number = number - 8 in
        s\<lparr>pic2_mask := (if m then pic2_mask s OR push_bit (unat number) 1
                         else pic2_mask s AND NOT (push_bit (unat number) 1))\<rparr>)"

text \<open>
  All recursion between these functions passes through \<^verbatim>\<open>do_exit\<close>. The functions that reach it take
  it as the argument \<open>kill\<close>; \<open>do_exit\<close> below ties the knot and counts its nested calls.
\<close>

type_synonym 'a killer = "ptr \<Rightarrow> u32 \<Rightarrow> 'a sched_scheme \<Rightarrow> (unit, 'a sched_scheme) res"

text \<open>The loop over the children; one that came back to a child would read a released object.\<close>

function kill_children :: "ptr set \<Rightarrow> 'a killer \<Rightarrow> ptr \<Rightarrow> 'a sched_scheme \<Rightarrow> (unit, 'a sched_scheme) res" where
  "kill_children V kill tmp s =
     (if tmp = NULL then Ret () s
      else if tmp \<in> V then Fault tmp
      else
        bindR (get_task tmp s) (\<lambda>t s.
        bindR (kill tmp SIGKILL s) (\<lambda>_ s.
        kill_children (insert tmp V) kill (t_nsib t) s)))"
  by pat_completeness auto
termination
  by (relation "measure (\<lambda>(V, _). card (- V))") (auto intro!: psubset_card_mono)

declare kill_children.simps [simp del]

definition task_destroy :: "'a killer \<Rightarrow> ptr \<Rightarrow> 'a sched_scheme \<Rightarrow> (unit, 'a sched_scheme) res" where
  "task_destroy kill tcb s =
     bindR (get_task tcb s) (\<lambda>t s.
     bindR (kill_children {} kill (t_first t) s) (\<lambda>_ s.
     bindR (remove_child tcb s) (\<lambda>_ s.
     bindR (get_task tcb s) (\<lambda>t s.
     bindR (vfree (kernel_stack t - 0x1000) s) (\<lambda>_ s.
     bindR (get_task tcb s) (\<lambda>t s.
     bindR (vmm_aspace_destroy (t_aspace t) s) (\<lambda>_ s.
     bindR (get_task tcb s) (\<lambda>t s.
     kfree tcb ((pg_destroy_directory (reg_cr3 (t_regs t)) s)\<lparr>tcbs := (tcbs s)(tcb := None)\<rparr>)))))))))"

definition sig_handler :: "'a killer \<Rightarrow> ptr \<Rightarrow> 'a sched_scheme \<Rightarrow> (unit, 'a sched_scheme) res" where
  "sig_handler kill p s =
     bindR (get_task p s) (\<lambda>t s.
     if sig_current t AND SIGCHLD \<noteq> 0 then
       bindR (get_task (wait4 t) s) (\<lambda>c s.
       bindR (set_task p (\<lambda>t. t\<lparr>t_regs := (t_regs t)\<lparr>eax := exit_code c\<rparr>\<rparr>) s) (\<lambda>_ s.
       bindR (task_destroy kill (wait4 t) s) (\<lambda>_ s.
       set_task p (\<lambda>t. t\<lparr>sig_mask := sig_mask t XOR SIGCHLD, sig_current := sig_current t XOR SIGCHLD\<rparr>) s)))
     else Ret () s)"

definition task_switch_to :: "'a killer \<Rightarrow> ptr \<Rightarrow> 'a sched_scheme \<Rightarrow> (unit, 'a sched_scheme) res" where
  "task_switch_to kill task s =
     bindR (get_task (actual_task s) s) (\<lambda>a s.
     bindR (if t_state a = RUNNING then set_task (actual_task s) (t_state_update (\<lambda>_. READY)) s else Ret () s) (\<lambda>_ s.
     bindR (set_task task (t_state_update (\<lambda>_. RUNNING)) s) (\<lambda>_ s.
     bindR (sig_handler kill task s) (\<lambda>_ s.
     let s = s\<lparr>actual_task := task\<rparr> in
     bindR (get_task task s) (\<lambda>t s.
     if task_id t = 0 then Panic ''[DEBUG] End of all tasks''
     else context_switch (t_regs t) (kernel_stack t) s)))))"

definition preempt :: "'a killer \<Rightarrow> ptr \<Rightarrow> 'a sched_scheme \<Rightarrow> (unit, 'a sched_scheme) res" where
  "preempt kill tcb s =
     bindR (get_task tcb s) (\<lambda>t s.
     if t_state t = READY then
       bindR (get_task (actual_task s) s) (\<lambda>a s.
       if t_prio t > t_prio a then task_switch_to kill tcb (s\<lparr>next_to_run := t_next a\<rparr>)
       else Ret () s)
     else Ret () s)"

definition sched_set_state :: "'a killer \<Rightarrow> u32 \<Rightarrow> bool \<Rightarrow> 'a sched_scheme \<Rightarrow> (unit, 'a sched_scheme) res" where
  "sched_set_state kill tid mode s =
     bindR (sched_get_tcb tid s) (\<lambda>tcb s.
     bindR (get_task tcb s) (\<lambda>t s.
     if (t_state t = READY \<or> t_state t = RUNNING) \<and> mode then Ret () s
     else if t_state t = WAITING \<and> \<not> mode then Ret () s
     else
       bindR (remove_from_queue tcb s) (\<lambda>_ s.
       bindR (if mode then
                bindR (set_task tcb (t_state_update (\<lambda>_. READY)) s) (\<lambda>_ s.
                Ret () (s\<lparr>running_tasks := running_tasks s + 1, sleeping_tasks := sleeping_tasks s - 1\<rparr>))
              else
                bindR (set_task tcb (t_state_update (\<lambda>_. WAITING)) s) (\<lambda>_ s.
                Ret () (s\<lparr>running_tasks := running_tasks s - 1, sleeping_tasks := sleeping_tasks s + 1\<rparr>))) (\<lambda>_ s.
       bindR (add_to_queue tcb s) (\<lambda>_ s.
       preempt kill tcb s)))))"

definition sched_add_task :: "'a killer \<Rightarrow> ptr \<Rightarrow> 'a sched_scheme \<Rightarrow> (unit, 'a sched_scheme) res" where
  "sched_add_task kill tcb s =
     bindR (set_task tcb (t_state_update (\<lambda>_. READY)) s) (\<lambda>_ s.
     bindR (add_to_queue tcb (s\<lparr>total_tasks := total_tasks s + 1, running_tasks := running_tasks s + 1\<rparr>)) (\<lambda>_ s.
     bindR (get_task tcb s) (\<lambda>t s.
     bindR (get_task (actual_task s) s) (\<lambda>a s.
     if t_prio t > t_prio a then task_switch_to kill tcb (s\<lparr>next_to_run := t_next a\<rparr>)
     else Ret () s))))"

definition sig_send :: "'a killer \<Rightarrow> ptr \<Rightarrow> u32 \<Rightarrow> 'a sched_scheme \<Rightarrow> (int, 'a sched_scheme) res" where
  "sig_send kill dst signal s =
     bindR (get_task dst s) (\<lambda>d s.
     if sig_mask d AND signal = 0 then Ret 0 s
     else if signal = SIGKILL then bindR (kill dst 143 s) (\<lambda>_ s. Ret 0 s)
     else if signal = SIGSEGV then bindR (kill dst 139 s) (\<lambda>_ s. Ret 0 s)
     else if signal = SIGCHLD then
       bindR (set_task dst (sig_current_update (\<lambda>c. c OR signal)) s) (\<lambda>_ s. Ret 0 s)
     else Ret (- 1) (set_errno EINVAL s))"

text \<open>The loop of \<^verbatim>\<open>do_exit\<close> over the descriptors stops when the counter is zero.\<close>

definition close_used :: "ptr \<Rightarrow> nat \<Rightarrow> 'a sched_scheme \<Rightarrow> (unit, 'a sched_scheme) res" where
  "close_used t fd s =
     bindR (get_task t s) (\<lambda>tcb s.
     if fd_ctr tcb > 0 then
       bindR (fd_slot tcb (int fd) s) (\<lambda>p s.
       if p \<noteq> NULL then bindR (do_close t (int fd) s) (\<lambda>_ s. Ret () s) else Ret () s)
     else Ret () s)"

definition switch_to_next :: "'a killer \<Rightarrow> 'a sched_scheme \<Rightarrow> (unit, 'a sched_scheme) res" where
  "switch_to_next kill s = bindR (sched_get_next_task s) (\<lambda>n s. task_switch_to kill n s)"

fun do_exit :: "nat \<Rightarrow> ptr \<Rightarrow> u32 \<Rightarrow> 'a sched_scheme \<Rightarrow> (unit, 'a sched_scheme) res" where
  "do_exit 0 t status s = Timeout"
| "do_exit (Suc n) t status s =
     bindR (get_task t s) (\<lambda>tcb s.
     let parent = t_parent tcb in
     bindR (sched_remove t s) (\<lambda>_ s.
     bindR (set_task t (exit_code_update (\<lambda>_. status)) s) (\<lambda>_ s.
     bindR (if task_id tcb = 1 then switch_to_next (do_exit n) s else Ret () s) (\<lambda>_ s.
     bindR (for_each [0..<MAX_FDS] (close_used t) s) (\<lambda>_ s.
     bindR (get_task parent s) (\<lambda>p s.
     bindR (if wait4 p \<noteq> NULL then bindR (get_task (wait4 p) s) (\<lambda>w s. Ret (task_id w = task_id tcb) s)
            else Ret False s) (\<lambda>awaited s.
     if awaited then
       bindR (set_task t (t_state_update (\<lambda>_. ZOMBIE)) s) (\<lambda>_ s.
       bindR (sig_send (do_exit n) parent SIGCHLD s) (\<lambda>_ s.
       bindR (get_task parent s) (\<lambda>p s.
       bindR (sched_set_state (do_exit n) (task_id p) True s) (\<lambda>_ s.
       bindR (get_task (kernel_task s) s) (\<lambda>_ s. switch_to_next (do_exit n) s)))))
     else
       bindR (get_task (kernel_task s) s) (\<lambda>_ s.
       bindR (task_destroy (do_exit n) t s) (\<lambda>_ s.
       switch_to_next (do_exit n) s)))))))))"

definition exit :: "nat \<Rightarrow> u32 \<Rightarrow> 'a sched_scheme \<Rightarrow> (unit, 'a sched_scheme) res" where
  "exit n status s = do_exit n (actual_task s) status s"

section \<open>The scheduler loop\<close>

text \<open>
  When no task can run, \<^verbatim>\<open>task_switch\<close> masks the timer and waits for interrupts. In the model it
  returns as \<open>Iret\<close> with \<open>idle\<close> set; \<open>idle_step\<close> is one round of the waiting loop.
\<close>

fun task_switch :: "'a killer \<Rightarrow> nat \<Rightarrow> 'a sched_scheme \<Rightarrow> (unit, 'a sched_scheme) res" where
  "task_switch kill 0 s = Timeout"
| "task_switch kill (Suc n) s =
     bindR (get_task (actual_task s) s) (\<lambda>a s.
     bindR (if t_state a = RUNNING then set_task (actual_task s) (t_state_update (\<lambda>_. READY)) s else Ret () s) (\<lambda>_ s.
     bindR (if t_next a = NULL then
              bindR (sched_get_next_task s) (\<lambda>next s. if next = kernel_task s then Ret None s else Ret (Some next) s)
            else Ret (Some (t_next a)) s) (\<lambda>found s.
     case found of
       None \<Rightarrow>
         (let s = irq_set_int IRQ0 True s in
          if running_tasks s > 0 then task_switch kill n (irq_set_int IRQ0 False s)
          else Iret (s\<lparr>idle := True\<rparr>))
     | Some next \<Rightarrow>
         bindR (set_task next (t_state_update (\<lambda>_. RUNNING)) s) (\<lambda>_ s.
         bindR (sig_handler kill next s) (\<lambda>_ s.
         let s = s\<lparr>actual_task := next\<rparr> in
         bindR (get_task next s) (\<lambda>t s. context_switch (t_regs t) (kernel_stack t) s))))))"

definition idle_step :: "'a killer \<Rightarrow> nat \<Rightarrow> 'a sched_scheme \<Rightarrow> (unit, 'a sched_scheme) res" where
  "idle_step kill n s =
     (if running_tasks s > 0 then task_switch kill n (irq_set_int IRQ0 False (s\<lparr>idle := False\<rparr>))
      else Iret s)"

text \<open>
  The kernel task is not cleared: its other fields are what \<^verbatim>\<open>kmalloc\<close> left there. Its \<^verbatim>\<open>state\<close> is only
  ever compared with \<^verbatim>\<open>RUNNING\<close>.
\<close>

definition raw_regs :: "ptr \<Rightarrow> 'a kheap_scheme \<Rightarrow> task_regs" where
  "raw_regs p s =
     \<lparr>eax = stale s p, ebx = stale s (p + 4), ecx = stale s (p + 8), edx = stale s (p + 12), esi = stale s (p + 16),
      edi = stale s (p + 20), esp = stale s (p + 24), ebp = stale s (p + 28), eip = stale s (p + 32),
      eflags = stale s (p + 36), reg_cr3 = stale s (p + 40), reg_ds = stale s (p + 44), reg_cs = stale s (p + 48)\<rparr>"

definition raw_tcb :: "ptr \<Rightarrow> 'a kheap_scheme \<Rightarrow> tcb" where
  "raw_tcb p s =
     \<lparr>task_id = stale s p, kernel_stack = stale s (p + 4), exit_code = stale s (p + 8), fd_ctr = stale s (p + 12),
      used_fd = map (\<lambda>i. stale s (p + 16 + 4 * of_nat i)) [0..<MAX_FDS], sig_mask = stale s (p + 1040),
      sig_current = stale s (p + 1044), wait4 = stale s (p + 1048), t_parent = stale s (p + 1052),
      t_first = stale s (p + 1056), t_last = stale s (p + 1060), t_psib = stale s (p + 1064),
      t_nsib = stale s (p + 1068),
      t_state = (if stale s (p + 1072) = 1 then RUNNING else READY),
      t_prio = (if stale s (p + 1076) = 1 then OS else USER),
      t_next = stale s (p + 1080), t_prev = stale s (p + 1084), t_regs = raw_regs (p + 1088) s,
      t_aspace = stale s (p + 1140)\<rparr>"

definition empty_queue :: queue where
  "empty_queue = \<lparr>q_counter = 0, q_first = NULL, q_last = NULL\<rparr>"

definition sched_init :: "'a sched_scheme \<Rightarrow> (unit, 'a sched_scheme) res" where
  "sched_init s =
     (let s = s\<lparr>os_q := empty_queue, user_q := empty_queue, sleep_q := empty_queue, total_tasks := 0,
        running_tasks := 0, sleeping_tasks := 0\<rparr> in
      bindR (kmalloc 1144 s) (\<lambda>kern s.
      let s = s\<lparr>tcbs := (tcbs s)(kern \<mapsto> raw_tcb kern s)\<rparr> in
      bindR (vmalloc 4096 MAPPED s) (\<lambda>stack s.
      bindR (set_task kern (\<lambda>t. t\<lparr>kernel_stack := stack + 0x1000, t_regs := (t_regs t)\<lparr>esp := stack + 0x1000\<rparr>,
        task_id := 0, t_prio := OS, t_next := NULL\<rparr>) s) (\<lambda>_ s.
      Ret () (s\<lparr>kernel_task := kern, actual_task := kern, next_to_run := NULL\<rparr>)))))"

section \<open>Process system calls\<close>

definition regs_fork :: "task_regs \<Rightarrow> task_regs \<Rightarrow> task_regs" where
  "regs_fork src dst = src\<lparr>reg_cr3 := reg_cr3 dst\<rparr>"

text \<open>
  The loop of \<^verbatim>\<open>do_fork\<close> stops when it has copied as many descriptors as the parent counts. The child
  starts with no descriptor.
\<close>

fun fork_fds :: "ptr list \<Rightarrow> u32 \<Rightarrow> ptr list \<Rightarrow> ptr list" where
  "fork_fds [] left dst = []"
| "fork_fds (p # ps) left [] = []"
| "fork_fds (p # ps) left (d # ds) =
     (if left > 0 then
        if p \<noteq> NULL then p # fork_fds ps (left - 1) ds else d # fork_fds ps left ds
      else d # ds)"

definition do_fork :: "'a killer \<Rightarrow> ptr \<Rightarrow> 'a sched_scheme \<Rightarrow> (u32, 'a sched_scheme) res" where
  "do_fork kill t s =
     bindR (get_task t s) (\<lambda>tcb s.
     bindR (vmm_aspace_create (t_aspace tcb) s) (\<lambda>new_as s.
     bindR (get_task t s) (\<lambda>tcb s.
     bindR (task_new (t_prio tcb) new_as s) (\<lambda>new_task s.
     bindR (get_task t s) (\<lambda>tcb s.
     bindR (set_task new_task (\<lambda>c. c\<lparr>t_regs := regs_fork (t_regs tcb) (t_regs c), sig_mask := sig_mask tcb,
       used_fd := fork_fds (used_fd tcb) (fd_ctr tcb) (used_fd c), fd_ctr := fd_ctr tcb\<rparr>) s) (\<lambda>_ s.
     bindR (sched_add_task kill new_task s) (\<lambda>_ s.
     bindR (set_task new_task (\<lambda>c. c\<lparr>t_regs := (t_regs c)\<lparr>eax := 0\<rparr>\<rparr>) s) (\<lambda>_ s.
     bindR (get_task new_task s) (\<lambda>c s. Ret (task_id c) s)))))))))"

definition fork :: "'a killer \<Rightarrow> 'a sched_scheme \<Rightarrow> (u32, 'a sched_scheme) res" where
  "fork kill s = do_fork kill (actual_task s) s"

definition do_waitpid :: "'a killer \<Rightarrow> nat \<Rightarrow> ptr \<Rightarrow> u32 \<Rightarrow> 'a sched_scheme \<Rightarrow> (int, 'a sched_scheme) res" where
  "do_waitpid kill n t pid s =
     bindR (sched_get_tcb pid s) (\<lambda>tcb s.
     if tcb = NULL then Ret (- 1) (set_errno ESRCH s)
     else
       bindR (set_task t (\<lambda>x. x\<lparr>wait4 := tcb, sig_mask := sig_mask x OR SIGCHLD\<rparr>) s) (\<lambda>_ s.
       bindR (get_task t s) (\<lambda>x s.
       bindR (sched_set_state kill (task_id x) False s) (\<lambda>_ s.
       bindR (task_switch kill n s) (\<lambda>_ s. Ret 0 s)))))"

definition waitpid :: "'a killer \<Rightarrow> nat \<Rightarrow> u32 \<Rightarrow> 'a sched_scheme \<Rightarrow> (int, 'a sched_scheme) res" where
  "waitpid kill n pid s = do_waitpid kill n (actual_task s) pid s"

definition getpid :: "'a sched_scheme \<Rightarrow> (u32, 'a sched_scheme) res" where
  "getpid s = bindR (get_task (actual_task s) s) (\<lambda>a s. Ret (task_id a) s)"

definition getppid :: "'a sched_scheme \<Rightarrow> (u32, 'a sched_scheme) res" where
  "getppid s =
     bindR (get_task (actual_task s) s) (\<lambda>a s.
     if t_parent a \<noteq> NULL then bindR (get_task (t_parent a) s) (\<lambda>p s. Ret (task_id p) s) else Ret 0 s)"

end
