(* ===== verification/Scheduler.thy ===== *)
theory Scheduler
  imports Run_Queues
begin

text \<open>
  The scheduler over well-formed run queues: looking up a task, changing its state, choosing the next
  task, and that the timer serves every task of the running queue in turn.
\<close>

section \<open>All queues together\<close>

lemma requeued_outside: "requeued s s' X \<Longrightarrow> x \<notin> X \<Longrightarrow> tcbs s' x = tcbs s x"
  by (simp add: requeued_def)

lemma add_queues:
  assumes ok: "queues_ok s Q" and p: "tcbs s p = Some t" "p \<noteq> 0" "\<And>q. p \<notin> set (Q q)"
  shows "\<exists>s'. add_to_queue p s = Ret () s' \<and> queues_ok s' (Q(set_queue t := Q (set_queue t) @ [p])) \<and>
    requeued s s' (insert p (set (Q (set_queue t))))"
proof -
  have "queue_ok s (set_queue t) (Q (set_queue t))" using ok by (simp add: queues_ok_def)
  from add_to_queue_ok [OF this p(1) refl p(2) p(3)]
  obtain s' where a: "add_to_queue p s = Ret () s'" "queue_ok s' (set_queue t) (Q (set_queue t) @ [p])"
    "requeued s s' ({p} \<union> set (Q (set_queue t)))" "\<forall>r. r \<noteq> set_queue t \<longrightarrow> queue_of r s' = queue_of r s" by (elim exE conjE)
  have "queues_ok s' (Q(set_queue t := Q (set_queue t) @ [p]))"
  proof (rule queues_okI [OF ok a(2)])
    fix r x assume "r \<noteq> set_queue t" "x \<in> set (Q r)"
    then have "x \<notin> {p} \<union> set (Q (set_queue t))" using queues_disjoint [OF ok] p(3) by auto
    then show "tcbs s' x = tcbs s x" by (rule requeued_outside [OF a(3)])
  qed (use a(4) in simp)
  with a show ?thesis by (intro exI [of _ s']) simp
qed

lemma remove_queues:
  assumes ok: "queues_ok s Q" and p: "tcbs s p = Some t" "p \<in> set (Q (set_queue t))"
  shows "\<exists>s'. remove_from_queue p s = Ret () s' \<and> queues_ok s' (Q(set_queue t := remove1 p (Q (set_queue t)))) \<and>
    requeued s s' (set (Q (set_queue t)))"
proof -
  let ?q = "set_queue t"
  have k: "queue_ok s ?q (Q ?q)" using ok by (simp add: queues_ok_def)
  obtain ys zs where q: "Q ?q = ys @ p # zs" using p(2) by (auto simp: in_set_conv_decomp)
  have r1: "remove1 p (Q ?q) = ys @ zs" using q queue_okD(5) [OF k] by (simp add: remove1_append)
  from remove_from_queue_ok [OF k [unfolded q]]
  obtain s' where a: "remove_from_queue p s = Ret () s'" "queue_ok s' ?q (ys @ zs)"
    "requeued s s' (set (ys @ p # zs))" "\<forall>r. r \<noteq> ?q \<longrightarrow> queue_of r s' = queue_of r s" by (elim exE conjE)
  have "queues_ok s' (Q(?q := ys @ zs))"
  proof (rule queues_okI [OF ok a(2)])
    fix r x assume "r \<noteq> ?q" "x \<in> set (Q r)"
    then have "x \<notin> set (ys @ p # zs)" using queues_disjoint [OF ok] q by metis
    then show "tcbs s' x = tcbs s x" by (rule requeued_outside [OF a(3)])
  qed (use a(4) in simp)
  with a q r1 show ?thesis by (intro exI [of _ s']) simp
qed

section \<open>Looking up a task\<close>

definition tid_of :: "'a sched_scheme \<Rightarrow> ptr \<Rightarrow> u32" where
  "tid_of s x = task_id (the (tcbs s x))"

definition or_null :: "ptr option \<Rightarrow> ptr" where
  "or_null x = (case x of None \<Rightarrow> NULL | Some p \<Rightarrow> p)"

lemma find_in_queue_ok:
  assumes "queue_ok s q xs"
  shows "find_in_queue tid q s = Ret (or_null (find (\<lambda>x. tid_of s x = tid) xs)) s"
proof -
  note D = queue_okD [OF assms]
  have b: "queue_scan tid x s = Ret (if tid_of s x = tid then Inl x else Inr (t_next t)) s"
    if "x \<in> set xs" "tcbs s x = Some t" for x t
    using that D(6) by (auto simp: queue_scan_def load_Some tid_of_def)
  have e: "queue_scan tid 0 s = Ret (Inl 0) s" by (simp add: queue_scan_def)
  show ?thesis unfolding find_in_queue_def D(1) or_null_def
    by (rule chase_list [OF D(4,5)]) (simp_all only: b e, simp_all)
qed

lemma find_append: "find P (xs @ ys) = (case find P xs of None \<Rightarrow> find P ys | Some x \<Rightarrow> Some x)"
  by (induction xs) auto

lemma sched_get_tcb_ok:
  assumes "queues_ok s Q"
  shows "sched_get_tcb tid s = Ret (or_null (find (\<lambda>x. tid_of s x = tid) (Q Sleep_q @ Q Os_q @ Q User_q))) s"
proof -
  have ok: "queue_ok s q (Q q)" for q using assms by (simp add: queues_ok_def)
  have z: "find P (Q q) = Some x \<Longrightarrow> x \<noteq> 0" for P q x
    using queue_okD(6) [OF ok, of q] by (metis find_Some_iff nth_mem)
  show ?thesis
    by (auto simp: sched_get_tcb_def find_in_queue_ok [OF ok] find_append or_null_def dest: z split: option.splits)
qed

section \<open>Changing the state of a task\<close>

text \<open>The counters of \<^verbatim>\<open>sched_global\<close> count the tasks in the queues.\<close>

definition counts_ok :: "'a sched_scheme \<Rightarrow> (queue_id \<Rightarrow> ptr list) \<Rightarrow> bool" where
  "counts_ok s Q \<longleftrightarrow>
     running_tasks s = of_nat (length (Q Os_q) + length (Q User_q)) \<and> sleeping_tasks s = of_nat (length (Q Sleep_q))"

definition ids_ok :: "'a sched_scheme \<Rightarrow> (queue_id \<Rightarrow> ptr list) \<Rightarrow> bool" where
  "ids_ok s Q \<longleftrightarrow> inj_on (tid_of s) (set (Q Sleep_q @ Q Os_q @ Q User_q))"

text \<open>A change of a task that is in no queue.\<close>

lemma queues_ok_other:
  assumes "queues_ok s Q" and "\<And>q. p \<notin> set (Q q)" and "\<And>q. queue_of q s' = queue_of q s"
    and "\<And>x. x \<noteq> p \<Longrightarrow> tcbs s' x = tcbs s x"
  shows "queues_ok s' Q"
  unfolding queues_ok_def
proof
  fix q
  have ok: "queue_ok s q (Q q)" using assms(1) by (simp add: queues_ok_def)
  have eq: "tcbs s' x = tcbs s x" if "x \<in> set (Q q)" for x using assms(2) [of q] assms(4) [of x] that by auto
  then have "dll t_next t_prev (tcbs s') 0 (Q q) 0 = dll t_next t_prev (tcbs s) 0 (Q q) 0" by (intro dll_cong) simp
  then show "queue_ok s' q (Q q)" using ok eq assms(3) by (simp add: queue_ok_def dlist_def)
qed

lemma queued_distinct: "queues_ok s Q \<Longrightarrow> distinct (Q q)"
  using queue_okD(5) by (auto simp: queues_ok_def)

lemma sched_get_tcb_found:
  assumes ok: "queues_ok s Q" and ids: "ids_ok s Q" and p: "p \<in> set (Q q)"
  shows "sched_get_tcb (tid_of s p) s = Ret p s"
proof -
  let ?xs = "Q Sleep_q @ Q Os_q @ Q User_q"
  have m: "p \<in> set ?xs" using p by (cases q) auto
  then obtain x where f: "find (\<lambda>x. tid_of s x = tid_of s p) ?xs = Some x"
    using find_None_iff [of "\<lambda>x. tid_of s x = tid_of s p" ?xs] by (cases "find (\<lambda>x. tid_of s x = tid_of s p) ?xs") auto
  from find_split [OF f] have "x \<in> set ?xs" "tid_of s x = tid_of s p" by fastforce+
  then have "x = p" using ids m by (auto simp: ids_ok_def inj_on_def)
  then show ?thesis using sched_get_tcb_ok [OF ok] f by (simp add: or_null_def)
qed

lemma length_remove1_word: "p \<in> set xs \<Longrightarrow> (of_nat (length (remove1 p xs)) :: u32) = of_nat (length xs) - 1"
proof (cases "length xs")
  case (Suc n)
  assume "p \<in> set xs"
  then show ?thesis using Suc by (simp add: length_remove1)
qed auto

text \<open>Where \<^verbatim>\<open>sched_set_state\<close> puts a task: \<open>moved\<close> takes it out of its queue and puts it at the end of the other.\<close>

definition moved :: "ptr \<Rightarrow> queue_id \<Rightarrow> queue_id \<Rightarrow> (queue_id \<Rightarrow> ptr list) \<Rightarrow> (queue_id \<Rightarrow> ptr list)" where
  "moved p q q' Q = (let Q = Q(q := remove1 p (Q q)) in Q(q' := Q q' @ [p]))"

definition new_state :: "bool \<Rightarrow> task_state" where
  "new_state mode = (if mode then READY else WAITING)"

lemma counts_moved:
  assumes "p \<in> set (Q q)" and "q = Sleep_q \<longleftrightarrow> q' \<noteq> Sleep_q"
    and "running_tasks s = of_nat (length (Q Os_q) + length (Q User_q))" "sleeping_tasks s = of_nat (length (Q Sleep_q))"
    and "running_tasks s' = (if q = Sleep_q then running_tasks s + 1 else running_tasks s - 1)"
    and "sleeping_tasks s' = (if q = Sleep_q then sleeping_tasks s - 1 else sleeping_tasks s + 1)"
  shows "counts_ok s' (moved p q q' Q)"
  using assms length_remove1_word [OF assms(1)]
  by (cases q; cases q') (simp_all add: counts_ok_def moved_def)

lemma requeued_sched:
  assumes "requeued s s' X"
  shows "running_tasks s' = running_tasks s" "sleeping_tasks s' = sleeping_tasks s" "actual_task s' = actual_task s"
    "next_to_run s' = next_to_run s" "kernel_task s' = kernel_task s"
  using assms unfolding requeued_def by (auto simp: upd_queue_frame)

lemma requeued_task:
  assumes "requeued s s' X" and "tcbs s p = Some t"
  obtains t' where "tcbs s' p = Some t'" "unlinked t' = unlinked t"
  using assms by (metis requeued_def map_option_eq_Some)

lemma unlinked_eqD:
  assumes "unlinked a = unlinked b"
  shows "t_state a = t_state b" "t_prio a = t_prio b" "set_queue a = set_queue b" "task_id a = task_id b"
    "sig_current a = sig_current b"
  using assms by (cases a; cases b; simp add: unlinked_def set_queue_def)+

lemma unlinked_state: "unlinked a = unlinked b \<Longrightarrow> unlinked (a\<lparr>t_state := m\<rparr>) = unlinked (b\<lparr>t_state := m\<rparr>)"
  by (cases a; cases b) (simp add: unlinked_def)

lemma set_state_moves:
  assumes ok: "queues_ok s Q" "counts_ok s Q" "ids_ok s Q"
    and p: "p \<in> set (Q q)" "tcbs s p = Some t" "t_state t \<noteq> ZOMBIE" "t_state t = WAITING \<longleftrightarrow> mode"
  shows "\<exists>s'. sched_set_state kill (task_id t) mode s = preempt kill p s' \<and>
    queues_ok s' (moved p q (set_queue (t\<lparr>t_state := new_state mode\<rparr>)) Q) \<and>
    counts_ok s' (moved p q (set_queue (t\<lparr>t_state := new_state mode\<rparr>)) Q) \<and>
    map_option unlinked (tcbs s' p) = Some (unlinked (t\<lparr>t_state := new_state mode\<rparr>)) \<and>
    (\<forall>x. x \<noteq> p \<longrightarrow> map_option unlinked (tcbs s' x) = map_option unlinked (tcbs s x)) \<and>
    actual_task s' = actual_task s \<and> next_to_run s' = next_to_run s"
proof -
  let ?q' = "set_queue (t\<lparr>t_state := new_state mode\<rparr>)"
  have k: "queue_ok s q (Q q)" using ok(1) by (simp add: queues_ok_def)
  have q: "set_queue t = q" using queue_okD(7) [OF k p(1)] p(2) by auto
  have p0: "p \<noteq> 0" using queue_okD(6) [OF k] p(1) by auto
  have sleep: "q = Sleep_q \<longleftrightarrow> mode" "?q' = Sleep_q \<longleftrightarrow> \<not> mode"
    using q p(4) by (auto simp: set_queue_def new_state_def split: if_splits)
  have g: "sched_get_tcb (task_id t) s = Ret p s"
    using sched_get_tcb_found [OF ok(1,3) p(1)] p(2) by (simp add: tid_of_def)
  obtain s1 where s1: "remove_from_queue p s = Ret () s1" "queues_ok s1 (Q(q := remove1 p (Q q)))" "requeued s s1 (set (Q q))"
    using remove_queues [OF ok(1) p(2)] p(1) q by auto
  obtain t1 where t1: "tcbs s1 p = Some t1" "unlinked t1 = unlinked t" by (rule requeued_task [OF s1(3) p(2)])
  let ?t2 = "t1\<lparr>t_state := new_state mode\<rparr>"
  let ?s2 = "(tcbs_update (\<lambda>h. h(p \<mapsto> ?t2)) s1)\<lparr>running_tasks := (if mode then running_tasks s1 + 1 else running_tasks s1 - 1),
    sleeping_tasks := (if mode then sleeping_tasks s1 - 1 else sleeping_tasks s1 + 1)\<rparr>"
  have out: "p \<notin> set ((Q(q := remove1 p (Q q))) r)" for r
    using queues_disjoint [OF ok(1) p(1)] queued_distinct [OF ok(1)] by auto
  have ok2: "queues_ok ?s2 (Q(q := remove1 p (Q q)))"
    by (rule queues_ok_other [OF s1(2) out]) (case_tac q, auto)
  have t2: "tcbs ?s2 p = Some ?t2" by simp
  obtain s3 where s3: "add_to_queue p ?s2 = Ret () s3"
      "queues_ok s3 ((Q(q := remove1 p (Q q)))(set_queue ?t2 := (Q(q := remove1 p (Q q))) (set_queue ?t2) @ [p]))"
      "requeued ?s2 s3 (insert p (set ((Q(q := remove1 p (Q q))) (set_queue ?t2))))"
    using add_queues [OF ok2 t2 p0 out] by (elim exE conjE)
  have q2: "set_queue ?t2 = ?q'" using unlinked_eqD(3) [OF unlinked_state [OF t1(2)]] .
  have "sched_set_state kill (task_id t) mode s = preempt kill p s3"
    using g p s1(1) t1 s3(1) by (cases mode; cases "t_state t") (simp_all add: sched_set_state_def load_Some modify_Some new_state_def)
  moreover have "queues_ok s3 (moved p q ?q' Q)" using s3(2) q2 by (simp add: moved_def)
  moreover have "counts_ok s3 (moved p q ?q' Q)"
    using ok(2) sleep requeued_sched [OF s1(3)] requeued_sched [OF s3(3)] p(1)
    by (intro counts_moved [where s = s]) (auto simp: counts_ok_def)
  moreover have "map_option unlinked (tcbs s3 p) = Some (unlinked (t\<lparr>t_state := new_state mode\<rparr>))"
    using s3(3) unlinked_state [OF t1(2)] by (simp add: requeued_def)
  moreover have "\<forall>x. x \<noteq> p \<longrightarrow> map_option unlinked (tcbs s3 x) = map_option unlinked (tcbs s x)"
    using s3(3) s1(3) by (simp add: requeued_def)
  moreover have "actual_task s3 = actual_task s" "next_to_run s3 = next_to_run s"
    using requeued_sched [OF s1(3)] requeued_sched [OF s3(3)] by simp_all
  ultimately show ?thesis by (intro exI [of _ s3]) simp
qed

section \<open>The next task\<close>

lemma queue_length:
  assumes "queue_ok s q xs"
  shows "length xs < 4294967296"
proof -
  note d = queue_okD(5,6) [OF assms]
  have "set xs \<subset> (UNIV :: ptr set)" using d(2) by auto
  then have "card (set xs) < card (UNIV :: ptr set)" by (intro psubset_card_mono) simp_all
  then show ?thesis using d(1) by (simp add: distinct_card card_word)
qed

lemma queue_counter_pos: "queue_ok s q xs \<Longrightarrow> q_counter (queue_of q s) > 0 \<longleftrightarrow> xs \<noteq> []"
  using queue_length [of s q xs] queue_okD(3) [of s q xs]
  by (auto simp: word_less_nat_alt unat_of_nat32)

text \<open>The tasks of the operating system come first; a queue is resumed where a preemption left it.\<close>

lemma get_next_task_ok:
  assumes "queues_ok s Q" and "next_to_run s = NULL"
  shows "sched_get_next_task s =
    Ret (if Q Os_q \<noteq> [] then hd (Q Os_q) else if Q User_q \<noteq> [] then hd (Q User_q) else kernel_task s) s"
proof -
  have ok: "queue_ok s q (Q q)" for q using assms(1) by (simp add: queues_ok_def)
  show ?thesis
    using queue_counter_pos [OF ok, of Os_q] queue_counter_pos [OF ok, of User_q] queue_okD(1) [OF ok, of Os_q]
      queue_okD(1) [OF ok, of User_q] assms(2)
    by (auto simp: sched_get_next_task_def first_of_hd)
qed

section \<open>Round robin\<close>

text \<open>
  \<open>robin s Q q i\<close>: the processor works on the \<open>i\<close>-th task of the queue \<open>q\<close>, no task of a better queue is
  ready, no preempted queue waits to be resumed and no task of the queue has a signal to handle.
\<close>

definition robin :: "'a sched_scheme \<Rightarrow> (queue_id \<Rightarrow> ptr list) \<Rightarrow> queue_id \<Rightarrow> nat \<Rightarrow> bool" where
  "robin s Q q i \<longleftrightarrow>
     queues_ok s Q \<and> i < length (Q q) \<and> actual_task s = Q q ! i \<and> next_to_run s = NULL \<and> kernel_task s \<notin> set (Q q) \<and>
     (q = Os_q \<or> q = User_q \<and> Q Os_q = []) \<and>
     (\<forall>x \<in> set (Q q). map_option (\<lambda>t. sig_current t AND SIGCHLD) (tcbs s x) = Some 0)"

definition on_cpu :: "'a sched_scheme \<Rightarrow> ptr \<Rightarrow> bool" where
  "on_cpu s p \<longleftrightarrow> actual_task s = p \<and>
     (\<exists>t. tcbs s p = Some t \<and> t_state t = RUNNING \<and> cr3 s = reg_cr3 (t_regs t) \<and> esp0 s = kernel_stack t)"

fun timer_switches :: "'a killer \<Rightarrow> nat \<Rightarrow> 'a sched_scheme \<Rightarrow> 'a sched_scheme option" where
  "timer_switches kill 0 s = Some s"
| "timer_switches kill (Suc n) s = (case task_switch kill 1 s of Iret s' \<Rightarrow> timer_switches kill n s' | _ \<Rightarrow> None)"

lemma dll_nth_next:
  assumes "dll nxt prv h p xs 0" and "i < length xs" and "h (xs ! i) = Some n"
  shows "nxt n = (if Suc i < length xs then xs ! Suc i else 0)"
proof -
  have "xs = take i xs @ xs ! i # drop (Suc i) xs" using assms(2) by (simp add: id_take_nth_drop)
  then have "nxt n = first_of 0 (drop (Suc i) xs)" using assms(1,3) dll_mid(2) by metis
  then show ?thesis by (cases "Suc i < length xs") (simp_all add: first_of_hd hd_drop_conv_nth)
qed

lemma queues_ok_cong:
  assumes "queues_ok s Q" and "\<And>q. queue_of q s' = queue_of q s"
    and "\<And>x. map_option (\<lambda>t. (t_next t, t_prev t, set_queue t)) (tcbs s' x) =
      map_option (\<lambda>t. (t_next t, t_prev t, set_queue t)) (tcbs s x)"
  shows "queues_ok s' Q"
  unfolding queues_ok_def
proof
  fix q
  have ok: "queue_ok s q (Q q)" using assms(1) by (simp add: queues_ok_def)
  have m: "map_option (\<lambda>t. (t_next t, t_prev t)) (tcbs s' x) = map_option (\<lambda>t. (t_next t, t_prev t)) (tcbs s x)"
    "map_option set_queue (tcbs s' x) = map_option set_queue (tcbs s x)" for x
    using assms(3) [of x] by (cases "tcbs s x"; cases "tcbs s' x"; simp)+
  have "dll t_next t_prev (tcbs s') 0 (Q q) 0 = dll t_next t_prev (tcbs s) 0 (Q q) 0" by (rule dll_cong) (rule m(1))
  then show "queue_ok s' q (Q q)" using ok assms(2) m(2) by (simp add: queue_ok_def dlist_def)
qed

lemma queue_of_cpu [simp]:
  "queue_of q (s\<lparr>actual_task := a\<rparr>) = queue_of q s" "queue_of q (s\<lparr>esp0 := e\<rparr>) = queue_of q s" "queue_of q (s\<lparr>cr3 := c\<rparr>) = queue_of q s"
  by (cases q; simp)+

lemma queues_ok_cpu [simp]: "queues_ok (s\<lparr>actual_task := a, esp0 := e, cr3 := c\<rparr>) Q = queues_ok s Q"
  by (simp add: queues_ok_def queue_ok_def)

lemma robin_next:
  assumes r: "robin s Q q i" and a: "tcbs s (Q q ! i) = Some a"
  shows "(if t_next a = NULL then
            bindR (sched_get_next_task s) (\<lambda>next s. if next = kernel_task s then Ret None s else Ret (Some next) s)
          else Ret (Some (t_next a)) s) = Ret (Some (Q q ! (Suc i mod length (Q q)))) s"
proof -
  have ok: "queues_ok s Q" "queue_ok s q (Q q)" and i: "i < length (Q q)" using r by (auto simp: robin_def queues_ok_def)
  note D = queue_okD [OF ok(2)]
  note n = dll_nth_next [OF D(4) i a]
  show ?thesis
  proof (cases "Suc i < length (Q q)")
    case True
    then have "t_next a = Q q ! Suc i" "Q q ! Suc i \<noteq> 0" using n D(6) by (auto simp: in_set_conv_nth)
    then show ?thesis using True by simp
  next
    case False
    then have "t_next a = 0" "Suc i = length (Q q)" using n i by auto
    moreover have "Q q ! 0 \<in> set (Q q)" using i by (intro nth_mem) linarith
    then have "Q q ! 0 \<noteq> kernel_task s" using r unfolding robin_def by metis
    moreover have "sched_get_next_task s = Ret (Q q ! 0) s"
      using get_next_task_ok [OF ok(1)] r i by (auto simp: robin_def hd_conv_nth)
    ultimately show ?thesis by simp
  qed
qed

lemma robin_state:
  assumes r: "robin s Q q i" and x: "x \<in> set (Q q)" "tcbs s x = Some t" and m: "m \<noteq> WAITING"
  shows "robin (tcbs_update (\<lambda>h. h(x \<mapsto> t\<lparr>t_state := m\<rparr>)) s) Q q i"
proof -
  have ok: "queues_ok s Q" "queue_ok s q (Q q)" and q: "q \<noteq> Sleep_q" using r by (auto simp: robin_def queues_ok_def)
  have "set_queue t = q" using queue_okD(7) [OF ok(2) x(1)] x(2) by auto
  then have "set_queue (t\<lparr>t_state := m\<rparr>) = set_queue t" using q m by (auto simp: set_queue_def split: if_splits)
  then have "queues_ok (tcbs_update (\<lambda>h. h(x \<mapsto> t\<lparr>t_state := m\<rparr>)) s) Q"
    using x(2) by (intro queues_ok_cong [OF ok(1)]) simp_all
  then show ?thesis using r x by (auto simp: robin_def)
qed

lemma robin_task:
  assumes "robin s Q q i" and "j < length (Q q)"
  obtains t where "tcbs s (Q q ! j) = Some t" "sig_current t AND SIGCHLD = 0" "Q q ! j \<in> set (Q q)"
proof -
  have "\<forall>x \<in> set (Q q). map_option (\<lambda>t. sig_current t AND SIGCHLD) (tcbs s x) = Some 0" using assms(1) by (simp add: robin_def)
  then have "map_option (\<lambda>t. sig_current t AND SIGCHLD) (tcbs s (Q q ! j)) = Some 0" using nth_mem [OF assms(2)] by (rule bspec)
  then show ?thesis using that nth_mem [OF assms(2)] by auto
qed

lemma robin_step:
  assumes r: "robin s Q q i"
  shows "\<exists>s'. task_switch kill (Suc n) s = Iret s' \<and> robin s' Q q (Suc i mod length (Q q)) \<and>
    on_cpu s' (Q q ! (Suc i mod length (Q q)))"
proof -
  let ?j = "Suc i mod length (Q q)"
  have i: "i < length (Q q)" and act: "actual_task s = Q q ! i" using r by (auto simp: robin_def)
  then have j: "?j < length (Q q)" by (metis less_nat_zero_code mod_less_divisor neq0_conv)
  obtain a where a: "tcbs s (Q q ! i) = Some a" "Q q ! i \<in> set (Q q)" by (rule robin_task [OF r i])
  define s1 where "s1 = (if t_state a = RUNNING then tcbs_update (\<lambda>h. h(Q q ! i \<mapsto> a\<lparr>t_state := READY\<rparr>)) s else s)"
  have r1: "robin s1 Q q i" using robin_state [OF r a(2,1), of READY] r by (simp add: s1_def)
  have a1: "\<exists>a1. tcbs s1 (Q q ! i) = Some a1 \<and> t_next a1 = t_next a" using a(1) by (simp add: s1_def)
  then have n: "(if t_next a = NULL then
       bindR (sched_get_next_task s1) (\<lambda>next s. if next = kernel_task s then Ret None s else Ret (Some next) s)
     else Ret (Some (t_next a)) s1) = Ret (Some (Q q ! ?j)) s1"
    using robin_next [OF r1] by auto
  obtain b where b: "tcbs s1 (Q q ! ?j) = Some b" "sig_current b AND SIGCHLD = 0" "Q q ! ?j \<in> set (Q q)"
    by (rule robin_task [OF r1 j])
  let ?b = "b\<lparr>t_state := RUNNING\<rparr>"
  let ?s2 = "tcbs_update (\<lambda>h. h(Q q ! ?j \<mapsto> ?b)) s1"
  let ?s3 = "?s2\<lparr>actual_task := Q q ! ?j, esp0 := kernel_stack b, cr3 := reg_cr3 (t_regs b)\<rparr>"
  have e: "(if t_state a = RUNNING then set_task (actual_task s) (t_state_update (\<lambda>_. READY)) s else Ret () s) = Ret () s1"
    using a(1) act by (simp add: s1_def modify_Some)
  have A: "tcbs s (actual_task s) = Some a" using a(1) act by simp
  have "task_switch kill (Suc n) s = Iret ?s3"
    unfolding task_switch.simps
    by (simp only: load_Some [where st = tcbs, OF A] bindR.simps e n option.case)
      (simp add: b(1,2) modify_Some load_Some sig_handler_def context_switch_def tss_set_stack_def Let_def)
  moreover have "robin ?s2 Q q i" using robin_state [OF r1 b(3,1)] by simp
  then have "robin ?s3 Q q ?j" using j b by (auto simp: robin_def)
  moreover have "on_cpu ?s3 (Q q ! ?j)" by (simp add: on_cpu_def)
  ultimately show ?thesis by blast
qed

section \<open>What the scheduler guarantees\<close>

text \<open>
  C19: Adding a task that is in no queue appends it to the queue of its state and priority; removing a
  queued task takes exactly it out. Both keep all three queues well formed and change nothing else.
\<close>

theorem run_queues_correct:
  assumes "queues_ok s Q" and "tcbs s p = Some t" and "p \<noteq> NULL"
  shows "((\<forall>q. p \<notin> set (Q q)) \<longrightarrow>
      (\<exists>s'. add_to_queue p s = Ret () s' \<and> queues_ok s' (Q(set_queue t := Q (set_queue t) @ [p])) \<and>
        requeued s s' (insert p (set (Q (set_queue t)))))) \<and>
    (p \<in> set (Q (set_queue t)) \<longrightarrow>
      (\<exists>s'. remove_from_queue p s = Ret () s' \<and> queues_ok s' (Q(set_queue t := remove1 p (Q (set_queue t)))) \<and>
        requeued s s' (set (Q (set_queue t)))))"
  using add_queues [OF assms] remove_queues [OF assms(1,2)] by blast

text \<open>
  C20: Waking or putting to sleep a queued task moves it to the end of the queue of its new state, keeps
  all queues and the two counters right and touches no other task; then the task preempts the running one
  when it may. A task that has the state already is left alone. A task that is in no queue is a null
  pointer access.
\<close>

theorem sched_set_state_correct:
  assumes "queues_ok s Q" and "counts_ok s Q" and "ids_ok s Q" and "tcbs s NULL = None"
  shows "(\<forall>q. \<forall>p \<in> set (Q q). \<forall>t. tcbs s p = Some t \<longrightarrow> t_state t \<noteq> ZOMBIE \<longrightarrow>
      (if (t_state t = WAITING) = mode then
         (\<exists>s'. sched_set_state kill (task_id t) mode s = preempt kill p s' \<and>
           queues_ok s' (moved p q (set_queue (t\<lparr>t_state := new_state mode\<rparr>)) Q) \<and>
           counts_ok s' (moved p q (set_queue (t\<lparr>t_state := new_state mode\<rparr>)) Q) \<and>
           map_option unlinked (tcbs s' p) = Some (unlinked (t\<lparr>t_state := new_state mode\<rparr>)) \<and>
           (\<forall>x. x \<noteq> p \<longrightarrow> map_option unlinked (tcbs s' x) = map_option unlinked (tcbs s x)) \<and>
           actual_task s' = actual_task s \<and> next_to_run s' = next_to_run s)
       else sched_set_state kill (task_id t) mode s = Ret () s)) \<and>
    ((\<forall>q. \<forall>p \<in> set (Q q). tid_of s p \<noteq> tid) \<longrightarrow> sched_set_state kill tid mode s = Fault NULL)"
proof (intro conjI allI ballI impI)
  fix q p t assume p: "p \<in> set (Q q)" "tcbs s p = Some t" "t_state t \<noteq> ZOMBIE"
  have g: "sched_get_tcb (task_id t) s = Ret p s"
    using sched_get_tcb_found [OF assms(1,3) p(1)] p(2) by (simp add: tid_of_def)
  have "sched_set_state kill (task_id t) mode s = Ret () s" if "(t_state t = WAITING) \<noteq> mode"
    using that g p(2,3) by (cases "t_state t"; cases mode) (simp_all add: sched_set_state_def load_Some)
  then show "if (t_state t = WAITING) = mode then
         (\<exists>s'. sched_set_state kill (task_id t) mode s = preempt kill p s' \<and>
           queues_ok s' (moved p q (set_queue (t\<lparr>t_state := new_state mode\<rparr>)) Q) \<and>
           counts_ok s' (moved p q (set_queue (t\<lparr>t_state := new_state mode\<rparr>)) Q) \<and>
           map_option unlinked (tcbs s' p) = Some (unlinked (t\<lparr>t_state := new_state mode\<rparr>)) \<and>
           (\<forall>x. x \<noteq> p \<longrightarrow> map_option unlinked (tcbs s' x) = map_option unlinked (tcbs s x)) \<and>
           actual_task s' = actual_task s \<and> next_to_run s' = next_to_run s)
       else sched_set_state kill (task_id t) mode s = Ret () s"
    using set_state_moves [OF assms(1-3) p, of mode kill] by (cases "(t_state t = WAITING) = mode") simp_all
next
  assume "\<forall>q. \<forall>p \<in> set (Q q). tid_of s p \<noteq> tid"
  then have "find (\<lambda>x. tid_of s x = tid) (Q Sleep_q @ Q Os_q @ Q User_q) = None" by (auto simp: find_None_iff)
  then show "sched_set_state kill tid mode s = Fault NULL"
    using sched_get_tcb_ok [OF assms(1)] assms(4) by (simp add: sched_set_state_def or_null_def load_None)
qed

text \<open>
  C21: The timer serves the running queue in turn: after \<open>n\<close> switches the processor works on the task that
  is \<open>n\<close> places further in the queue, so that every task of the queue gets the processor within as many
  switches as the queue has tasks.
\<close>

theorem round_robin:
  assumes "robin s Q q i"
  shows "\<exists>s'. timer_switches kill n s = Some s' \<and> robin s' Q q ((i + n) mod length (Q q)) \<and>
    (n > 0 \<longrightarrow> on_cpu s' (Q q ! ((i + n) mod length (Q q))))"
  using assms
proof (induction n arbitrary: s i)
  case 0
  then show ?case by (simp add: robin_def)
next
  case (Suc n)
  obtain s1 where s1: "task_switch kill 1 s = Iret s1" "robin s1 Q q (Suc i mod length (Q q))"
    "on_cpu s1 (Q q ! (Suc i mod length (Q q)))"
    using robin_step [OF Suc.prems, of kill 0] by auto
  have e: "(Suc i mod length (Q q) + n) mod length (Q q) = (i + Suc n) mod length (Q q)"
    by (simp add: mod_add_left_eq)
  have "timer_switches kill (Suc n) s = timer_switches kill n s1" using s1(1) by simp
  then show ?case using Suc.IH [OF s1(2)] s1(3) e by (cases n) auto
qed

section \<open>A small system\<close>

text \<open>The kernel task, two user programs in the queue, one asleep, and one that is not queued yet.\<close>

definition sched_demo :: sched where
  "sched_demo = vfs.extend fs_demo
     \<lparr>tcbs = [0xc0104000 \<mapsto> zero_tcb\<lparr>t_prio := OS\<rparr>,
        0xc0105000 \<mapsto> zero_tcb\<lparr>task_id := 1, t_state := RUNNING, t_next := 0xc0106000, kernel_stack := 0xd0002000\<rparr>,
        0xc0106000 \<mapsto> zero_tcb\<lparr>task_id := 2, t_prev := 0xc0105000, kernel_stack := 0xd0003000\<rparr>,
        0xc0107000 \<mapsto> zero_tcb\<lparr>task_id := 3, t_state := WAITING\<rparr>,
        0xc0108000 \<mapsto> zero_tcb\<lparr>task_id := 4\<rparr>],
      actual_task = 0xc0105000, kernel_task = 0xc0104000, next_to_run = NULL, os_q = empty_queue,
      user_q = \<lparr>q_counter = 2, q_first = 0xc0105000, q_last = 0xc0106000\<rparr>,
      sleep_q = \<lparr>q_counter = 1, q_first = 0xc0107000, q_last = 0xc0107000\<rparr>,
      total_tasks = 3, running_tasks = 2, sleeping_tasks = 1, old_tid = 4, task_tree_root = 0xc0105000,
      pic1_mask = 0, pic2_mask = 0, esp0 = 0xd0002000, idle = False\<rparr>"

definition demo_queues :: "queue_id \<Rightarrow> ptr list" where
  "demo_queues q = (case q of Os_q \<Rightarrow> [] | User_q \<Rightarrow> [0xc0105000, 0xc0106000] | Sleep_q \<Rightarrow> [0xc0107000])"

lemma demo_queues_simps [simp]:
  "demo_queues Os_q = []" "demo_queues User_q = [0xc0105000, 0xc0106000]" "demo_queues Sleep_q = [0xc0107000]"
  by (simp_all add: demo_queues_def)

lemmas sched_demo_simps = sched_demo_def vfs.extend_def zero_tcb_def empty_queue_def

lemma demo_queues_ok: "queues_ok sched_demo demo_queues"
  unfolding queues_ok_def
proof
  fix q show "queue_ok sched_demo q (demo_queues q)"
    by (cases q) (simp_all add: queue_ok_def dlist_def set_queue_def sched_demo_simps)
qed

lemma demo_robin: "robin sched_demo demo_queues User_q 0"
  using demo_queues_ok by (simp add: robin_def sched_demo_simps)

lemma demo_counts: "counts_ok sched_demo demo_queues" "ids_ok sched_demo demo_queues"
  by (simp_all add: counts_ok_def ids_ok_def tid_of_def sched_demo_simps)

theorem run_queues_correct_witness:
  "\<exists>s'. remove_from_queue 0xc0106000 sched_demo = Ret () s' \<and> queues_ok s' (demo_queues(User_q := [0xc0105000]))"
proof -
  have t: "tcbs sched_demo 0xc0106000 = Some (zero_tcb\<lparr>task_id := 2, t_prev := 0xc0105000, kernel_stack := 0xd0003000\<rparr>)"
    by (simp add: sched_demo_def vfs.extend_def)
  show ?thesis using run_queues_correct [OF demo_queues_ok t] by (auto simp: set_queue_def zero_tcb_def)
qed

theorem sched_set_state_correct_witness:
  "\<exists>s'. sched_set_state (do_exit 1) 3 True sched_demo = preempt (do_exit 1) 0xc0107000 s' \<and>
    queues_ok s' (moved 0xc0107000 Sleep_q User_q demo_queues)"
proof -
  have n: "tcbs sched_demo NULL = None" and t: "tcbs sched_demo 0xc0107000 = Some (zero_tcb\<lparr>task_id := 3, t_state := WAITING\<rparr>)"
    by (simp_all add: sched_demo_def vfs.extend_def)
  have m: "(0xc0107000 :: ptr) \<in> set (demo_queues Sleep_q)" by simp
  from sched_set_state_correct [OF demo_queues_ok demo_counts n, of True "do_exit 1"]
  have "\<exists>s'. sched_set_state (do_exit 1) (task_id (zero_tcb\<lparr>task_id := 3, t_state := WAITING\<rparr>)) True sched_demo =
      preempt (do_exit 1) 0xc0107000 s' \<and>
    queues_ok s' (moved 0xc0107000 Sleep_q (set_queue (zero_tcb\<lparr>task_id := 3, t_state := new_state True\<rparr>)) demo_queues)"
    using m t by fastforce
  then show ?thesis by (simp add: set_queue_def new_state_def zero_tcb_def)
qed

theorem round_robin_witness:
  "\<exists>s'. timer_switches (do_exit 1) 3 sched_demo = Some s' \<and> on_cpu s' 0xc0106000"
proof -
  have m: "(0 + 3) mod length (demo_queues User_q) = 1" by (simp flip: numeral_2_eq_2)
  show ?thesis using round_robin [OF demo_robin, of "do_exit 1" 3] unfolding m by auto
qed

end
