(* ===== verification/Exit_Wait.thy ===== *)
theory Exit_Wait
  imports Scheduler
begin

text \<open>
  The end of a task: what \<^verbatim>\<open>do_exit\<close> leaves for a parent that waits for it, and that the functions that
  switch to another task never come back to their caller.
\<close>

section \<open>Functions that do not return\<close>

definition no_return :: "('a, 's) res \<Rightarrow> bool" where
  "no_return r \<longleftrightarrow> (\<forall>x s. r \<noteq> Ret x s)"

lemma no_return_bind1: "no_return m \<Longrightarrow> no_return (bindR m f)"
  by (cases m) (auto simp: no_return_def)

lemma no_return_bind2: "(\<And>x s. no_return (f x s)) \<Longrightarrow> no_return (bindR m f)"
  by (cases m) (auto simp: no_return_def)

lemma no_return_ends [intro!, simp]: "no_return (Panic m)" "no_return (Iret s)" "no_return Timeout" "no_return (Fault p)"
  by (simp_all add: no_return_def)

lemma no_return_switch_to: "no_return (task_switch_to kill t s)"
  unfolding task_switch_to_def Let_def context_switch_def by (intro no_return_bind2) auto

lemma no_return_next: "no_return (switch_to_next kill s)"
  unfolding switch_to_next_def by (intro no_return_bind2 no_return_switch_to)

lemma no_return_exit: "no_return (do_exit n t status s)"
proof (cases n)
  case (Suc m)
  show ?thesis unfolding Suc do_exit.simps Let_def
    by (intro no_return_bind2) (auto intro!: no_return_bind2 no_return_next)
qed simp

lemma no_return_task_switch: "no_return (task_switch kill n s)"
proof (induction n arbitrary: s)
  case (Suc n)
  show ?case unfolding task_switch.simps Let_def context_switch_def
    by (intro no_return_bind2) (auto split: option.split intro!: no_return_bind2 Suc.IH)
qed simp

text \<open>
  \<^verbatim>\<open>do_exit\<close> never returns to its caller. So \<^verbatim>\<open>task_destroy\<close> of a task with a child does not get past its
  loop over the children: it never takes the task out of the tree and never releases it.
\<close>

theorem exit_never_returns:
  "do_exit n t status s \<noteq> Ret x s' \<and>
   (map_option t_first (tcbs s t) \<noteq> Some NULL \<longrightarrow> task_destroy (do_exit n) t s \<noteq> Ret y s')"
proof -
  have "no_return (kill_children {} (do_exit n) c s)" if "c \<noteq> NULL" for c
    using that by (subst kill_children.simps) (auto intro!: no_return_bind2 [OF no_return_bind1 [OF no_return_exit]])
  then have "no_return (task_destroy (do_exit n) t s)" if "map_option t_first (tcbs s t) \<noteq> Some NULL"
    using that by (cases "tcbs s t") (auto simp: task_destroy_def load_def intro: no_return_bind1)
  then show ?thesis using no_return_exit [of n t status s] by (auto simp: no_return_def)
qed

definition family_demo :: sched where
  "family_demo = tcbs_update (\<lambda>h. h(0xc0106000 \<mapsto> zero_tcb\<lparr>task_id := 2, t_first := 0xc0108000\<rparr>)) sched_demo"

theorem exit_never_returns_witness:
  "\<forall>y s'. task_destroy (do_exit 5) 0xc0106000 family_demo \<noteq> Ret y s'"
proof (intro allI)
  fix y s'
  have "map_option t_first (tcbs family_demo 0xc0106000) \<noteq> Some NULL" by (simp add: family_demo_def zero_tcb_def)
  then show "task_destroy (do_exit 5) 0xc0106000 family_demo \<noteq> Ret y s'"
    using exit_never_returns [where n = 5 and t = "0xc0106000" and s = family_demo and y = y and s' = s'] by blast
qed

section \<open>Closing the standard descriptors\<close>

text \<open>A task whose open descriptors are the ones of the kernel task closes none of them.\<close>

definition std_fds :: "tcb \<Rightarrow> tcb \<Rightarrow> bool" where
  "std_fds t k \<longleftrightarrow> length (used_fd t) = MAX_FDS \<and> length (used_fd k) = MAX_FDS \<and>
     (\<forall>i < MAX_FDS. used_fd t ! i = NULL \<or> used_fd t ! i = used_fd k ! i)"

lemma fd_ctr_same: "tcbs s p = Some t \<Longrightarrow> tcbs_update (\<lambda>h. h(p \<mapsto> fd_ctr_update (\<lambda>c. c) t)) s = s"
proof -
  assume a: "tcbs s p = Some t"
  have "fd_ctr_update (\<lambda>c. c) t = t" by (cases t) simp
  then show ?thesis using a by (cases s) (simp add: fun_upd_idem)
qed

lemma close_used_std:
  assumes "tcbs s p = Some t" and "tcbs s (kernel_task s) = Some k" and "std_fds t k" and "i < MAX_FDS"
  shows "\<exists>f. close_used p i s = Ret () (tcbs_update (\<lambda>h. h(p \<mapsto> fd_ctr_update f t)) s)"
proof -
  have l: "i < length (used_fd t)" "i < length (used_fd k)" using assms(3,4) by (simp_all add: std_fds_def)
  show ?thesis
  proof (cases "fd_ctr t > 0 \<and> used_fd t ! i \<noteq> NULL")
    case True
    then have "used_fd t ! i = used_fd k ! i" using assms(3,4) by (auto simp: std_fds_def)
    then have "close_used p i s = Ret () (tcbs_update (\<lambda>h. h(p \<mapsto> fd_ctr_update (\<lambda>n. n - 1) t)) s)"
      using True assms(1,2) l by (simp add: close_used_def do_close_def fd_slot_def load_Some modify_Some)
    then show ?thesis by (rule exI [of _ "\<lambda>n. n - 1"])
  next
    case False
    then have "close_used p i s = Ret () s"
      using assms(1) l by (auto simp: close_used_def fd_slot_def load_Some)
    then show ?thesis using fd_ctr_same [OF assms(1)] by metis
  qed
qed

lemma close_all_std:
  assumes "tcbs s p = Some t" and "tcbs s (kernel_task s) = Some k" and "std_fds t k" and "p \<noteq> kernel_task s" and "set is \<subseteq> {..<MAX_FDS}"
  shows "\<exists>f. for_each is (close_used p) s = Ret () (tcbs_update (\<lambda>h. h(p \<mapsto> fd_ctr_update f t)) s)"
  using assms
proof (induction "is" arbitrary: s t)
  case Nil
  show ?case using fd_ctr_same [OF Nil(1)] by (metis for_each.simps(1))
next
  case (Cons i "is")
  obtain f where f: "close_used p i s = Ret () (tcbs_update (\<lambda>h. h(p \<mapsto> fd_ctr_update f t)) s)"
    using close_used_std [OF Cons.prems(1-3), of i] Cons.prems(5) by auto
  let ?s = "tcbs_update (\<lambda>h. h(p \<mapsto> fd_ctr_update f t)) s"
  have "\<exists>g. for_each is (close_used p) ?s = Ret () (tcbs_update (\<lambda>h. h(p \<mapsto> fd_ctr_update g (fd_ctr_update f t))) ?s)"
    using Cons.prems by (intro Cons.IH) (auto simp: std_fds_def)
  then obtain g where "for_each is (close_used p) ?s = Ret () (tcbs_update (\<lambda>h. h(p \<mapsto> fd_ctr_update g t)) s)"
    by (auto simp: comp_def)
  then show ?case by (intro exI [of _ g]) (simp only: for_each.simps f bindR.simps)
qed

section \<open>An exit the parent waits for\<close>

text \<open>\<open>awaited s Q c tc p tp\<close>: the running task \<open>c\<close> has the standard descriptors and its parent \<open>p\<close> sleeps in \<^verbatim>\<open>waitpid\<close> for it.\<close>

definition awaited :: "'a sched_scheme \<Rightarrow> (queue_id \<Rightarrow> ptr list) \<Rightarrow> ptr \<Rightarrow> tcb \<Rightarrow> ptr \<Rightarrow> tcb \<Rightarrow> bool" where
  "awaited s Q c tc p tp \<longleftrightarrow>
     tcbs s c = Some tc \<and> c \<in> set (Q (set_queue tc)) \<and> (t_state tc = RUNNING \<or> t_state tc = READY) \<and> task_id tc \<noteq> 1 \<and>
     t_parent tc = p \<and> tcbs s p = Some tp \<and> p \<in> set (Q Sleep_q) \<and> wait4 tp = c \<and> sig_mask tp AND SIGCHLD \<noteq> 0 \<and>
     c \<noteq> kernel_task s \<and> p \<noteq> kernel_task s \<and> (\<exists>k. tcbs s (kernel_task s) = Some k \<and> std_fds tc k \<and>
       kernel_task s \<notin> set (Q (set_queue tc)))"

lemma sched_remove_runs:
  assumes ok: "queues_ok s Q" and c: "tcbs s c = Some tc" "c \<in> set (Q (set_queue tc))" "t_state tc = RUNNING \<or> t_state tc = READY"
  shows "\<exists>s1. sched_remove c s = Ret () s1 \<and> queues_ok s1 (Q(set_queue tc := remove1 c (Q (set_queue tc)))) \<and>
    requeued (s\<lparr>total_tasks := total_tasks s - 1, running_tasks := running_tasks s - 1\<rparr>) s1 (set (Q (set_queue tc)))"
proof -
  let ?s = "s\<lparr>total_tasks := total_tasks s - 1, running_tasks := running_tasks s - 1\<rparr>"
  have q: "queue_of q ?s = queue_of q s" for q by (cases q) simp_all
  have "queues_ok ?s Q" using ok by (simp add: queues_ok_def queue_ok_def q)
  moreover have "sched_remove c s = remove_from_queue c ?s" using c by (auto simp: sched_remove_def load_Some Let_def)
  ultimately show ?thesis using remove_queues [of ?s Q c tc] c by simp
qed

lemma exit_awaited_run:
  assumes "tcbs s c = Some tc" "t_parent tc = p" "task_id tc \<noteq> 1" "sched_remove c s = Ret () s1" "tcbs s1 c = Some tc1"
    "for_each [0..<MAX_FDS] (close_used c) (tcbs_update (\<lambda>h. h(c \<mapsto> tc1\<lparr>exit_code := status\<rparr>)) s1) =
       Ret () (tcbs_update (\<lambda>h. h(c \<mapsto> tc2)) s1)"
    "task_id tc2 = task_id tc" "tcbs s1 p = Some tp" "p \<noteq> c" "c \<noteq> NULL" "wait4 tp = c" "sig_mask tp AND SIGCHLD \<noteq> 0"
  shows "do_exit (Suc n) c status s =
    bindR (sched_set_state (do_exit n) (task_id tp) True
      (tcbs_update (\<lambda>h. h(c \<mapsto> tc2\<lparr>t_state := ZOMBIE\<rparr>, p \<mapsto> sig_current_update (\<lambda>x. x OR SIGCHLD) tp)) s1)) (\<lambda>_ s.
    bindR (get_task (kernel_task s) s) (\<lambda>_ s. switch_to_next (do_exit n) s))"
  using assms by (simp add: load_Some modify_Some Let_def sig_send_def del: upt_Suc) (simp add: comp_def)

lemma unlinked_more:
  assumes "unlinked a = unlinked b"
  shows "exit_code a = exit_code b" "wait4 a = wait4 b" "used_fd a = used_fd b"
  using assms by (cases a; cases b; simp add: unlinked_def)+

lemma unlinked_ids: "map_option unlinked x = map_option unlinked y \<Longrightarrow> map_option task_id x = map_option task_id y"
  by (cases x; cases y) (auto dest: unlinked_eqD(4))

lemma unlinked_fields:
  assumes "map_option unlinked x = Some (unlinked t)"
  shows "\<exists>t'. x = Some t' \<and> t_state t' = t_state t \<and> exit_code t' = exit_code t \<and> sig_current t' = sig_current t \<and> wait4 t' = wait4 t"
proof -
  obtain t' where "x = Some t'" "unlinked t' = unlinked t" using assms by auto
  then show ?thesis using unlinked_eqD(1,5) unlinked_more(1,2) by blast
qed

lemma close_exit:
  assumes "tcbs s c = Some t" "tcbs s (kernel_task s) = Some k" "std_fds t k" "c \<noteq> kernel_task s"
  shows "\<exists>t2. for_each [0..<MAX_FDS] (close_used c) (tcbs_update (\<lambda>h. h(c \<mapsto> t\<lparr>exit_code := status\<rparr>)) s) =
      Ret () (tcbs_update (\<lambda>h. h(c \<mapsto> t2)) s) \<and> exit_code t2 = status \<and> task_id t2 = task_id t"
proof -
  let ?s = "tcbs_update (\<lambda>h. h(c \<mapsto> t\<lparr>exit_code := status\<rparr>)) s"
  have "std_fds (t\<lparr>exit_code := status\<rparr>) k" "set [0..<MAX_FDS] \<subseteq> {..<MAX_FDS}" using assms(3) by (auto simp: std_fds_def)
  then obtain f where f: "for_each [0..<MAX_FDS] (close_used c) ?s =
      Ret () (tcbs_update (\<lambda>h. h(c \<mapsto> fd_ctr_update f (t\<lparr>exit_code := status\<rparr>))) ?s)"
    using close_all_std [of ?s c "t\<lparr>exit_code := status\<rparr>" k "[0..<MAX_FDS]"] assms(2,4) by auto
  have u: "tcbs_update (\<lambda>h. h(c \<mapsto> x)) ?s = tcbs_update (\<lambda>h. h(c \<mapsto> x)) s" for x by (simp add: comp_def)
  show ?thesis by (intro exI [of _ "fd_ctr_update f (t\<lparr>exit_code := status\<rparr>)"]) (simp only: f u, simp)
qed

lemma ids_ok_sub:
  assumes "ids_ok s Q" and "\<And>q. set (R q) \<subseteq> set (Q q)"
    and "\<And>q x. x \<in> set (R q) \<Longrightarrow> map_option task_id (tcbs s' x) = map_option task_id (tcbs s x)"
  shows "ids_ok s' R"
proof -
  have "tid_of s' x = tid_of s x" if "x \<in> set (R q)" for x q
    using assms(3) [OF that] by (cases "tcbs s x"; cases "tcbs s' x") (auto simp: tid_of_def)
  then have "inj_on (tid_of s') (set (R Sleep_q @ R Os_q @ R User_q)) = inj_on (tid_of s) (set (R Sleep_q @ R Os_q @ R User_q))"
    by (intro inj_on_cong) auto
  moreover have "set (R Sleep_q @ R Os_q @ R User_q) \<subseteq> set (Q Sleep_q @ Q Os_q @ Q User_q)" using assms(2) by auto
  ultimately show ?thesis using assms(1) unfolding ids_ok_def by (simp only: inj_on_subset)
qed

text \<open>The state in which \<^verbatim>\<open>do_exit\<close> wakes the parent up.\<close>

lemma exit_awaited_state:
  assumes ok: "queues_ok s Q" "counts_ok s Q" "ids_ok s Q" and aw: "awaited s Q c tc p tp"
  shows "\<exists>s4. do_exit (Suc n) c status s =
      bindR (sched_set_state (do_exit n) (task_id tp) True s4) (\<lambda>_ s.
      bindR (get_task (kernel_task s) s) (\<lambda>_ s. switch_to_next (do_exit n) s)) \<and>
    queues_ok s4 (Q(set_queue tc := remove1 c (Q (set_queue tc)))) \<and>
    counts_ok s4 (Q(set_queue tc := remove1 c (Q (set_queue tc)))) \<and>
    ids_ok s4 (Q(set_queue tc := remove1 c (Q (set_queue tc)))) \<and>
    (\<exists>t. tcbs s4 c = Some t \<and> exit_code t = status \<and> t_state t = ZOMBIE) \<and>
    tcbs s4 p = Some (sig_current_update (\<lambda>x. x OR SIGCHLD) tp)"
proof -
  let ?q = "set_queue tc" and ?Q = "Q(set_queue tc := remove1 c (Q (set_queue tc)))"
  have c: "tcbs s c = Some tc" "c \<in> set (Q ?q)" "t_state tc = RUNNING \<or> t_state tc = READY" "task_id tc \<noteq> 1" "t_parent tc = p"
    and p: "tcbs s p = Some tp" "p \<in> set (Q Sleep_q)" "wait4 tp = c" "sig_mask tp AND SIGCHLD \<noteq> 0" and ck: "c \<noteq> kernel_task s"
    using aw by (simp_all add: awaited_def)
  obtain k where k: "tcbs s (kernel_task s) = Some k" "std_fds tc k" "kernel_task s \<notin> set (Q ?q)"
    using aw unfolding awaited_def by blast
  have qs: "?q \<noteq> Sleep_q" using c(3) by (auto simp: set_queue_def)
  have pc: "p \<noteq> c" "p \<notin> set (Q ?q)" using queues_disjoint [OF ok(1)] c(2) p(2) qs by blast+
  have nz: "c \<noteq> 0" using queue_okD(6) [of s ?q "Q ?q"] ok(1) c(2) by (auto simp: queues_ok_def)
  let ?s = "s\<lparr>total_tasks := total_tasks s - 1, running_tasks := running_tasks s - 1\<rparr>"
  obtain s1 where s1: "sched_remove c s = Ret () s1" "queues_ok s1 ?Q" "requeued ?s s1 (set (Q ?q))"
    using sched_remove_runs [OF ok(1) c(1-3)] by (elim exE conjE)
  have "tcbs ?s c = Some tc" using c(1) by simp
  then obtain tc1 where tc1: "tcbs s1 c = Some tc1" "unlinked tc1 = unlinked tc" by (rule requeued_task [OF s1(3)])
  have tp1: "tcbs s1 p = Some tp" and k1: "tcbs s1 (kernel_task s1) = Some k"
    using requeued_outside [OF s1(3)] pc(2) p(1) k(1,3) requeued_sched(5) [OF s1(3)] by simp_all
  have sf: "std_fds tc1 k" using k(2) unlinked_more(3) [OF tc1(2)] by (simp add: std_fds_def)
  have ck1: "c \<noteq> kernel_task s1" using requeued_sched(5) [OF s1(3)] ck by simp
  obtain tc2 where tc2: "for_each [0..<MAX_FDS] (close_used c) (tcbs_update (\<lambda>h. h(c \<mapsto> tc1\<lparr>exit_code := status\<rparr>)) s1) =
      Ret () (tcbs_update (\<lambda>h. h(c \<mapsto> tc2)) s1)" "exit_code tc2 = status" "task_id tc2 = task_id tc1"
    using close_exit [OF tc1(1) k1 sf ck1, of status] by (elim exE conjE)
  have id2: "task_id tc2 = task_id tc" using unlinked_eqD(4) [OF tc1(2)] tc2(3) by simp
  let ?s4 = "tcbs_update (\<lambda>h. h(c \<mapsto> tc2\<lparr>t_state := ZOMBIE\<rparr>, p \<mapsto> sig_current_update (\<lambda>x. x OR SIGCHLD) tp)) s1"
  let ?s3 = "tcbs_update (\<lambda>h. h(p \<mapsto> sig_current_update (\<lambda>x. x OR SIGCHLD) tp)) s1"
  have "queues_ok ?s3 ?Q" using tp1 by (intro queues_ok_cong [OF s1(2)]) (simp_all add: set_queue_def)
  moreover have out: "c \<notin> set (?Q q)" for q using queues_disjoint [OF ok(1) c(2)] queued_distinct [OF ok(1)] by auto
  ultimately have q4: "queues_ok ?s4 ?Q" using pc(1) by (intro queues_ok_other [where s = ?s3 and s' = ?s4 and p = c]) simp_all
  have "running_tasks s1 = running_tasks s - 1" "sleeping_tasks s1 = sleeping_tasks s" using requeued_sched(1,2) [OF s1(3)] by simp_all
  then have c4: "counts_ok ?s4 ?Q" using ok(2) length_remove1_word [OF c(2)] qs by (cases "set_queue tc") (simp_all add: counts_ok_def)
  have "map_option task_id (tcbs ?s4 x) = map_option task_id (tcbs s x)" if "x \<in> set (?Q q)" for x q
  proof -
    have "map_option task_id (tcbs s1 x) = map_option task_id (tcbs s x)"
      using s1(3) by (intro unlinked_ids) (simp add: requeued_def)
    moreover have "x \<noteq> c" using out [of q] that by auto
    ultimately show ?thesis using tp1 p(1) by simp
  qed
  then have i4: "ids_ok ?s4 ?Q" using set_remove1_subset [of c "Q ?q"] by (intro ids_ok_sub [OF ok(3)]) auto
  show ?thesis
    using exit_awaited_run [OF c(1,5,4) s1(1) tc1(1) tc2(1) id2 tp1 pc(1) nz p(3,4), of n] q4 c4 i4 pc(1) tc2(2)
    by (intro exI [of _ ?s4]) simp
qed

lemma sig_marked: "(x OR SIGCHLD) AND SIGCHLD \<noteq> 0"
proof -
  have "bit ((x OR SIGCHLD) AND SIGCHLD) 2" by (simp add: bit_and_iff bit_or_iff)
  then show ?thesis by auto
qed


text \<open>In the small system the second program is a child of the sleeping one, which waits for it.\<close>

definition child_demo :: tcb where
  "child_demo = zero_tcb\<lparr>task_id := 2, t_prev := 0xc0105000, kernel_stack := 0xd0003000, t_parent := 0xc0107000\<rparr>"

definition parent_demo :: tcb where
  "parent_demo = zero_tcb\<lparr>task_id := 3, t_state := WAITING, wait4 := 0xc0106000, sig_mask := SIGCHLD, t_first := 0xc0106000, t_last := 0xc0106000\<rparr>"

definition exit_demo :: sched where
  "exit_demo = tcbs_update (\<lambda>h. h(0xc0106000 \<mapsto> child_demo, 0xc0107000 \<mapsto> parent_demo)) sched_demo"

lemma exit_demo_queues: "queues_ok exit_demo demo_queues" "counts_ok exit_demo demo_queues" "ids_ok exit_demo demo_queues"
proof -
  have "map_option (\<lambda>t. (t_next t, t_prev t, set_queue t)) (tcbs exit_demo x) =
      map_option (\<lambda>t. (t_next t, t_prev t, set_queue t)) (tcbs sched_demo x)" for x
    by (simp add: exit_demo_def child_demo_def parent_demo_def sched_demo_simps set_queue_def)
  then show "queues_ok exit_demo demo_queues" by (intro queues_ok_cong [OF demo_queues_ok]) (simp_all add: exit_demo_def)
  show "counts_ok exit_demo demo_queues" using demo_counts(1) by (simp add: counts_ok_def exit_demo_def)
  show "ids_ok exit_demo demo_queues"
    by (rule ids_ok_sub [OF demo_counts(2)]) (auto simp: exit_demo_def child_demo_def parent_demo_def sched_demo_simps)
qed

lemma exit_demo_awaited: "awaited exit_demo demo_queues 0xc0106000 child_demo 0xc0107000 parent_demo"
  by (simp add: awaited_def exit_demo_def child_demo_def parent_demo_def sched_demo_simps set_queue_def std_fds_def)


end
