(* ===== verification/Waitpid.thy ===== *)
theory Waitpid
  imports Exit_Wait
begin

text \<open>
  Waiting for a task: what \<^verbatim>\<open>do_waitpid\<close> does to the run queues, and that it leaves the caller as the exit of a child
  expects it.
\<close>

lemma waiting_record:
  fixes c m
  assumes "queues_ok s Q" "counts_ok s Q" "ids_ok s Q" and "tcbs s t = Some x"
  defines "s1 \<equiv> tcbs_update (\<lambda>h. h(t \<mapsto> x\<lparr>wait4 := c, sig_mask := m\<rparr>)) s"
  shows "queues_ok s1 Q" "counts_ok s1 Q" "ids_ok s1 Q"
proof -
  have q: "queue_of q s1 = queue_of q s" for q by (cases q) (simp_all add: s1_def)
  show "queues_ok s1 Q"
    by (rule queues_ok_cong [OF assms(1) q]) (simp add: s1_def assms(4) set_queue_def)
  show "counts_ok s1 Q" using assms(2) by (simp add: counts_ok_def s1_def)
  show "ids_ok s1 Q" by (rule ids_ok_sub [OF assms(3)]) (auto simp: s1_def assms(4))
qed

lemma waiting_set_state:
  assumes "queues_ok s Q" "counts_ok s Q" "ids_ok s Q"
    and p: "p \<in> set (Q q)" "tcbs s p = Some t" "t_state t = RUNNING \<or> t_state t = READY"
  shows "\<exists>s' t'. sched_set_state kill (task_id t) False s = Ret () s' \<and> queues_ok s' (moved p q Sleep_q Q) \<and>
    counts_ok s' (moved p q Sleep_q Q) \<and> tcbs s' p = Some t' \<and> unlinked t' = unlinked (t\<lparr>t_state := WAITING\<rparr>) \<and>
    (\<forall>x. x \<noteq> p \<longrightarrow> map_option unlinked (tcbs s' x) = map_option unlinked (tcbs s x)) \<and> actual_task s' = actual_task s"
proof -
  have z: "t_state t \<noteq> ZOMBIE" "t_state t = WAITING \<longleftrightarrow> False" using p(3) by auto
  have q: "set_queue (t\<lparr>t_state := new_state False\<rparr>) = Sleep_q" by (simp add: set_queue_def new_state_def)
  obtain s' where s': "sched_set_state kill (task_id t) False s = preempt kill p s'" "queues_ok s' (moved p q Sleep_q Q)"
    "counts_ok s' (moved p q Sleep_q Q)" "map_option unlinked (tcbs s' p) = Some (unlinked (t\<lparr>t_state := new_state False\<rparr>))"
    "\<forall>x. x \<noteq> p \<longrightarrow> map_option unlinked (tcbs s' x) = map_option unlinked (tcbs s x)" "actual_task s' = actual_task s"
    using set_state_moves [OF assms(1-3) p(1,2) z, of kill, unfolded q] by (elim exE conjE)
  obtain t' where t': "tcbs s' p = Some t'" "unlinked t' = unlinked (t\<lparr>t_state := WAITING\<rparr>)"
    using s'(4) by (auto simp: new_state_def)
  have "preempt kill p s' = Ret () s'" using t' unlinked_eqD(1) [OF t'(2)] by (simp add: preempt_def load_Some)
  with s' t' show ?thesis by auto
qed

lemma unlinked_waiting:
  assumes "unlinked a = unlinked b"
  shows "sig_mask a = sig_mask b"
  using assms by (cases a; cases b; simp add: unlinked_def)

text \<open>
  C23: A task that waits for a task number of the run queues falls asleep: it goes to the end of the sleeping queue, with the
  task it waits for noted and the signal of an exiting child enabled, as \<open>do_exit\<close> of that task requires to wake it; all
  other tasks keep their data, the counters stay right, and the call does not return before another task switch. Any
  other number is refused with \<^verbatim>\<open>ESRCH\<close> and nothing else changes.
\<close>

theorem waitpid_sleeps:
  assumes "queues_ok s Q" and "counts_ok s Q" and "ids_ok s Q"
    and "t \<in> set (Q q)" and "tcbs s t = Some x" and "t_state x = RUNNING \<or> t_state x = READY"
  shows "(\<forall>r. \<forall>c \<in> set (Q r). \<exists>s' t'.
      do_waitpid kill n t (tid_of s c) s = bindR (task_switch kill n s') (\<lambda>_ s. Ret 0 s) \<and>
      no_return (do_waitpid kill n t (tid_of s c) s) \<and>
      queues_ok s' (moved t q Sleep_q Q) \<and> counts_ok s' (moved t q Sleep_q Q) \<and>
      tcbs s' t = Some t' \<and> t_state t' = WAITING \<and> wait4 t' = c \<and> sig_mask t' AND SIGCHLD \<noteq> 0 \<and>
      (\<forall>y. y \<noteq> t \<longrightarrow> map_option unlinked (tcbs s' y) = map_option unlinked (tcbs s y)) \<and>
      actual_task s' = actual_task s) \<and>
    ((\<forall>r. \<forall>c \<in> set (Q r). tid_of s c \<noteq> pid) \<longrightarrow> do_waitpid kill n t pid s = Ret (- 1) (set_errno ESRCH s))"
proof (intro conjI allI ballI impI)
  fix r c assume c: "c \<in> set (Q r)"
  have g: "sched_get_tcb (tid_of s c) s = Ret c s" by (rule sched_get_tcb_found [OF assms(1,3) c])
  have c0: "c \<noteq> 0" using queue_okD(6) [of s r "Q r"] assms(1) c by (auto simp: queues_ok_def)
  let ?x = "x\<lparr>wait4 := c, sig_mask := sig_mask x OR SIGCHLD\<rparr>"
  let ?s = "tcbs_update (\<lambda>h. h(t \<mapsto> ?x)) s"
  have a: "tcbs ?s t = Some ?x" "t_state ?x = RUNNING \<or> t_state ?x = READY" using assms(6) by simp_all
  obtain s' t' where s': "sched_set_state kill (task_id ?x) False ?s = Ret () s'" "queues_ok s' (moved t q Sleep_q Q)"
    "counts_ok s' (moved t q Sleep_q Q)" "tcbs s' t = Some t'" "unlinked t' = unlinked (?x\<lparr>t_state := WAITING\<rparr>)"
    "\<forall>y. y \<noteq> t \<longrightarrow> map_option unlinked (tcbs s' y) = map_option unlinked (tcbs ?s y)" "actual_task s' = actual_task ?s"
    using waiting_set_state [OF waiting_record [OF assms(1-3,5)] assms(4) a, of kill] by (elim exE conjE)
  have w: "do_waitpid kill n t (tid_of s c) s = bindR (task_switch kill n s') (\<lambda>_ s. Ret 0 s)"
    using g c0 assms(5) s'(1) by (simp add: do_waitpid_def modify_Some load_Some)
  have "(sig_mask x OR SIGCHLD) AND SIGCHLD = SIGCHLD" by (simp add: bit.conj_disj_distrib2)
  then have "sig_mask t' AND SIGCHLD \<noteq> 0" using unlinked_waiting [OF s'(5)] by simp
  then show "\<exists>s' t'.
      do_waitpid kill n t (tid_of s c) s = bindR (task_switch kill n s') (\<lambda>_ s. Ret 0 s) \<and>
      no_return (do_waitpid kill n t (tid_of s c) s) \<and>
      queues_ok s' (moved t q Sleep_q Q) \<and> counts_ok s' (moved t q Sleep_q Q) \<and>
      tcbs s' t = Some t' \<and> t_state t' = WAITING \<and> wait4 t' = c \<and> sig_mask t' AND SIGCHLD \<noteq> 0 \<and>
      (\<forall>y. y \<noteq> t \<longrightarrow> map_option unlinked (tcbs s' y) = map_option unlinked (tcbs s y)) \<and>
      actual_task s' = actual_task s"
    using w s' no_return_bind1 [OF no_return_task_switch] unlinked_eqD(1) [OF s'(5)] unlinked_more(2) [OF s'(5)]
    by (intro exI [of _ s'] exI [of _ t']) auto
next
  assume "\<forall>r. \<forall>c \<in> set (Q r). tid_of s c \<noteq> pid"
  then have "find (\<lambda>x. tid_of s x = pid) (Q Sleep_q @ Q Os_q @ Q User_q) = None" by (auto simp: find_None_iff)
  then show "do_waitpid kill n t pid s = Ret (- 1) (set_errno ESRCH s)"
    using sched_get_tcb_ok [OF assms(1)] by (simp add: do_waitpid_def or_null_def)
qed

theorem waitpid_sleeps_witness:
  "(\<exists>s' t'. do_waitpid (do_exit 1) 1 0xc0105000 2 sched_demo = bindR (task_switch (do_exit 1) 1 s') (\<lambda>_ s. Ret 0 s) \<and>
     tcbs s' 0xc0105000 = Some t' \<and> t_state t' = WAITING \<and> wait4 t' = 0xc0106000) \<and>
   do_waitpid (do_exit 1) 1 0xc0105000 9 sched_demo = Ret (- 1) (set_errno ESRCH sched_demo)"
proof -
  let ?x = "zero_tcb\<lparr>task_id := 1, t_state := RUNNING, t_next := 0xc0106000, kernel_stack := 0xd0002000\<rparr>"
  have x: "tcbs sched_demo 0xc0105000 = Some ?x" "t_state ?x = RUNNING \<or> t_state ?x = READY"
    and m: "(0xc0105000 :: ptr) \<in> set (demo_queues User_q)" "(0xc0106000 :: ptr) \<in> set (demo_queues User_q)"
    and i: "tid_of sched_demo 0xc0106000 = 2" "\<forall>r. \<forall>c \<in> set (demo_queues r). tid_of sched_demo c \<noteq> 9"
    by (auto simp: sched_demo_simps tid_of_def demo_queues_def split: queue_id.splits)
  note w = waitpid_sleeps [OF demo_queues_ok demo_counts m(1) x, of "do_exit 1" 1 9]
  have "do_waitpid (do_exit 1) 1 0xc0105000 9 sched_demo = Ret (- 1) (set_errno ESRCH sched_demo)"
    by (rule mp [OF conjunct2 [OF w] i(2)])
  moreover note bspec [OF spec [OF conjunct1 [OF w], of User_q] m(2), unfolded i(1)]
  ultimately show ?thesis by blast
qed

end
