(* ===== verification/Terminal.thy ===== *)
theory Terminal
  imports Klib
begin

text \<open>
  The text terminal: the screen of \<^verbatim>\<open>dev/terminal/vga_text_mode.c\<close>, the cursor of \<^verbatim>\<open>cursor.c\<close> and the terminal of
  \<^verbatim>\<open>terminal.c\<close>. The screen is the memory from \<^verbatim>\<open>0xb8000\<close> on, as a function from the index of a cell
  to its 16 bits. What the kernel does with a finished input line is in the theory of the devices.
\<close>

section \<open>State\<close>

record cursor =
  cur_x :: u32
  cur_y :: u32
  blink :: bool
  line_x :: u32
  line_y :: u32
  position_ctr :: u32
  chars_ctr :: u32

datatype cursor_ret = SUCCESS | MAX_HEIGHT

text \<open>\<open>vga_position\<close> is the register pair of the video controller that \<^verbatim>\<open>vga_set_cursor\<close> writes.\<close>

record terminal =
  term_initialized :: bool
  vga_buffer :: "u32 \<Rightarrow> u16"
  command_buff :: "u8 list"
  command_idx :: u32
  stdin_line :: "u8 list"
  stdin_len :: u32
  terminal_color :: u8
  terminal_cursor :: cursor
  vga_position :: u16

abbreviation (input) VGA_WIDTH :: u32 where "VGA_WIDTH \<equiv> 80"
abbreviation (input) VGA_HEIGHT :: u32 where "VGA_HEIGHT \<equiv> 24"
abbreviation (input) TERMINAL_MAX_LINE_LEN :: u32 where "TERMINAL_MAX_LINE_LEN \<equiv> 1920"
abbreviation (input) COMM_LEN :: u32 where "COMM_LEN \<equiv> 3"
abbreviation (input) COMM_START :: u8 where "COMM_START \<equiv> 0xb1"
abbreviation (input) COMM_END :: u8 where "COMM_END \<equiv> 0xff"
abbreviation (input) COMM_TERM_CLR :: u8 where "COMM_TERM_CLR \<equiv> 0x1c"
abbreviation (input) NEWLINE :: u8 where "NEWLINE \<equiv> 0x0a"
abbreviation (input) VGA_COLOR_BLACK :: u8 where "VGA_COLOR_BLACK \<equiv> 0"
abbreviation (input) VGA_COLOR_GREEN :: u8 where "VGA_COLOR_GREEN \<equiv> 2"

abbreviation (input) upd_cursor :: "(cursor \<Rightarrow> cursor) \<Rightarrow> terminal \<Rightarrow> terminal" where
  "upd_cursor f t \<equiv> terminal_cursor_update f t"

section \<open>The screen\<close>

definition vga_entry :: "u8 \<Rightarrow> u8 \<Rightarrow> u16" where
  "vga_entry uc color = ucast uc OR push_bit 8 (ucast color)"

definition vga_entry_color :: "u8 \<Rightarrow> u8 \<Rightarrow> u8" where
  "vga_entry_color fg bg = fg OR push_bit 4 bg"

definition vga_put_entry :: "(u32 \<Rightarrow> u16) \<Rightarrow> u32 \<Rightarrow> u32 \<Rightarrow> u8 \<Rightarrow> u8 \<Rightarrow> (u32 \<Rightarrow> u16)" where
  "vga_put_entry buf x y color c = buf(y * VGA_WIDTH + x := vga_entry c color)"

definition vga_set_cursor :: "u32 \<Rightarrow> u32 \<Rightarrow> terminal \<Rightarrow> terminal" where
  "vga_set_cursor x y t = t\<lparr>vga_position := ucast (y * VGA_WIDTH + x)\<rparr>"

definition mov_row :: "u32 \<Rightarrow> u32 \<Rightarrow> (u32 \<Rightarrow> u16) \<Rightarrow> (u32 \<Rightarrow> u16)" where
  "mov_row src dst buf = fold (\<lambda>i b. b(dst + of_nat i := b (src + of_nat i))) [0..<80] buf"

definition fill_row :: "u32 \<Rightarrow> u8 \<Rightarrow> u8 \<Rightarrow> (u32 \<Rightarrow> u16) \<Rightarrow> (u32 \<Rightarrow> u16)" where
  "fill_row src color c buf = fold (\<lambda>i b. b(src + of_nat i := vga_entry c color)) [0..<80] buf"

definition vga_clear_row :: "(u32 \<Rightarrow> u16) \<Rightarrow> u32 \<Rightarrow> u8 \<Rightarrow> (u32 \<Rightarrow> u16)" where
  "vga_clear_row buf row color = fill_row (row * VGA_WIDTH) color 0x20 buf"

definition vga_move_row_up :: "(u32 \<Rightarrow> u16) \<Rightarrow> u32 \<Rightarrow> (u32 \<Rightarrow> u16)" where
  "vga_move_row_up buf row =
     (if row > 0 then mov_row (row * VGA_WIDTH) ((row - 1) * VGA_WIDTH) buf else buf)"

definition line_fits :: "u32 \<Rightarrow> u32 \<Rightarrow> u32 \<Rightarrow> bool" where
  "line_fits start_x start_y len \<longleftrightarrow>
     (if start_y > 0 then (start_y - 1) * VGA_WIDTH + start_x + len \<le> TERMINAL_MAX_LINE_LEN
      else start_x + len \<le> TERMINAL_MAX_LINE_LEN)"

text \<open>
  \<open>vga_copy_line\<close> gives the new contents of the buffer; \<open>Inl\<close> is the error return. An index behind the end
  of the buffer is \<open>None\<close>.
\<close>

definition vga_copy_line :: "(u32 \<Rightarrow> u16) \<Rightarrow> u32 \<Rightarrow> u32 \<Rightarrow> u32 \<Rightarrow> u8 list \<Rightarrow> (unit + u8 list) option" where
  "vga_copy_line buf start_x start_y len buffer =
     (if \<not> line_fits start_x start_y len then Some (Inl ())
      else
        (let src = start_y * VGA_WIDTH + start_x in
         if unat len \<le> length buffer then
           Some (Inr (map (\<lambda>i. ucast (buf (src + of_nat i) AND 0xff)) [0..<unat len] @ drop (unat len) buffer))
         else None))"

text \<open>The first loop of \<^verbatim>\<open>vga_paste_line\<close> writes the characters that are not zero, the second one fills with blanks.\<close>

fun paste_chars :: "u8 list \<Rightarrow> u8 \<Rightarrow> u32 \<Rightarrow> (u32 \<Rightarrow> u16) \<Rightarrow> (u32 \<Rightarrow> u16)" where
  "paste_chars [] color dst buf = buf"
| "paste_chars (c # cs) color dst buf =
     (if c = 0 then paste_chars cs color dst buf
      else paste_chars cs color (dst + 1) (buf(dst := vga_entry c color)))"

definition vga_paste_line ::
  "(u32 \<Rightarrow> u16) \<Rightarrow> u32 \<Rightarrow> u32 \<Rightarrow> u32 \<Rightarrow> u8 list \<Rightarrow> u8 \<Rightarrow> (unit + (u32 \<Rightarrow> u16)) option" where
  "vga_paste_line buf start_x start_y len buffer color =
     (if \<not> line_fits start_x start_y len then Some (Inl ())
      else
        (let dst = start_y * VGA_WIDTH + start_x; line = take (unat len) buffer;
             idx = length (filter (\<lambda>c. c \<noteq> 0) line) in
         if unat len \<le> length buffer then
           Some (Inr (fold (\<lambda>i b. b(dst + of_nat i := vga_entry 0x20 color)) [idx..<unat len] (paste_chars line color dst buf)))
         else None))"

section \<open>The cursor\<close>

text \<open>The functions of \<^verbatim>\<open>cursor.c\<close> get the cursor of the terminal.\<close>

abbreviation (input) show_cursor :: "terminal \<Rightarrow> terminal" where
  "show_cursor t \<equiv> vga_set_cursor (cur_x (terminal_cursor t)) (cur_y (terminal_cursor t)) t"

definition cursor_setdefault :: "terminal \<Rightarrow> terminal" where
  "cursor_setdefault t =
     vga_set_cursor 0 0 (t\<lparr>terminal_cursor := \<lparr>cur_x = 0, cur_y = 0, blink = True, line_x = - 1, line_y = - 1,
       position_ctr = 0, chars_ctr = 0\<rparr>\<rparr>)"

definition cursor_newline :: "terminal \<Rightarrow> cursor_ret \<times> terminal" where
  "cursor_newline t =
     (let (ret, t) =
        (if cur_y (terminal_cursor t) = VGA_HEIGHT then (MAX_HEIGHT, t)
         else (SUCCESS, upd_cursor (\<lambda>c. c\<lparr>cur_y := cur_y c + 1\<rparr>) t));
        t = upd_cursor (\<lambda>c. c\<lparr>cur_x := 0\<rparr>) t
      in (ret, show_cursor t))"

definition cursor_newline_kbd :: "terminal \<Rightarrow> cursor_ret \<times> terminal" where
  "cursor_newline_kbd t =
     (let (ret, t) =
        (if cur_y (terminal_cursor t) = VGA_HEIGHT then (MAX_HEIGHT, t)
         else (SUCCESS, upd_cursor (\<lambda>c. c\<lparr>cur_y := line_y c + chars_ctr c div VGA_WIDTH + 1\<rparr>) t));
        t = upd_cursor (\<lambda>c. c\<lparr>line_x := 0, line_y := cur_y c, position_ctr := 0, chars_ctr := 0, cur_x := 0\<rparr>) t
      in (ret, show_cursor t))"

definition cursor_nextchar :: "terminal \<Rightarrow> cursor_ret \<times> terminal" where
  "cursor_nextchar t =
     (let (ret, t) =
        (if cur_x (terminal_cursor t) = VGA_WIDTH - 1 then cursor_newline t
         else (SUCCESS, upd_cursor (\<lambda>c. c\<lparr>cur_x := cur_x c + 1\<rparr>) t))
      in (ret, show_cursor t))"

definition cursor_nextchar_kbd :: "terminal \<Rightarrow> cursor_ret \<times> terminal" where
  "cursor_nextchar_kbd t =
     cursor_nextchar (upd_cursor (\<lambda>c. c\<lparr>chars_ctr := chars_ctr c + 1, position_ctr := position_ctr c + 1\<rparr>) t)"

definition cursor_move_left :: "bool \<Rightarrow> terminal \<Rightarrow> terminal" where
  "cursor_move_left mx t =
     (let c = terminal_cursor t in
      if position_ctr c = 0 then t
      else show_cursor (t\<lparr>terminal_cursor :=
        (if mx then c\<lparr>cur_x := line_x c, cur_y := line_y c, position_ctr := 0\<rparr>
         else if cur_x c = 0 \<and> cur_y c > 0 then
           c\<lparr>cur_x := VGA_WIDTH - 1, cur_y := cur_y c - 1, position_ctr := position_ctr c - 1\<rparr>
         else c\<lparr>cur_x := cur_x c - 1, position_ctr := position_ctr c - 1\<rparr>)\<rparr>))"

definition cursor_move_right :: "bool \<Rightarrow> terminal \<Rightarrow> terminal" where
  "cursor_move_right mx t =
     (let c = terminal_cursor t in
      if position_ctr c = chars_ctr c then t
      else show_cursor (t\<lparr>terminal_cursor :=
        (if mx then
           c\<lparr>cur_y := line_y c + chars_ctr c div VGA_WIDTH, cur_x := line_x c + chars_ctr c mod VGA_WIDTH,
             position_ctr := chars_ctr c\<rparr>
         else if cur_x c = VGA_WIDTH - 1 then c\<lparr>cur_x := 0, cur_y := cur_y c + 1, position_ctr := position_ctr c + 1\<rparr>
         else c\<lparr>cur_x := cur_x c + 1, position_ctr := position_ctr c + 1\<rparr>)\<rparr>))"

definition cursor_remove_char :: "terminal \<Rightarrow> terminal" where
  "cursor_remove_char t =
     upd_cursor (\<lambda>c. let c = (if chars_ctr c > 0 then c\<lparr>chars_ctr := chars_ctr c - 1\<rparr> else c)
       in if position_ctr c > chars_ctr c then c\<lparr>position_ctr := chars_ctr c\<rparr> else c) t"

section \<open>The terminal\<close>

definition terminal_scroll :: "terminal \<Rightarrow> terminal" where
  "terminal_scroll t =
     vga_buffer_update (\<lambda>b. vga_clear_row (fold (\<lambda>i b. vga_move_row_up b (of_nat i + 1)) [0..<24] b) VGA_HEIGHT
       (terminal_color t)) t"

definition terminal_putentry :: "u8 \<Rightarrow> terminal \<Rightarrow> terminal" where
  "terminal_putentry c t =
     vga_buffer_update (\<lambda>b. vga_put_entry b (cur_x (terminal_cursor t)) (cur_y (terminal_cursor t)) (terminal_color t) c) t"

definition copy_inputline :: "terminal \<Rightarrow> (unit, terminal) res" where
  "copy_inputline t =
     (let c = terminal_cursor t in
      case vga_copy_line (vga_buffer t) (line_x c) (line_y c) (chars_ctr c) (stdin_line t) of
        None \<Rightarrow> Fault NULL
      | Some (Inl _) \<Rightarrow> Panic ''[BUG] Terminal tried to copy line outside of vga buffer!''
      | Some (Inr line) \<Rightarrow> Ret () (t\<lparr>stdin_line := line\<rparr>))"

definition paste_inputline :: "u32 \<Rightarrow> u32 \<Rightarrow> u32 \<Rightarrow> u8 list \<Rightarrow> terminal \<Rightarrow> (unit, terminal) res" where
  "paste_inputline col row len line t =
     (case vga_paste_line (vga_buffer t) col row len line (terminal_color t) of
        None \<Rightarrow> Fault NULL
      | Some (Inl _) \<Rightarrow> Panic ''[BUG] Terminal tried to paste line outside of vga buffer!''
      | Some (Inr b) \<Rightarrow> Ret () (t\<lparr>vga_buffer := b\<rparr>))"

definition terminal_remove_from_inputline :: "u32 \<Rightarrow> terminal \<Rightarrow> (unit, terminal) res" where
  "terminal_remove_from_inputline idx t =
     (let c = terminal_cursor t in
      bindR (copy_inputline t) (\<lambda>_ t.
      if unat idx < length (stdin_line t) then
        let t = t\<lparr>stdin_len := chars_ctr c, stdin_line := (stdin_line t)[unat idx := 0]\<rparr> in
        paste_inputline (line_x c) (line_y c) (stdin_len t) (stdin_line t) t
      else Fault NULL))"

definition terminal_insert_into_inputline :: "u8 \<Rightarrow> u32 \<Rightarrow> terminal \<Rightarrow> (unit, terminal) res" where
  "terminal_insert_into_inputline ch idx t =
     (let c = terminal_cursor t in
      bindR (copy_inputline t) (\<lambda>_ t.
      let t = terminal_putentry ch t; len = chars_ctr c - position_ctr c in
      bindR (paste_inputline (position_ctr c + line_x c + 1) (line_y c) len (drop (unat idx) (stdin_line t)) t) (\<lambda>_ t.
      Ret () (t\<lparr>stdin_len := chars_ctr c + 1\<rparr>))))"

definition terminal_command_buff_clear :: "terminal \<Rightarrow> terminal" where
  "terminal_command_buff_clear t = t\<lparr>command_buff := replicate 3 0, command_idx := 0\<rparr>"

definition terminal_clear :: "terminal \<Rightarrow> terminal" where
  "terminal_clear t =
     cursor_setdefault (vga_buffer_update (\<lambda>b. fold (\<lambda>y b. vga_clear_row b (of_nat y) (terminal_color t)) [0..<24] b) t)"

definition terminal_execute_command :: "terminal \<Rightarrow> terminal" where
  "terminal_execute_command t = (if command_buff t ! 1 = COMM_TERM_CLR then terminal_clear t else t)"

definition terminal_init :: "terminal \<Rightarrow> terminal" where
  "terminal_init t =
     (terminal_clear (t\<lparr>terminal_color := vga_entry_color VGA_COLOR_GREEN VGA_COLOR_BLACK, command_idx := 0, stdin_len := 0\<rparr>))
       \<lparr>term_initialized := True\<rparr>"

definition terminal_putchar :: "u8 \<Rightarrow> terminal \<Rightarrow> (unit, terminal) res" where
  "terminal_putchar c t =
     (if c = COMM_START \<or> command_idx t > 0 then
        if command_idx t = COMM_LEN then Ret () (terminal_command_buff_clear t)
        else if c = COMM_END then Ret () (terminal_command_buff_clear (terminal_execute_command t))
        else if unat (command_idx t) < length (command_buff t) then
          Ret () (t\<lparr>command_buff := (command_buff t)[unat (command_idx t) := c], command_idx := command_idx t + 1\<rparr>)
        else Fault NULL
      else
        let (ret, t) = (if c = NEWLINE then cursor_newline t else cursor_nextchar (terminal_putentry c t));
            t = (if ret = MAX_HEIGHT then terminal_scroll t else t)
        in Ret () (upd_cursor (\<lambda>c. c\<lparr>line_x := - 1, line_y := - 1\<rparr>) t))"

text \<open>A string is printed up to its terminator; a text that has none is read behind its end.\<close>

definition terminal_writestring :: "u8 list \<Rightarrow> terminal \<Rightarrow> (unit, terminal) res" where
  "terminal_writestring str t =
     (case strlen str of None \<Rightarrow> Fault NULL | Some len \<Rightarrow> for_each (take len str) terminal_putchar t)"

section \<open>Cells by number\<close>

definition cell :: "(u32 \<Rightarrow> u16) \<Rightarrow> nat \<Rightarrow> u16" where
  "cell buf n = buf (of_nat n)"

lemma cell_upd: "m < 4294967296 \<Longrightarrow> n < 4294967296 \<Longrightarrow> cell (b(of_nat m := v)) n = (if n = m then v else cell b n)"
  by (simp add: cell_def of_nat32_eq)

lemma cell_put: "buf (of_nat a + of_nat b) = cell buf (a + b)"
  by (simp add: cell_def)

lemma mov_cells:
  assumes "d + 160 < 4294967296" and "k \<le> 80" and "n < 4294967296"
  shows "cell (fold (\<lambda>i b. b(of_nat d + of_nat i := b (of_nat (d + 80) + of_nat i))) [0..<k] buf) n =
    (if d \<le> n \<and> n < d + k then cell buf (n + 80) else cell buf n)"
  using assms(2,3)
proof (induction k arbitrary: n)
  case (Suc k)
  define b where "b = fold (\<lambda>i b. b(of_nat d + of_nat i := b (of_nat (d + 80) + of_nat i))) [0..<k] buf"
  have IH: "cell b m = (if d \<le> m \<and> m < d + k then cell buf (m + 80) else cell buf m)" if "m < 4294967296" for m
    unfolding b_def using Suc.prems(1) that by (intro Suc.IH) simp_all
  have f: "fold (\<lambda>i b. b(of_nat d + of_nat i := b (of_nat (d + 80) + of_nat i))) [0..<Suc k] buf =
      b(of_nat (d + k) := cell b (d + 80 + k))" by (simp add: b_def cell_def)
  have u: "cell (b(of_nat (d + k) := v)) n = (if n = d + k then v else cell b n)" for v
    using Suc.prems assms(1) by (intro cell_upd) simp_all
  have a: "d + 80 + k = d + k + 80" by simp
  have "cell b (d + k + 80) = cell buf (d + k + 80)" using IH [of "d + k + 80"] Suc.prems(1) assms(1) by simp
  then show ?case unfolding f u a using IH [of n] Suc.prems by auto
qed auto

lemma fill_cells:
  assumes "d + k < 4294967296" and "n < 4294967296"
  shows "cell (fold (\<lambda>i b. b(of_nat d + of_nat i := v)) [0..<k] buf) n = (if d \<le> n \<and> n < d + k then v else cell buf n)"
  using assms
proof (induction k)
  case (Suc k)
  define b where "b = fold (\<lambda>i b. b(of_nat d + of_nat i := v)) [0..<k] buf"
  have f: "fold (\<lambda>i b. b(of_nat d + of_nat i := v)) [0..<Suc k] buf = b(of_nat (d + k) := v)" by (simp add: b_def)
  have "cell b n = (if d \<le> n \<and> n < d + k then v else cell buf n)" unfolding b_def using Suc.prems by (intro Suc.IH) simp_all
  moreover have "cell (b(of_nat (d + k) := v)) n = (if n = d + k then v else cell b n)"
    using Suc.prems by (intro cell_upd) simp_all
  ultimately show ?case unfolding f by (simp only:) auto
qed auto

lemma clear_row_cells:
  assumes "r \<le> 24" and "n < 4294967296"
  shows "cell (vga_clear_row buf (of_nat r) color) n =
    (if 80 * r \<le> n \<and> n < 80 * r + 80 then vga_entry 0x20 color else cell buf n)"
  using fill_cells [of "80 * r" 80 n "vga_entry 0x20 color" buf] assms
  by (simp add: vga_clear_row_def fill_row_def mult.commute)

lemma move_row_cells:
  assumes "r < 24" and "n < 4294967296"
  shows "cell (vga_move_row_up buf (of_nat r + 1)) n =
    (if 80 * r \<le> n \<and> n < 80 * r + 80 then cell buf (n + 80) else cell buf n)"
proof -
  have "(0 :: u32) < of_nat r + 1" using assms(1) of_nat32_eq [of "Suc r" 0] by (simp add: word_gt_0 add.commute)
  then show ?thesis
    using mov_cells [of "80 * r" 80 n buf] assms by (simp add: vga_move_row_up_def mov_row_def algebra_simps)
qed

lemma scroll_rows:
  assumes "k \<le> 24" and "n < 4294967000"
  shows "cell (fold (\<lambda>i b. vga_move_row_up b (of_nat i + 1)) [0..<k] buf) n =
    (if n < 80 * k then cell buf (n + 80) else cell buf n)"
  using assms
proof (induction k arbitrary: n)
  case (Suc k)
  then show ?case using Suc.IH [of n] Suc.IH [of "n + 80"] by (auto simp: move_row_cells)
qed simp

lemma scroll_cells:
  assumes "n < 4294967000"
  shows "cell (vga_buffer (terminal_scroll t)) n =
    (if n < 1920 then cell (vga_buffer t) (n + 80) else if n < 2000 then vga_entry 0x20 (terminal_color t)
     else cell (vga_buffer t) n)"
  using clear_row_cells [of 24 n] scroll_rows [of 24 n "vga_buffer t"] assms
  by (simp add: terminal_scroll_def)

section \<open>Printing a character\<close>

text \<open>
  What a user sees: 25 rows of 80 cells and the place of the cursor. \<open>put_spec\<close> is printing a character on
  that screen.
\<close>

type_synonym screen = "(nat \<Rightarrow> nat \<Rightarrow> u16) \<times> nat \<times> nat"

definition rows_of :: "(u32 \<Rightarrow> u16) \<Rightarrow> nat \<Rightarrow> nat \<Rightarrow> u16" where
  "rows_of buf r x = (if r \<le> 24 \<and> x < 80 then cell buf (80 * r + x) else 0)"

definition screen_of :: "terminal \<Rightarrow> screen" where
  "screen_of t = (rows_of (vga_buffer t), unat (cur_x (terminal_cursor t)), unat (cur_y (terminal_cursor t)))"

definition blank_row :: "u8 \<Rightarrow> nat \<Rightarrow> u16" where
  "blank_row color x = (if x < 80 then vga_entry 0x20 color else 0)"

fun put_spec :: "u8 \<Rightarrow> u8 \<Rightarrow> screen \<Rightarrow> screen" where
  "put_spec c color (scr, x, y) =
     (let scr = (if c = NEWLINE then scr else scr(y := (scr y)(x := vga_entry c color))) in
      if c \<noteq> NEWLINE \<and> x < 79 then (scr, x + 1, y)
      else if y < 24 then (scr, 0, y + 1)
      else ((\<lambda>r. if r < 24 then scr (r + 1) else if r = 24 then blank_row color else (\<lambda>_. 0)), 0, y))"

definition term_ok :: "terminal \<Rightarrow> bool" where
  "term_ok t \<longleftrightarrow> cur_x (terminal_cursor t) < VGA_WIDTH \<and> cur_y (terminal_cursor t) \<le> VGA_HEIGHT \<and>
     length (command_buff t) = 3 \<and> command_idx t \<le> COMM_LEN \<and> length (stdin_line t) = 1921"

definition off_screen_same :: "terminal \<Rightarrow> terminal \<Rightarrow> bool" where
  "off_screen_same t t' \<longleftrightarrow> (\<forall>i. 2000 \<le> i \<and> i < 4294967000 \<longrightarrow> cell (vga_buffer t') i = cell (vga_buffer t) i)"

lemma cell_split:
  assumes "x < 80" and "x' < 80"
  shows "80 * r + x = 80 * r' + x' \<longleftrightarrow> r = r' \<and> x = (x' :: nat)"
proof
  assume e: "80 * r + x = 80 * r' + x'"
  have "r = (80 * r + x) div 80" "r' = (80 * r' + x') div 80" using assms by simp_all
  then have "r = r'" using e by metis
  then show "r = r' \<and> x = x'" using e by simp
qed simp

lemma put_cell:
  assumes "x < 80" and "y \<le> 24" and "n < 4294967296"
  shows "cell (vga_put_entry buf (of_nat x) (of_nat y) color c) n =
    (if n = 80 * y + x then vga_entry c color else cell buf n)"
proof -
  have "(of_nat y * VGA_WIDTH + of_nat x :: u32) = of_nat (80 * y + x)" by simp
  then show ?thesis using assms cell_upd [of "80 * y + x" n buf] unfolding vga_put_entry_def by (simp only:)
qed

lemma putentry_screen:
  assumes "x < 80" and "y \<le> 24"
  shows "rows_of (vga_put_entry buf (of_nat x) (of_nat y) color c) = (rows_of buf)(y := (rows_of buf y)(x := vga_entry c color))"
proof (intro ext)
  fix r j
  show "rows_of (vga_put_entry buf (of_nat x) (of_nat y) color c) r j =
      ((rows_of buf)(y := (rows_of buf y)(x := vga_entry c color))) r j"
    using assms cell_split [of j x r y] put_cell [OF assms, of "80 * r + j" buf color c] by (auto simp: rows_of_def)
qed

lemma scroll_screen:
  "rows_of (vga_buffer (terminal_scroll t)) =
    (\<lambda>r. if r < 24 then rows_of (vga_buffer t) (r + 1) else if r = 24 then blank_row (terminal_color t) else (\<lambda>_. 0))"
proof (intro ext)
  fix r j
  show "rows_of (vga_buffer (terminal_scroll t)) r j =
      (if r < 24 then rows_of (vga_buffer t) (r + 1) else if r = 24 then blank_row (terminal_color t) else (\<lambda>_. 0)) j"
    using scroll_cells [of "80 * r + j" t] by (auto simp: rows_of_def blank_row_def add.commute add.left_commute)
qed

lemma term_okD:
  assumes "term_ok t"
  obtains x y where "cur_x (terminal_cursor t) = of_nat x" "cur_y (terminal_cursor t) = of_nat y" "x < 80" "y \<le> 24"
    "screen_of t = (rows_of (vga_buffer t), x, y)"
proof
  show "cur_x (terminal_cursor t) = of_nat (unat (cur_x (terminal_cursor t)))"
    "cur_y (terminal_cursor t) = of_nat (unat (cur_y (terminal_cursor t)))"
    "unat (cur_x (terminal_cursor t)) < 80" "unat (cur_y (terminal_cursor t)) \<le> 24"
    "screen_of t = (rows_of (vga_buffer t), unat (cur_x (terminal_cursor t)), unat (cur_y (terminal_cursor t)))"
    using assms by (auto simp: term_ok_def screen_of_def word_less_nat_alt word_le_nat_alt)
qed

lemma newline_screen:
  assumes "screen_of t = (scr, x, y)" and "y \<le> 24"
  shows "screen_of (snd (cursor_newline t)) = (scr, 0, if y < 24 then y + 1 else y)"
    and "fst (cursor_newline t) = (if y < 24 then SUCCESS else MAX_HEIGHT)"
proof -
  have y: "unat (cur_y (terminal_cursor t)) = y" and b: "rows_of (vga_buffer t) = scr" using assms(1) by (auto simp: screen_of_def)
  have e: "cur_y (terminal_cursor t) = 24 \<longleftrightarrow> y = 24" using y by (auto simp: word_unat_eq_iff)
  have s: "unat (cur_y (terminal_cursor t) + 1) = y + 1" using y assms(2) by (subst unat_add_no_wrap) simp_all
  show "screen_of (snd (cursor_newline t)) = (scr, 0, if y < 24 then y + 1 else y)"
    "fst (cursor_newline t) = (if y < 24 then SUCCESS else MAX_HEIGHT)"
    using e s y b assms(2) by (auto simp: cursor_newline_def vga_set_cursor_def screen_of_def Let_def)
qed

lemma nextchar_screen:
  assumes "screen_of t = (scr, x, y)" and "x < 80" "y \<le> 24"
  shows "screen_of (snd (cursor_nextchar t)) = (if x < 79 then (scr, x + 1, y) else (scr, 0, if y < 24 then y + 1 else y))"
    and "fst (cursor_nextchar t) = (if x < 79 \<or> y < 24 then SUCCESS else MAX_HEIGHT)"
proof -
  have x: "unat (cur_x (terminal_cursor t)) = x" using assms(1) by (auto simp: screen_of_def)
  have e: "cur_x (terminal_cursor t) = 79 \<longleftrightarrow> x = 79" using x by (auto simp: word_unat_eq_iff)
  have s: "unat (cur_x (terminal_cursor t) + 1) = x + 1" using x assms(2) by (subst unat_add_no_wrap) simp_all
  have sc: "screen_of (vga_set_cursor a b u) = screen_of u" for a b u by (simp add: vga_set_cursor_def screen_of_def)
  show "screen_of (snd (cursor_nextchar t)) = (if x < 79 then (scr, x + 1, y) else (scr, 0, if y < 24 then y + 1 else y))"
    "fst (cursor_nextchar t) = (if x < 79 \<or> y < 24 then SUCCESS else MAX_HEIGHT)"
    using newline_screen [OF assms(1,3)] e s x assms
    by (auto simp: cursor_nextchar_def Let_def sc split: prod.split) (auto simp: screen_of_def)
qed

text \<open>What printing leaves alone: colour, command buffer and input line, and the memory behind the screen.\<close>

definition same_rest :: "terminal \<Rightarrow> terminal \<Rightarrow> bool" where
  "same_rest t t' \<longleftrightarrow> terminal_color t' = terminal_color t \<and> command_buff t' = command_buff t \<and> command_idx t' = command_idx t \<and>
     stdin_line t' = stdin_line t \<and> stdin_len t' = stdin_len t \<and> term_initialized t' = term_initialized t \<and> off_screen_same t t'"

lemma same_rest_trans: "same_rest t u \<Longrightarrow> same_rest u v \<Longrightarrow> same_rest t v"
  by (simp add: same_rest_def off_screen_same_def)

lemma same_rest_newline: "same_rest t (snd (cursor_newline t))"
  by (simp add: same_rest_def off_screen_same_def cursor_newline_def vga_set_cursor_def Let_def)

lemma same_rest_nextchar: "same_rest t (snd (cursor_nextchar t))"
  using same_rest_newline [of t]
  by (auto simp: same_rest_def off_screen_same_def cursor_nextchar_def vga_set_cursor_def Let_def split: prod.split)

lemma same_rest_scroll: "same_rest t (terminal_scroll t)"
  using scroll_cells [of _ t] by (simp add: same_rest_def off_screen_same_def) (simp add: terminal_scroll_def)

lemma same_rest_putentry: "term_ok t \<Longrightarrow> same_rest t (terminal_putentry c t)"
  by (erule term_okD) (simp add: same_rest_def off_screen_same_def terminal_putentry_def put_cell)

lemma term_ok_screen:
  assumes "screen_of t' = (scr, x, y)" "x < 80" "y \<le> 24" "same_rest t t'" "term_ok t"
  shows "term_ok t'"
  using assms by (auto simp: term_ok_def same_rest_def screen_of_def word_less_nat_alt word_le_nat_alt)

lemma off_screen_clear: "off_screen_same t (terminal_clear t)"
proof -
  have "cell (fold (\<lambda>y b. vga_clear_row b (of_nat y) col) [0..<k] b) i = cell b i" if "k \<le> 24" "2000 \<le> i" "i < 4294967000" for k b i col
    using that by (induction k) (auto simp: clear_row_cells)
  then show ?thesis by (simp add: off_screen_same_def terminal_clear_def cursor_setdefault_def vga_set_cursor_def)
qed

lemma clear_ok: "length (stdin_line t) = 1921 \<Longrightarrow> term_ok (terminal_command_buff_clear (terminal_clear t))"
  by (simp add: term_ok_def terminal_command_buff_clear_def terminal_clear_def cursor_setdefault_def vga_set_cursor_def)

lemma putchar_command:
  assumes ok: "term_ok t" and c: "c = COMM_START \<or> command_idx t > 0"
  shows "\<exists>t'. terminal_putchar c t = Ret () t' \<and> term_ok t' \<and> off_screen_same t t'"
proof -
  have i: "command_idx t \<noteq> COMM_LEN \<Longrightarrow> unat (command_idx t) < 3" "unat (command_idx t) \<le> 3"
    using ok by (auto simp: term_ok_def word_le_nat_alt word_unat_eq_iff)
  consider "command_idx t = COMM_LEN" | "command_idx t \<noteq> COMM_LEN" "c = COMM_END" | "command_idx t \<noteq> COMM_LEN" "c \<noteq> COMM_END" by blast
  then show ?thesis
  proof cases
    case 1
    then show ?thesis using ok c
      by (simp add: terminal_putchar_def terminal_command_buff_clear_def term_ok_def off_screen_same_def)
  next
    case 2
    have "term_ok (terminal_command_buff_clear (terminal_execute_command t))"
      using ok clear_ok [of t] by (auto simp: terminal_execute_command_def term_ok_def terminal_command_buff_clear_def)
    moreover have "off_screen_same t (terminal_command_buff_clear (terminal_execute_command t))"
      using off_screen_clear [of t] by (simp add: terminal_execute_command_def terminal_command_buff_clear_def off_screen_same_def)
    ultimately show ?thesis using 2 c by (auto simp: terminal_putchar_def)
  next
    case 3
    have "unat (command_idx t + 1) = unat (command_idx t) + 1" using i(2) by (subst unat_add_no_wrap) simp_all
    then show ?thesis using 3 ok c i(1)
      by (auto simp: terminal_putchar_def term_ok_def off_screen_same_def word_le_nat_alt word_less_nat_alt)
  qed
qed

lemma putchar_text:
  assumes ok: "term_ok t" and c: "command_idx t = 0" "c \<noteq> COMM_START"
  shows "\<exists>t'. terminal_putchar c t = Ret () t' \<and> screen_of t' = put_spec c (terminal_color t) (screen_of t) \<and> same_rest t t'"
proof -
  obtain x y where xy: "cur_x (terminal_cursor t) = of_nat x" "cur_y (terminal_cursor t) = of_nat y" "x < 80" "y \<le> 24"
    "screen_of t = (rows_of (vga_buffer t), x, y)" by (rule term_okD [OF ok])
  let ?p = "if c = NEWLINE then cursor_newline t else cursor_nextchar (terminal_putentry c t)"
  let ?scr = "if c = NEWLINE then rows_of (vga_buffer t) else (rows_of (vga_buffer t))(y := (rows_of (vga_buffer t) y)(x := vga_entry c (terminal_color t)))"
  let ?full = "\<not> (c \<noteq> NEWLINE \<and> x < 79 \<or> y < 24)"
  have pe: "screen_of (terminal_putentry c t) = ((rows_of (vga_buffer t))(y := (rows_of (vga_buffer t) y)(x := vga_entry c (terminal_color t))), x, y)"
    using putentry_screen [OF xy(3,4)] xy by (simp add: screen_of_def terminal_putentry_def)
  have f: "fst ?p = (if ?full then MAX_HEIGHT else SUCCESS)"
    and s: "screen_of (snd ?p) = (?scr, if c \<noteq> NEWLINE \<and> x < 79 then x + 1 else 0, if c \<noteq> NEWLINE \<and> x < 79 then y else if y < 24 then y + 1 else y)"
    using newline_screen [OF xy(5,4)] nextchar_screen [OF pe xy(3,4)] by auto
  have r: "same_rest t (snd ?p)"
    using same_rest_newline [of t] same_rest_trans [OF same_rest_putentry [OF ok, of c] same_rest_nextchar] by simp
  let ?t1 = "if fst ?p = MAX_HEIGHT then terminal_scroll (snd ?p) else snd ?p"
  let ?t2 = "upd_cursor (\<lambda>c. c\<lparr>line_x := - 1, line_y := - 1\<rparr>) ?t1"
  have e: "terminal_putchar c t = Ret () ?t2"
    using c by (simp add: terminal_putchar_def Let_def case_prod_unfold)
  have "same_rest t ?t1" using r same_rest_trans [OF r same_rest_scroll] by simp
  then have "same_rest t ?t2" by (simp add: same_rest_def off_screen_same_def)
  moreover have col: "terminal_color (snd ?p) = terminal_color t" using r by (simp add: same_rest_def)
  have "screen_of (terminal_scroll u) =
      ((\<lambda>r. if r < 24 then scr (r + 1) else if r = 24 then blank_row col else (\<lambda>_. 0)), i, j)"
    if "screen_of u = (scr, i, j)" "terminal_color u = col" for u scr i j col
    using that scroll_screen [of u] by (auto simp: screen_of_def) (simp_all add: terminal_scroll_def)
  note scroll = this [OF s col]
  have "screen_of ?t1 = put_spec c (terminal_color t) (screen_of t)"
    unfolding xy(5) f using s scroll xy(3,4) by (cases ?full) (auto simp: Let_def)
  then have "screen_of ?t2 = put_spec c (terminal_color t) (screen_of t)" by (simp add: screen_of_def)
  ultimately show ?thesis using e by (intro exI [of _ ?t2]) simp
qed

text \<open>
  C24: Printing a character never leaves the screen's memory or the command buffer and keeps the cursor on
  the screen. Outside a command sequence it does what it does on the 25 rows a user sees: the character
  appears at the cursor, the cursor moves on, and a new line at the bottom moves all rows up by one.
\<close>

theorem terminal_putchar_correct:
  assumes "term_ok t"
  shows "\<exists>t'. terminal_putchar c t = Ret () t' \<and> term_ok t' \<and> off_screen_same t t' \<and>
    (command_idx t = 0 \<and> c \<noteq> COMM_START \<longrightarrow> screen_of t' = put_spec c (terminal_color t) (screen_of t))"
proof (cases "command_idx t = 0 \<and> c \<noteq> COMM_START")
  case True
  then obtain t' where t': "terminal_putchar c t = Ret () t'" "screen_of t' = put_spec c (terminal_color t) (screen_of t)" "same_rest t t'"
    using putchar_text [OF assms, of c] by blast
  obtain x y where xy: "x < 80" "y \<le> 24" "screen_of t = (rows_of (vga_buffer t), x, y)" by (rule term_okD [OF assms])
  obtain scr i j where "screen_of t' = (scr, i, j)" "i < 80" "j \<le> 24"
    using t'(2) xy by (auto simp: Let_def split: if_splits)
  then have "term_ok t'" using term_ok_screen t'(3) assms by blast
  then show ?thesis using t' by (auto simp: same_rest_def)
next
  case False
  then show ?thesis using putchar_command [OF assms, of c] by (auto simp: word_gt_0)
qed

definition term_demo :: terminal where
  "term_demo = \<lparr>term_initialized = True, vga_buffer = (\<lambda>_. 0), command_buff = [0, 0, 0], command_idx = 0,
     stdin_line = replicate 1921 0, stdin_len = 0, terminal_color = 2,
     terminal_cursor = \<lparr>cur_x = 79, cur_y = 24, blink = True, line_x = - 1, line_y = - 1, position_ctr = 0, chars_ctr = 0\<rparr>,
     vga_position = 0\<rparr>"

theorem terminal_putchar_correct_witness:
  "\<exists>t'. terminal_putchar 0x41 term_demo = Ret () t' \<and> term_ok t' \<and> fst (screen_of t') 23 79 = vga_entry 0x41 2"
proof -
  have "term_ok term_demo" by (simp add: term_ok_def term_demo_def)
  from terminal_putchar_correct [OF this, of "0x41"] obtain t' where "terminal_putchar 0x41 term_demo = Ret () t'" "term_ok t'"
    "screen_of t' = put_spec 0x41 2 (screen_of term_demo)" by (auto simp: term_demo_def)
  then show ?thesis by (auto simp: screen_of_def term_demo_def Let_def)
qed

end
