(* ===== verification/Devices.thy ===== *)
theory Devices
  imports Exit_Wait Terminal
begin

text \<open>
  The devices around the terminal: \<^verbatim>\<open>kprintf\<close>, the standard input and output of \<^verbatim>\<open>kernel/vfs/dev_stdin.c\<close> and
  \<^verbatim>\<open>dev_stdout.c\<close>, reading and writing through the dispatcher of \<^verbatim>\<open>vfs.c\<close>, the keyboard and the timer.
\<close>

section \<open>State\<close>

text \<open>
  \<open>wait_task\<close>, \<open>wait_size\<close> and \<open>wait_buffer\<close> are the fields of \<^verbatim>\<open>wait4input\<close>; \<open>stdin_addr\<close> is the address the linker
  gives to \<^verbatim>\<open>terminal.stdin_line\<close>, \<open>pit_divisor\<close> the counter of the timer chip.
\<close>

record dev = sched +
  tty :: terminal
  wait_task :: ptr
  wait_size :: u32
  wait_buffer :: u32
  stdin_addr :: ptr
  shift_hold :: bool
  ctrl_hold :: bool
  alt_hold :: bool
  capslock_on :: bool
  tick :: u32
  pit_divisor :: u16

text \<open>A function of the terminal, run on the terminal of the system.\<close>

definition on_tty :: "(terminal \<Rightarrow> ('r, terminal) res) \<Rightarrow> 'a dev_scheme \<Rightarrow> ('r, 'a dev_scheme) res" where
  "on_tty f s =
     (case f (tty s) of
        Ret x t \<Rightarrow> Ret x (s\<lparr>tty := t\<rparr>)
      | Panic m \<Rightarrow> Panic m
      | Fault p \<Rightarrow> Fault p
      | Iret t \<Rightarrow> Iret (s\<lparr>tty := t\<rparr>)
      | Timeout \<Rightarrow> Timeout)"

definition ready_terminal :: "'a dev_scheme \<Rightarrow> 'a dev_scheme" where
  "ready_terminal s = (if term_initialized (tty s) then s else s\<lparr>tty := terminal_init (tty s)\<rparr>)"

section \<open>Kernel messages\<close>

text \<open>The variable arguments of \<^verbatim>\<open>kprintf\<close>: numbers and strings. An argument that is not there has no value.\<close>

datatype karg = Kint u32 | Kstr "u8 list"

abbreviation (input) PERCENT :: u8 where "PERCENT \<equiv> 0x25"

definition write_number :: "u32 \<Rightarrow> nat \<Rightarrow> terminal \<Rightarrow> (unit, terminal) res" where
  "write_number n base t =
     (case itoa n (replicate 20 0) base of None \<Rightarrow> Fault NULL | Some tmp \<Rightarrow> terminal_writestring tmp t)"

fun kprintf_loop :: "u8 list \<Rightarrow> karg list \<Rightarrow> terminal \<Rightarrow> (unit, terminal) res" where
  "kprintf_loop [] args t = Ret () t"
| "kprintf_loop [c] args t = (if c = PERCENT then Ret () t else terminal_putchar c t)"
| "kprintf_loop (c # d # fmt) args t =
     (if c = PERCENT then
        if d = PERCENT then bindR (terminal_putchar PERCENT t) (\<lambda>_ t. kprintf_loop fmt args t)
        else if d = 0x64 then
          (case args of Kint n # args \<Rightarrow> bindR (write_number n 10 t) (\<lambda>_ t. kprintf_loop fmt args t) | _ \<Rightarrow> Fault NULL)
        else if d = 0x78 then
          (case args of Kint n # args \<Rightarrow> bindR (write_number n 16 t) (\<lambda>_ t. kprintf_loop fmt args t) | _ \<Rightarrow> Fault NULL)
        else if d = 0x73 then
          (case args of Kstr str # args \<Rightarrow> bindR (terminal_writestring str t) (\<lambda>_ t. kprintf_loop fmt args t) | _ \<Rightarrow> Fault NULL)
        else kprintf_loop fmt args t
      else bindR (terminal_putchar c t) (\<lambda>_ t. kprintf_loop (d # fmt) args t))"

definition kprintf :: "u8 list \<Rightarrow> karg list \<Rightarrow> 'a dev_scheme \<Rightarrow> (unit, 'a dev_scheme) res" where
  "kprintf fmt args s =
     (case strlen fmt of
        None \<Rightarrow> Fault NULL
      | Some len \<Rightarrow> on_tty (kprintf_loop (take len fmt) args) (ready_terminal s))"

section \<open>Standard input and output\<close>

type_synonym 'a dkiller = "ptr \<Rightarrow> u32 \<Rightarrow> 'a dev_scheme \<Rightarrow> (unit, 'a dev_scheme) res"

definition stdin_read :: "'a dkiller \<Rightarrow> nat \<Rightarrow> u32 \<Rightarrow> ptr \<Rightarrow> 'a dev_scheme \<Rightarrow> (int, 'a dev_scheme) res" where
  "stdin_read kill n sz buffer s =
     (let s = s\<lparr>wait_task := actual_task s, wait_size := sz, wait_buffer := buffer\<rparr> in
      bindR (get_task (actual_task s) s) (\<lambda>a s.
      bindR (sched_set_state kill (task_id a) False s) (\<lambda>_ s.
      bindR (task_switch kill n s) (\<lambda>_ s. Ret 0 s))))"

definition put_bytes :: "ptr \<Rightarrow> u8 list \<Rightarrow> (ptr \<Rightarrow> u8) \<Rightarrow> (ptr \<Rightarrow> u8)" where
  "put_bytes p bs m = fold (\<lambda>i m. m(p + of_nat i := bs ! i)) [0..<length bs] m"

text \<open>The input line is a static buffer of the kernel; \<open>put_bytes\<close> lays it out where the copy reads it.\<close>

definition dev_stdin_recall :: "'a dkiller \<Rightarrow> u32 \<Rightarrow> 'a dev_scheme \<Rightarrow> (unit, 'a dev_scheme) res" where
  "dev_stdin_recall kill sz s =
     (let t = wait_task s; size_user = wait_size s; dst = wait_buffer s;
          n = (if size_user < sz then size_user else sz);
          s = s\<lparr>kmem := put_bytes (stdin_addr s) (stdin_line (tty s)) (kmem s)\<rparr> in
      bindR (get_task t s) (\<lambda>tcb s.
      bindR (vmm_copy_data_to (t_aspace tcb) dst (stdin_addr s) n s) (\<lambda>r s.
      bindR (set_task t (\<lambda>x. x\<lparr>t_regs := (t_regs x)\<lparr>eax := (if r < 0 then - 1 else n)\<rparr>\<rparr>) s) (\<lambda>_ s.
      bindR (if sint (errno s) > 0 then set_task t (\<lambda>x. x\<lparr>t_regs := (t_regs x)\<lparr>esi := errno s\<rparr>\<rparr>) s else Ret () s) (\<lambda>_ s.
      let s = s\<lparr>wait_task := NULL, wait_size := 0, wait_buffer := 0\<rparr> in
      bindR (get_task t s) (\<lambda>tcb s. sched_set_state kill (task_id tcb) True s))))))"

definition stdout_write :: "ptr \<Rightarrow> u32 \<Rightarrow> 'a dev_scheme \<Rightarrow> (int, 'a dev_scheme) res" where
  "stdout_write buffer sz s =
     bindR (for_each [0..<unat sz] (\<lambda>i s. bindR (kld8 (buffer + of_nat i) s) (\<lambda>c s. on_tty (terminal_putchar c) s))
       (ready_terminal s)) (\<lambda>_ s. Ret (sint sz) s)"

definition vfs_read :: "'a dkiller \<Rightarrow> nat \<Rightarrow> ptr \<Rightarrow> u32 \<Rightarrow> u32 \<Rightarrow> ptr \<Rightarrow> 'a dev_scheme \<Rightarrow> (int, 'a dev_scheme) res" where
  "vfs_read kill n node offset sz buffer s =
     bindR (get_node node s) (\<lambda>v s.
     bindR (case op_read (v_op v) of
              None \<Rightarrow> Ret (- 1) s
            | Some Ramfs_read \<Rightarrow> ramfs_read node offset sz buffer s
            | Some Tarfs_read \<Rightarrow> tarfs_read node offset sz buffer s
            | Some Zero_read \<Rightarrow> zero_read node offset sz buffer s
            | Some Stdin_read \<Rightarrow> stdin_read kill n sz buffer s) (\<lambda>ret s.
     let s = (if ret < 0 then set_errno EINVAL s else s) in
     Ret (if ret = 0 then - 1 else ret) s))"

definition vfs_write :: "ptr \<Rightarrow> u32 \<Rightarrow> ptr \<Rightarrow> u32 \<Rightarrow> 'a dev_scheme \<Rightarrow> (int, 'a dev_scheme) res" where
  "vfs_write node offset buffer sz s =
     bindR (get_node node s) (\<lambda>v s.
     bindR (case op_write (v_op v) of
              None \<Rightarrow> Ret (- 1) s
            | Some Ramfs_write \<Rightarrow> ramfs_write node offset buffer sz s
            | Some Zero_write \<Rightarrow> zero_write node offset buffer sz s
            | Some Stdout_write \<Rightarrow> stdout_write buffer sz s) (\<lambda>ret s.
     Ret ret (if ret < 0 then set_errno EINVAL s else s)))"

section \<open>Keyboard\<close>

abbreviation (input) KEY_BACKSPACE :: u8 where "KEY_BACKSPACE \<equiv> 14"
abbreviation (input) KEY_SHIFT :: u8 where "KEY_SHIFT \<equiv> 15"
abbreviation (input) KEY_CTRL :: u8 where "KEY_CTRL \<equiv> 16"
abbreviation (input) KEY_ALT :: u8 where "KEY_ALT \<equiv> 17"
abbreviation (input) KEY_CAPSLOCK :: u8 where "KEY_CAPSLOCK \<equiv> 18"
abbreviation (input) KEY_HOME :: u8 where "KEY_HOME \<equiv> 20"
abbreviation (input) KEY_END :: u8 where "KEY_END \<equiv> 21"
abbreviation (input) KEY_DEL :: u8 where "KEY_DEL \<equiv> 22"
abbreviation (input) KEY_ARR_LEFT :: u8 where "KEY_ARR_LEFT \<equiv> 23"
abbreviation (input) KEY_ARR_RIGHT :: u8 where "KEY_ARR_RIGHT \<equiv> 24"

definition kbd_layout :: "u8 list" where
  "kbd_layout = [0, 1, 49, 50, 51, 52, 53, 54, 55, 56, 57, 48, 45, 61, 14, 19, 113, 119, 101, 114, 116, 121, 117, 105, 111, 112, 91, 93, 10, 16, 97, 115,
      100, 102, 103, 104, 106, 107, 108, 59, 39, 96, 15, 92, 122, 120, 99, 118, 98, 110, 109, 44, 46, 47, 15, 0, 17, 32, 18, 2, 3, 4, 5, 6,
      7, 8, 9, 10, 11, 0, 0, 20, 25, 0, 0, 23, 0, 24, 0, 21, 26, 0, 0, 22, 0, 0, 0, 12, 13, 0, 0, 0, 0, 0, 0, 0,
      0, 0, 0, 0, 0, 0, 0, 0, 0, 0, 0, 0, 0, 0, 0, 0, 0, 0, 0, 0, 0, 0, 0, 0, 0, 0, 0, 0, 0, 0, 0, 0]"

definition capital_layout :: "u8 list" where
  "capital_layout = [0, 1, 33, 64, 35, 36, 37, 94, 38, 42, 40, 41, 95, 43, 14, 19, 81, 87, 69, 82, 84, 89, 85, 73, 79, 80, 123, 125, 10, 16, 65, 83,
      68, 70, 71, 72, 74, 75, 76, 58, 34, 126, 15, 124, 90, 88, 67, 86, 66, 78, 77, 60, 62, 63, 15, 0, 17, 32, 18, 2, 3, 4, 5, 6,
      7, 8, 9, 10, 11, 0, 0, 20, 25, 0, 0, 23, 0, 24, 0, 21, 26, 0, 0, 22, 0, 0, 0, 12, 13, 0, 0, 0, 0, 0, 0, 0,
      0, 0, 0, 0, 0, 0, 0, 0, 0, 0, 0, 0, 0, 0, 0, 0, 0, 0, 0, 0, 0, 0, 0, 0, 0, 0, 0, 0, 0, 0, 0, 0]"

text \<open>The part of \<^verbatim>\<open>terminal_putchar_from_keyboard\<close> before its \<^verbatim>\<open>switch\<close>: the start of the line and printable characters.\<close>

definition mark_line :: "terminal \<Rightarrow> terminal" where
  "mark_line t =
     (let c = terminal_cursor t in
      if line_y c = - 1 \<and> line_x c = - 1 then t\<lparr>terminal_cursor := c\<lparr>line_x := cur_x c, line_y := cur_y c\<rparr>\<rparr> else t)"

definition type_char :: "u8 \<Rightarrow> terminal \<Rightarrow> (unit, terminal) res" where
  "type_char ch t =
     (let c = terminal_cursor t in
      bindR (if position_ctr c < chars_ctr c then terminal_insert_into_inputline ch (position_ctr c) t
             else Ret () (terminal_putentry ch t)) (\<lambda>_ t.
      let (ret, t) = cursor_nextchar_kbd t in
      Ret () (if ret = MAX_HEIGHT
              then terminal_cursor_update (\<lambda>c. c\<lparr>line_y := line_y c - 1\<rparr>) (terminal_scroll t) else t)))"

definition backspace :: "terminal \<Rightarrow> (unit, terminal) res" where
  "backspace t =
     (let c = terminal_cursor t in
      if chars_ctr c = 0 \<or> position_ctr c = 0 then Ret () t
      else bindR (terminal_remove_from_inputline (position_ctr c - 1) t) (\<lambda>_ t.
        Ret () (cursor_remove_char (cursor_move_left False t))))"

definition delete_char :: "terminal \<Rightarrow> (unit, terminal) res" where
  "delete_char t =
     (let c = terminal_cursor t in
      if chars_ctr c = 0 \<or> chars_ctr c = position_ctr c then Ret () t
      else bindR (terminal_remove_from_inputline (position_ctr c) t) (\<lambda>_ t. Ret () (cursor_remove_char t)))"

definition finish_line :: "terminal \<Rightarrow> (unit, terminal) res" where
  "finish_line t =
     bindR (copy_inputline t) (\<lambda>_ t.
     let t = t\<lparr>stdin_len := chars_ctr (terminal_cursor t)\<rparr>; (ret, t) = cursor_newline_kbd t in
     Ret () (if ret = MAX_HEIGHT then terminal_scroll t else t))"

definition terminal_putchar_from_keyboard :: "'a dkiller \<Rightarrow> u8 \<Rightarrow> 'a dev_scheme \<Rightarrow> (unit, 'a dev_scheme) res" where
  "terminal_putchar_from_keyboard kill c s =
     (let s = s\<lparr>tty := mark_line (tty s)\<rparr> in
      if 0x20 \<le> c \<and> c \<le> 0x7e then on_tty (type_char c) s
      else if c = KEY_ARR_LEFT then Ret () (s\<lparr>tty := cursor_move_left False (tty s)\<rparr>)
      else if c = KEY_HOME then Ret () (s\<lparr>tty := cursor_move_left True (tty s)\<rparr>)
      else if c = KEY_ARR_RIGHT then Ret () (s\<lparr>tty := cursor_move_right False (tty s)\<rparr>)
      else if c = KEY_END then Ret () (s\<lparr>tty := cursor_move_right True (tty s)\<rparr>)
      else if c = NEWLINE then
        bindR (on_tty finish_line s) (\<lambda>_ s. dev_stdin_recall kill (stdin_len (tty s)) s)
      else if c = KEY_BACKSPACE then on_tty backspace s
      else if c = KEY_DEL then on_tty delete_char s
      else Ret () s)"

definition keyboard_isr :: "'a dkiller \<Rightarrow> u8 \<Rightarrow> 'a dev_scheme \<Rightarrow> (unit, 'a dev_scheme) res" where
  "keyboard_isr kill ch s =
     (if ch < 128 then
        let k = kbd_layout ! unat ch in
        if k = KEY_SHIFT then Ret () (s\<lparr>shift_hold := True\<rparr>)
        else if k = KEY_CTRL then Ret () (s\<lparr>ctrl_hold := True\<rparr>)
        else if k = KEY_ALT then Ret () (s\<lparr>alt_hold := True\<rparr>)
        else if k = KEY_CAPSLOCK then Ret () (s\<lparr>capslock_on := \<not> capslock_on s\<rparr>)
        else if shift_hold s \<or> capslock_on s then terminal_putchar_from_keyboard kill (capital_layout ! unat ch) s
        else terminal_putchar_from_keyboard kill k s
      else
        let k = kbd_layout ! unat (ch - 128) in
        if k = KEY_SHIFT then Ret () (s\<lparr>shift_hold := False\<rparr>)
        else if k = KEY_CTRL then Ret () (s\<lparr>ctrl_hold := False\<rparr>)
        else if k = KEY_ALT then Ret () (s\<lparr>alt_hold := False\<rparr>)
        else Ret () s)"

section \<open>Timer\<close>

abbreviation (input) BASE_FREQUENCY :: u32 where "BASE_FREQUENCY \<equiv> 1193180"

definition timer_init :: "u32 \<Rightarrow> 'a dev_scheme \<Rightarrow> (unit, 'a dev_scheme) res" where
  "timer_init freq s =
     (if freq = 0 then Panic ''Divide Error''
      else
        (let d = BASE_FREQUENCY div freq; low = ucast (d AND 0xff) :: u8; high = ucast (drop_bit 8 d AND 0xff) :: u8 in
         Ret () (s\<lparr>pit_divisor := ucast low OR push_bit 8 (ucast high)\<rparr>)))"

definition timer_isr :: "'a dev_scheme \<Rightarrow> bool \<times> 'a dev_scheme" where
  "timer_isr s = (let s = s\<lparr>tick := tick s + 1\<rparr> in (tick s mod 10 = 0, s))"

section \<open>Typing a line\<close>

lemma entry_char: "(ucast (vga_entry c color AND 0xff) :: u8) = c"
proof (rule bit_word_eqI)
  fix n assume "n < LENGTH(8)"
  then have n: "n < 8" by simp
  have m: "bit (0xff :: u16) n" using n by (simp add: bit_numeral_rec) (auto simp: less_Suc_eq numeral_eq_Suc)
  show "bit (ucast (vga_entry c color AND 0xff) :: u8) n = bit c n"
    using n m by (simp add: bit_ucast_iff vga_entry_def bit_and_iff bit_or_iff bit_push_bit_iff)
qed

text \<open>
  \<open>typed t p k ws\<close>: the user has typed \<open>ws\<close>, \<open>k\<close> characters, from cell \<open>p\<close> on, and the cursor is behind them.
\<close>

definition at_cell :: "terminal \<Rightarrow> nat \<Rightarrow> bool" where
  "at_cell t n \<longleftrightarrow> cur_x (terminal_cursor t) = of_nat (n mod 80) \<and> cur_y (terminal_cursor t) = of_nat (n div 80)"

definition typed :: "terminal \<Rightarrow> nat \<Rightarrow> u8 list \<Rightarrow> bool" where
  "typed t p ws \<longleftrightarrow>
     (let c = terminal_cursor t in
      at_cell t (p + length ws) \<and> line_x c = of_nat (p mod 80) \<and> line_y c = of_nat (p div 80) \<and>
      position_ctr c = of_nat (length ws) \<and> chars_ctr c = of_nat (length ws) \<and> length (stdin_line t) = 1921 \<and>
      (\<forall>i < length ws. cell (vga_buffer t) (p + i) = vga_entry (ws ! i) (terminal_color t)))"

lemma of_nat_small_eq: "m < 2000 \<Longrightarrow> n < 2000 \<Longrightarrow> (of_nat m :: u32) = of_nat n \<longleftrightarrow> m = n"
  by (rule of_nat32_eq) simp_all

lemma mark_line_typed: "typed t p ws \<Longrightarrow> p < 2000 \<Longrightarrow> mark_line t = t"
proof -
  assume a: "typed t p ws" "p < 2000"
  have "line_y (terminal_cursor t) = of_nat (p div 80)" using a(1) by (simp add: typed_def Let_def)
  moreover have "(- 1 :: u32) = of_nat 4294967295" by simp
  moreover have "p div 80 \<noteq> 4294967295" "p div 80 < 4294967296" using a(2) by simp_all
  then have "(of_nat (p div 80) :: u32) \<noteq> of_nat 4294967295" by (simp only: of_nat32_eq) simp
  ultimately have "line_y (terminal_cursor t) \<noteq> - 1" by metis
  then show ?thesis by (simp add: mark_line_def Let_def)
qed

lemma nextchar_cell:
  assumes "at_cell t n" and "n + 1 < 2000"
  shows "at_cell (snd (cursor_nextchar t)) (n + 1) \<and> fst (cursor_nextchar t) = SUCCESS"
proof (cases "n mod 80 = 79")
  case True
  have "n = 80 * (n div 80) + n mod 80" by simp
  then have "n div 80 < 24" using assms(2) True by linarith
  moreover have "(n + 1) mod 80 = 0" "(n + 1) div 80 = n div 80 + 1" using True by (simp_all add: mod_Suc div_Suc)
  ultimately show ?thesis
    using assms(1) True of_nat_small_eq [of "n div 80" 24]
    by (simp add: at_cell_def cursor_nextchar_def cursor_newline_def vga_set_cursor_def Let_def)
next
  case False
  have "(n + 1) mod 80 = n mod 80 + 1" "(n + 1) div 80 = n div 80" using False by (simp_all add: mod_Suc div_Suc)
  moreover have "(of_nat (n mod 80) :: u32) \<noteq> 79" using False of_nat_small_eq [of "n mod 80" 79] by simp
  ultimately show ?thesis
    using assms(1) by (simp add: at_cell_def cursor_nextchar_def vga_set_cursor_def Let_def)
qed

lemma nextchar_frame:
  "vga_buffer (snd (cursor_nextchar t)) = vga_buffer t" "terminal_color (snd (cursor_nextchar t)) = terminal_color t"
  "stdin_line (snd (cursor_nextchar t)) = stdin_line t"
  "line_x (terminal_cursor (snd (cursor_nextchar t))) = line_x (terminal_cursor t)"
  "line_y (terminal_cursor (snd (cursor_nextchar t))) = line_y (terminal_cursor t)"
  "position_ctr (terminal_cursor (snd (cursor_nextchar t))) = position_ctr (terminal_cursor t)"
  "chars_ctr (terminal_cursor (snd (cursor_nextchar t))) = chars_ctr (terminal_cursor t)"
  by (simp_all add: cursor_nextchar_def cursor_newline_def vga_set_cursor_def Let_def)

lemma type_char_typed:
  assumes ty: "typed t p ws" and n: "p + length ws + 1 < 2000"
  shows "\<exists>t'. type_char c (mark_line t) = Ret () t' \<and> typed t' p (ws @ [c])"
proof -
  let ?n = "p + length ws"
  have m: "mark_line t = t" using mark_line_typed [OF ty] n by simp
  have at: "at_cell t ?n" using ty by (simp add: typed_def Let_def)
  have pos: "\<not> position_ctr (terminal_cursor t) < chars_ctr (terminal_cursor t)" using ty by (simp add: typed_def Let_def)
  let ?u = "terminal_cursor_update (\<lambda>c. c\<lparr>chars_ctr := chars_ctr c + 1, position_ctr := position_ctr c + 1\<rparr>) (terminal_putentry c t)"
  have u: "at_cell ?u ?n" using at by (simp add: at_cell_def terminal_putentry_def)
  note nx = nextchar_cell [OF u n]
  let ?t = "snd (cursor_nextchar ?u)"
  have "type_char c (mark_line t) = Ret () ?t"
    using pos nx by (simp add: m type_char_def Let_def cursor_nextchar_kbd_def case_prod_unfold)
  moreover have cl: "cell (vga_buffer (terminal_putentry c t)) m =
      (if m = ?n then vga_entry c (terminal_color t) else cell (vga_buffer t) m)" if "m < 2000" for m
  proof -
    have "?n mod 80 < 80" "?n div 80 \<le> 24" "80 * (?n div 80) + ?n mod 80 = ?n" using n by simp_all
    then show ?thesis using put_cell [of "?n mod 80" "?n div 80" m "vga_buffer t"] at that
      by (simp add: terminal_putentry_def at_cell_def)
  qed
  have "typed ?t p (ws @ [c])"
    using nx ty n unfolding typed_def Let_def nextchar_frame
    by (auto simp: cl nth_append less_Suc_eq) (simp_all add: terminal_putentry_def add.commute)
  ultimately show ?thesis by blast
qed

lemma for_each_type:
  assumes "typed t p us" and "p + length us + length ws < 2000"
  shows "\<exists>t'. for_each ws (\<lambda>c t. type_char c (mark_line t)) t = Ret () t' \<and> typed t' p (us @ ws)"
  using assms
proof (induction ws arbitrary: t us)
  case (Cons c ws)
  obtain t1 where "type_char c (mark_line t) = Ret () t1" "typed t1 p (us @ [c])"
    using type_char_typed [OF Cons.prems(1), of c] Cons.prems(2) by auto
  moreover have "p + length (us @ [c]) + length ws < 2000" using Cons.prems(2) by simp
  ultimately show ?case using Cons.IH [of t1 "us @ [c]"] by simp
qed simp

lemma copy_typed:
  assumes ty: "typed t p ws" and n: "p + length ws < 2000" "p < 80 \<longrightarrow> p + length ws \<le> 1920"
  shows "\<exists>rest. copy_inputline t = Ret () (t\<lparr>stdin_line := ws @ rest\<rparr>) \<and> length (ws @ rest) = 1921"
proof -
  let ?x = "of_nat (p mod 80) :: u32" and ?y = "of_nat (p div 80) :: u32" and ?k = "of_nat (length ws) :: u32"
  have c: "line_x (terminal_cursor t) = ?x" "line_y (terminal_cursor t) = ?y" "chars_ctr (terminal_cursor t) = ?k"
    "length (stdin_line t) = 1921" "\<And>i. i < length ws \<Longrightarrow> cell (vga_buffer t) (p + i) = vga_entry (ws ! i) (terminal_color t)"
    using ty by (simp_all add: typed_def Let_def)
  have pd: "p = 80 * (p div 80) + p mod 80" by simp
  have "(of_nat (p div 80 * 80 + p mod 80) :: u32) = of_nat p" by (simp only: div_mult_mod_eq)
  then have src: "?y * VGA_WIDTH + ?x = of_nat p" by (simp only: of_nat_add of_nat_mult of_nat_numeral)
  have k: "unat ?k = length ws" using n(1) by (simp add: unat_of_nat32)
  have fits: "line_fits ?x ?y ?k"
  proof (cases "p div 80")
    case 0
    then have "unat (?x + ?k) = p + length ws" using n(1) by (simp flip: of_nat_add add: unat_of_nat32)
    then show ?thesis using 0 n(2) by (simp add: line_fits_def word_le_nat_alt div_eq_0_iff)
  next
    case (Suc m)
    have "(?y - 1) * VGA_WIDTH + ?x + ?k = of_nat (80 * m + p mod 80 + length ws)" using Suc by (simp add: mult.commute)
    moreover have "80 * m + p mod 80 + length ws < 1920" using pd Suc n(1) by simp
    ultimately have "unat ((?y - 1) * VGA_WIDTH + ?x + ?k) < 1920" by (simp only: unat_of_nat32)
    moreover have "?y > 0" using Suc n(1) of_nat_small_eq [of "p div 80" 0] by (simp add: word_gt_0)
    ultimately show ?thesis by (simp add: line_fits_def word_le_nat_alt)
  qed
  have "map (\<lambda>i. ucast (vga_buffer t (of_nat p + of_nat i) AND 0xff)) [0..<length ws] = ws"
  proof (rule nth_equalityI)
    fix i assume "i < length (map (\<lambda>i. ucast (vga_buffer t (of_nat p + of_nat i) AND 0xff) :: u8) [0..<length ws])"
    then have i: "i < length ws" by simp
    then show "map (\<lambda>i. ucast (vga_buffer t (of_nat p + of_nat i) AND 0xff)) [0..<length ws] ! i = ws ! i"
      using c(5) [OF i] entry_char by (simp only: nth_map length_upt nth_upt cell_put) simp
  qed simp
  moreover have len: "length ws \<le> 1921" using n by (cases "p < 80") auto
  ultimately have "copy_inputline t = Ret () (t\<lparr>stdin_line := ws @ drop (length ws) (stdin_line t)\<rparr>)"
    using fits c(1-4) n(1) k unfolding copy_inputline_def vga_copy_line_def Let_def
    by (simp only: src) (simp add: unat_of_nat32)
  moreover have "length (ws @ drop (length ws) (stdin_line t)) = 1921" using c(4) n by auto
  ultimately show ?thesis by (intro exI [of _ "drop (length ws) (stdin_line t)"]) simp
qed

definition printable :: "u8 \<Rightarrow> bool" where
  "printable c \<longleftrightarrow> 0x20 \<le> c \<and> c \<le> 0x7e"

lemma type_printable:
  "\<forall>c \<in> set ws. printable c \<Longrightarrow>
   for_each ws (\<lambda>c t. type_char c (mark_line t)) (tty s) = Ret () t \<Longrightarrow>
   for_each ws (terminal_putchar_from_keyboard kill) s = Ret () (s\<lparr>tty := t\<rparr>)"
proof (induction ws arbitrary: s)
  case (Cons c ws)
  obtain u where u: "type_char c (mark_line (tty s)) = Ret () u"
    "for_each ws (\<lambda>c t. type_char c (mark_line t)) u = Ret () t"
    using Cons.prems(2) by (auto elim: bindR_RetE)
  have "terminal_putchar_from_keyboard kill c s = Ret () (s\<lparr>tty := u\<rparr>)"
    using Cons.prems(1) u(1) by (simp add: terminal_putchar_from_keyboard_def printable_def Let_def on_tty_def)
  then show ?case using Cons.IH [of "s\<lparr>tty := u\<rparr>"] Cons.prems(1) u(2) by simp
qed simp


definition dev_demo :: dev where
  "dev_demo = sched.extend sched_demo
     \<lparr>tty = term_demo\<lparr>terminal_cursor := \<lparr>cur_x = 78, cur_y = 3, blink = True, line_x = - 1, line_y = - 1, position_ctr = 0,
        chars_ctr = 0\<rparr>\<rparr>,
      wait_task = 0xc0107000, wait_size = 100, wait_buffer = 0x8049000, stdin_addr = 0xc0090000, shift_hold = False,
      ctrl_hold = False, alt_hold = False, capslock_on = False, tick = 0, pit_divisor = 0\<rparr>"


end
