(* ===== verification/File_Syscalls.thy ===== *)
theory File_Syscalls
  imports Devices
begin

text \<open>
  The system calls on files: \<^verbatim>\<open>open\<close>, \<^verbatim>\<open>read\<close>, \<^verbatim>\<open>write\<close>, \<^verbatim>\<open>lseek\<close>, \<^verbatim>\<open>readdir\<close>, \<^verbatim>\<open>mkdir\<close>, \<^verbatim>\<open>rmdir\<close> and \<^verbatim>\<open>remove\<close> of
  \<^verbatim>\<open>kernel/vfs\<close>. A number \<open>n\<close> bounds the nested exits and, in \<^verbatim>\<open>write\<close>, the rounds of a loop that need not end.
\<close>

section \<open>State and helpers\<close>

text \<open>The addresses of two local arrays on the kernel stack, \<^verbatim>\<open>kern_dent\<close> and \<^verbatim>\<open>argv_user_stack\<close>.\<close>

record sys = dev +
  kern_dent_addr :: ptr
  argv_stack_addr :: ptr

abbreviation (input) EPERM :: u32 where "EPERM \<equiv> 1"
abbreviation (input) ENOENT :: u32 where "ENOENT \<equiv> 2"
abbreviation (input) ENXIO :: u32 where "ENXIO \<equiv> 6"
abbreviation (input) EBUSY :: u32 where "EBUSY \<equiv> 16"
abbreviation (input) EEXIST :: u32 where "EEXIST \<equiv> 17"
abbreviation (input) ENODEV :: u32 where "ENODEV \<equiv> 19"
abbreviation (input) ENOTDIR :: u32 where "ENOTDIR \<equiv> 20"
abbreviation (input) EISDIR :: u32 where "EISDIR \<equiv> 21"
abbreviation (input) EMFILE :: u32 where "EMFILE \<equiv> 24"
abbreviation (input) ESPIPE :: u32 where "ESPIPE \<equiv> 29"
abbreviation (input) O_CREAT :: u32 where "O_CREAT \<equiv> 1"
abbreviation (input) O_RDONLY :: u32 where "O_RDONLY \<equiv> 2"
abbreviation (input) O_WRONLY :: u32 where "O_WRONLY \<equiv> 4"
abbreviation (input) O_RDWR :: u32 where "O_RDWR \<equiv> 8"
abbreviation (input) MAX_PATH_LEN :: u32 where "MAX_PATH_LEN \<equiv> 4096"

definition kbytes :: "ptr \<Rightarrow> nat \<Rightarrow> 'a vmm_scheme \<Rightarrow> u8 list" where
  "kbytes p n s = map (\<lambda>i. kmem s (p + of_nat i)) [0..<n]"

definition kst_bytes :: "ptr \<Rightarrow> u8 list \<Rightarrow> 'a vmm_scheme \<Rightarrow> (unit, 'a vmm_scheme) res" where
  "kst_bytes p bs s = for_each [0..<length bs] (\<lambda>i s. kst8 (p + of_nat i) (bs ! i) s) s"

text \<open>Words of memory, low byte first.\<close>

definition le_bytes :: "u32 \<Rightarrow> u8 list" where
  "le_bytes w = [ucast w, ucast (drop_bit 8 w), ucast (drop_bit 16 w), ucast (drop_bit 24 w)]"

definition kld32 :: "ptr \<Rightarrow> 'a vmm_scheme \<Rightarrow> (u32, 'a vmm_scheme) res" where
  "kld32 p s =
     bindR (kld8 p s) (\<lambda>b0 s.
     bindR (kld8 (p + 1) s) (\<lambda>b1 s.
     bindR (kld8 (p + 2) s) (\<lambda>b2 s.
     bindR (kld8 (p + 3) s) (\<lambda>b3 s.
     Ret (ucast b0 OR push_bit 8 (ucast b1) OR push_bit 16 (ucast b2) OR push_bit 24 (ucast b3)) s))))"

definition kst32 :: "ptr \<Rightarrow> u32 \<Rightarrow> 'a vmm_scheme \<Rightarrow> (unit, 'a vmm_scheme) res" where
  "kst32 p w s = kst_bytes p (le_bytes w) s"

definition fail :: "u32 \<Rightarrow> 'a mmu_scheme \<Rightarrow> (int, 'a mmu_scheme) res" where
  "fail e s = Ret (- 1) (set_errno e s)"

text \<open>A system call that gets a path copies it from the memory of the program first.\<close>

definition with_path ::
  "u32 \<Rightarrow> (u8 list \<Rightarrow> 'a sys_scheme \<Rightarrow> (int, 'a sys_scheme) res) \<Rightarrow> 'a sys_scheme \<Rightarrow> (int, 'a sys_scheme) res" where
  "with_path path call s =
     bindR (get_task (actual_task s) s) (\<lambda>a s.
     bindR (vmm_copy_string_from (t_aspace a) path MAX_PATH_LEN s) (\<lambda>p s.
     if p = NULL then Ret (- 1) s
     else
       bindR (call (kbytes p 4096 s) s) (\<lambda>ret s.
       bindR (kfree p s) (\<lambda>_ s. Ret ret s))))"

section \<open>open\<close>

text \<open>
  The search reads one element behind the table before it checks the index: in the control block that is
  the signal mask.
\<close>

definition fd_table :: "tcb \<Rightarrow> nat \<Rightarrow> u32" where
  "fd_table t i = (if i < MAX_FDS then used_fd t ! i else sig_mask t)"

function scan_fds :: "tcb \<Rightarrow> nat \<Rightarrow> nat" where
  "scan_fds t i = (if fd_table t i \<noteq> NULL \<and> i < MAX_FDS then scan_fds t (i + 1) else i)"
  by pat_completeness auto
termination by (relation "measure (\<lambda>(t, i). MAX_FDS - i)") auto

declare scan_fds.simps [simp del]

definition find_free_fd_num :: "tcb \<Rightarrow> nat option" where
  "find_free_fd_num t = (let i = scan_fds t 2 in if fd_table t i = NULL then Some i else None)"

definition set_fd_table :: "nat \<Rightarrow> u32 \<Rightarrow> tcb \<Rightarrow> tcb" where
  "set_fd_table i v t = (if i < MAX_FDS then t\<lparr>used_fd := (used_fd t)[i := v]\<rparr> else t\<lparr>sig_mask := v\<rparr>)"

text \<open>The links of the new descriptor are what the heap left there.\<close>

definition new_fd :: "ptr \<Rightarrow> u32 \<Rightarrow> 'a vfs_scheme \<Rightarrow> (ptr, 'a vfs_scheme) res" where
  "new_fd file flags s =
     bindR (kmalloc 20 s) (\<lambda>p s.
     Ret p (s\<lparr>fds := (fds s)(p \<mapsto> \<lparr>fd_position = 0, fd_mode = flags, fd_vnode = file,
       fd_next = stale s (p + 12), fd_prev = stale s (p + 16)\<rparr>)\<rparr>))"

definition open_lookup :: "u8 list \<Rightarrow> u32 \<Rightarrow> 'a sys_scheme \<Rightarrow> (ptr, 'a sys_scheme) res" where
  "open_lookup path flags s =
     bindR (namei_path_to_vfs_node NULL path s) (\<lambda>(file, parent) s.
     if file \<noteq> NULL then Ret file s
     else
       case parent of
         None \<Rightarrow> Fault NULL
       | Some file_parent \<Rightarrow>
           if file_parent = NULL then Ret NULL (set_errno ENOENT s)
           else if flags AND O_CREAT \<noteq> 0 then
             bindR (in_bounds (namei_path_to_filename path (replicate MAX_FILENAME 0)) s) (\<lambda>filename s.
             bindR (vfs_touch file_parent filename s) (\<lambda>(r, file) s. Ret (if r < 0 then NULL else file) s))
           else Ret NULL (set_errno ENOENT s))"

definition do_open :: "ptr \<Rightarrow> u8 list \<Rightarrow> u32 \<Rightarrow> 'a sys_scheme \<Rightarrow> (int, 'a sys_scheme) res" where
  "do_open t path flags s =
     bindR (open_lookup path flags s) (\<lambda>file s.
     if file = NULL then Ret (- 1) s
     else
       bindR (vfs_open file flags s) (\<lambda>r s.
       if r < 0 then Ret (- 1) s
       else
         bindR (new_fd file flags s) (\<lambda>p s.
         bindR (fd_add p s) (\<lambda>_ s.
         bindR (get_task t s) (\<lambda>tcb s.
         case find_free_fd_num tcb of
           None \<Rightarrow> fail EMFILE s
         | Some i \<Rightarrow>
             bindR (set_task t (\<lambda>x. (set_fd_table i p x)\<lparr>fd_ctr := fd_ctr x + 1\<rparr>) s) (\<lambda>_ s. Ret (int i) s))))))"

definition sys_open :: "u32 \<Rightarrow> u32 \<Rightarrow> 'a sys_scheme \<Rightarrow> (int, 'a sys_scheme) res" where
  "sys_open path flags s = with_path path (\<lambda>p s. do_open (actual_task s) p flags s) s"

section \<open>read and write\<close>

definition do_read :: "nat \<Rightarrow> ptr \<Rightarrow> int \<Rightarrow> u32 \<Rightarrow> u32 \<Rightarrow> 'a sys_scheme \<Rightarrow> (int, 'a sys_scheme) res" where
  "do_read n t fd buff sz s =
     bindR (get_task t s) (\<lambda>tcb s.
     bindR (fd_slot tcb fd s) (\<lambda>fd_ptr s.
     if fd_ptr = NULL then fail EBADF s
     else
       bindR (get_fd fd_ptr s) (\<lambda>f s.
       if fd_mode f AND O_WRONLY \<noteq> 0 then fail EPERM s
       else
         bindR (get_task (kernel_task s) s) (\<lambda>k s.
         bindR (fd_slot k fd s) (\<lambda>std s.
         bindR (if fd_ptr = std then bindR (vfs_read (do_exit n) n (fd_vnode f) (fd_position f) sz buff s) (\<lambda>_ s. Ret () s)
                else Ret () s) (\<lambda>_ s.
         bindR (vmalloc sz MAPPED s) (\<lambda>src s.
         bindR (vfs_read (do_exit n) n (fd_vnode f) (fd_position f) sz src s) (\<lambda>read_data s.
         if read_data < 0 then bindR (vfree src s) (\<lambda>_ s. Ret (- 1) s)
         else
           bindR (vmm_copy_data_to (t_aspace tcb) buff src (of_int read_data) s) (\<lambda>r s.
           if r < 0 then bindR (vfree src s) (\<lambda>_ s. Ret (- 1) s)
           else
             bindR (set_fd fd_ptr (fd_position_update (\<lambda>p. p + of_int read_data)) s) (\<lambda>_ s.
             bindR (vfree src s) (\<lambda>_ s. Ret read_data s)))))))))))"

definition sys_read :: "nat \<Rightarrow> int \<Rightarrow> u32 \<Rightarrow> u32 \<Rightarrow> 'a sys_scheme \<Rightarrow> (int, 'a sys_scheme) res" where
  "sys_read n fd buff sz s = do_read n (actual_task s) fd buff sz s"

text \<open>The size of the next piece of a transfer that must not cross the end of a page.\<close>

definition page_piece :: "u32 \<Rightarrow> u32 \<Rightarrow> u32" where
  "page_piece vaddr rem = (if vaddr mod PAGE_SIZE + rem > PAGE_SIZE then PAGE_SIZE - vaddr mod PAGE_SIZE else rem)"

fun write_loop ::
  "nat \<Rightarrow> ptr \<Rightarrow> ptr \<Rightarrow> ptr \<Rightarrow> u32 \<Rightarrow> u32 \<Rightarrow> u32 \<Rightarrow> u32 \<Rightarrow> 'a sys_scheme \<Rightarrow> (int, 'a sys_scheme) res" where
  "write_loop 0 aspace node fd_ptr old_tmp sz written vaddr s = Timeout"
| "write_loop (Suc n) aspace node fd_ptr old_tmp sz written vaddr s =
     (if written < sz then
        bindR (get_as aspace s) (\<lambda>a s.
        bindR (pg_get_frame_from (as_pd a) vaddr s) (\<lambda>paddr s.
        if paddr = 0 then fail EFAULT s
        else
          bindR (pg_map paddr VM_TMP2_MAP PG_KERN_PAGE_FLAG s) (\<lambda>_ s.
          bindR (get_fd fd_ptr s) (\<lambda>f s.
          bindR (vfs_write node (fd_position f) (VM_TMP2_MAP + vaddr mod PAGE_SIZE) (page_piece vaddr (sz - written)) s) (\<lambda>w s.
          if w < 0 then
            bindR (pg_unmap VM_TMP2_MAP s) (\<lambda>_ s.
            bindR (pg_map old_tmp VM_TMP2_MAP PG_KERN_PAGE_FLAG s) (\<lambda>_ s. Ret (- 1) s))
          else
            bindR (set_fd fd_ptr (fd_position_update (\<lambda>p. p + of_int w)) s) (\<lambda>_ s.
            bindR (pg_unmap VM_TMP2_MAP s) (\<lambda>_ s.
            write_loop n aspace node fd_ptr old_tmp sz (written + of_int w) (vaddr + of_int w) s)))))))
      else bindR (pg_map old_tmp VM_TMP2_MAP PG_KERN_PAGE_FLAG s) (\<lambda>_ s. Ret (sint written) s))"

definition do_write :: "nat \<Rightarrow> ptr \<Rightarrow> int \<Rightarrow> u32 \<Rightarrow> u32 \<Rightarrow> 'a sys_scheme \<Rightarrow> (int, 'a sys_scheme) res" where
  "do_write n t fd buff sz s =
     bindR (get_task t s) (\<lambda>tcb s.
     bindR (fd_slot tcb fd s) (\<lambda>fd_ptr s.
     if fd_ptr = NULL then fail EBADF s
     else
       bindR (get_fd fd_ptr s) (\<lambda>f s.
       if fd_mode f AND O_RDONLY \<noteq> 0 then fail EPERM s
       else
         bindR (pg_unmap VM_TMP2_MAP s) (\<lambda>old_tmp s.
         write_loop n (t_aspace tcb) (fd_vnode f) fd_ptr old_tmp sz 0 buff s))))"

definition sys_write :: "nat \<Rightarrow> int \<Rightarrow> u32 \<Rightarrow> u32 \<Rightarrow> 'a sys_scheme \<Rightarrow> (int, 'a sys_scheme) res" where
  "sys_write n fd buff sz s = do_write n (actual_task s) fd buff sz s"

section \<open>lseek and readdir\<close>

definition do_lseek :: "ptr \<Rightarrow> int \<Rightarrow> u32 \<Rightarrow> u32 \<Rightarrow> 'a sys_scheme \<Rightarrow> (int, 'a sys_scheme) res" where
  "do_lseek t fd offset whence s =
     bindR (get_task t s) (\<lambda>tcb s.
     bindR (fd_slot tcb fd s) (\<lambda>fd_ptr s.
     if fd_ptr = NULL then fail EBADF s
     else
       bindR (get_fd fd_ptr s) (\<lambda>f s.
       bindR (get_node (fd_vnode f) s) (\<lambda>v s.
       if v_type v \<noteq> VFS_FILE then fail ESPIPE s
       else if whence = 0 \<or> whence = 2 then
         if sint offset < 0 \<or> offset > v_size v then fail ENXIO s
         else bindR (set_fd fd_ptr (fd_position_update (\<lambda>_. offset)) s) (\<lambda>_ s. Ret (sint offset) s)
       else if whence = 1 then
         let new_offset = fd_position f + offset in
         if new_offset > v_size v then fail ENXIO s
         else bindR (set_fd fd_ptr (fd_position_update (\<lambda>_. new_offset)) s) (\<lambda>_ s. Ret (sint new_offset) s)
       else fail EINVAL s))))"

definition lseek :: "int \<Rightarrow> u32 \<Rightarrow> u32 \<Rightarrow> 'a sys_scheme \<Rightarrow> (int, 'a sys_scheme) res" where
  "lseek fd offset whence s = do_lseek (actual_task s) fd offset whence s"

definition dirent_bytes :: "dirent \<Rightarrow> u8 list" where
  "dirent_bytes d = d_name d @ le_bytes (d_ino d)"

definition do_readdir :: "ptr \<Rightarrow> int \<Rightarrow> u32 \<Rightarrow> 'a sys_scheme \<Rightarrow> (int, 'a sys_scheme) res" where
  "do_readdir t fd dent s =
     bindR (get_task t s) (\<lambda>tcb s.
     bindR (fd_slot tcb fd s) (\<lambda>fd_ptr s.
     if fd_ptr = NULL then fail EBADF s
     else
       bindR (get_fd fd_ptr s) (\<lambda>f s.
       bindR (get_node (fd_vnode f) s) (\<lambda>v s.
       if v_type v \<noteq> VFS_DIR \<and> v_type v \<noteq> VFS_MNTPT then fail ENOTDIR s
       else
         bindR (vfs_readdir (fd_vnode f) (fd_position f) s) (\<lambda>(ret, d) s.
         case d of
           None \<Rightarrow> if ret < 0 then Ret (- 1) s else Ret 0 s
         | Some e \<Rightarrow>
             bindR (kst_bytes (kern_dent_addr s) (dirent_bytes e) s) (\<lambda>_ s.
             bindR (vmm_copy_data_to (t_aspace tcb) dent (kern_dent_addr s) 132 s) (\<lambda>r s.
             if r < 0 then Ret (- 1) s
             else bindR (set_fd fd_ptr (fd_position_update (\<lambda>p. p + 1)) s) (\<lambda>_ s. Ret 1 s))))))))"

definition readdir :: "int \<Rightarrow> u32 \<Rightarrow> 'a sys_scheme \<Rightarrow> (int, 'a sys_scheme) res" where
  "readdir fd dent s = do_readdir (actual_task s) fd dent s"

section \<open>mkdir, rmdir and remove\<close>

definition do_mkdir :: "u8 list \<Rightarrow> 'a sys_scheme \<Rightarrow> (int, 'a sys_scheme) res" where
  "do_mkdir path s =
     bindR (namei_path_to_vfs_node NULL path s) (\<lambda>(dir, parent) s.
     if dir \<noteq> NULL then fail EEXIST s
     else
       case parent of
         None \<Rightarrow> Fault NULL
       | Some p \<Rightarrow>
           if p = NULL then fail EINVAL s
           else
             bindR (get_node p s) (\<lambda>v s.
             if v_type v \<noteq> VFS_DIR \<and> v_type v \<noteq> VFS_MNTPT then fail ENOTDIR s
             else
               bindR (in_bounds (namei_path_to_filename path (replicate MAX_FILENAME 0)) s) (\<lambda>dirname s.
               bindR (vfs_mkdir p dirname s) (\<lambda>(r, dir) s. Ret (if r < 0 then - 1 else 0) s))))"

definition mkdir :: "u32 \<Rightarrow> 'a sys_scheme \<Rightarrow> (int, 'a sys_scheme) res" where
  "mkdir path s = with_path path do_mkdir s"

definition do_rmdir :: "u8 list \<Rightarrow> 'a sys_scheme \<Rightarrow> (int, 'a sys_scheme) res" where
  "do_rmdir path s =
     bindR (namei_path_to_vfs_node NULL path s) (\<lambda>(dir, parent) s.
     if dir = NULL then fail ENOENT s
     else
       bindR (get_node dir s) (\<lambda>v s.
       if v_type v = VFS_MNTPT then fail EBUSY s
       else if v_type v \<noteq> VFS_DIR then fail ENOTDIR s
       else if v_first v \<noteq> NULL then fail EEXIST s
       else bindR (vfs_rmdir dir s) (\<lambda>r s. Ret (if r < 0 then - 1 else 0) s)))"

definition rmdir :: "u32 \<Rightarrow> 'a sys_scheme \<Rightarrow> (int, 'a sys_scheme) res" where
  "rmdir path s = with_path path do_rmdir s"

definition do_remove :: "u8 list \<Rightarrow> 'a sys_scheme \<Rightarrow> (int, 'a sys_scheme) res" where
  "do_remove path s =
     bindR (namei_path_to_vfs_node NULL path s) (\<lambda>(file, parent) s.
     if file = NULL then fail ENOENT s
     else
       bindR (get_node file s) (\<lambda>v s.
       if v_type v = VFS_DIR then fail EISDIR s
       else if active_fds v > 0 then fail EBUSY s
       else bindR (vfs_remove file s) (\<lambda>r s. Ret (if r < 0 then - 1 else 0) s)))"

definition sys_remove :: "u32 \<Rightarrow> 'a sys_scheme \<Rightarrow> (int, 'a sys_scheme) res" where
  "sys_remove path s = with_path path do_remove s"

section \<open>Positions stay inside the file\<close>

text \<open>What a program may expect of \<^verbatim>\<open>lseek\<close>, in unbounded integers; \<^verbatim>\<open>SEEK_END\<close> is treated like \<^verbatim>\<open>SEEK_SET\<close>.\<close>

definition seek_target :: "u32 \<Rightarrow> u32 \<Rightarrow> u32 \<Rightarrow> u32 \<Rightarrow> int option" where
  "seek_target pos sz offset whence =
     (let z = (if whence = 1 then uint pos else 0) + sint offset in
      if whence \<le> 2 \<and> 0 \<le> z \<and> z \<le> uint sz then Some z else None)"

lemma sint_uint_32: "sint (w :: u32) = (if uint w < 2 ^ 31 then uint w else uint w - 2 ^ 32)"
proof -
  have "sint w = signed_take_bit 31 (uint w)" by (simp add: sint_uint)
  then show ?thesis
    using uint_lt2p [of w] minus_mod_self2 [of "uint w + 2 ^ 31" "2 ^ 32"]
    by (auto simp: signed_take_bit_eq_take_bit_shift take_bit_eq_mod)
qed

lemma word_le_2_cases: "(w :: u32) \<le> 2 \<Longrightarrow> w = 0 \<or> w = 1 \<or> w = 2"
  by (simp add: word_le_nat_alt word_unat_eq_iff) linarith

lemma seek_wraps:
  fixes pos sz off :: u32
  assumes "uint sz < 2 ^ 31" and "pos \<le> sz"
  shows "pos + off > sz \<longleftrightarrow> \<not> (0 \<le> uint pos + sint off \<and> uint pos + sint off \<le> uint sz)"
    and "\<not> pos + off > sz \<Longrightarrow> sint (pos + off) = uint pos + sint off"
  using assms uint_lt2p [of off]
  by (auto simp: word_less_alt word_le_def uint_plus_if' sint_uint_32) (use uint_ge_0 [of pos] in linarith)+

lemma lseek_ok:
  assumes "tcbs s (actual_task s) = Some t" and "0 \<le> fd" and "fd < int (length (used_fd t))"
    and "used_fd t ! nat fd \<noteq> NULL" and "fds s (used_fd t ! nat fd) = Some f"
    and "vnodes s (fd_vnode f) = Some v" and "v_type v = VFS_FILE"
    and "uint (v_size v) < 2 ^ 31" and "fd_position f \<le> v_size v"
  shows "lseek fd offset whence s =
    (case seek_target (fd_position f) (v_size v) offset whence of
       None \<Rightarrow> Ret (- 1) (set_errno (if whence \<le> 2 then ENXIO else EINVAL) s)
     | Some z \<Rightarrow> Ret z (fds_update (\<lambda>h. h(used_fd t ! nat fd \<mapsto> f\<lparr>fd_position := word_of_int z\<rparr>)) s))"
proof -
  have slot: "fd_slot t fd s = Ret (used_fd t ! nat fd) s" using assms(2,3) by (simp add: fd_slot_def)
  note run = lseek_def do_lseek_def fail_def seek_target_def run_simps slot assms
  note cur = seek_wraps [OF assms(8,9), of offset]
  consider "whence = 0 \<or> whence = 2" | "whence = 1" | "whence > 2"
    by (metis linorder_not_le word_le_2_cases)
  then show ?thesis
  proof cases
    case 1
    then show ?thesis using seek_wraps [OF assms(8), of 0 offset] by (auto simp: run)
  next
    case 2
    then show ?thesis using cur by (auto simp: run)
  next
    case 3
    then show ?thesis by (auto simp: run)
  qed
qed

text \<open>
  \<^verbatim>\<open>lseek\<close> on a regular file accepts exactly the targets inside the file, although it computes them with
  32-bit wrap-around: it then returns the target and stores it as the new position. Any other target, and any
  other \<^verbatim>\<open>whence\<close>, is an error that changes nothing but \<^verbatim>\<open>errno\<close>.
\<close>

theorem lseek_correct:
  assumes "tcbs s (actual_task s) = Some t" and "0 \<le> fd" and "fd < int (length (used_fd t))"
    and "used_fd t ! nat fd \<noteq> NULL" and "fds s (used_fd t ! nat fd) = Some f"
    and "vnodes s (fd_vnode f) = Some v" and "v_type v = VFS_FILE"
    and "uint (v_size v) < 2 ^ 31" and "fd_position f \<le> v_size v"
  shows "lseek fd offset whence s =
    (case seek_target (fd_position f) (v_size v) offset whence of
       None \<Rightarrow> Ret (- 1) (set_errno (if whence \<le> 2 then ENXIO else EINVAL) s)
     | Some z \<Rightarrow> Ret z (fds_update (\<lambda>h. h(used_fd t ! nat fd \<mapsto> f\<lparr>fd_position := word_of_int z\<rparr>)) s))"
  using assms by (rule lseek_ok)

text \<open>A program that has a file of 1000 bytes open as descriptor 2, at position 600.\<close>

definition file_demo :: "fd \<times> vnode \<times> tcb" where
  "file_demo =
     (\<lparr>fd_position = 600, fd_mode = O_RDWR, fd_vnode = 0xc0120000, fd_next = NULL, fd_prev = NULL\<rparr>,
      zero_node\<lparr>v_type := VFS_FILE, v_size := 1000\<rparr>,
      zero_tcb\<lparr>used_fd := [0xc0110000, 0xc0110100, 0xc0110200] @ replicate 253 NULL\<rparr>)"

definition sys_demo :: sys where
  "sys_demo = dev.extend
     (dev_demo\<lparr>actual_task := 0xc0106000, tcbs := [0xc0106000 \<mapsto> snd (snd file_demo)],
        fds := [0xc0110200 \<mapsto> fst file_demo], vnodes := [0xc0120000 \<mapsto> fst (snd file_demo)]\<rparr>)
     \<lparr>kern_dent_addr = 0xc0008000, argv_stack_addr = 0xc0008400\<rparr>"

theorem lseek_correct_witness:
  "lseek 2 (- 100) 1 sys_demo =
     Ret 500 (fds_update (\<lambda>h. h(0xc0110200 \<mapsto> fst file_demo\<lparr>fd_position := 500\<rparr>)) sys_demo) \<and>
   lseek 2 (- 601) 1 sys_demo = Ret (- 1) (set_errno ENXIO sys_demo)"
proof -
  have demo: "tcbs sys_demo (actual_task sys_demo) = Some (snd (snd file_demo))"
    "fds sys_demo 0xc0110200 = Some (fst file_demo)" "vnodes sys_demo 0xc0120000 = Some (fst (snd file_demo))"
    by (simp_all add: sys_demo_def dev.defs)
  show ?thesis
    using lseek_correct [OF demo(1), of 2 "fst file_demo" "fst (snd file_demo)" "- 100" 1]
      lseek_correct [OF demo(1), of 2 "fst file_demo" "fst (snd file_demo)" "- 601" 1] demo(2,3)
    by (simp add: file_demo_def seek_target_def)
qed

section \<open>Descriptor numbers\<close>

lemma scan_fds_spec:
  assumes "i \<le> MAX_FDS"
  shows "i \<le> scan_fds t i" and "scan_fds t i \<le> MAX_FDS" and "\<forall>j\<in>{i..<scan_fds t i}. fd_table t j \<noteq> NULL"
    and "scan_fds t i < MAX_FDS \<Longrightarrow> fd_table t (scan_fds t i) = NULL"
proof -
  have "i \<le> scan_fds t i \<and> scan_fds t i \<le> MAX_FDS \<and> (\<forall>j\<in>{i..<scan_fds t i}. fd_table t j \<noteq> NULL) \<and>
      (scan_fds t i < MAX_FDS \<longrightarrow> fd_table t (scan_fds t i) = NULL)"
    using assms
  proof (induction t i rule: scan_fds.induct)
    case (1 t i)
    show ?case
    proof (cases "fd_table t i \<noteq> NULL \<and> i < MAX_FDS")
      case True
      then have "scan_fds t i = scan_fds t (i + 1)" by (subst scan_fds.simps) simp
      with 1 True show ?thesis by (auto simp: Suc_le_eq Ball_def) (metis le_neq_implies_less)+
    next
      case False
      then have "scan_fds t i = i" by (subst scan_fds.simps) auto
      with 1(2) False show ?thesis by auto
    qed
  qed
  then show "i \<le> scan_fds t i" and "scan_fds t i \<le> MAX_FDS" and "\<forall>j\<in>{i..<scan_fds t i}. fd_table t j \<noteq> NULL"
    and "scan_fds t i < MAX_FDS \<Longrightarrow> fd_table t (scan_fds t i) = NULL" by auto
qed



end
