(* ===== verification/Images.thy ===== *)
theory Images
  imports File_Syscalls
begin

text \<open>
  Program images: \<^verbatim>\<open>vmm_mmap_at\<close> and the page fault handler of \<^verbatim>\<open>kernel/memory/vmm.c\<close>, the system calls
  \<^verbatim>\<open>mmap\<close>, \<^verbatim>\<open>munmap\<close>, \<^verbatim>\<open>brk\<close> and \<^verbatim>\<open>sbrk\<close>, the ELF loader of \<^verbatim>\<open>kernel/cpu/elf_loader.c\<close> and \<^verbatim>\<open>kernel/cpu/execve.c\<close>.
  ELF headers are read from the bytes of the kernel heap at the offsets of \<^verbatim>\<open>include/elf32.h\<close>.
\<close>

section \<open>Mapping a file\<close>

lemma page_piece_bounds:
  assumes "0 < rem"
  shows "0 < page_piece vaddr rem" and "page_piece vaddr rem \<le> rem"
proof -
  have m: "unat (vaddr mod 4096) < 4096" by (simp add: unat_mod)
  then have u: "unat (4096 - vaddr mod 4096) = 4096 - unat (vaddr mod 4096)"
    using unat_sub [of "vaddr mod 4096" 4096] by (simp add: word_le_nat_alt)
  have "4096 - unat (vaddr mod 4096) \<le> unat rem" if "4096 < vaddr mod 4096 + rem"
  proof -
    have "4096 < (unat (vaddr mod 4096) + unat rem) mod 2 ^ 32"
      using that by (simp add: word_less_nat_alt unat_word_ariths)
    also have "\<dots> \<le> unat (vaddr mod 4096) + unat rem" by (rule mod_less_eq_dividend)
    finally show ?thesis by simp
  qed
  then show "0 < page_piece vaddr rem" "page_piece vaddr rem \<le> rem"
    using assms m u by (auto simp: page_piece_def word_less_nat_alt word_le_nat_alt)
qed

lemma page_piece_less: "0 < rem \<Longrightarrow> unat (rem - page_piece vaddr rem) < unat rem"
  using page_piece_bounds [of rem vaddr] by (simp add: unat_sub word_less_nat_alt word_le_nat_alt)

text \<open>
  The copy loop. \<open>rd\<close> is \<^verbatim>\<open>vfs_read\<close>; the result is the number of new pages, or \<open>None\<close> when the file could not
  be read.
\<close>

function mmap_pages ::
  "(ptr \<Rightarrow> u32 \<Rightarrow> u32 \<Rightarrow> ptr \<Rightarrow> 'a vmm_scheme \<Rightarrow> (int, 'a vmm_scheme) res) \<Rightarrow> ptr \<Rightarrow> ptr \<Rightarrow> u32 \<Rightarrow> u32 \<Rightarrow>
   u32 \<Rightarrow> u32 \<Rightarrow> u32 \<Rightarrow> 'a vmm_scheme \<Rightarrow> (u32 option, 'a vmm_scheme) res" where
  "mmap_pages rd as obj flags page_ctr rem_to_cpy current_vaddr current_offset s =
     (if rem_to_cpy > 0 then
        bindR (get_as as s) (\<lambda>a s.
        bindR (vaddr_to_paddr (as_pd a) current_vaddr s) (\<lambda>paddr s.
        bindR (if paddr = 0 then bindR (pmm_get_frame s) (\<lambda>frame s. Ret (frame, page_ctr + 1) s)
               else Ret (paddr, page_ctr) s) (\<lambda>(paddr, page_ctr) s.
        bindR (pg_map paddr VM_TMP2_MAP PG_KERN_PAGE_FLAG s) (\<lambda>_ s.
        let cpy_int = page_piece current_vaddr rem_to_cpy in
        bindR (rd obj current_offset cpy_int (VM_TMP2_MAP + current_vaddr mod PAGE_SIZE) s) (\<lambda>ret s.
        if ret < 0 then bindR (pg_unmap VM_TMP2_MAP s) (\<lambda>_ s. Ret None s)
        else
          bindR (get_as as s) (\<lambda>a s.
          bindR (pg_map_to (as_pd a) paddr current_vaddr (flags OR PG_PRESENT) s) (\<lambda>_ s.
          bindR (pg_unmap VM_TMP2_MAP s) (\<lambda>_ s.
          mmap_pages rd as obj flags page_ctr (rem_to_cpy - cpy_int) (current_vaddr + cpy_int) (current_offset + cpy_int) s))))))))
      else Ret (Some page_ctr) s)"
  by pat_completeness auto
termination
  by (relation "measure (\<lambda>(_, _, _, _, _, rem_to_cpy, _). unat rem_to_cpy)") (auto simp: page_piece_less)

declare mmap_pages.simps [simp del]

definition mmap_align :: "u32 \<Rightarrow> u32" where
  "mmap_align align = (if align = 0 then 0x1000 else align)"

definition aligned_size :: "u32 \<Rightarrow> u32 \<Rightarrow> u32 \<Rightarrow> u32" where
  "aligned_size vaddr sz align =
     (if sz mod align \<noteq> 0 then (sz - sz mod align) + align - vaddr mod align else sz)"

definition vmm_mmap_at ::
  "(ptr \<Rightarrow> u32 \<Rightarrow> u32 \<Rightarrow> ptr \<Rightarrow> 'a vmm_scheme \<Rightarrow> (int, 'a vmm_scheme) res) \<Rightarrow> ptr \<Rightarrow> u32 \<Rightarrow> ptr \<Rightarrow> u32 \<Rightarrow> u32 \<Rightarrow>
   u32 \<Rightarrow> u32 \<Rightarrow> 'a vmm_scheme \<Rightarrow> (ptr, 'a vmm_scheme) res" where
  "vmm_mmap_at rd as vaddr obj offset sz align flags s =
     (let asize = aligned_size vaddr sz (mmap_align align) in
      bindR (if vaddr = NULL then find_free_area as asize s else Ret vaddr s) (\<lambda>vaddr s.
      if vaddr = NULL then Ret NULL (set_errno ENOMEM s)
      else
        bindR (is_area_free as vaddr asize s) (\<lambda>free s.
        if \<not> free then Ret NULL (set_errno ENOMEM s)
        else if sz = 0 then Ret NULL (set_errno 0 s)
        else
          bindR (pg_unmap VM_TMP2_MAP s) (\<lambda>tmp s.
          bindR (mmap_pages rd as obj flags 0 sz vaddr offset s) (\<lambda>res s.
          case res of
            None \<Rightarrow> bindR (pg_map tmp VM_TMP2_MAP PG_KERN_PAGE_FLAG s) (\<lambda>_ s. Ret NULL s)
          | Some page_ctr \<Rightarrow>
              bindR (create_region vaddr asize flags s) (\<lambda>region s.
              bindR (insert_region as region s) (\<lambda>_ s.
              bindR (set_as as (page_counter_update (\<lambda>n. n + page_ctr)) s) (\<lambda>_ s.
              bindR (pg_map tmp VM_TMP2_MAP PG_KERN_PAGE_FLAG s) (\<lambda>_ s.
              bindR (get_region region s) (\<lambda>r s. Ret (r_addr r) s))))))))))"

text \<open>\<^verbatim>\<open>vmm_mmap_at\<close> with the files of the system.\<close>

definition map_file ::
  "nat \<Rightarrow> ptr \<Rightarrow> u32 \<Rightarrow> ptr \<Rightarrow> u32 \<Rightarrow> u32 \<Rightarrow> u32 \<Rightarrow> u32 \<Rightarrow> 'a sys_scheme \<Rightarrow> (ptr, 'a sys_scheme) res" where
  "map_file n = vmm_mmap_at (vfs_read (do_exit n) n)"

section \<open>Memory system calls\<close>

abbreviation (input) VMM_RW :: u32 where "VMM_RW \<equiv> 2"
abbreviation (input) VMM_USER :: u32 where "VMM_USER \<equiv> 4"
abbreviation (input) VMM_ERR_PR :: u32 where "VMM_ERR_PR \<equiv> 2"
abbreviation (input) VMM_ERR_WR :: u32 where "VMM_ERR_WR \<equiv> 8"
abbreviation (input) PROT_WRITE :: u32 where "PROT_WRITE \<equiv> 2"

definition do_mmap ::
  "nat \<Rightarrow> ptr \<Rightarrow> u32 \<Rightarrow> u32 \<Rightarrow> u32 \<Rightarrow> int \<Rightarrow> u32 \<Rightarrow> 'a sys_scheme \<Rightarrow> (ptr, 'a sys_scheme) res" where
  "do_mmap n t addr sz prot fd offset s =
     bindR (get_task t s) (\<lambda>tcb s.
     bindR (fd_slot tcb fd s) (\<lambda>fd_ptr s.
     if fd_ptr = NULL then Ret NULL (set_errno EBADF s)
     else
       bindR (get_fd fd_ptr s) (\<lambda>f s.
       if \<not> (fd_mode f AND O_RDONLY \<noteq> 0 \<or> fd_mode f AND O_RDWR \<noteq> 0) then Ret NULL (set_errno EACCES s)
       else
         bindR (get_node (fd_vnode f) s) (\<lambda>v s.
         if v_type v \<noteq> VFS_FILE \<and> fd_vnode f \<noteq> dev_zero s then Ret NULL (set_errno ENODEV s)
         else
           let flags = (if prot AND PROT_WRITE \<noteq> 0 then VMM_USER OR VMM_RW else VMM_USER) in
           map_file n (t_aspace tcb) addr (fd_vnode f) offset sz 0 flags s))))"

definition mmap :: "nat \<Rightarrow> u32 \<Rightarrow> u32 \<Rightarrow> u32 \<Rightarrow> int \<Rightarrow> u32 \<Rightarrow> 'a sys_scheme \<Rightarrow> (ptr, 'a sys_scheme) res" where
  "mmap n addr sz prot fd offset s = do_mmap n (actual_task s) addr sz prot fd offset s"

definition do_munmap :: "ptr \<Rightarrow> u32 \<Rightarrow> 'a sched_scheme \<Rightarrow> (int, 'a sched_scheme) res" where
  "do_munmap t addr s = bindR (get_task t s) (\<lambda>tcb s. vmm_munmap (t_aspace tcb) addr s)"

definition munmap :: "u32 \<Rightarrow> 'a sched_scheme \<Rightarrow> (int, 'a sched_scheme) res" where
  "munmap addr s = do_munmap (actual_task s) addr s"

definition do_brk :: "ptr \<Rightarrow> u32 \<Rightarrow> 'a sched_scheme \<Rightarrow> (int, 'a sched_scheme) res" where
  "do_brk t addr s =
     bindR (get_task t s) (\<lambda>tcb s.
     bindR (vmm_set_brk (t_aspace tcb) addr s) (\<lambda>ret s. Ret (if ret = NULL then - 1 else 0) s))"

definition brk :: "u32 \<Rightarrow> 'a sched_scheme \<Rightarrow> (int, 'a sched_scheme) res" where
  "brk addr s = do_brk (actual_task s) addr s"

definition do_sbrk :: "ptr \<Rightarrow> u32 \<Rightarrow> 'a sched_scheme \<Rightarrow> (u32, 'a sched_scheme) res" where
  "do_sbrk t inc s =
     bindR (get_task t s) (\<lambda>tcb s.
     bindR (get_as (t_aspace tcb) s) (\<lambda>a s.
     if inc = 0 then Ret (data_end a) s else vmm_set_brk (t_aspace tcb) (data_end a + inc) s))"

definition sbrk :: "u32 \<Rightarrow> 'a sched_scheme \<Rightarrow> (u32, 'a sched_scheme) res" where
  "sbrk inc s = do_sbrk (actual_task s) inc s"

section \<open>Page faults of programs\<close>

definition vmm_page_fault_handler ::
  "'a killer \<Rightarrow> ptr \<Rightarrow> u32 \<Rightarrow> u32 \<Rightarrow> 'a sched_scheme \<Rightarrow> (unit, 'a sched_scheme) res" where
  "vmm_page_fault_handler kill as vaddr err s =
     (let t = actual_task s in
      bindR (find_region as vaddr s) (\<lambda>reg s.
      if reg = NULL then bindR (sig_send kill t SIGSEGV s) (\<lambda>_ s. Ret () s)
      else
        bindR (get_region reg s) (\<lambda>r s.
        if err AND VMM_ERR_WR \<noteq> 0 \<and> r_flags r AND VMM_RW = 0 then bindR (sig_send kill t SIGSEGV s) (\<lambda>_ s. Ret () s)
        else if err AND VMM_ERR_PR \<noteq> 0 then
          bindR (get_as as s) (\<lambda>a s.
          bindR (pmm_get_frame s) (\<lambda>frame s.
          bindR (pg_map_to (as_pd a) frame vaddr (r_flags r OR PG_PRESENT) s) (\<lambda>_ s.
          set_as as (page_counter_update (\<lambda>n. n + 1)) s)))
        else Ret () s)))"

section \<open>The ELF loader\<close>

record Elf32_Ehdr =
  e_ident :: "u8 list"
  e_type :: u16
  e_machine :: u16
  e_version :: u32
  e_entry :: u32
  e_phoff :: u32
  e_shoff :: u32
  e_flags :: u32
  e_ehsize :: u16
  e_phentsize :: u16
  e_phnum :: u16
  e_shentsize :: u16
  e_shnum :: u16
  e_shstrndx :: u16

record Elf32_Phdr =
  p_type :: u32
  p_offset :: u32
  p_vaddr :: u32
  p_paddr :: u32
  p_filesz :: u32
  p_memsz :: u32
  p_flags :: u32
  p_align :: u32

abbreviation (input) PT_LOAD :: u32 where "PT_LOAD \<equiv> 1"
abbreviation (input) PF_W :: u32 where "PF_W \<equiv> 2"
abbreviation (input) ET_EXEC :: u16 where "ET_EXEC \<equiv> 2"
abbreviation (input) ENOEXEC :: u32 where "ENOEXEC \<equiv> 8"

definition ld16 :: "(u32 \<Rightarrow> u8) \<Rightarrow> u32 \<Rightarrow> u16" where
  "ld16 m p = ucast (m p) OR push_bit 8 (ucast (m (p + 1)))"

definition ehdr_at :: "(u32 \<Rightarrow> u8) \<Rightarrow> ptr \<Rightarrow> Elf32_Ehdr" where
  "ehdr_at m p =
     \<lparr>e_ident = map (\<lambda>i. m (p + of_nat i)) [0..<16], e_type = ld16 m (p + 16), e_machine = ld16 m (p + 18),
      e_version = ld32 m (p + 20), e_entry = ld32 m (p + 24), e_phoff = ld32 m (p + 28), e_shoff = ld32 m (p + 32),
      e_flags = ld32 m (p + 36), e_ehsize = ld16 m (p + 40), e_phentsize = ld16 m (p + 42), e_phnum = ld16 m (p + 44),
      e_shentsize = ld16 m (p + 46), e_shnum = ld16 m (p + 48), e_shstrndx = ld16 m (p + 50)\<rparr>"

definition phdr_at :: "(u32 \<Rightarrow> u8) \<Rightarrow> ptr \<Rightarrow> Elf32_Phdr" where
  "phdr_at m p =
     \<lparr>p_type = ld32 m p, p_offset = ld32 m (p + 4), p_vaddr = ld32 m (p + 8), p_paddr = ld32 m (p + 12),
      p_filesz = ld32 m (p + 16), p_memsz = ld32 m (p + 20), p_flags = ld32 m (p + 24), p_align = ld32 m (p + 28)\<rparr>"

definition load_Ehdr :: "nat \<Rightarrow> ptr \<Rightarrow> 'a sys_scheme \<Rightarrow> (ptr, 'a sys_scheme) res" where
  "load_Ehdr n file s =
     bindR (kmalloc 52 s) (\<lambda>hdr s.
     bindR (vfs_read (do_exit n) n file 0 52 hdr s) (\<lambda>r s.
     if r < 0 then bindR (kfree hdr s) (\<lambda>_ s. Ret NULL s) else Ret hdr s))"

definition is_elf_file :: "Elf32_Ehdr \<Rightarrow> bool" where
  "is_elf_file h \<longleftrightarrow> e_ident h ! 0 = 0x7f \<and> e_ident h ! 1 = 0x45 \<and> e_ident h ! 2 = 0x4c \<and> e_ident h ! 3 = 0x46"

text \<open>A division by zero in the kernel ends in the handler of exception 0.\<close>

definition align_vaddr :: "u32 \<Rightarrow> u32 \<Rightarrow> 's \<Rightarrow> (u32, 's) res" where
  "align_vaddr vaddr align s =
     (if align = 0 then Panic ''Divide Error''
      else Ret (if vaddr mod align \<noteq> 0 then (vaddr - vaddr mod align) + align else vaddr) s)"

text \<open>
  One round of the loop over the program headers. The result is \<open>None\<close> on an error, else the new \<^verbatim>\<open>tmp_vaddr\<close>,
  which is not initialised before the first segment is loaded.
\<close>

definition load_segment ::
  "nat \<Rightarrow> ptr \<Rightarrow> ptr \<Rightarrow> Elf32_Phdr \<Rightarrow> u32 option \<Rightarrow> 'a sys_scheme \<Rightarrow> (u32 option option, 'a sys_scheme) res" where
  "load_segment n as file p tmp_vaddr s =
     (if p_type p \<noteq> PT_LOAD then Ret (Some tmp_vaddr) s
      else
        let flags = (if p_flags p AND PF_W \<noteq> 0 then VMM_USER OR VMM_RW else VMM_USER) in
        if p_memsz p > p_filesz p then
          bindR (map_file n as (p_vaddr p) file (p_offset p) (p_filesz p) (p_filesz p) flags s) (\<lambda>ret s.
          if ret = NULL \<and> errno s \<noteq> 0 then Ret None s
          else
            bindR (map_file n as (p_vaddr p + p_filesz p) (dev_zero s) 0 (p_memsz p - p_filesz p) (p_align p) flags s) (\<lambda>ret s.
            bindR (align_vaddr (p_vaddr p + p_filesz p) (p_align p) s) (\<lambda>_ s.
            if ret = NULL then Ret None s
            else bindR (align_vaddr (p_vaddr p + p_memsz p) (p_align p) s) (\<lambda>tmp s. Ret (Some (Some tmp)) s))))
        else
          bindR (map_file n as (p_vaddr p) file (p_offset p) (p_filesz p) (p_align p) flags s) (\<lambda>ret s.
          if ret = NULL then Ret None s
          else bindR (align_vaddr (p_vaddr p + p_memsz p) (p_align p) s) (\<lambda>tmp s. Ret (Some (Some tmp)) s)))"

fun load_segments ::
  "nat \<Rightarrow> ptr \<Rightarrow> ptr \<Rightarrow> ptr \<Rightarrow> nat list \<Rightarrow> u32 option \<Rightarrow> 'a sys_scheme \<Rightarrow> (u32 option option, 'a sys_scheme) res" where
  "load_segments n as file phdr [] tmp_vaddr s = Ret (Some tmp_vaddr) s"
| "load_segments n as file phdr (i # is) tmp_vaddr s =
     bindR (load_segment n as file (phdr_at (kmem s) (phdr + 32 * of_nat i)) tmp_vaddr s) (\<lambda>res s.
     case res of None \<Rightarrow> Ret None s | Some tmp_vaddr \<Rightarrow> load_segments n as file phdr is tmp_vaddr s)"

definition load_exe_format :: "nat \<Rightarrow> ptr \<Rightarrow> ptr \<Rightarrow> ptr \<Rightarrow> 'a sys_scheme \<Rightarrow> (int, 'a sys_scheme) res" where
  "load_exe_format n as file header s =
     (let h = ehdr_at (kmem s) header; sz = 32 * ucast (e_phnum h) in
      bindR (kmalloc sz s) (\<lambda>phdr s.
      bindR (vfs_read (do_exit n) n file (e_phoff h) sz phdr s) (\<lambda>r s.
      if r < 0 then Ret (- 1) s
      else
        bindR (load_segments n as file phdr [0..<unat (e_phnum h)] None s) (\<lambda>res s.
        case res of
          None \<Rightarrow> Ret (- 1) s
        | Some None \<Rightarrow> Fault NULL
        | Some (Some tmp_vaddr) \<Rightarrow>
            bindR (set_as as (\<lambda>a. a\<lparr>code_entry := e_entry h, elf_end := tmp_vaddr, data_end := tmp_vaddr\<rparr>) s) (\<lambda>_ s.
            bindR (kfree phdr s) (\<lambda>_ s. Ret 0 s))))))"

definition elf_load :: "nat \<Rightarrow> ptr \<Rightarrow> ptr \<Rightarrow> 'a sys_scheme \<Rightarrow> (int, 'a sys_scheme) res" where
  "elf_load n as file s =
     bindR (load_Ehdr n file s) (\<lambda>hdr s.
     if hdr = NULL then Ret (- 1) s
     else
       let h = ehdr_at (kmem s) hdr in
       if \<not> is_elf_file h then fail EEXIST s
       else if e_type h = ET_EXEC then
         bindR (load_exe_format n as file hdr s) (\<lambda>sub_ret s.
         bindR (kfree hdr s) (\<lambda>_ s. Ret sub_ret s))
       else fail ENOEXEC s)"

section \<open>execve\<close>

abbreviation (input) SIG_DEFAULT_MASK :: u32 where "SIG_DEFAULT_MASK \<equiv> SIGKILL OR SIGSEGV"
abbreviation (input) MAX_ARGV :: nat where "MAX_ARGV \<equiv> 256"

text \<open>The loop that copies the argument strings to the new stack, from the top down.\<close>

function push_args ::
  "ptr \<Rightarrow> ptr \<Rightarrow> ptr \<Rightarrow> nat \<Rightarrow> u32 \<Rightarrow> 'a sys_scheme \<Rightarrow> ((nat \<times> u32) option, 'a sys_scheme) res" where
  "push_args t as argv argv_ctr stack_ptr_reg s =
     bindR (kld32 (argv + 4 * of_nat argv_ctr) s) (\<lambda>arg s.
     if arg \<noteq> NULL \<and> argv_ctr < 255 then
       bindR (get_task t s) (\<lambda>tcb s.
       bindR (vmm_copy_string_from (t_aspace tcb) arg 1024 s) (\<lambda>str s.
       if str = NULL then Ret None (set_errno EFAULT s)
       else
         bindR (in_bounds (strlen (kbytes str 1024 s)) s) (\<lambda>len s.
         let sp = stack_ptr_reg - (of_nat len + 1) in
         bindR (vmm_copy_data_to as sp str (of_nat len + 1) s) (\<lambda>r s.
         if r < 0 then Ret None (set_errno EFAULT s)
         else
           bindR (kst32 (argv_stack_addr s + 4 * of_nat argv_ctr) sp s) (\<lambda>_ s.
           bindR (kfree str s) (\<lambda>_ s.
           push_args t as argv (argv_ctr + 1) sp s))))))
     else Ret (Some (argv_ctr, stack_ptr_reg)) s)"
  by pat_completeness auto
termination
  by (relation "measure (\<lambda>(_, _, _, argv_ctr, _). 255 - argv_ctr)") auto

declare push_args.simps [simp del]

definition align_stack :: "u32 \<Rightarrow> u32" where
  "align_stack sp = (if sp mod 4 \<noteq> 0 then (sp + sp mod 4) - 4 else sp)"

definition exec_close :: "ptr \<Rightarrow> nat \<Rightarrow> 'a sys_scheme \<Rightarrow> (unit, 'a sys_scheme) res" where
  "exec_close t i s =
     bindR (get_task t s) (\<lambda>tcb s.
     if fd_ctr tcb > 2 \<and> used_fd tcb ! i \<noteq> NULL then bindR (do_close t (int i) s) (\<lambda>_ s. Ret () s) else Ret () s)"

text \<open>The second half of \<^verbatim>\<open>do_execve\<close>: the task gets the new address space.\<close>

definition replace_image :: "ptr \<Rightarrow> ptr \<Rightarrow> u32 \<Rightarrow> u32 \<Rightarrow> 'a sys_scheme \<Rightarrow> (int, 'a sys_scheme) res" where
  "replace_image t as argv_ctr stack_ptr_reg s =
     bindR (get_task t s) (\<lambda>tcb s.
     bindR (vmm_aspace_destroy (t_aspace tcb) s) (\<lambda>_ s.
     bindR (get_as as s) (\<lambda>a s.
     bindR (set_task t (\<lambda>x. x\<lparr>t_aspace := as, t_regs := (t_regs x)\<lparr>reg_cr3 := as_pd a\<rparr>\<rparr>) s) (\<lambda>_ s.
     bindR (get_task (kernel_task s) s) (\<lambda>k s.
     bindR (set_task t (\<lambda>x. x\<lparr>used_fd := (used_fd x)[0 := used_fd k ! 0, 1 := used_fd k ! 1]\<rparr>) s) (\<lambda>_ s.
     bindR (for_each [2..<MAX_FDS] (exec_close t) s) (\<lambda>_ s.
     bindR (get_as as s) (\<lambda>a s.
     bindR (set_task t (\<lambda>x. x\<lparr>sig_mask := SIG_DEFAULT_MASK,
       t_regs := (t_regs x)\<lparr>esi := argv_ctr, edi := stack_ptr_reg, eip := code_entry a,
         esp := stack_ptr_reg - 4 * argv_ctr\<rparr>\<rparr>) s) (\<lambda>_ s. Ret 0 s)))))))))"

definition do_execve :: "nat \<Rightarrow> ptr \<Rightarrow> u8 list \<Rightarrow> ptr \<Rightarrow> 'a sys_scheme \<Rightarrow> (int, 'a sys_scheme) res" where
  "do_execve n t path argv s =
     bindR (namei_path_to_vfs_node NULL path s) (\<lambda>(exe_file, parent) s.
     if exe_file = NULL then fail ENOENT s
     else
       bindR (vmm_aspace_create NULL s) (\<lambda>as s.
       bindR (elf_load n as exe_file s) (\<lambda>r s.
       if r < 0 then Ret (- 1) s
       else
         let stack_start = VM_USER_STACK; stack_size = PAGE_SIZE * 2; stack_end = stack_start - stack_size in
         bindR (map_file n as stack_end (dev_zero s) 0 stack_size 0 (VMM_RW OR VMM_USER) s) (\<lambda>_ s.
         bindR (vmm_set_stack as stack_end stack_size s) (\<lambda>_ s.
         bindR (push_args t as argv 0 stack_start s) (\<lambda>pushed s.
         case pushed of
           None \<Rightarrow> Ret (- 1) s
         | Some (ctr, stack_ptr_reg) \<Rightarrow>
             bindR (kst32 (argv_stack_addr s + 4 * of_nat ctr) NULL s) (\<lambda>_ s.
             let argv_ctr = of_nat ctr + 1; sp = align_stack stack_ptr_reg - 4 * argv_ctr in
             bindR (vmm_copy_data_to as sp (argv_stack_addr s) (4 * argv_ctr) s) (\<lambda>r s.
             if r < 0 then fail EFAULT s
             else replace_image t as argv_ctr sp s))))))))"

text \<open>
  The loop of \<^verbatim>\<open>execve\<close> that copies the argument pointers page by page; the result is \<open>False\<close> when a page is
  not mapped.
\<close>

function argv_loop ::
  "u32 \<Rightarrow> u32 \<Rightarrow> ptr \<Rightarrow> ptr \<Rightarrow> nat \<Rightarrow> nat \<Rightarrow> 'a sys_scheme \<Rightarrow> (bool, 'a sys_scheme) res" where
  "argv_loop pd argv user_as kernel_as i i_after s =
     (if i < 256 then
        bindR (if (user_as + 4 * of_nat (i - i_after)) mod PAGE_SIZE = 0 then
                 let argv = argv + 4 * of_nat i in
                 bindR (pg_unmap VM_TMP_MAP s) (\<lambda>_ s.
                 bindR (pg_get_frame_from pd argv s) (\<lambda>paddr s.
                 if paddr = 0 then Ret None s
                 else
                   bindR (pg_map paddr VM_TMP_MAP PG_KERN_PAGE_FLAG s) (\<lambda>_ s. Ret (Some (argv, VM_TMP_MAP, i)) s)))
               else Ret (Some (argv, user_as, i_after)) s) (\<lambda>page s.
        case page of
          None \<Rightarrow> Ret False s
        | Some (argv, user_as, i_after) \<Rightarrow>
            bindR (kld32 (user_as + 4 * of_nat (i - i_after)) s) (\<lambda>arg s.
            bindR (kst32 (kernel_as + 4 * of_nat i) arg s) (\<lambda>_ s.
            if arg = NULL then Ret True s else argv_loop pd argv user_as kernel_as (i + 1) i_after s)))
      else Ret True s)"
  by pat_completeness auto
termination
  by (relation "measure (\<lambda>(_, _, _, _, i, _). 256 - i)") auto

declare argv_loop.simps [simp del]

definition execve :: "nat \<Rightarrow> u32 \<Rightarrow> u32 \<Rightarrow> 'a sys_scheme \<Rightarrow> (int, 'a sys_scheme) res" where
  "execve n path argv s =
     bindR (get_task (actual_task s) s) (\<lambda>tcb s.
     bindR (vmm_copy_string_from (t_aspace tcb) path MAX_PATH_LEN s) (\<lambda>path_in_kernel_as s.
     if path_in_kernel_as = NULL then fail E2BIG s
     else
       bindR (get_as (t_aspace tcb) s) (\<lambda>a s.
       bindR (pg_get_frame_from (as_pd a) argv s) (\<lambda>paddr s.
       if paddr = 0 then fail EFAULT s
       else
         bindR (pg_unmap VM_TMP_MAP s) (\<lambda>old_tmp s.
         bindR (pg_map paddr VM_TMP_MAP PG_KERN_PAGE_FLAG s) (\<lambda>_ s.
         bindR (kmalloc (4 * of_nat MAX_ARGV) s) (\<lambda>argv_in_kernel_as s.
         bindR (argv_loop (as_pd a) argv (VM_TMP_MAP + argv mod PAGE_SIZE) argv_in_kernel_as 0 0 s) (\<lambda>ok s.
         if \<not> ok then
           bindR (kfree path_in_kernel_as s) (\<lambda>_ s.
           bindR (kfree argv_in_kernel_as s) (\<lambda>_ s.
           bindR (pg_map old_tmp VM_TMP_MAP PG_KERN_PAGE_FLAG s) (\<lambda>_ s. fail EFAULT s)))
         else
           bindR (pg_unmap VM_TMP_MAP s) (\<lambda>_ s.
           bindR (pg_map old_tmp VM_TMP_MAP PG_KERN_PAGE_FLAG s) (\<lambda>_ s.
           bindR (do_execve n (actual_task s) (kbytes path_in_kernel_as 4096 s) argv_in_kernel_as s) (\<lambda>ret s.
           bindR (kfree path_in_kernel_as s) (\<lambda>_ s.
           bindR (kfree argv_in_kernel_as s) (\<lambda>_ s. Ret ret s)))))))))))))"

section \<open>Page faults are served or fatal\<close>

definition covers :: "'a vmm_scheme \<Rightarrow> u32 \<Rightarrow> ptr \<Rightarrow> bool" where
  "covers s v x \<longleftrightarrow> rstart s x \<le> unat v \<and> unat v \<le> rend s x"

lemma find_covers: "aspace_ok s as xs \<Longrightarrow> find_region as v s = Ret (case find (covers s v) xs of None \<Rightarrow> NULL | Some x \<Rightarrow> x) s"
  using find_region_ok [of s as xs v] by (simp add: covers_def [abs_def])

lemma segv_no_return:
  assumes "tcbs s p = Some t" and "sig_mask t AND SIGSEGV \<noteq> 0"
  shows "no_return (bindR (sig_send (do_exit n) p SIGSEGV s) (\<lambda>_ s. Ret () s))"
  using assms by (auto simp: sig_send_def load_Some intro!: no_return_bind1 no_return_exit)


text \<open>A program with the address space of the earlier example; the stack is the last region.\<close>

definition fault_demo :: sched where
  "fault_demo = sched_demo\<lparr>regions := regions vmm_demo, aspaces := aspaces vmm_demo,
     actual_task := 0xc0106000, tcbs := [0xc0106000 \<mapsto> zero_tcb\<lparr>sig_mask := SIG_DEFAULT_MASK\<rparr>]\<rparr>"

lemma fault_demo_ok: "aspace_ok fault_demo 0xc0101008 demo_regions"
  using aspace_demo by (simp add: aspace_ok_def rstart_def rend_def fault_demo_def)


section \<open>Mappings that are refused\<close>

text \<open>
  \<^verbatim>\<open>vmm_mmap_at\<close> at a fixed address refuses an area that reaches behind \<^verbatim>\<open>VM_USER_END\<close> or into a region that
  starts inside it: it returns \<^verbatim>\<open>NULL\<close> with \<^verbatim>\<open>ENOMEM\<close> and changes nothing else. An empty mapping returns \<^verbatim>\<open>NULL\<close>
  with \<^verbatim>\<open>errno\<close> zero, which is how the loader tells it from an error.
\<close>

theorem mmap_refused:
  assumes "aspace_ok s as xs" and "xs \<noteq> []" and "vaddr \<noteq> NULL" and "asize = aligned_size vaddr sz (mmap_align align)"
    and "unat vaddr + unat asize < 2 ^ 32"
    and "sz = 0 \<or> unat VM_USER_END < unat vaddr + unat asize \<or> (\<exists>x \<in> set xs. unat vaddr \<le> rstart s x \<and> overlaps s x vaddr asize)"
  shows "vmm_mmap_at rd as vaddr obj offset sz align flags s = Ret NULL (set_errno ENOMEM s) \<or>
    sz = 0 \<and> vmm_mmap_at rd as vaddr obj offset sz align flags s = Ret NULL (set_errno 0 s)"
proof -
  note D = aspace_okD [OF assms(1)]
  obtain b where b: "is_area_free as vaddr asize s = Ret b s" and
    free: "b = (if rend s (last xs) \<le> unat vaddr then unat vaddr + unat asize \<le> unat VM_USER_END
         else case find (\<lambda>x. unat vaddr \<le> rstart s x) xs of None \<Rightarrow> False | Some x \<Rightarrow> unat vaddr + unat asize \<le> rstart s x)"
    using is_area_free_ok [OF assms(1,5,2)] by blast
  have "\<not> b" if "sz \<noteq> 0"
  proof
    assume b
    have e: "unat vaddr + unat asize \<le> unat VM_USER_END \<and> (\<forall>x \<in> set xs. unat vaddr \<le> rstart s x \<longrightarrow> \<not> overlaps s x vaddr asize)"
    proof (cases "rend s (last xs) \<le> unat vaddr")
      case True
      have "ordered (rstart s) (rend s) 0 (butlast xs @ [last xs]) (unat VM_USER_END)" using D(3) assms(2) by simp
      from first_end [OF this] have "rend s x \<le> unat vaddr" if "x \<in> set xs" for x
        using True that assms(2) by (metis append_butlast_last_id order_trans)
      then show ?thesis using True \<open>b\<close> free by (force simp: overlaps_def)
    next
      case False
      then obtain y where y: "find (\<lambda>x. unat vaddr \<le> rstart s x) xs = Some y" "unat vaddr + unat asize \<le> rstart s y"
        using \<open>b\<close> free by (auto split: option.splits)
      then obtain us vs where xs: "xs = us @ y # vs" "\<forall>z \<in> set us. \<not> unat vaddr \<le> rstart s z" by (auto dest: find_split)
      have "rstart s y \<le> rstart s x" if "x \<in> set xs" "unat vaddr \<le> rstart s x" for x
        using ordered_starts(2) [of s as us y vs x] assms(1) xs that by auto
      moreover have "rstart s y < rend s y" "rend s y \<le> unat VM_USER_END" using D(4,6) xs(1) by auto
      ultimately show ?thesis using y(2) by (force simp: overlaps_def)
    qed
    then show False using assms(6) that by auto
  qed
  then show ?thesis
    using b assms(3,4) by (cases b) (auto simp: vmm_mmap_at_def Let_def)
qed

theorem mmap_refused_witness:
  "vmm_mmap_at (\<lambda>_ _ _ _ s. Ret 0 s) 0xc0101008 0x8047000 0xc0120000 0 0x2000 0 6 vmm_demo = Ret NULL (set_errno ENOMEM vmm_demo)"
proof -
  have "\<exists>x \<in> set demo_regions. unat (0x8047000 :: u32) \<le> rstart vmm_demo x \<and>
      overlaps vmm_demo x 0x8047000 (aligned_size 0x8047000 0x2000 (mmap_align 0))"
    by (rule bexI [of _ "0xc0101030"])
      (simp_all add: overlaps_def rstart_def rend_def vmm_demo_def vmem.extend_def aligned_size_def mmap_align_def)
  then show ?thesis
    using mmap_refused [OF aspace_demo, of "0x8047000" _ "0x2000" 0 "\<lambda>_ _ _ _ s. Ret 0 s" "0xc0120000" 0 6] by (simp add: aligned_size_def mmap_align_def)
qed

section \<open>Headers of executable files\<close>

text \<open>The headers as the file format lays them out.\<close>

definition le16_bytes :: "u16 \<Rightarrow> u8 list" where
  "le16_bytes w = [ucast w, ucast (drop_bit 8 w)]"

definition ehdr_bytes :: "Elf32_Ehdr \<Rightarrow> u8 list" where
  "ehdr_bytes h =
     e_ident h @ le16_bytes (e_type h) @ le16_bytes (e_machine h) @ le_bytes (e_version h) @ le_bytes (e_entry h) @
     le_bytes (e_phoff h) @ le_bytes (e_shoff h) @ le_bytes (e_flags h) @ le16_bytes (e_ehsize h) @ le16_bytes (e_phentsize h) @
     le16_bytes (e_phnum h) @ le16_bytes (e_shentsize h) @ le16_bytes (e_shnum h) @ le16_bytes (e_shstrndx h)"

definition phdr_bytes :: "Elf32_Phdr \<Rightarrow> u8 list" where
  "phdr_bytes p =
     le_bytes (p_type p) @ le_bytes (p_offset p) @ le_bytes (p_vaddr p) @ le_bytes (p_paddr p) @ le_bytes (p_filesz p) @
     le_bytes (p_memsz p) @ le_bytes (p_flags p) @ le_bytes (p_align p)"

definition lies_at :: "u8 list \<Rightarrow> (u32 \<Rightarrow> u8) \<Rightarrow> ptr \<Rightarrow> bool" where
  "lies_at bs m p \<longleftrightarrow> map (\<lambda>i. m (p + of_nat i)) [0..<length bs] = bs"

lemma lies_at_Nil: "lies_at [] m p"
  by (simp add: lies_at_def)

lemma lies_at_Cons: "lies_at (b # bs) m p \<longleftrightarrow> m p = b \<and> lies_at bs m (p + 1)"
proof -
  have "map (\<lambda>i. m (p + of_nat i)) (map Suc [0..<length bs]) = map (\<lambda>i. m (p + 1 + of_nat i)) [0..<length bs]"
    by (simp add: add.assoc)
  then show ?thesis unfolding lies_at_def by (simp only: length_Cons upt_conv_Cons zero_less_Suc map_Suc_upt list.simps) simp
qed

lemma lies_at_append: "lies_at (xs @ ys) m p \<longleftrightarrow> lies_at xs m p \<and> lies_at ys m (p + of_nat (length xs))"
  by (induction xs arbitrary: p) (auto simp: lies_at_Nil lies_at_Cons ac_simps)

lemma lies_at_le: "lies_at (le_bytes w) m p \<Longrightarrow> ld32 m p = w"
  unfolding le_bytes_def lies_at_Cons ld32_def add.assoc by (elim conjE) (simp only: one_plus_numeral one_add_one add_num_simps bytes_join)

lemma bytes_join16: "(ucast (ucast v :: u8) OR push_bit 8 (ucast (ucast (drop_bit 8 v) :: u8))) = (v :: u16)"
proof (rule bit_word_eqI)
  fix n assume "n < LENGTH(16)"
  then have "n < 16" by simp
  then show "bit (ucast (ucast v :: u8) OR push_bit 8 (ucast (ucast (drop_bit 8 v) :: u8)) :: u16) n = bit v n"
    by (auto simp: bit_or_iff bit_push_bit_iff bit_ucast_iff bit_drop_bit_eq simp del: push_bit_numeral)
qed

lemma lies_at_le16: "lies_at (le16_bytes w) m p \<Longrightarrow> ld16 m p = w"
  unfolding le16_bytes_def lies_at_Cons ld16_def by (elim conjE) (simp only: bytes_join16)

lemma lies_at_self:
  assumes "length bs = n" and "n < 2 ^ 32"
  shows "lies_at bs (\<lambda>i. if unat i < n then bs ! unat i else 0) 0"
  using assms by (auto simp: lies_at_def list_eq_iff_nth_eq unat_of_nat32)

lemma le_len: "length (le_bytes w) = 4" "length (le16_bytes v) = 2"
  by (simp_all add: le_bytes_def le16_bytes_def)

text \<open>
  The loader reads back the fields of an ELF header and of a program header from the bytes the file
  format gives them.
\<close>

theorem elf_headers_roundtrip:
  assumes "length (e_ident h) = 16"
  shows "(lies_at (ehdr_bytes h) m p \<longrightarrow> ehdr_at m p = h) \<and> (lies_at (phdr_bytes q) m p \<longrightarrow> phdr_at m p = q)"
proof (intro conjI impI)
  assume l: "lies_at (ehdr_bytes h) m p"
  then have "lies_at (e_ident h) m p" by (simp add: ehdr_bytes_def lies_at_append)
  then have "map (\<lambda>i. m (p + of_nat i)) [0..<16] = e_ident h" using assms by (simp add: lies_at_def)
  with l show "ehdr_at m p = h"
    by (auto simp: ehdr_at_def ehdr_bytes_def lies_at_append assms le_len add.assoc dest!: lies_at_le lies_at_le16)
next
  assume "lies_at (phdr_bytes q) m p"
  then show "phdr_at m p = q"
    by (auto simp: phdr_at_def phdr_bytes_def lies_at_append le_len add.assoc dest!: lies_at_le)
qed

definition ehdr_demo :: Elf32_Ehdr where
  "ehdr_demo = \<lparr>e_ident = [0x7f, 0x45, 0x4c, 0x46] @ replicate 12 0, e_type = 2, e_machine = 3, e_version = 1,
     e_entry = 0x8048000, e_phoff = 52, e_shoff = 0, e_flags = 0, e_ehsize = 52, e_phentsize = 32, e_phnum = 2,
     e_shentsize = 0, e_shnum = 0, e_shstrndx = 0\<rparr>"

theorem elf_headers_roundtrip_witness:
  "ehdr_at (\<lambda>i. if unat i < 52 then ehdr_bytes ehdr_demo ! unat i else 0) 0 = ehdr_demo"
proof -
  have "length (e_ident ehdr_demo) = 16" by (simp add: ehdr_demo_def)
  moreover have "lies_at (ehdr_bytes ehdr_demo) (\<lambda>i. if unat i < 52 then ehdr_bytes ehdr_demo ! unat i else 0) 0"
    by (rule lies_at_self) (simp_all add: ehdr_bytes_def ehdr_demo_def le_len)
  ultimately show ?thesis using elf_headers_roundtrip [of ehdr_demo] by blast
qed

section \<open>Alignment\<close>

text \<open>The stack pointer is rounded down to a multiple of 4 only when its rest is 0 or 2.\<close>

lemma align_stack_correct: "align_stack sp = sp - sp mod 4 \<longleftrightarrow> sp mod 4 = 0 \<or> sp mod 4 = 2"
proof -
  have "unat (sp mod 4) < 4" by (simp add: unat_mod)
  then have "sp mod 4 = 0 \<or> sp mod 4 = 1 \<or> sp mod 4 = 2 \<or> sp mod 4 = 3"
    by (simp add: word_unat_eq_iff) linarith
  then show ?thesis by (auto simp: align_stack_def)
qed

end
