(* ===== verification/Interrupts.thy ===== *)
theory Interrupts
  imports Images
begin

text \<open>
  Entry to the kernel: the handlers of \<^verbatim>\<open>kernel/arch/i386/isr.c\<close> for exceptions, device interrupts and
  system calls, the interrupt table of \<^verbatim>\<open>idt.c\<close>, the segment table of \<^verbatim>\<open>gdt.c\<close> and the setup of the
  interrupt controllers in \<^verbatim>\<open>irq.c\<close>.
\<close>

section \<open>State\<close>

record int_frame =
  int_number :: u32
  err_code :: u32
  f_eip :: u32
  f_cs :: u32
  f_eflags :: u32
  f_esp :: u32
  f_ss :: u32

record int_regs =
  i_ds :: u32
  i_edi :: u32
  i_esi :: u32
  i_ebp :: u32
  i_esp :: u32
  i_ebx :: u32
  i_edx :: u32
  i_ecx :: u32
  i_eax :: u32

record idt_entry =
  offset_low :: u16
  selector :: u16
  reserved :: u8
  attributes :: u8
  offset_high :: u16

record gdt_entry =
  limit_low :: u16
  base_low :: u16
  base_mid :: u8
  access :: u8
  limit_high :: u8
  gdt_flags :: u8
  base_high :: u8

text \<open>
  \<open>kbd_data\<close> is the byte the keyboard controller delivers on its data port, \<open>port_log\<close> the bytes written to the
  ports of the interrupt controllers, latest first. \<open>idt_size\<close> and \<open>gdt_size\<close> are the limits in the table
  registers of the processor; \<open>tss_addr\<close> is the address of the task state segment.
\<close>

record machine = sys +
  kbd_data :: u8
  port_log :: "(u16 \<times> u8) list"
  idt :: "idt_entry list"
  current_entry :: u32
  idt_size :: u16
  gdt :: "gdt_entry list"
  gdt_size :: u16
  tss_addr :: u32
  tss_ss0 :: u32
  tss_io_map :: u16
  int_enabled :: bool

definition outb :: "u16 \<Rightarrow> u8 \<Rightarrow> 'a machine_scheme \<Rightarrow> 'a machine_scheme" where
  "outb port data s = s\<lparr>port_log := (port, data) # port_log s\<rparr>"

abbreviation (input) PIC1_COMM :: u16 where "PIC1_COMM \<equiv> 0x20"
abbreviation (input) PIC1_DATA :: u16 where "PIC1_DATA \<equiv> 0x21"
abbreviation (input) PIC2_COMM :: u16 where "PIC2_COMM \<equiv> 0xa0"
abbreviation (input) PIC2_DATA :: u16 where "PIC2_DATA \<equiv> 0xa1"
abbreviation (input) PIC_EOI :: u8 where "PIC_EOI \<equiv> 0x20"

section \<open>Segments and the interrupt table\<close>

definition gdt_fill_entry :: "nat \<Rightarrow> u32 \<Rightarrow> u32 \<Rightarrow> u8 \<Rightarrow> u8 \<Rightarrow> 'a machine_scheme \<Rightarrow> 'a machine_scheme" where
  "gdt_fill_entry idx limit base acs flags s =
     s\<lparr>gdt := (gdt s)[idx :=
       \<lparr>limit_low = ucast (limit AND 0xffff), base_low = ucast (base AND 0xffff),
        base_mid = ucast (drop_bit 16 base AND 0xff), access = acs,
        limit_high = ucast (drop_bit 16 limit AND 0xf), gdt_flags = flags AND 0xf,
        base_high = ucast (drop_bit 24 base AND 0xff)\<rparr>]\<rparr>"

abbreviation (input) GDT_ACS_KERN_CODE :: u8 where "GDT_ACS_KERN_CODE \<equiv> 0x9a"
abbreviation (input) GDT_ACS_KERN_DATA :: u8 where "GDT_ACS_KERN_DATA \<equiv> 0x92"
abbreviation (input) GDT_ACS_USER_CODE :: u8 where "GDT_ACS_USER_CODE \<equiv> 0xfa"
abbreviation (input) GDT_ACS_USER_DATA :: u8 where "GDT_ACS_USER_DATA \<equiv> 0xf2"
abbreviation (input) GDT_ACS_TSS :: u8 where "GDT_ACS_TSS \<equiv> 0x89"
abbreviation (input) GDT_BASE_FLG :: u8 where "GDT_BASE_FLG \<equiv> 0xc"

definition gdt_install :: "'a machine_scheme \<Rightarrow> 'a machine_scheme" where
  "gdt_install s =
     (let s = gdt_fill_entry 0 0 0 0 0 s;
          s = gdt_fill_entry 1 0xffffffff 0 GDT_ACS_KERN_CODE GDT_BASE_FLG s;
          s = gdt_fill_entry 2 0xffffffff 0 GDT_ACS_KERN_DATA GDT_BASE_FLG s;
          s = gdt_fill_entry 3 0xffffffff 0 GDT_ACS_USER_CODE GDT_BASE_FLG s;
          s = gdt_fill_entry 4 0xffffffff 0 GDT_ACS_USER_DATA GDT_BASE_FLG s;
          s = gdt_fill_entry 5 104 (tss_addr s) GDT_ACS_TSS 0 s
      in s\<lparr>gdt_size := 8 * 6 - 1\<rparr>)"

definition idt_fill_entry :: "u32 \<Rightarrow> u16 \<Rightarrow> u8 \<Rightarrow> 'a machine_scheme \<Rightarrow> 'a machine_scheme" where
  "idt_fill_entry offset sel attrs s =
     (if current_entry s < 256 then
        s\<lparr>idt := (idt s)[unat (current_entry s) :=
            \<lparr>offset_low = ucast (offset AND 0xffff), selector = sel, reserved = 0, attributes = attrs,
             offset_high = ucast (drop_bit 16 offset AND 0xffff)\<rparr>],
          current_entry := current_entry s + 1\<rparr>
      else s)"

abbreviation (input) GDT_KERN_CODE_OFFSET :: u16 where "GDT_KERN_CODE_OFFSET \<equiv> 8"
abbreviation (input) GDT_KERN_DATA_OFFSET :: u32 where "GDT_KERN_DATA_OFFSET \<equiv> 16"
abbreviation (input) IDT_EXCEPTION_DESCRIPTOR :: u8 where "IDT_EXCEPTION_DESCRIPTOR \<equiv> 0x8f"
abbreviation (input) IDT_IRQ_DESCRIPTOR :: u8 where "IDT_IRQ_DESCRIPTOR \<equiv> 0x8e"
abbreviation (input) IDT_SYSCALL_DESCRIPTOR :: u8 where "IDT_SYSCALL_DESCRIPTOR \<equiv> 0xee"

definition irq_init_PIC :: "'a machine_scheme \<Rightarrow> 'a machine_scheme" where
  "irq_init_PIC s =
     (let s = outb PIC1_COMM 0x11 s;
          s = outb PIC2_COMM 0x11 s;
          s = outb PIC1_DATA 0x20 s;
          s = outb PIC2_DATA 0x28 s;
          s = outb PIC1_DATA 0x1 s;
          s = outb PIC2_DATA 0x1 s;
          s = outb PIC1_DATA 0 s;
          s = outb PIC2_DATA 0 s
      in s\<lparr>pic1_mask := 0, pic2_mask := 0\<rparr>)"

text \<open>\<open>isr\<close> is the table \<^verbatim>\<open>isr_vectors\<close> of the assembler stubs.\<close>

definition cpu_exceptions_init :: "(nat \<Rightarrow> u32) \<Rightarrow> 'a machine_scheme \<Rightarrow> 'a machine_scheme" where
  "cpu_exceptions_init isr s =
     fold (\<lambda>i s. idt_fill_entry (isr i) GDT_KERN_CODE_OFFSET IDT_EXCEPTION_DESCRIPTOR s) [0..<32] s"

definition irqs_init :: "(nat \<Rightarrow> u32) \<Rightarrow> 'a machine_scheme \<Rightarrow> 'a machine_scheme" where
  "irqs_init isr s =
     fold (\<lambda>i s. idt_fill_entry (isr i) GDT_KERN_CODE_OFFSET IDT_IRQ_DESCRIPTOR s) [32..<48] (irq_init_PIC s)"

definition idt_install :: "(nat \<Rightarrow> u32) \<Rightarrow> 'a machine_scheme \<Rightarrow> 'a machine_scheme" where
  "idt_install isr s =
     (let s = cpu_exceptions_init isr s;
          s = irqs_init isr s;
          s = idt_fill_entry (isr 48) GDT_KERN_CODE_OFFSET IDT_SYSCALL_DESCRIPTOR s
      in s\<lparr>idt_size := ucast (8 * current_entry s - 1), int_enabled := True\<rparr>)"

definition tss_init :: "u32 \<Rightarrow> u32 \<Rightarrow> 'a machine_scheme \<Rightarrow> 'a machine_scheme" where
  "tss_init gdt_stack_desc stack s = s\<lparr>tss_ss0 := gdt_stack_desc, esp0 := stack, tss_io_map := 104\<rparr>"

section \<open>Handlers\<close>

definition exception_name :: "string list" where
  "exception_name =
     [''Divide Error'', ''Debug Exception'', ''NMI Interrupt'', ''Breakpoint'', ''Overflow'', ''Bounds Check'',
      ''Invalid Opcode'', ''Coprocessor Not Available'', ''Double Fault'', ''Coprocessor Segment Overrun'',
      ''Invalid TSS'', ''Segment Not Present'', ''Stack Exception'', ''General Protection Exception(Triple Fault)'',
      ''Page Fault'', ''Intel reserved'', ''FPU Floating-Point Error'', ''Alignment Check'', ''Machine Check'',
      ''SIMD Floating-Point Exception'', ''Virtualization Exception'', ''Control Protection Exception''] @
     replicate 10 ''Intel reserved''"

definition syscall_return :: "ptr \<Rightarrow> 'a sched_scheme \<Rightarrow> (unit, 'a sched_scheme) res" where
  "syscall_return r s = bindR (get_task r s) (\<lambda>t s. Iret (s\<lparr>cr3 := reg_cr3 (t_regs t)\<rparr>))"

text \<open>A program that was interrupted is continued with its saved registers; kernel code simply goes on.\<close>

definition resume :: "int_frame \<Rightarrow> 'a sched_scheme \<Rightarrow> (unit, 'a sched_scheme) res" where
  "resume frame s = (if f_eip frame < VM_KERN_START then syscall_return (actual_task s) s else Ret () s)"

definition exception_handler :: "nat \<Rightarrow> int_frame \<Rightarrow> 'a machine_scheme \<Rightarrow> (unit, 'a machine_scheme) res" where
  "exception_handler n frame s =
     bindR (if int_number frame = 14 then
              pg_page_fault_handler
                (\<lambda>vaddr vmm_err s. bindR (get_task (actual_task s) s) (\<lambda>t s.
                   vmm_page_fault_handler (do_exit n) (t_aspace t) vaddr vmm_err s)) (err_code frame) s
            else Panic (exception_name ! unat (int_number frame))) (\<lambda>_ s.
     resume frame s)"

text \<open>The message of the default case, \<^verbatim>\<open>IRQ nr: %d not implemented\<close>.\<close>

definition irq_message :: "u8 list" where
  "irq_message = map of_char ''IRQ nr: %d not implemented'' @ [0x0a, 0]"

definition irq_handler :: "nat \<Rightarrow> int_frame \<Rightarrow> 'a machine_scheme \<Rightarrow> (unit, 'a machine_scheme) res" where
  "irq_handler n frame s =
     bindR (if int_number frame = 0x20 then
              (let (switch, s) = timer_isr s in
               if switch then task_switch (do_exit n) n (outb PIC1_COMM PIC_EOI s) else Ret () s)
            else if int_number frame = 0x21 then keyboard_isr (do_exit n) (kbd_data s) s
            else kprintf irq_message [Kint (int_number frame)] s) (\<lambda>_ s.
     let s = outb PIC1_COMM PIC_EOI s;
         s = (if int_number frame \<ge> 40 then outb PIC2_COMM PIC_EOI s else s)
     in resume frame s)"

section \<open>System calls\<close>

definition set_retval :: "ptr \<Rightarrow> u32 \<Rightarrow> 'a sched_scheme \<Rightarrow> (unit, 'a sched_scheme) res" where
  "set_retval r v s = set_task r (\<lambda>t. t\<lparr>t_regs := (t_regs t)\<lparr>eax := v\<rparr>\<rparr>) s"

definition ret_int :: "ptr \<Rightarrow> (int, 'a sched_scheme) res \<Rightarrow> (unit, 'a sched_scheme) res" where
  "ret_int r m = bindR m (\<lambda>v s. set_retval r (of_int v) s)"

definition ret_word :: "ptr \<Rightarrow> (u32, 'a sched_scheme) res \<Rightarrow> (unit, 'a sched_scheme) res" where
  "ret_word r m = bindR m (\<lambda>v s. set_retval r v s)"

definition syscall :: "nat \<Rightarrow> ptr \<Rightarrow> task_regs \<Rightarrow> 'a machine_scheme \<Rightarrow> (unit, 'a machine_scheme) res" where
  "syscall n r a s =
     (if eax a = 0 then exit n (ebx a) s
      else if eax a = 1 then ret_word r (fork (do_exit n) s)
      else if eax a = 2 then
        bindR (execve n (ebx a) (ecx a) s) (\<lambda>v s. if v < 0 then set_retval r (of_int v) s else Ret () s)
      else if eax a = 3 then ret_word r (getpid s)
      else if eax a = 4 then ret_word r (getppid s)
      else if eax a = 5 then bindR (waitpid (do_exit n) n (ebx a) s) (\<lambda>_ s. Ret () s)
      else if eax a = 6 then ret_word r (mmap n (ebx a) (ecx a) (edx a) (sint (esi a)) (edi a) s)
      else if eax a = 7 then ret_int r (munmap (ebx a) s)
      else if eax a = 8 then ret_int r (brk (ebx a) s)
      else if eax a = 9 then ret_word r (sbrk (ebx a) s)
      else if eax a = 10 then ret_int r (sys_open (ebx a) (ecx a) s)
      else if eax a = 11 then ret_int r (close (sint (ebx a)) s)
      else if eax a = 12 then ret_int r (sys_read n (sint (ebx a)) (ecx a) (edx a) s)
      else if eax a = 13 then ret_int r (sys_write n (sint (ebx a)) (ecx a) (edx a) s)
      else if eax a = 14 then ret_int r (sys_remove (ebx a) s)
      else if eax a = 15 then ret_int r (mkdir (ebx a) s)
      else if eax a = 16 then ret_int r (rmdir (ebx a) s)
      else if eax a = 17 then ret_int r (readdir (sint (ebx a)) (ecx a) s)
      else if eax a = 18 then ret_int r (lseek (sint (ebx a)) (ecx a) (edx a) s)
      else Ret () s)"

definition syscall_handler :: "nat \<Rightarrow> 'a machine_scheme \<Rightarrow> (unit, 'a machine_scheme) res" where
  "syscall_handler n s =
     (let r = actual_task s in
      bindR (get_task r s) (\<lambda>t s.
      bindR (syscall n r (t_regs t) s) (\<lambda>_ s.
      bindR (if sint (errno s) > 0 then set_task r (\<lambda>t. t\<lparr>t_regs := (t_regs t)\<lparr>esi := errno s\<rparr>\<rparr>) s else Ret () s) (\<lambda>_ s.
      syscall_return r s))))"

text \<open>The registers of an interrupted program go to its control block; the saved address space is kept.\<close>

definition saved_regs :: "int_frame \<Rightarrow> int_regs \<Rightarrow> task_regs \<Rightarrow> task_regs" where
  "saved_regs frame regs r =
     r\<lparr>eax := i_eax regs, ebx := i_ebx regs, ecx := i_ecx regs, edx := i_edx regs, esi := i_esi regs, edi := i_edi regs,
       ebp := i_ebp regs, esp := f_esp frame, eip := f_eip frame, eflags := f_eflags frame\<rparr>"

definition save_context :: "int_frame \<Rightarrow> int_regs \<Rightarrow> 'a machine_scheme \<Rightarrow> (unit, 'a machine_scheme) res" where
  "save_context frame regs s =
     (if actual_task s = NULL then Ret () s
      else
        bindR (get_task (actual_task s) s) (\<lambda>t s.
        if task_id t > 0 \<and> f_eip frame < VM_KERN_START then
          bindR (set_task (actual_task s) (\<lambda>t. t\<lparr>t_regs := saved_regs frame regs (t_regs t)\<rparr>) s) (\<lambda>_ s.
          Ret () (pg_switch_pd (kern_pd_paddr s) s))
        else Ret () s))"

definition general_handler :: "nat \<Rightarrow> int_frame \<Rightarrow> int_regs \<Rightarrow> 'a machine_scheme \<Rightarrow> (unit, 'a machine_scheme) res" where
  "general_handler n frame regs s =
     bindR (save_context frame regs (set_errno 0 s)) (\<lambda>_ s.
     if int_number frame < 32 then exception_handler n frame s
     else if int_number frame < 48 then irq_handler n frame s
     else syscall_handler n s)"

section \<open>The interrupt table\<close>

definition gate :: "u32 \<Rightarrow> u8 \<Rightarrow> idt_entry" where
  "gate offset attrs =
     \<lparr>offset_low = ucast (offset AND 0xffff), selector = GDT_KERN_CODE_OFFSET, reserved = 0, attributes = attrs,
      offset_high = ucast (drop_bit 16 offset AND 0xffff)\<rparr>"

definition gate_offset :: "idt_entry \<Rightarrow> u32" where
  "gate_offset e = ucast (offset_low e) OR push_bit 16 (ucast (offset_high e))"

definition gate_ring :: "idt_entry \<Rightarrow> u8" where
  "gate_ring e = drop_bit 5 (attributes e) AND 3"

lemma gate_offset: "gate_offset (gate w a) = w"
proof (rule bit_word_eqI)
  fix n assume "n < LENGTH(32)"
  then have n: "n < 32" by simp
  have "(0xffff :: u32) = mask 16" by (simp add: mask_eq_exp_minus_1)
  then have m: "x AND 0xffff = take_bit 16 x" for x :: u32 by (simp only: take_bit_eq_mask)
  show "bit (gate_offset (gate w a)) n = bit w n"
    using n unfolding gate_offset_def gate_def m
    by (auto simp: bit_or_iff bit_push_bit_iff bit_ucast_iff bit_take_bit_iff bit_drop_bit_eq simp del: push_bit_numeral)
qed

lemma fill_entry:
  assumes "current_entry s = of_nat a" and "a < 256" and "length (idt s) = 256"
  shows "idt_fill_entry w GDT_KERN_CODE_OFFSET at s = s\<lparr>idt := (idt s)[a := gate w at], current_entry := of_nat (Suc a)\<rparr>"
proof -
  have "unat (of_nat a :: u32) = a" using assms(2) by (simp add: unat_of_nat32)
  then have "current_entry s < 256" "unat (current_entry s) = a" using assms(1,2) by (simp_all add: word_less_nat_alt)
  then show ?thesis using assms(1) by (simp add: idt_fill_entry_def gate_def add.commute)
qed

lemma fill_range:
  assumes "current_entry s = of_nat a" and "a \<le> b" and "b \<le> 256" and "length (idt s) = 256"
  shows "\<exists>ent. fold (\<lambda>i s. idt_fill_entry (isr i) GDT_KERN_CODE_OFFSET at s) [a..<b] s =
      s\<lparr>idt := ent, current_entry := of_nat b\<rparr> \<and> length ent = 256 \<and>
    (\<forall>v < 256. ent ! v = (if a \<le> v \<and> v < b then gate (isr v) at else idt s ! v))"
  using assms(2,3)
proof (induction b rule: dec_induct)
  case base
  show ?case using assms(4) by (intro exI [of _ "idt s"]) (auto simp flip: assms(1))
next
  case (step b)
  then obtain ent where ent: "fold (\<lambda>i s. idt_fill_entry (isr i) GDT_KERN_CODE_OFFSET at s) [a..<b] s =
      s\<lparr>idt := ent, current_entry := of_nat b\<rparr>" "length ent = 256"
    "\<forall>v < 256. ent ! v = (if a \<le> v \<and> v < b then gate (isr v) at else idt s ! v)" by auto
  have "fold (\<lambda>i s. idt_fill_entry (isr i) GDT_KERN_CODE_OFFSET at s) [a..<Suc b] s =
      idt_fill_entry (isr b) GDT_KERN_CODE_OFFSET at (s\<lparr>idt := ent, current_entry := of_nat b\<rparr>)"
    using step.hyps(1) ent(1) by simp
  also have "\<dots> = s\<lparr>idt := ent[b := gate (isr b) at], current_entry := of_nat (Suc b)\<rparr>"
    using step.prems ent(2) by (subst fill_entry [where a = b]) simp_all
  finally have "fold (\<lambda>i s. idt_fill_entry (isr i) GDT_KERN_CODE_OFFSET at s) [a..<Suc b] s =
      s\<lparr>idt := ent[b := gate (isr b) at], current_entry := of_nat (Suc b)\<rparr>" .
  moreover have "(\<forall>v < 256. ent[b := gate (isr b) at] ! v =
      (if a \<le> v \<and> v < Suc b then gate (isr v) at else idt s ! v))"
    using ent(2,3) step.hyps by (auto simp: nth_list_update less_Suc_eq)
  ultimately show ?case using ent(2) by (metis length_list_update)
qed

text \<open>
  After \<^verbatim>\<open>idt_install\<close> the vectors 0 to 48 lead to their assembler stubs in the kernel code segment, the table
  limit covers exactly them, and a program can call only vector 48.
\<close>

theorem idt_install_correct:
  assumes "length (idt s) = 256" and "current_entry s = 0"
  shows "(\<forall>v \<le> 48. gate_offset (idt (idt_install isr s) ! v) = isr v \<and>
      selector (idt (idt_install isr s) ! v) = GDT_KERN_CODE_OFFSET \<and>
      gate_ring (idt (idt_install isr s) ! v) = (if v = 48 then 3 else 0)) \<and>
    idt_size (idt_install isr s) = 49 * 8 - 1 \<and> int_enabled (idt_install isr s)"
proof -
  obtain e1 where e1: "cpu_exceptions_init isr s = s\<lparr>idt := e1, current_entry := 32\<rparr>" "length e1 = 256"
    "\<forall>v < 256. e1 ! v = (if v < 32 then gate (isr v) IDT_EXCEPTION_DESCRIPTOR else idt s ! v)"
    using fill_range [of s 0 32 isr IDT_EXCEPTION_DESCRIPTOR] assms by (auto simp: cpu_exceptions_init_def)
  let ?t = "irq_init_PIC (s\<lparr>idt := e1, current_entry := 32\<rparr>)"
  have t: "idt ?t = e1" "current_entry ?t = 32" by (simp_all add: irq_init_PIC_def outb_def Let_def)
  obtain e2 where e2: "irqs_init isr (s\<lparr>idt := e1, current_entry := 32\<rparr>) = ?t\<lparr>idt := e2, current_entry := 48\<rparr>" "length e2 = 256"
    "\<forall>v < 256. e2 ! v = (if 32 \<le> v \<and> v < 48 then gate (isr v) IDT_IRQ_DESCRIPTOR else e1 ! v)"
    using fill_range [of ?t 32 48 isr IDT_IRQ_DESCRIPTOR] t e1(2) by (auto simp: irqs_init_def)
  have "idt (idt_install isr s) = e2[48 := gate (isr 48) IDT_SYSCALL_DESCRIPTOR] \<and> current_entry (idt_install isr s) = 49 \<and>
      idt_size (idt_install isr s) = 49 * 8 - 1 \<and> int_enabled (idt_install isr s)"
    using fill_entry [of "?t\<lparr>idt := e2, current_entry := 48\<rparr>" 48 "isr 48" IDT_SYSCALL_DESCRIPTOR] e2(2)
    by (simp add: idt_install_def e1(1) e2(1) Let_def)
  moreover have "\<forall>v \<le> 48. e2[48 := gate (isr 48) IDT_SYSCALL_DESCRIPTOR] ! v =
      gate (isr v) (if v < 32 then IDT_EXCEPTION_DESCRIPTOR else if v < 48 then IDT_IRQ_DESCRIPTOR else IDT_SYSCALL_DESCRIPTOR)"
    using e1(3) e2(2,3) by (auto simp: nth_list_update)
  ultimately show ?thesis by (simp add: gate_offset) (simp add: gate_ring_def gate_def)
qed

text \<open>A machine that runs the program of the file example.\<close>

definition machine_demo :: machine where
  "machine_demo = sys.extend (sys_demo\<lparr>tcbs := [0xc0106000 \<mapsto> (snd (snd file_demo))\<lparr>task_id := 2\<rparr>]\<rparr>)
     \<lparr>kbd_data = 0, port_log = [], idt = replicate 256 (gate 0 0), current_entry = 0, idt_size = 0,
      gdt = [], gdt_size = 0, tss_addr = 0xc0004000, tss_ss0 = 0, tss_io_map = 0, int_enabled = False\<rparr>"

theorem idt_install_correct_witness:
  "gate_offset (idt (idt_install (\<lambda>v. 0xc0001000 + 16 * of_nat v) machine_demo) ! 48) = 0xc0001300 \<and>
   gate_ring (idt (idt_install (\<lambda>v. 0xc0001000 + 16 * of_nat v) machine_demo) ! 14) = 0"
proof -
  have "length (idt machine_demo) = 256" "current_entry machine_demo = 0" by (simp_all add: machine_demo_def sys.defs)
  from idt_install_correct [OF this, of "\<lambda>v. 0xc0001000 + 16 * of_nat v"] show ?thesis by simp
qed

section \<open>Interrupted programs\<close>

text \<open>\<open>in_program s p t frame\<close>: task \<open>p\<close> runs a program that is interrupted at the address in the frame.\<close>

definition in_program :: "'a machine_scheme \<Rightarrow> ptr \<Rightarrow> tcb \<Rightarrow> int_frame \<Rightarrow> bool" where
  "in_program s p t frame \<longleftrightarrow>
     actual_task s = p \<and> p \<noteq> NULL \<and> tcbs s p = Some t \<and> task_id t > 0 \<and> f_eip frame < VM_KERN_START"

definition entered :: "'a machine_scheme \<Rightarrow> ptr \<Rightarrow> tcb \<Rightarrow> int_frame \<Rightarrow> int_regs \<Rightarrow> 'a machine_scheme" where
  "entered s p t frame regs =
     tcbs_update (\<lambda>h. h(p \<mapsto> t\<lparr>t_regs := saved_regs frame regs (t_regs t)\<rparr>)) (s\<lparr>errno := 0, cr3 := kern_pd_paddr s\<rparr>)"

lemma save_context_ok:
  assumes "in_program s p t frame"
  shows "save_context frame regs (set_errno 0 s) = Ret () (entered s p t frame regs)"
  using assms
  by (simp add: save_context_def in_program_def set_errno_def load_Some modify_Some entered_def pg_switch_pd_def)


definition frame_demo :: "u32 \<Rightarrow> int_frame" where
  "frame_demo v = \<lparr>int_number = v, err_code = 0, f_eip = 0x8048123, f_cs = 0x1b, f_eflags = 0x202, f_esp = 0xbfffe000, f_ss = 0x23\<rparr>"

definition regs_demo :: int_regs where
  "regs_demo = \<lparr>i_ds = 0x23, i_edi = 7, i_esi = 9, i_ebp = 0xbfffe010, i_esp = 0, i_ebx = 2, i_edx = 1, i_ecx = - 601, i_eax = 18\<rparr>"

lemma machine_demo_runs: "in_program machine_demo 0xc0106000 ((snd (snd file_demo))\<lparr>task_id := 2\<rparr>) (frame_demo v)"
  by (simp add: in_program_def machine_demo_def sys.defs sys_demo_def dev.defs frame_demo_def)


text \<open>
  The system call \<^verbatim>\<open>lseek\<close> as a program sees it: on a regular file it comes back with the target in \<^verbatim>\<open>eax\<close> and the
  position moved there when the target lies in the file, and otherwise with -1 in \<^verbatim>\<open>eax\<close> and the error number in
  \<^verbatim>\<open>esi\<close>; all other registers, the stack pointer and the address space are those of the call.
\<close>

lemma lseek_system_call:
  assumes "in_program s p t frame" and "int_number frame = 48" and "i_eax regs = 18"
    and "0 \<le> sint (i_ebx regs)" and "sint (i_ebx regs) < int (length (used_fd t))"
    and "fd_ptr = used_fd t ! nat (sint (i_ebx regs))" and "fd_ptr \<noteq> NULL" and "fds s fd_ptr = Some f"
    and "vnodes s (fd_vnode f) = Some v" and "v_type v = VFS_FILE"
    and "uint (v_size v) < 2 ^ 31" and "fd_position f \<le> v_size v"
  shows "\<exists>s'. general_handler n frame regs s = Iret s' \<and> actual_task s' = p \<and> cr3 s' = reg_cr3 (t_regs t) \<and>
    (case seek_target (fd_position f) (v_size v) (i_ecx regs) (i_edx regs) of
       None \<Rightarrow> fds s' = fds s \<and>
         tcbs s' = (tcbs s)(p \<mapsto> t\<lparr>t_regs := (saved_regs frame regs (t_regs t))
           \<lparr>eax := - 1, esi := if i_edx regs \<le> 2 then ENXIO else EINVAL\<rparr>\<rparr>)
     | Some z \<Rightarrow> fds s' = (fds s)(fd_ptr \<mapsto> f\<lparr>fd_position := word_of_int z\<rparr>) \<and>
         tcbs s' = (tcbs s)(p \<mapsto> t\<lparr>t_regs := (saved_regs frame regs (t_regs t))\<lparr>eax := word_of_int z\<rparr>\<rparr>))"
proof -
  let ?s = "entered s p t frame regs" and ?t = "t\<lparr>t_regs := saved_regs frame regs (t_regs t)\<rparr>"
  have s1: "actual_task ?s = p" "tcbs ?s = (tcbs s)(p \<mapsto> ?t)" "fds ?s = fds s" "vnodes ?s = vnodes s" "errno ?s = 0"
    using assms(1) by (simp_all add: entered_def in_program_def)
  have run: "lseek (sint (i_ebx regs)) (i_ecx regs) (i_edx regs) ?s =
    (case seek_target (fd_position f) (v_size v) (i_ecx regs) (i_edx regs) of
       None \<Rightarrow> Ret (- 1) (set_errno (if i_edx regs \<le> 2 then ENXIO else EINVAL) ?s)
     | Some z \<Rightarrow> Ret z (fds_update (\<lambda>h. h(fd_ptr \<mapsto> f\<lparr>fd_position := word_of_int z\<rparr>)) ?s))"
    using lseek_ok [of ?s ?t "sint (i_ebx regs)" f v "i_ecx regs" "i_edx regs"] assms(4-12) s1
    by (cases "seek_target (fd_position f) (v_size v) (i_ecx regs) (i_edx regs)") simp_all
  have regs: "eax (t_regs ?t) = 18" "ebx (t_regs ?t) = i_ebx regs" "ecx (t_regs ?t) = i_ecx regs" "edx (t_regs ?t) = i_edx regs"
    using assms(3) by (simp_all add: saved_regs_def)
  have call: "syscall n p (t_regs ?t) ?s = ret_int p (lseek (sint (i_ebx regs)) (i_ecx regs) (i_edx regs) ?s)"
    unfolding syscall_def regs by simp
  have handler: "general_handler n frame regs s = syscall_handler n ?s"
    using assms(2) save_context_ok [OF assms(1), of regs] by (simp add: general_handler_def)
  show ?thesis
    unfolding handler syscall_handler_def Let_def s1(1)
    using call run s1
    by (cases "seek_target (fd_position f) (v_size v) (i_ecx regs) (i_edx regs)")
      (simp_all add: load_Some modify_Some ret_int_def set_retval_def set_errno_def syscall_return_def saved_regs_def)
qed

end
