(* ===== verification/Boot.thy ===== *)
theory Boot
  imports Interrupts
begin

text \<open>
  Start of the system: \<^verbatim>\<open>kernel/arch/i386/arch_init.c\<close> and \<^verbatim>\<open>kernel/main.c\<close>. The boot loader hands over the
  memory size and the loaded modules.
\<close>

section \<open>What the boot loader provides\<close>

record boot_module =
  mod_start :: u32
  mod_end :: u32

record multiboot_info =
  mem_upper :: u32
  mods_count :: u32
  mods_addr :: u32
  mods :: "boot_module list"

text \<open>
  Addresses the linker and the compiler choose: the end of the kernel image, the local array \<^verbatim>\<open>argv\<close> of
  \<^verbatim>\<open>kernel_main\<close>, the string \<^verbatim>\<open>"/bin/init"\<close> and the assembler stubs of the interrupts.
\<close>

record layout =
  kernel_paddr_end :: u32
  argv_addr :: ptr
  init_path_addr :: ptr
  isr_vectors :: "nat \<Rightarrow> u32"

definition mod_at :: "multiboot_info \<Rightarrow> u32 \<Rightarrow> 's \<Rightarrow> (boot_module, 's) res" where
  "mod_at mb i s = (if unat i < length (mods mb) then Ret (mods mb ! unat i) s else Fault NULL)"

section \<open>arch_init\<close>

function map_module :: "u32 \<Rightarrow> int \<Rightarrow> 'a mmu_scheme \<Rightarrow> (unit, 'a mmu_scheme) res" where
  "map_module mod_paddr mod_size s =
     (if mod_size > 0 then
        bindR (pg_map mod_paddr (mod_paddr + VM_KERN_START) PG_KERN_PAGE_FLAG s) (\<lambda>_ s.
        map_module (mod_paddr + 4096) (mod_size - 4096) s)
      else Ret () s)"
  by pat_completeness auto
termination by (relation "measure (\<lambda>(_, mod_size, _). nat mod_size)") auto

declare map_module.simps [simp del]

definition arch_init :: "layout \<Rightarrow> multiboot_info \<Rightarrow> 'a machine_scheme \<Rightarrow> (unit, 'a machine_scheme) res" where
  "arch_init ld mb s =
     (let s = gdt_install s;
          s = idt_install (isr_vectors ld) s;
          s = tss_init GDT_KERN_DATA_OFFSET 0 s in
      bindR (timer_init 200 s) (\<lambda>_ s.
      let s = irq_set_int IRQ0 True s in
      bindR (if mods_count mb > 0 then
               bindR (pg_map (mods_addr mb) (mods_addr mb + VM_KERN_START) PG_KERN_PAGE_FLAG s) (\<lambda>_ s.
               bindR (mod_at mb (mods_count mb - 1) s) (\<lambda>m s.
               bindR (pmm_init (mem_upper mb * 1024) 0 (mod_end m) s) (\<lambda>_ s.
               Ret () (s\<lparr>kernel_end := mod_end m + VM_KERN_START\<rparr>))))
             else
               bindR (pmm_init (mem_upper mb * 1024) 0 (kernel_paddr_end ld) s) (\<lambda>_ s.
               Ret () (s\<lparr>kernel_end := kernel_paddr_end ld + VM_KERN_START\<rparr>))) (\<lambda>_ s.
      for_each [0..<unat (mods_count mb)] (\<lambda>i s.
        bindR (mod_at mb (of_nat i) s) (\<lambda>m s. map_module (mod_start m) (sint (mod_end m - mod_start m)) s)) s)))"

section \<open>kernel_main\<close>

text \<open>The first address space is not cleared: all but its page directory is what the heap left there.\<close>

definition raw_aspace :: "ptr \<Rightarrow> 'a kheap_scheme \<Rightarrow> aspace" where
  "raw_aspace p s =
     \<lparr>as_pd = stale s p, code_entry = stale s (p + 4), elf_end = stale s (p + 8), data_end = stale s (p + 12),
      stack_end = stale s (p + 16), stack_size = stale s (p + 20), page_counter = stale s (p + 24),
      as_first = stale s (p + 28), as_last = stale s (p + 32)\<rparr>"

definition stars :: "u8 list" where
  "stars = replicate 79 0x2a @ [0x0a, 0]"

definition announcement :: "u8 list list" where
  "announcement =
     [stars, map of_char ''Welcome to TrytonOS'' @ [0x0a, 0],
      map of_char ''This is a hobby project created by determined self-taught individual'' @ [0x0a, 0], stars]"

definition init_task :: "layout \<Rightarrow> 'a machine_scheme \<Rightarrow> (ptr, 'a machine_scheme) res" where
  "init_task ld s =
     bindR (kst32 (argv_addr ld) (init_path_addr ld) s) (\<lambda>_ s.
     bindR (kst32 (argv_addr ld + 4) NULL s) (\<lambda>_ s.
     bindR (kmalloc 36 s) (\<lambda>init_as s.
     let s = s\<lparr>aspaces := (aspaces s)(init_as \<mapsto> (raw_aspace init_as s)\<lparr>as_pd := kern_pd_paddr s\<rparr>)\<rparr> in
     bindR (task_new OS init_as s) (\<lambda>init s.
     bindR (set_task init (\<lambda>t. t\<lparr>sig_mask := SIG_DEFAULT_MASK,
       t_regs := (t_regs t)\<lparr>reg_cs := 0x18 OR 3, reg_ds := 0x20 OR 3\<rparr>\<rparr>) s) (\<lambda>_ s. Ret init s)))))"

definition set_std_fds :: "ptr \<Rightarrow> ptr \<Rightarrow> ptr \<Rightarrow> 'a sched_scheme \<Rightarrow> (unit, 'a sched_scheme) res" where
  "set_std_fds stdin_fd stdout_fd t s =
     set_task t (\<lambda>x. x\<lparr>used_fd := (used_fd x)[0 := stdin_fd, 1 := stdout_fd], fd_ctr := fd_ctr x + 2\<rparr>) s"

definition kernel_main :: "nat \<Rightarrow> layout \<Rightarrow> multiboot_info \<Rightarrow> 'a machine_scheme \<Rightarrow> (unit, 'a machine_scheme) res" where
  "kernel_main n ld mb s =
     bindR (arch_init ld mb s) (\<lambda>_ s.
     bindR (sched_init s) (\<lambda>_ s.
     bindR (mod_at mb 0 s) (\<lambda>m s.
     bindR (initrd_load (mod_start m + VM_KERN_START) s) (\<lambda>_ s.
     bindR (devfs_init s) (\<lambda>_ s.
     bindR (init_task ld s) (\<lambda>init s.
     bindR (do_execve n init (map of_char ''/bin/init'' @ [0]) (argv_addr ld) s) (\<lambda>r s.
     if r \<noteq> 0 then Panic ''[ERROR] Failed to load init program''
     else
       bindR (new_fd (dev_stdin s) O_RDONLY s) (\<lambda>stdin_fd s.
       bindR (fd_add stdin_fd s) (\<lambda>_ s.
       bindR (new_fd (dev_stdout s) O_WRONLY s) (\<lambda>stdout_fd s.
       bindR (fd_add stdout_fd s) (\<lambda>_ s.
       bindR (set_std_fds stdin_fd stdout_fd init s) (\<lambda>_ s.
       bindR (set_std_fds stdin_fd stdout_fd (kernel_task s) s) (\<lambda>_ s.
       bindR (for_each announcement (\<lambda>line s. kprintf line [] s) s) (\<lambda>_ s.
       bindR (sched_add_task (do_exit n) init s) (\<lambda>_ s.
       task_switch (do_exit n) n (irq_set_int IRQ0 False s))))))))))))))))"

end
