(* ===== verification/I386.thy ===== *)
theory I386
  imports Prelude
begin

text \<open>
  A small model of the i386 for the assembler files of the repository: registers, flags, segment and control registers, and
  memory as 32-bit cells at the addresses where they are accessed (all accesses of these files are aligned). Of the
  flags only those that the code reads are kept: the zero flag after a comparison and the interrupt flag.
\<close>

section \<open>State\<close>

datatype reg = EAX | EBX | ECX | EDX | ESI | EDI | EBP | ESP
datatype sreg = DS | ES | FS | GS | SS | CS

record cpu =
  gpr :: "reg \<Rightarrow> u32"
  seg :: "sreg \<Rightarrow> u16"
  ip :: u32
  flags :: u32
  c_cr0 :: u32
  c_cr3 :: u32
  gdtr :: u32
  idtr :: u32
  tr :: u16
  cells :: "u32 \<Rightarrow> u32"

abbreviation (input) IF_FLAG :: u32 where "IF_FLAG \<equiv> 0x200"
abbreviation (input) ZF_FLAG :: u32 where "ZF_FLAG \<equiv> 0x40"

section \<open>Instructions\<close>

text \<open>\<open>Mem r d\<close> is \<^verbatim>\<open>[r + d]\<close>, \<open>Abs a\<close> is \<^verbatim>\<open>[a]\<close>, \<open>Idx a r\<close> is \<^verbatim>\<open>[a + r*4]\<close>.\<close>

datatype operand = Reg reg | Imm u32 | Mem reg u32 | Abs u32 | Idx u32 reg

datatype instr =
    Mov operand operand | Push operand | Pop reg | Add reg u32 | And reg u32 | Or reg u32 | Xor reg reg | Inc reg | Div reg
  | Cmp reg operand | Jmp nat | Je nat | Jne nat | Jmp_reg reg | Hlt
  | Mov_ax u16 | Seg_to_ax sreg | Ax_to_seg sreg | Get_cr0 reg | Set_cr0 reg | Get_cr3 reg | Set_cr3 reg
  | Pushf | Popf | Cli | Sti | Pushad | Popad | Leave | Retn | Iretd | Intr u32 | Call string | Far_jmp u16
  | Lgdt reg | Lidt reg | Ltr

text \<open>What lies outside the code: the kernel behind a trap, and the C functions it calls.\<close>

record 's env =
  on_int :: "u32 \<Rightarrow> 's \<Rightarrow> (unit, 's) res"
  on_call :: "string \<Rightarrow> 's \<Rightarrow> (unit, 's) res"

fun rd :: "operand \<Rightarrow> 'a cpu_scheme \<Rightarrow> u32" where
  "rd (Reg r) c = gpr c r"
| "rd (Imm v) c = v"
| "rd (Mem r d) c = cells c (gpr c r + d)"
| "rd (Abs a) c = cells c a"
| "rd (Idx a r) c = cells c (a + 4 * gpr c r)"

definition set_gpr :: "reg \<Rightarrow> u32 \<Rightarrow> 'a cpu_scheme \<Rightarrow> 'a cpu_scheme" where
  "set_gpr r v c = c\<lparr>gpr := (gpr c)(r := v)\<rparr>"

definition set_cell :: "u32 \<Rightarrow> u32 \<Rightarrow> 'a cpu_scheme \<Rightarrow> 'a cpu_scheme" where
  "set_cell a v c = c\<lparr>cells := (cells c)(a := v)\<rparr>"

fun wr :: "operand \<Rightarrow> u32 \<Rightarrow> 'a cpu_scheme \<Rightarrow> 'a cpu_scheme" where
  "wr (Reg r) v c = set_gpr r v c"
| "wr (Imm i) v c = c"
| "wr (Mem r d) v c = set_cell (gpr c r + d) v c"
| "wr (Abs a) v c = set_cell a v c"
| "wr (Idx a r) v c = set_cell (a + 4 * gpr c r) v c"

definition push :: "u32 \<Rightarrow> 'a cpu_scheme \<Rightarrow> 'a cpu_scheme" where
  "push v c = set_cell (gpr c ESP - 4) v (set_gpr ESP (gpr c ESP - 4) c)"

definition tos :: "'a cpu_scheme \<Rightarrow> u32" where
  "tos c = cells c (gpr c ESP)"

definition drop_top :: "'a cpu_scheme \<Rightarrow> 'a cpu_scheme" where
  "drop_top c = set_gpr ESP (gpr c ESP + 4) c"

definition pop_reg :: "reg \<Rightarrow> 'a cpu_scheme \<Rightarrow> 'a cpu_scheme" where
  "pop_reg r c = set_gpr r (tos c) (drop_top c)"

definition set_seg :: "sreg \<Rightarrow> u16 \<Rightarrow> 'a cpu_scheme \<Rightarrow> 'a cpu_scheme" where
  "set_seg r v c = c\<lparr>seg := (seg c)(r := v)\<rparr>"

definition with_ax :: "u32 \<Rightarrow> u16 \<Rightarrow> u32" where
  "with_ax v ax = (v AND 0xffff0000) OR ucast ax"

text \<open>Return from an interrupt: the stack pointer is popped only when the privilege changes.\<close>

definition iret :: "'a cpu_scheme \<Rightarrow> 'a cpu_scheme" where
  "iret c =
     (let sp = gpr c ESP;
          c' = set_gpr ESP (sp + 12) (set_seg CS (ucast (cells c (sp + 4))) (c\<lparr>ip := cells c sp, flags := cells c (sp + 8)\<rparr>))
      in if cells c (sp + 4) AND 3 = 3
         then set_gpr ESP (cells c (sp + 12)) (set_seg SS (ucast (cells c (sp + 16))) c')
         else c')"

text \<open>A processor that halts stays where it is.
  \<^verbatim>\<open>div\<close> divides \<^verbatim>\<open>edx:eax\<close>; a quotient of more than 32 bits, or a division by zero, is an exception.\<close>

definition exec1 :: "('a cpu_scheme) env \<Rightarrow> instr \<Rightarrow> 'a cpu_scheme \<Rightarrow> (unit, 'a cpu_scheme) res" where
  "exec1 env i c =
     (case i of
        Mov d s \<Rightarrow> Ret () (wr d (rd s c) c)
      | Push s \<Rightarrow> Ret () (push (rd s c) c)
      | Pop r \<Rightarrow> Ret () (pop_reg r c)
      | Add r v \<Rightarrow> Ret () (set_gpr r (gpr c r + v) c)
      | And r v \<Rightarrow> Ret () (set_gpr r (gpr c r AND v) c)
      | Or r v \<Rightarrow> Ret () (set_gpr r (gpr c r OR v) c)
      | Xor r q \<Rightarrow> Ret () (set_gpr r (gpr c r XOR gpr c q) c)
      | Inc r \<Rightarrow> Ret () (set_gpr r (gpr c r + 1) c)
      | Div r \<Rightarrow>
          (let n = unat (gpr c EDX) * 2 ^ 32 + unat (gpr c EAX); d = unat (gpr c r) in
           if d = 0 \<or> n div d \<ge> 2 ^ 32 then Panic ''divide error''
           else Ret () (set_gpr EDX (of_nat (n mod d)) (set_gpr EAX (of_nat (n div d)) c)))
      | Cmp r s \<Rightarrow> Ret () (c\<lparr>flags := (if gpr c r = rd s c then flags c OR ZF_FLAG else flags c AND NOT ZF_FLAG)\<rparr>)
      | Jmp _ \<Rightarrow> Ret () c
      | Je _ \<Rightarrow> Ret () c
      | Jne _ \<Rightarrow> Ret () c
      | Jmp_reg r \<Rightarrow> Ret () (c\<lparr>ip := gpr c r\<rparr>)
      | Hlt \<Rightarrow> Panic ''hlt''
      | Mov_ax v \<Rightarrow> Ret () (set_gpr EAX (with_ax (gpr c EAX) v) c)
      | Seg_to_ax r \<Rightarrow> Ret () (set_gpr EAX (with_ax (gpr c EAX) (seg c r)) c)
      | Ax_to_seg r \<Rightarrow> Ret () (set_seg r (ucast (gpr c EAX)) c)
      | Get_cr0 r \<Rightarrow> Ret () (set_gpr r (c_cr0 c) c)
      | Set_cr0 r \<Rightarrow> Ret () (c\<lparr>c_cr0 := gpr c r\<rparr>)
      | Get_cr3 r \<Rightarrow> Ret () (set_gpr r (c_cr3 c) c)
      | Set_cr3 r \<Rightarrow> Ret () (c\<lparr>c_cr3 := gpr c r\<rparr>)
      | Pushf \<Rightarrow> Ret () (push (flags c) c)
      | Popf \<Rightarrow> Ret () ((drop_top c)\<lparr>flags := tos c\<rparr>)
      | Cli \<Rightarrow> Ret () (c\<lparr>flags := flags c AND NOT IF_FLAG\<rparr>)
      | Sti \<Rightarrow> Ret () (c\<lparr>flags := flags c OR IF_FLAG\<rparr>)
      | Pushad \<Rightarrow>
          Ret () (fold push (map (gpr c) [EAX, ECX, EDX, EBX, ESP, EBP, ESI, EDI]) c)
      | Popad \<Rightarrow>
          Ret () (pop_reg EAX (pop_reg ECX (pop_reg EDX (pop_reg EBX (drop_top (pop_reg EBP (pop_reg ESI (pop_reg EDI c))))))))
      | Leave \<Rightarrow> Ret () (pop_reg EBP (set_gpr ESP (gpr c EBP) c))
      | Retn \<Rightarrow> Ret () ((drop_top c)\<lparr>ip := tos c\<rparr>)
      | Iretd \<Rightarrow> Ret () (iret c)
      | Intr v \<Rightarrow> on_int env v c
      | Call f \<Rightarrow> on_call env f c
      | Far_jmp s \<Rightarrow> Ret () (set_seg CS s c)
      | Lgdt r \<Rightarrow> Ret () (c\<lparr>gdtr := gpr c r\<rparr>)
      | Lidt r \<Rightarrow> Ret () (c\<lparr>idtr := gpr c r\<rparr>)
      | Ltr \<Rightarrow> Ret () (c\<lparr>tr := ucast (gpr c EAX)\<rparr>))"

text \<open>Code without jumps, and code with jumps to positions of the same list; \<open>n\<close> bounds the number of instructions.\<close>

fun exec :: "('a cpu_scheme) env \<Rightarrow> instr list \<Rightarrow> 'a cpu_scheme \<Rightarrow> (unit, 'a cpu_scheme) res" where
  "exec env [] c = Ret () c"
| "exec env (i # is) c = bindR (exec1 env i c) (\<lambda>_ c. exec env is c)"

fun run :: "('a cpu_scheme) env \<Rightarrow> instr list \<Rightarrow> nat \<Rightarrow> nat \<Rightarrow> 'a cpu_scheme \<Rightarrow> (unit, 'a cpu_scheme) res" where
  "run env prog 0 pc c = Timeout"
| "run env prog (Suc n) pc c =
     (if pc < length prog then
        (case prog ! pc of
           Jmp t \<Rightarrow> run env prog n t c
         | Je t \<Rightarrow> run env prog n (if flags c AND ZF_FLAG \<noteq> 0 then t else pc + 1) c
         | Jne t \<Rightarrow> run env prog n (if flags c AND ZF_FLAG = 0 then t else pc + 1) c
         | i \<Rightarrow> bindR (exec1 env i c) (\<lambda>_ c. run env prog n (pc + 1) c))
      else Ret () c)"

section \<open>Lemmas\<close>

named_theorems asm_simps \<open>execution of instructions\<close>

lemma exec_append: "exec env (xs @ ys) c = bindR (exec env xs c) (\<lambda>_ c. exec env ys c)"
  by (induction xs arbitrary: c) (auto simp: bindR_assoc intro!: bindR_cong)

text \<open>A block of code without jumps inside a program runs as straight-line code.\<close>

fun straight :: "instr \<Rightarrow> bool" where
  "straight (Jmp t) = False"
| "straight (Je t) = False"
| "straight (Jne t) = False"
| "straight i = True"

lemma run_straight: "\<lbrakk>pc < length prog; straight (prog ! pc)\<rbrakk> \<Longrightarrow>
    run env prog (Suc n) pc c = bindR (exec1 env (prog ! pc) c) (\<lambda>_ c. run env prog n (Suc pc) c)"
  by (cases "prog ! pc") simp_all

lemma run_block:
  assumes "prog = xs @ blk @ ys" and "pc = length xs" and "list_all straight blk"
  shows "run env prog (length blk + n) pc c = bindR (exec env blk c) (\<lambda>_ c. run env prog n (pc + length blk) c)"
  using assms
proof (induction blk arbitrary: xs pc c)
  case Nil
  then show ?case by simp
next
  case (Cons i blk)
  have nth: "prog ! pc = i" "pc < length prog" using Cons.prems by simp_all
  have "run env prog (length blk + n) (Suc pc) c' = bindR (exec env blk c') (\<lambda>_ c. run env prog n (Suc pc + length blk) c)" for c'
    by (rule Cons.IH [of "xs @ [i]"]) (use Cons.prems in simp_all)
  then show ?case using nth Cons.prems(3) by (simp add: run_straight bindR_assoc del: run.simps)
qed

lemma run_jumps:
  assumes "pc < length prog"
  shows "prog ! pc = Jmp t \<Longrightarrow> run env prog (Suc n) pc c = run env prog n t c"
    and "prog ! pc = Je t \<Longrightarrow> run env prog (Suc n) pc c = run env prog n (if flags c AND ZF_FLAG \<noteq> 0 then t else pc + 1) c"
    and "prog ! pc = Jne t \<Longrightarrow> run env prog (Suc n) pc c = run env prog n (if flags c AND ZF_FLAG = 0 then t else pc + 1) c"
  using assms by simp_all

lemma zero_flag [simp]: "(f OR ZF_FLAG) AND ZF_FLAG \<noteq> (0 :: u32)" "(f AND - 65) AND ZF_FLAG = (0 :: u32)"
proof -
  have "bit ((f OR ZF_FLAG) AND ZF_FLAG) 6" by (simp add: bit_and_iff bit_or_iff)
  then show "(f OR ZF_FLAG) AND ZF_FLAG \<noteq> (0 :: u32)" by (metis bit_0_eq bot_apply bot_bool_def)
  show "(f AND - 65) AND ZF_FLAG = (0 :: u32)" by (simp add: and.assoc)
qed

lemma set_gpr_sel [asm_simps]:
  "gpr (set_gpr r v c) q = (if q = r then v else gpr c q)" "cells (set_gpr r v c) = cells c" "flags (set_gpr r v c) = flags c"
  "seg (set_gpr r v c) = seg c" "ip (set_gpr r v c) = ip c" "c_cr0 (set_gpr r v c) = c_cr0 c" "c_cr3 (set_gpr r v c) = c_cr3 c"
  "gdtr (set_gpr r v c) = gdtr c" "idtr (set_gpr r v c) = idtr c" "tr (set_gpr r v c) = tr c" "cpu.more (set_gpr r v c) = cpu.more c"
  by (simp_all add: set_gpr_def)

lemma set_cell_sel [asm_simps]:
  "cells (set_cell a v c) b = (if b = a then v else cells c b)" "gpr (set_cell a v c) = gpr c" "flags (set_cell a v c) = flags c"
  "seg (set_cell a v c) = seg c" "ip (set_cell a v c) = ip c" "c_cr0 (set_cell a v c) = c_cr0 c" "c_cr3 (set_cell a v c) = c_cr3 c"
  "gdtr (set_cell a v c) = gdtr c" "idtr (set_cell a v c) = idtr c" "tr (set_cell a v c) = tr c" "cpu.more (set_cell a v c) = cpu.more c"
  by (simp_all add: set_cell_def)

lemma set_seg_sel [asm_simps]:
  "seg (set_seg r v c) q = (if q = r then v else seg c q)" "gpr (set_seg r v c) = gpr c" "flags (set_seg r v c) = flags c"
  "cells (set_seg r v c) = cells c" "ip (set_seg r v c) = ip c" "c_cr0 (set_seg r v c) = c_cr0 c" "c_cr3 (set_seg r v c) = c_cr3 c"
  "gdtr (set_seg r v c) = gdtr c" "idtr (set_seg r v c) = idtr c" "tr (set_seg r v c) = tr c" "cpu.more (set_seg r v c) = cpu.more c"
  by (simp_all add: set_seg_def)

lemmas exec1_defs [asm_simps] = exec1_def push_def tos_def drop_top_def pop_reg_def

end
