(* ===== verification/Bootstrap.thy ===== *)
theory Bootstrap
  imports I386 Paging
begin

text \<open>
  The first instructions of the kernel, \<^verbatim>\<open>kernel/arch/i386/bootstrap.s\<close>: it fills one page table with the frames of the
  kernel, enters it for the addresses zero and \<^verbatim>\<open>0xc0000000\<close>, makes the page directory its own last entry, turns paging
  on and jumps to the upper half. The part before the jump runs on physical memory.
\<close>

section \<open>The program\<close>

text \<open>The symbols that the linker script and the assembler define.\<close>

record symbols =
  kern_stack :: u32
  kern_pd :: u32
  kern_pt :: u32
  kernel_paddr_end :: u32
  higher_half_start :: u32

abbreviation (input) virt2phys :: u32 where "virt2phys \<equiv> - 0xc0000000"
abbreviation (input) phys2virt :: u32 where "phys2virt \<equiv> 0xc0000000"

definition boot_entry :: "symbols \<Rightarrow> instr list" where
  "boot_entry S =
     [Mov (Reg EDX) (Reg EBX), Add EDX phys2virt, Mov (Reg EAX) (Imm (kern_stack S)), Add EAX virt2phys, Mov (Reg ESP) (Reg EAX),
      Push (Reg EDX), Mov (Reg EDX) (Imm 0), Mov (Reg EAX) (Imm (kernel_paddr_end S)), Mov (Reg ECX) (Imm 0x1000), Div ECX,
      Cmp EDX (Imm 0)]"

definition boot_fill :: "symbols \<Rightarrow> instr list" where
  "boot_fill S =
     [Mov (Reg ECX) (Reg EBX), Or ECX 3, Mov (Idx (kern_pt S + virt2phys) EAX) (Reg ECX), Add EBX 4096, Inc EAX, Cmp EAX (Reg EDX)]"

definition boot_paging :: "symbols \<Rightarrow> instr list" where
  "boot_paging S =
     [Mov (Reg EAX) (Imm (kern_pt S)), Add EAX virt2phys, And EAX 0xfffff000, Or EAX 3,
      Mov (Reg ECX) (Imm (kern_pd S)), Add ECX virt2phys, Mov (Mem ECX 0) (Reg EAX), Mov (Mem ECX (768 * 4)) (Reg EAX),
      Mov (Reg EAX) (Reg ECX), Or EAX 3, Mov (Mem ECX (1023 * 4)) (Reg EAX), Set_cr3 ECX,
      Get_cr0 EAX, Or EAX 0x80000001, Set_cr0 EAX, Pop EDX, Mov (Reg EAX) (Imm (higher_half_start S)), Jmp_reg EAX]"

definition bootstrap_start :: "symbols \<Rightarrow> instr list" where
  "bootstrap_start S =
     boot_entry S @ [Jne 14, Mov (Reg EDX) (Reg EAX), Jmp 16, Inc EAX, Mov (Reg EDX) (Reg EAX), Mov (Reg EAX) (Imm 0), Mov (Reg EBX) (Imm 0)] @
     boot_fill S @ [Je 26, Jmp 18] @ boot_paging S"

text \<open>The part in the upper half; its addresses are virtual.\<close>

definition bootstrap_higher_half :: "symbols \<Rightarrow> instr list" where
  "bootstrap_higher_half S =
     [Mov (Abs (kern_pd S)) (Imm 0), Get_cr3 EAX, Set_cr3 EAX, Mov (Reg ESP) (Imm (kern_stack S)), Push (Reg EDX),
      Call ''kernel_main'', Cli, Hlt]"

section \<open>The page table\<close>

text \<open>The number of frames of the kernel, and the table with the entries from \<open>i\<close> on filled.\<close>

definition boot_frames :: "symbols \<Rightarrow> nat" where
  "boot_frames S = (unat (kernel_paddr_end S) + 4095) div 4096"

definition filled :: "u32 \<Rightarrow> nat \<Rightarrow> nat \<Rightarrow> (u32 \<Rightarrow> u32) \<Rightarrow> u32 \<Rightarrow> u32" where
  "filled pt i n m = fold (\<lambda>j m. m(pt + 4 * of_nat j := (4096 * of_nat j) OR 3)) [i ..< n] m"

text \<open>Translation of an address by the tables in the cells of the memory.\<close>

definition cell_walk :: "(u32 \<Rightarrow> u32) \<Rightarrow> u32 \<Rightarrow> u32 \<Rightarrow> u32 option" where
  "cell_walk m pd va =
     (let pde = m (pde_addr pd va)
      in if pde AND PG_PRESENT = 0 then None
         else let pte = m (pte_addr pde va)
              in if pte AND PG_PRESENT = 0 then None else Some ((pte AND PG_ALIGN) + (va AND 0xfff)))"

lemma walk_cell_walk: "walk s va = cell_walk (ld32 (pmem s)) (cr3 s) va"
  by (simp add: walk_def cell_walk_def)

lemma filled_Suc: "i < n \<Longrightarrow> filled pt i n m = filled pt (Suc i) n (m(pt + 4 * of_nat i := (4096 * of_nat i) OR 3))"
  by (simp add: filled_def upt_conv_Cons)

lemma fill_runs:
  "\<exists>c'. exec env (boot_fill S) c = Ret () c' \<and> gpr c' = (gpr c)(ECX := gpr c EBX OR 3, EBX := gpr c EBX + 4096, EAX := gpr c EAX + 1) \<and>
     cells c' = (cells c)(kern_pt S + virt2phys + 4 * gpr c EAX := gpr c EBX OR 3) \<and>
     (flags c' AND ZF_FLAG \<noteq> 0 \<longleftrightarrow> gpr c EAX + 1 = gpr c EDX) \<and> seg c' = seg c \<and> c_cr0 c' = c_cr0 c \<and> cpu.more c' = cpu.more c"
  by (simp add: boot_fill_def asm_simps fun_eq_iff)

lemmas boot_code = boot_entry_def boot_fill_def boot_paging_def

lemma boot_length: "length (boot_entry S) = 11" "length (boot_fill S) = 6" "length (boot_paging S) = 18"
  "length (bootstrap_start S) = 44"
  by (simp_all add: boot_code bootstrap_start_def)

lemma boot_jumps:
  "bootstrap_start S ! 11 = Jne 14" "bootstrap_start S ! 13 = Jmp 16" "bootstrap_start S ! 24 = Je 26" "bootstrap_start S ! 25 = Jmp 18"
  by (simp_all add: boot_code bootstrap_start_def)

lemma boot_fill_step: "run env (bootstrap_start S) (6 + k) 18 c = bindR (exec env (boot_fill S) c) (\<lambda>_ c. run env (bootstrap_start S) k 24 c)"
proof -
  have "bootstrap_start S = (boot_entry S @ [Jne 14, Mov (Reg EDX) (Reg EAX), Jmp 16, Inc EAX, Mov (Reg EDX) (Reg EAX),
      Mov (Reg EAX) (Imm 0), Mov (Reg EBX) (Imm 0)]) @ boot_fill S @ [Je 26, Jmp 18] @ boot_paging S"
    by (simp add: bootstrap_start_def)
  from run_block [OF this, of 18 env k c] show ?thesis by (simp add: boot_length) (simp add: boot_code)
qed

lemma boot_paging_step: "run env (bootstrap_start S) (18 + k) 26 c = bindR (exec env (boot_paging S) c) (\<lambda>_ c. run env (bootstrap_start S) k 44 c)"
proof -
  have "bootstrap_start S = (boot_entry S @ [Jne 14, Mov (Reg EDX) (Reg EAX), Jmp 16, Inc EAX, Mov (Reg EDX) (Reg EAX),
      Mov (Reg EAX) (Imm 0), Mov (Reg EBX) (Imm 0)] @ boot_fill S @ [Je 26, Jmp 18]) @ boot_paging S @ []"
    by (simp add: bootstrap_start_def)
  from run_block [OF this, of 26 env k c] show ?thesis by (simp add: boot_length) (simp add: boot_code)
qed

lemma boot_again: "flags c AND ZF_FLAG = 0 \<Longrightarrow> run env (bootstrap_start S) (Suc (Suc m)) 24 c = run env (bootstrap_start S) m 18 c"
  by (simp add: run_jumps(1,2) boot_length boot_jumps del: run.simps)

lemma boot_loop:
  assumes "n = Suc (i + d)" and "n \<le> 1024" and "gpr c EAX = of_nat i" and "gpr c EBX = 4096 * of_nat i" and "gpr c EDX = of_nat n"
  shows "\<exists>c'. (\<forall>k. run env (bootstrap_start S) (7 + 8 * d + k) 18 c = run env (bootstrap_start S) k 26 c') \<and>
    cells c' = filled (kern_pt S + virt2phys) i n (cells c) \<and> gpr c' ESP = gpr c ESP \<and> c_cr0 c' = c_cr0 c \<and> cpu.more c' = cpu.more c"
  using assms
proof (induction d arbitrary: i c)
  case 0
  obtain c1 where c1: "exec env (boot_fill S) c = Ret () c1" "gpr c1 ESP = gpr c ESP" "c_cr0 c1 = c_cr0 c" "cpu.more c1 = cpu.more c"
      "cells c1 = (cells c)(kern_pt S + virt2phys + 4 * gpr c EAX := gpr c EBX OR 3)" "flags c1 AND ZF_FLAG \<noteq> 0 \<longleftrightarrow> gpr c EAX + 1 = gpr c EDX"
    using fill_runs [of env S c] by auto
  have z: "flags c1 AND ZF_FLAG \<noteq> 0" using c1(6) 0 by (simp add: add.commute)
  have "run env (bootstrap_start S) (7 + 8 * 0 + k) 18 c = run env (bootstrap_start S) k 26 c1" for k
    using boot_fill_step [of env S "Suc k" c] c1(1) z run_jumps(2) [of 24 "bootstrap_start S" 26 env k c1]
    by (simp add: boot_length boot_jumps del: run.simps)
  then show ?case using c1 0 by (intro exI [of _ c1]) (simp add: filled_def)
next
  case (Suc d)
  obtain c1 where c1: "exec env (boot_fill S) c = Ret () c1" "gpr c1 ESP = gpr c ESP" "c_cr0 c1 = c_cr0 c" "cpu.more c1 = cpu.more c"
      "cells c1 = (cells c)(kern_pt S + virt2phys + 4 * gpr c EAX := gpr c EBX OR 3)" "flags c1 AND ZF_FLAG \<noteq> 0 \<longleftrightarrow> gpr c EAX + 1 = gpr c EDX"
      "gpr c1 EAX = gpr c EAX + 1" "gpr c1 EBX = gpr c EBX + 4096" "gpr c1 EDX = gpr c EDX"
    using fill_runs [of env S c] by auto
  have "Suc i < n" using Suc.prems(1) by simp
  then have "of_nat (Suc i) \<noteq> (of_nat n :: u32)" using Suc.prems(2) by (simp add: word_unat_eq_iff unat_of_nat del: of_nat_Suc)
  then have z: "flags c1 AND ZF_FLAG = 0" using c1(6) Suc.prems by (simp add: add.commute)
  have "\<exists>c'. (\<forall>k. run env (bootstrap_start S) (7 + 8 * d + k) 18 c1 = run env (bootstrap_start S) k 26 c') \<and>
      cells c' = filled (kern_pt S + virt2phys) (Suc i) n (cells c1) \<and> gpr c' ESP = gpr c1 ESP \<and> c_cr0 c' = c_cr0 c1 \<and> cpu.more c' = cpu.more c1"
    by (rule Suc.IH) (use Suc.prems c1 in \<open>simp_all add: algebra_simps\<close>)
  then obtain c' where c': "\<And>k. run env (bootstrap_start S) (7 + 8 * d + k) 18 c1 = run env (bootstrap_start S) k 26 c'"
      "cells c' = filled (kern_pt S + virt2phys) (Suc i) n (cells c1)" "gpr c' ESP = gpr c1 ESP" "c_cr0 c' = c_cr0 c1" "cpu.more c' = cpu.more c1"
    by blast
  have "run env (bootstrap_start S) (7 + 8 * Suc d + k) 18 c = run env (bootstrap_start S) k 26 c'" for k
  proof -
    have "run env (bootstrap_start S) (7 + 8 * Suc d + k) 18 c = run env (bootstrap_start S) (Suc (Suc (7 + 8 * d + k))) 24 c1"
      using boot_fill_step [of env S "Suc (Suc (7 + 8 * d + k))" c] c1(1) by (simp add: algebra_simps del: run.simps)
    also have "\<dots> = run env (bootstrap_start S) (7 + 8 * d + k) 18 c1" using z by (rule boot_again)
    finally show ?thesis using c'(1) by simp
  qed
  moreover have "filled (kern_pt S + virt2phys) (Suc i) n (cells c1) = filled (kern_pt S + virt2phys) i n (cells c)"
    using Suc.prems c1(5) by (simp add: filled_Suc)
  ultimately show ?case using c' c1 by auto
qed

lemma boot_entry_runs:
  fixes S :: symbols and c :: "'a cpu_scheme"
  defines "e \<equiv> unat (kernel_paddr_end S)" and "sp \<equiv> kern_stack S + virt2phys - 4"
  shows "\<exists>c'. exec env (boot_entry S) c = Ret () c' \<and> gpr c' EAX = of_nat (e div 4096) \<and> gpr c' ESP = sp \<and>
     cells c' = (cells c)(sp := gpr c EBX + phys2virt) \<and> (flags c' AND ZF_FLAG \<noteq> 0 \<longleftrightarrow> e mod 4096 = 0) \<and>
     c_cr0 c' = c_cr0 c \<and> cpu.more c' = cpu.more c"
proof -
  have "e < 4294967296" using unat32_bound [of "kernel_paddr_end S"] by (simp add: e_def)
  then have "e div 4096 < 4294967296" by simp
  moreover have "of_nat (e mod 4096) = (0 :: u32) \<longleftrightarrow> e mod 4096 = 0" by (simp add: word_unat_eq_iff unat_of_nat)
  ultimately show ?thesis by (simp add: boot_entry_def asm_simps Let_def e_def sp_def fun_eq_iff)
qed

lemma div_round_up:
  fixes e :: nat
  assumes "e mod 4096 \<noteq> 0"
  shows "(e + 4095) div 4096 = Suc (e div 4096)"
proof -
  have "e = 4096 * (e div 4096) + e mod 4096" "e mod 4096 < 4096" "1 \<le> e mod 4096" using assms by simp_all
  then show ?thesis by (intro div_nat_eqI; unfold mult_Suc_right) linarith+
qed

lemma boot_count:
  fixes S :: symbols and c :: "'a cpu_scheme"
  defines "sp \<equiv> kern_stack S + virt2phys - 4"
  shows "\<exists>c'. (\<forall>k. run env (bootstrap_start S) (16 + k) 0 c = run env (bootstrap_start S) k 18 c') \<and>
    gpr c' EAX = 0 \<and> gpr c' EBX = 0 \<and> gpr c' EDX = of_nat (boot_frames S) \<and> gpr c' ESP = sp \<and>
    cells c' = (cells c)(sp := gpr c EBX + phys2virt) \<and> c_cr0 c' = c_cr0 c \<and> cpu.more c' = cpu.more c"
proof -
  let ?e = "unat (kernel_paddr_end S)"
  obtain c1 where c1: "exec env (boot_entry S) c = Ret () c1" "gpr c1 EAX = of_nat (?e div 4096)" "gpr c1 ESP = sp"
    "cells c1 = (cells c)(sp := gpr c EBX + phys2virt)" "flags c1 AND ZF_FLAG \<noteq> 0 \<longleftrightarrow> ?e mod 4096 = 0"
    "c_cr0 c1 = c_cr0 c" "cpu.more c1 = cpu.more c"
    unfolding sp_def using boot_entry_runs [of env S c] by (elim exE conjE)
  have first: "run env (bootstrap_start S) (11 + k) 0 c = run env (bootstrap_start S) k 11 c1" for k
    using run_block [of "bootstrap_start S" "[]" "boot_entry S" _ 0 env k c] c1(1)
    by (simp add: boot_length bootstrap_start_def) (simp add: boot_code)
  let ?zero = "\<lambda>c. set_gpr EBX 0 (set_gpr EAX 0 (set_gpr EDX (gpr c EAX) c))"
  have tail: "run env (bootstrap_start S) (Suc (Suc k)) 16 c = run env (bootstrap_start S) k 18 (set_gpr EBX 0 (set_gpr EAX 0 c))" for k c
    by (simp add: bootstrap_start_def boot_code exec1_def)
  show ?thesis
  proof (cases "?e mod 4096 = 0")
    case True
    then have z: "flags c1 AND ZF_FLAG \<noteq> 0" using c1(5) by simp
    have "run env (bootstrap_start S) (Suc (Suc (Suc k))) 11 c1 = run env (bootstrap_start S) k 16 (set_gpr EDX (gpr c1 EAX) c1)" for k
      using z by (simp add: bootstrap_start_def boot_code exec1_def)
    then have "run env (bootstrap_start S) (16 + k) 0 c = run env (bootstrap_start S) k 18 (?zero c1)" for k
      using first [of "Suc (Suc (Suc (Suc (Suc k))))"] tail by (simp add: eval_nat_numeral del: run.simps)
    moreover have "?e div 4096 = boot_frames S" using True by (auto simp: boot_frames_def)
    ultimately show ?thesis using c1 by (intro exI [of _ "?zero c1"]) (simp add: set_gpr_sel)
  next
    case False
    then have z: "flags c1 AND ZF_FLAG = 0" using c1(5) by simp
    let ?i = "set_gpr EAX (gpr c1 EAX + 1) c1"
    have "run env (bootstrap_start S) (Suc (Suc (Suc k))) 11 c1 = run env (bootstrap_start S) k 16 (set_gpr EDX (gpr ?i EAX) ?i)" for k
      using z by (simp add: bootstrap_start_def boot_code exec1_def set_gpr_sel)
    then have "run env (bootstrap_start S) (16 + k) 0 c = run env (bootstrap_start S) k 18 (?zero ?i)" for k
      using first [of "Suc (Suc (Suc (Suc (Suc k))))"] tail by (simp add: eval_nat_numeral del: run.simps)
    moreover have "Suc (?e div 4096) = boot_frames S" unfolding boot_frames_def using div_round_up [OF False] by simp
    then have "of_nat (?e div 4096) + 1 = (of_nat (boot_frames S) :: u32)" by (metis of_nat_Suc add.commute)
    ultimately show ?thesis using c1 by (intro exI [of _ "?zero ?i"]) (simp add: set_gpr_sel)
  qed
qed

section \<open>The translation after the start\<close>

lemma aligned_entry: "b AND PG_ALIGN = b \<Longrightarrow> b + 4 * i = entry b i"
  by (simp add: entry_def)

lemma entry_page:
  assumes "i < 1024"
  shows "entry b i AND PG_ALIGN = b AND PG_ALIGN"
proof -
  have "unat i < 1024" using assms by (simp add: word_less_nat_alt)
  then have "unat (entry b i) div 4096 = unat b div 4096" by (simp add: unat_entry [OF assms])
  then show ?thesis by (simp add: word_unat_eq_iff page_arith)
qed

lemma of_nat_less_1024: "j < 1024 \<Longrightarrow> (of_nat j :: u32) < 1024"
  by (simp add: word_less_nat_alt unat_of_nat)

lemma filled_append: "filled pt 0 (Suc n) m = (filled pt 0 n m)(pt + 4 * of_nat n := (4096 * of_nat n) OR 3)"
  by (simp add: filled_def)

lemma filled_entry:
  assumes "pt AND PG_ALIGN = pt" and "n \<le> 1024" and "i < 1024"
  shows "filled pt 0 n m (entry b i) = (if b AND PG_ALIGN = pt \<and> unat i < n then (4096 * i) OR 3 else m (entry b i))"
  using assms(2)
proof (induction n)
  case 0
  then show ?case by (simp add: filled_def)
next
  case (Suc n)
  have n: "(of_nat n :: u32) < 1024" "unat (of_nat n :: u32) = n" using Suc.prems by (simp_all add: of_nat_less_1024 unat_of_nat)
  have "entry b i = entry pt (of_nat n) \<longleftrightarrow> b AND PG_ALIGN = pt \<and> unat i = n"
    using entry_eq_iff [OF assms(3) n(1), of b pt] assms(1) n(2) by (auto simp: word_unat_eq_iff)
  moreover have "of_nat n = i" if "unat i = n" using that n(2) by (simp add: word_unat_eq_iff)
  ultimately show ?case using Suc by (auto simp: filled_append aligned_entry [OF assms(1)])
qed

lemma filled_other:
  assumes "pt AND PG_ALIGN = pt" and "n \<le> 1024" and "a AND PG_ALIGN \<noteq> pt"
  shows "filled pt 0 n m a = m a"
  using assms(2)
proof (induction n)
  case 0
  then show ?case by (simp add: filled_def)
next
  case (Suc n)
  have "a \<noteq> entry pt (of_nat n)" using assms(1,3) entry_page [OF of_nat_less_1024, of n pt] Suc.prems by auto
  then show ?case using Suc by (simp add: filled_append aligned_entry [OF assms(1)])
qed

lemma low_address:
  assumes "unat a < n * 4096" and "n \<le> 1024"
  shows "drop_bit 22 a = 0" "unat (drop_bit 12 a AND 0x3ff) < n" "drop_bit 22 (0xc0000000 + a) = (768 :: u32)"
    "drop_bit 12 (0xc0000000 + a) AND 0x3ff = drop_bit 12 a AND (0x3ff :: u32)" "(0xc0000000 + a) AND 0xfff = a AND (0xfff :: u32)"
    "4096 * (drop_bit 12 a AND 0x3ff) = a AND PG_ALIGN"
proof -
  have a: "unat a < 4194304" using assms by linarith
  have s: "unat (0xc0000000 + a) = 3221225472 + unat a" using a by (subst unat_add_no_wrap) simp_all
  have d: "unat a div 4096 < 1024" using a by linarith
  have e: "(3221225472 + x) div 4096 = 786432 + x div 4096" "(3221225472 + x) mod 4096 = x mod 4096"
      "(3221225472 + x) div 4194304 = 768 + x div 4194304" "(786432 + x) mod 1024 = x mod 1024" for x :: nat
    using div_mult_self1 [of 4096 x 786432] mod_mult_self1 [of x 786432 4096] div_mult_self1 [of 4194304 x 768]
      mod_mult_self1 [of x 768 1024] by (simp_all add: add.commute)
  show "drop_bit 22 a = 0" using a by (simp add: word_unat_eq_iff page_arith)
  show "unat (drop_bit 12 a AND 0x3ff) < n" using assms(1) d by (simp add: page_arith less_mult_imp_div_less)
  show "drop_bit 22 (0xc0000000 + a) = (768 :: u32)" using a by (simp add: word_unat_eq_iff page_arith s e)
  show "drop_bit 12 (0xc0000000 + a) AND 0x3ff = drop_bit 12 a AND (0x3ff :: u32)" by (simp add: word_unat_eq_iff page_arith s e)
  show "(0xc0000000 + a) AND 0xfff = a AND (0xfff :: u32)" by (simp add: word_unat_eq_iff page_arith s e)
  show "4096 * (drop_bit 12 a AND 0x3ff) = a AND PG_ALIGN"
    using a d by (simp add: word_unat_eq_iff page_arith unat_word_ariths)
qed

text \<open>The page directory of the start, with \<open>e\<close> as its first entry.\<close>

definition boot_directory :: "u32 \<Rightarrow> u32 \<Rightarrow> u32 \<Rightarrow> (u32 \<Rightarrow> u32) \<Rightarrow> u32 \<Rightarrow> u32" where
  "boot_directory e pt pd m = m(entry pd 0 := e, entry pd 768 := pt OR 3, entry pd 1023 := pd OR 3)"

lemma boot_paging_runs:
  fixes S :: symbols and c :: "'a cpu_scheme"
  defines "pt \<equiv> kern_pt S + virt2phys" and "pd \<equiv> kern_pd S + virt2phys"
  assumes "pt AND PG_ALIGN = pt" and "pd AND PG_ALIGN = pd" and "gpr c ESP AND PG_ALIGN \<noteq> pd"
  shows "\<exists>c'. exec env (boot_paging S) c = Ret () c' \<and> cells c' = boot_directory (pt OR 3) pt pd (cells c) \<and> c_cr3 c' = pd \<and>
    c_cr0 c' = c_cr0 c OR 0x80000001 \<and> gpr c' EDX = cells c (gpr c ESP) \<and> ip c' = higher_half_start S \<and> cpu.more c' = cpu.more c"
proof -
  have "gpr c ESP \<noteq> entry pd i" if "i < 1024" for i using assms(4,5) entry_page [OF that, of pd] by auto
  from this [of 0] this [of 768] this [of 1023] have sp: "gpr c ESP \<noteq> pd" "gpr c ESP \<noteq> pd + 3072" "gpr c ESP \<noteq> pd + 4092"
    using assms(4) by (simp_all add: entry_def)
  have e: "entry pd 0 = pd" "entry pd 768 = pd + 3072" "entry pd 1023 = pd + 4092" using assms(4) by (simp_all add: entry_def)
  show ?thesis unfolding boot_directory_def e
    using sp assms(3) unfolding pt_def pd_def by (simp add: boot_paging_def asm_simps fun_eq_iff)
qed

lemma boot_translation:
  assumes "pt AND PG_ALIGN = pt" and "pd AND PG_ALIGN = pd" and "pt \<noteq> pd" and "n \<le> 1024" and "unat a < n * 4096"
  shows "cell_walk (boot_directory e pt pd (filled pt 0 n m)) pd (0xc0000000 + a) = Some a"
    and "cell_walk (boot_directory (pt OR 3) pt pd (filled pt 0 n m)) pd a = Some a"
    and "cell_walk (boot_directory 0 pt pd (filled pt 0 n m)) pd a = None"
proof -
  note low = low_address [OF assms(5,4)]
  let ?i = "drop_bit 12 a AND 0x3ff"
  have i: "?i < 1024" using low(2) assms(4) by (simp add: word_less_nat_alt)
  have f: "((4096 * ?i) OR 3) AND PG_ALIGN = a AND PG_ALIGN" "((4096 * ?i) OR 3) AND PG_PRESENT \<noteq> 0"
    unfolding low(6) using pte_flags [of 3 a] by simp_all
  have g: "(pt OR 3) AND PG_ALIGN = pt" "(pt OR 3) AND PG_PRESENT \<noteq> 0"
    using pte_flags [of 3 pt] assms(1) by simp_all
  have pt: "entry (pt OR 3) ?i = entry pt ?i" by (simp add: entry_def g assms(1))
  have d: "boot_directory e' pt pd (filled pt 0 n m) (entry pt ?i) = (4096 * ?i) OR 3" for e'
    using assms(1-4) i low(2) by (simp add: boot_directory_def entry_eq_iff filled_entry)
  have u: "boot_directory e' pt pd m' (entry pd 0) = e'" "boot_directory e' pt pd m' (entry pd 768) = pt OR 3" for e' m'
    by (simp_all add: boot_directory_def entry_eq_iff)
  show "cell_walk (boot_directory e pt pd (filled pt 0 n m)) pd (0xc0000000 + a) = Some a"
    unfolding cell_walk_def pde_addr_entry pte_addr_entry low(3-5) u Let_def pt d using f g by (simp add: page_split)
  show "cell_walk (boot_directory (pt OR 3) pt pd (filled pt 0 n m)) pd a = Some a"
    unfolding cell_walk_def pde_addr_entry pte_addr_entry low(1) u Let_def pt d using f g by (simp add: page_split)
  show "cell_walk (boot_directory 0 pt pd (filled pt 0 n m)) pd a = None"
    unfolding cell_walk_def pde_addr_entry low(1) u Let_def by simp
qed

text \<open>
  C32: The start of the kernel ends and turns paging on with the tables it needs: with tables on page boundaries and a
  kernel of at most four mebibytes the loop over the frames ends, and afterwards every address of the kernel is mapped
  both at itself and in the upper half, the last entry of the directory is the directory itself, and \<^verbatim>\<open>edx\<close> holds the
  virtual address of the multiboot information.
\<close>

theorem bootstrap_correct:
  fixes S :: symbols and c :: "'a cpu_scheme"
  defines "pt \<equiv> kern_pt S + virt2phys" and "pd \<equiv> kern_pd S + virt2phys" and "sp \<equiv> kern_stack S + virt2phys - 4"
  assumes "pt AND PG_ALIGN = pt" and "pd AND PG_ALIGN = pd" and "pt \<noteq> pd" and "sp AND PG_ALIGN \<noteq> pt" and "sp AND PG_ALIGN \<noteq> pd"
    and "0 < boot_frames S" and "boot_frames S \<le> 1024" and "fuel \<ge> 34 + 8 * boot_frames S"
  shows "\<exists>c'. run env (bootstrap_start S) fuel 0 c = Ret () c' \<and> c_cr3 c' = pd \<and> c_cr0 c' = c_cr0 c OR 0x80000001 \<and>
    ip c' = higher_half_start S \<and> gpr c' EDX = gpr c EBX + phys2virt \<and> cells c' (pd + 4092) = pd OR 3 \<and>
    (\<forall>a. unat a < boot_frames S * 4096 \<longrightarrow>
       cell_walk (cells c') pd a = Some a \<and> cell_walk (cells c') pd (phys2virt + a) = Some a)"
proof -
  let ?n = "boot_frames S" and ?m = "(cells c)(sp := gpr c EBX + phys2virt)"
  obtain d where d: "?n = Suc (0 + d)" using assms(9) gr0_conv_Suc by auto
  obtain c1 where c1: "\<And>k. run env (bootstrap_start S) (16 + k) 0 c = run env (bootstrap_start S) k 18 c1" "gpr c1 EAX = of_nat 0"
    "gpr c1 EBX = 4096 * of_nat 0" "gpr c1 EDX = of_nat ?n" "gpr c1 ESP = sp" "cells c1 = ?m" "c_cr0 c1 = c_cr0 c"
    using boot_count [of env S c] unfolding sp_def by auto
  obtain c2 where c2: "\<And>k. run env (bootstrap_start S) (7 + 8 * d + k) 18 c1 = run env (bootstrap_start S) k 26 c2"
    "cells c2 = filled pt 0 ?n ?m" "gpr c2 ESP = sp" "c_cr0 c2 = c_cr0 c"
    using boot_loop [OF d assms(10) c1(2-4), of env] c1(5-7) unfolding pt_def by auto
  have "gpr c2 ESP AND PG_ALIGN \<noteq> pd" using assms(8) c2(3) by simp
  from boot_paging_runs [OF assms(4,5) [unfolded pt_def pd_def] this [unfolded pd_def], of env]
  obtain c3 where c3: "exec env (boot_paging S) c2 = Ret () c3" "cells c3 = boot_directory (pt OR 3) pt pd (cells c2)" "c_cr3 c3 = pd"
    "c_cr0 c3 = c_cr0 c OR 0x80000001" "gpr c3 EDX = cells c2 sp" "ip c3 = higher_half_start S"
    using c2(3,4) unfolding pt_def pd_def by auto
  obtain k where k: "fuel = 16 + (7 + 8 * d + (18 + Suc k))" using assms(11) d le_Suc_ex [of "42 + 8 * d" fuel] by auto
  have "run env (bootstrap_start S) fuel 0 c = Ret () c3"
    unfolding k c1(1) c2(1) boot_paging_step c3(1) by (simp add: boot_length)
  moreover have "gpr c3 EDX = gpr c EBX + phys2virt"
    using c3(5) c2(2) filled_other [OF assms(4,10,7), of ?m] by simp
  moreover have "cells c3 (pd + 4092) = pd OR 3" using c3(2) assms(5) by (simp add: boot_directory_def entry_def)
  ultimately show ?thesis using c3 c2(2) boot_translation [OF assms(4-6,10)] by (intro exI [of _ c3]) simp
qed

text \<open>
  In the upper half the code removes the lower mapping and calls \<^verbatim>\<open>kernel_main\<close> on the stack of the kernel with the address
  of the multiboot information.
\<close>

lemma higher_half_runs:
  "\<exists>c1. exec env (bootstrap_higher_half S) c = bindR (on_call env ''kernel_main'' c1) (\<lambda>_ _. Panic ''hlt'') \<and>
     cells c1 = (cells c)(kern_pd S := 0, kern_stack S - 4 := gpr c EDX) \<and> gpr c1 ESP = kern_stack S - 4 \<and> c_cr3 c1 = c_cr3 c"
proof -
  let ?c1 = "push (gpr c EDX) (set_gpr ESP (kern_stack S) ((set_gpr EAX (c_cr3 c) (set_cell (kern_pd S) 0 c))\<lparr>c_cr3 := c_cr3 c\<rparr>))"
  have "exec env (bootstrap_higher_half S) c = bindR (on_call env ''kernel_main'' ?c1) (\<lambda>_ _. Panic ''hlt'')"
    by (cases "on_call env ''kernel_main'' ?c1") (simp_all add: bootstrap_higher_half_def exec1_def set_gpr_sel set_cell_sel)
  then show ?thesis by (intro exI [of _ ?c1]) (simp add: asm_simps fun_eq_iff)
qed

definition symbols_demo :: symbols where
  "symbols_demo = \<lparr>kern_stack = 0xc0116000, kern_pd = 0xc0110000, kern_pt = 0xc0111000, kernel_paddr_end = 0x120010,
     higher_half_start = 0xc0101000\<rparr>"

definition reset_cpu :: cpu where
  "reset_cpu = \<lparr>gpr = (\<lambda>r. if r = EBX then 0x9000 else 0), seg = (\<lambda>_. 0), ip = 0x100000, flags = 2, c_cr0 = 0x11, c_cr3 = 0, gdtr = 0,
     idtr = 0, tr = 0, cells = (\<lambda>_. 0)\<rparr>"

theorem bootstrap_correct_witness:
  "\<exists>c'. run \<lparr>on_int = (\<lambda>_ c. Ret () c), on_call = (\<lambda>_ c. Ret () c)\<rparr> (bootstrap_start symbols_demo) 4000 0 reset_cpu = Ret () c' \<and>
    ip c' = 0xc0101000 \<and> cell_walk (cells c') 0x110000 0xc0101000 = Some 0x101000"
proof -
  have f: "boot_frames symbols_demo = 289" by (simp add: boot_frames_def symbols_demo_def)
  have S: "kern_pt symbols_demo + virt2phys = 0x111000" "kern_pd symbols_demo + virt2phys = 0x110000"
    "kern_stack symbols_demo + virt2phys - 4 = 0x115ffc" "higher_half_start symbols_demo = 0xc0101000" by (simp_all add: symbols_demo_def)
  show ?thesis
    using bootstrap_correct [where S = symbols_demo and c = reset_cpu and fuel = 4000
        and env = "\<lparr>on_int = (\<lambda>_ c. Ret () c), on_call = (\<lambda>_ c. Ret () c)\<rparr>", unfolded S f]
    by (force dest: spec [of _ "0x101000 :: u32"])
qed

end
