(* ===== verification/Stubs.thy ===== *)
theory Stubs
  imports I386
begin

text \<open>
  The system call stubs and the start-up code of the C library, \<^verbatim>\<open>libc/arch/i386\<close>, instruction by instruction. \<open>errno\<close> is the
  address of the variable.
\<close>

section \<open>The code\<close>

definition stub_fork :: "u32 \<Rightarrow> instr list" where
  "stub_fork errno =
     [Push (Reg EBP), Mov (Reg EBP) (Reg ESP), Mov (Reg EAX) (Imm 0x1), Intr 0x30, Mov (Abs errno) (Reg ESI), Leave,
      Retn]"

definition stub_execve :: "u32 \<Rightarrow> instr list" where
  "stub_execve errno =
     [Push (Reg EBP), Mov (Reg EBP) (Reg ESP), Push (Reg EBX), Push (Reg ECX), Mov (Reg EBX) (Mem EBP 0x8),
      Mov (Reg ECX) (Mem EBP 0xc), Mov (Reg EAX) (Imm 0x2), Intr 0x30, Mov (Abs errno) (Reg ESI), Pop ECX,
      Pop EBX, Leave, Retn]"

definition stub_getpid :: "u32 \<Rightarrow> instr list" where
  "stub_getpid errno =
     [Push (Reg EBP), Mov (Reg EBP) (Reg ESP), Mov (Reg EAX) (Imm 0x3), Intr 0x30, Mov (Abs errno) (Reg ESI), Leave,
      Retn]"

definition stub_getppid :: "u32 \<Rightarrow> instr list" where
  "stub_getppid errno =
     [Push (Reg EBP), Mov (Reg EBP) (Reg ESP), Mov (Reg EAX) (Imm 0x4), Intr 0x30, Mov (Abs errno) (Reg ESI), Leave,
      Retn]"

definition stub_waitpid :: "u32 \<Rightarrow> instr list" where
  "stub_waitpid errno =
     [Push (Reg EBP), Mov (Reg EBP) (Reg ESP), Push (Reg EBX), Mov (Reg EBX) (Mem EBP 0x8), Mov (Reg EAX) (Imm 0x5),
      Intr 0x30, Mov (Abs errno) (Reg ESI), Pop EBX, Leave, Retn]"

definition stub_mmap :: "u32 \<Rightarrow> instr list" where
  "stub_mmap errno =
     [Push (Reg EBP), Mov (Reg EBP) (Reg ESP), Push (Reg EBX), Push (Reg ECX), Push (Reg EDX), Push (Reg ESI),
      Push (Reg EDI), Mov (Reg EBX) (Mem EBP 0x8), Mov (Reg ECX) (Mem EBP 0xc), Mov (Reg EDX) (Mem EBP 0x10),
      Mov (Reg ESI) (Mem EBP 0x14), Mov (Reg EDI) (Mem EBP 0x18), Mov (Reg EAX) (Imm 0x6), Intr 0x30,
      Mov (Abs errno) (Reg ESI), Pop EDI, Pop ESI, Pop EDX, Pop ECX, Pop EBX, Leave, Retn]"

definition stub_munmap :: "u32 \<Rightarrow> instr list" where
  "stub_munmap errno =
     [Push (Reg EBP), Mov (Reg EBP) (Reg ESP), Push (Reg EBX), Mov (Reg EBX) (Mem EBP 0x8), Mov (Reg EAX) (Imm 0x7),
      Intr 0x30, Mov (Abs errno) (Reg ESI), Pop EBX, Leave, Retn]"

definition stub_brk :: "u32 \<Rightarrow> instr list" where
  "stub_brk errno =
     [Push (Reg EBP), Mov (Reg EBP) (Reg ESP), Push (Reg EBX), Mov (Reg EBX) (Mem EBP 0x8), Mov (Reg EAX) (Imm 0x8),
      Intr 0x30, Mov (Abs errno) (Reg ESI), Pop EBX, Leave, Retn]"

definition stub_sbrk :: "u32 \<Rightarrow> instr list" where
  "stub_sbrk errno =
     [Push (Reg EBP), Mov (Reg EBP) (Reg ESP), Push (Reg EBX), Mov (Reg EBX) (Mem EBP 0x8), Mov (Reg EAX) (Imm 0x9),
      Intr 0x30, Mov (Abs errno) (Reg ESI), Pop EBX, Leave, Retn]"

definition stub_open :: "u32 \<Rightarrow> instr list" where
  "stub_open errno =
     [Push (Reg EBP), Mov (Reg EBP) (Reg ESP), Push (Reg EBX), Push (Reg ECX), Mov (Reg EBX) (Mem EBP 0x8),
      Mov (Reg ECX) (Mem EBP 0xc), Mov (Reg EAX) (Imm 0xa), Intr 0x30, Mov (Abs errno) (Reg ESI), Pop ECX,
      Pop EBX, Leave, Retn]"

definition stub_close :: "u32 \<Rightarrow> instr list" where
  "stub_close errno =
     [Push (Reg EBP), Mov (Reg EBP) (Reg ESP), Push (Reg EBX), Mov (Reg EBX) (Mem EBP 0x8), Mov (Reg EAX) (Imm 0xb),
      Intr 0x30, Mov (Abs errno) (Reg ESI), Pop EBX, Leave, Retn]"

definition stub_read :: "u32 \<Rightarrow> instr list" where
  "stub_read errno =
     [Push (Reg EBP), Mov (Reg EBP) (Reg ESP), Push (Reg EBX), Push (Reg ECX), Push (Reg EDX),
      Mov (Reg EBX) (Mem EBP 0x8), Mov (Reg ECX) (Mem EBP 0xc), Mov (Reg EDX) (Mem EBP 0x10),
      Mov (Reg EAX) (Imm 0xc), Intr 0x30, Mov (Abs errno) (Reg ESI), Pop EDX, Pop ECX, Pop EBX, Leave, Retn]"

definition stub_write :: "u32 \<Rightarrow> instr list" where
  "stub_write errno =
     [Push (Reg EBP), Mov (Reg EBP) (Reg ESP), Push (Reg EBX), Push (Reg ECX), Push (Reg EDX),
      Mov (Reg EBX) (Mem EBP 0x8), Mov (Reg ECX) (Mem EBP 0xc), Mov (Reg EDX) (Mem EBP 0x10),
      Mov (Reg EAX) (Imm 0xd), Intr 0x30, Mov (Abs errno) (Reg ESI), Pop EDX, Pop ECX, Pop EBX, Leave, Retn]"

definition stub_remove :: "u32 \<Rightarrow> instr list" where
  "stub_remove errno =
     [Push (Reg EBP), Mov (Reg EBP) (Reg ESP), Push (Reg EBX), Mov (Reg EBX) (Mem EBP 0x8), Mov (Reg EAX) (Imm 0xe),
      Intr 0x30, Mov (Abs errno) (Reg ESI), Pop EBX, Leave, Retn]"

definition stub_mkdir :: "u32 \<Rightarrow> instr list" where
  "stub_mkdir errno =
     [Push (Reg EBP), Mov (Reg EBP) (Reg ESP), Push (Reg EBX), Push (Reg ECX), Mov (Reg EBX) (Mem EBP 0x8),
      Mov (Reg ECX) (Mem EBP 0xc), Mov (Reg EAX) (Imm 0xf), Intr 0x30, Mov (Abs errno) (Reg ESI), Pop ECX,
      Pop EBX, Leave, Retn]"

definition stub_rmdir :: "u32 \<Rightarrow> instr list" where
  "stub_rmdir errno =
     [Push (Reg EBP), Mov (Reg EBP) (Reg ESP), Push (Reg EBX), Mov (Reg EBX) (Mem EBP 0x8), Mov (Reg EAX) (Imm 0x10),
      Intr 0x30, Mov (Abs errno) (Reg ESI), Pop EBX, Leave, Retn]"

definition stub_readdir :: "u32 \<Rightarrow> instr list" where
  "stub_readdir errno =
     [Push (Reg EBP), Mov (Reg EBP) (Reg ESP), Push (Reg EBX), Push (Reg ECX), Mov (Reg EBX) (Mem EBP 0x8),
      Mov (Reg ECX) (Mem EBP 0xc), Mov (Reg EAX) (Imm 0x11), Intr 0x30, Mov (Abs errno) (Reg ESI), Pop ECX,
      Pop EBX, Leave, Retn]"

definition stub_lseek :: "u32 \<Rightarrow> instr list" where
  "stub_lseek errno =
     [Push (Reg EBP), Mov (Reg EBP) (Reg ESP), Push (Reg EBX), Push (Reg ECX), Push (Reg EDX),
      Mov (Reg EBX) (Mem EBP 0x8), Mov (Reg ECX) (Mem EBP 0xc), Mov (Reg EDX) (Mem EBP 0x10),
      Mov (Reg EAX) (Imm 0x12), Intr 0x30, Mov (Abs errno) (Reg ESI), Pop EDX, Pop ECX, Pop EBX, Leave, Retn]"

definition stub_exit :: "u32 \<Rightarrow> instr list" where
  "stub_exit errno =
     [Push (Reg EBP), Mov (Reg EBP) (Reg ESP), Mov (Reg EBX) (Mem EBP 0x8), Mov (Reg EAX) (Imm 0x0), Intr 0x30, Leave,
      Retn]"

definition crt0_start :: "instr list" where
  "crt0_start = [Push (Reg EBP), Mov (Reg EBP) (Reg ESP), Push (Reg EDI), Push (Reg ESI), Call ''main'']"

definition crt0_fini :: "instr list" where
  "crt0_fini = [Mov (Reg EBX) (Reg EAX), Xor EAX EAX, Intr 0x30]"

text \<open>Every stub with the number of its system call and the registers of its arguments.\<close>

definition stubs :: "u32 \<Rightarrow> (instr list \<times> u32 \<times> reg list) list" where
  "stubs errno =
     [(stub_fork errno, 1, []), (stub_execve errno, 2, [EBX, ECX]), (stub_getpid errno, 3, []),
      (stub_getppid errno, 4, []), (stub_waitpid errno, 5, [EBX]), (stub_mmap errno, 6, [EBX, ECX, EDX, ESI, EDI]),
      (stub_munmap errno, 7, [EBX]), (stub_brk errno, 8, [EBX]), (stub_sbrk errno, 9, [EBX]),
      (stub_open errno, 10, [EBX, ECX]), (stub_close errno, 11, [EBX]), (stub_read errno, 12, [EBX, ECX, EDX]),
      (stub_write errno, 13, [EBX, ECX, EDX]), (stub_remove errno, 14, [EBX]), (stub_mkdir errno, 15, [EBX, ECX]),
      (stub_rmdir errno, 16, [EBX]), (stub_readdir errno, 17, [EBX, ECX]), (stub_lseek errno, 18, [EBX, ECX, EDX])]"

section \<open>One scheme for all stubs\<close>

definition stub_before :: "u32 \<Rightarrow> reg list \<Rightarrow> instr list" where
  "stub_before num rs =
     [Push (Reg EBP), Mov (Reg EBP) (Reg ESP)] @ map (\<lambda>r. Push (Reg r)) rs @
     map (\<lambda>(i, r). Mov (Reg r) (Mem EBP (8 + 4 * of_nat i))) (enumerate 0 rs) @ [Mov (Reg EAX) (Imm num)]"

definition stub_after :: "u32 \<Rightarrow> reg list \<Rightarrow> instr list" where
  "stub_after errno rs = [Mov (Abs errno) (Reg ESI)] @ map Pop (rev rs) @ [Leave, Retn]"

lemma stub_scheme:
  assumes "(code, num, rs) \<in> set (stubs errno)"
  shows "code = stub_before num rs @ Intr 0x30 # stub_after errno rs"
    and "rs \<in> {[], [EBX], [EBX, ECX], [EBX, ECX, EDX], [EBX, ECX, EDX, ESI, EDI]}"
proof -
  note d = stub_fork_def stub_execve_def stub_getpid_def stub_getppid_def stub_waitpid_def stub_mmap_def stub_munmap_def
    stub_brk_def stub_sbrk_def stub_open_def stub_close_def stub_read_def stub_write_def stub_remove_def stub_mkdir_def
    stub_rmdir_def stub_readdir_def stub_lseek_def
  show "code = stub_before num rs @ Intr 0x30 # stub_after errno rs"
    using assms unfolding stubs_def list.set by (elim insertE emptyE) (simp_all add: d stub_before_def stub_after_def)
  show "rs \<in> {[], [EBX], [EBX, ECX], [EBX, ECX, EDX], [EBX, ECX, EDX, ESI, EDI]}"
    using assms unfolding stubs_def list.set by (elim insertE emptyE) simp_all
qed

text \<open>The argument number \<open>i\<close> of the caller, and what the code relies on of the kernel: stack and frame come back as they were.\<close>

definition arg_cell :: "nat \<Rightarrow> 'a cpu_scheme \<Rightarrow> u32" where
  "arg_cell i c = cells c (gpr c ESP + 4 + 4 * of_nat i)"

definition frame_kept :: "u32 \<Rightarrow> nat \<Rightarrow> 'a cpu_scheme \<Rightarrow> 'a cpu_scheme \<Rightarrow> bool" where
  "frame_kept sp n c1 c2 \<longleftrightarrow> gpr c2 ESP = gpr c1 ESP \<and> gpr c2 EBP = gpr c1 EBP \<and>
     (\<forall>j < n + 2. cells c2 (sp - 4 * of_nat j) = cells c1 (sp - 4 * of_nat j))"

lemma frame_kept_cells:
  assumes "frame_kept sp n c1 c2"
  shows "cells c2 sp = cells c1 sp" "cells c2 (sp - 4) = cells c1 (sp - 4)"
    "i < n \<Longrightarrow> cells c2 (sp - 8 - 4 * of_nat i) = cells c1 (sp - 8 - 4 * of_nat i)"
proof -
  have f: "j < n + 2 \<Longrightarrow> cells c2 (sp - 4 * of_nat j) = cells c1 (sp - 4 * of_nat j)" for j
    using assms by (simp add: frame_kept_def)
  from f [of 0] f [of 1] show "cells c2 sp = cells c1 sp" "cells c2 (sp - 4) = cells c1 (sp - 4)" by simp_all
  from f [of "i + 2"] show "i < n \<Longrightarrow> cells c2 (sp - 8 - 4 * of_nat i) = cells c1 (sp - 8 - 4 * of_nat i)"
    by (simp add: algebra_simps)
qed

lemma stub_before_runs:
  assumes "rs \<in> {[], [EBX], [EBX, ECX], [EBX, ECX, EDX], [EBX, ECX, EDX, ESI, EDI]}"
  shows "\<exists>c1. exec env (stub_before num rs) c = Ret () c1 \<and> gpr c1 EAX = num \<and>
    (\<forall>i < length rs. gpr c1 (rs ! i) = arg_cell i c) \<and> gpr c1 ESP = gpr c ESP - 4 - 4 * of_nat (length rs) \<and>
    gpr c1 EBP = gpr c ESP - 4 \<and> cells c1 (gpr c ESP - 4) = gpr c EBP \<and> cells c1 (gpr c ESP) = cells c (gpr c ESP) \<and>
    (\<forall>i < length rs. cells c1 (gpr c ESP - 8 - 4 * of_nat i) = gpr c (rs ! i)) \<and>
    (\<forall>r. r \<notin> set rs \<union> {EAX, EBP, ESP} \<longrightarrow> gpr c1 r = gpr c r) \<and> cpu.more c1 = cpu.more c"
  using assms
  by (elim insertE emptyE) (simp_all add: stub_before_def asm_simps arg_cell_def enumerate_eq_zip less_Suc_eq all_conj_distrib add.commute [of 4])

lemma stub_after_runs:
  assumes "rs \<in> {[], [EBX], [EBX, ECX], [EBX, ECX, EDX], [EBX, ECX, EDX, ESI, EDI]}"
    and "gpr c ESP = sp - 4 - 4 * of_nat (length rs)" and "gpr c EBP = sp - 4"
    and "cells c (sp - 4) = ebp" and "cells c sp = ret"
    and "\<forall>i < length rs. cells c (sp - 8 - 4 * of_nat i) = vs ! i" and "length vs = length rs"
    and "\<forall>j < length rs + 2. sp - 4 * of_nat j \<noteq> errno"
  shows "\<exists>c'. exec env (stub_after errno rs) c = Ret () c' \<and> gpr c' EAX = gpr c EAX \<and> ip c' = ret \<and> gpr c' ESP = sp + 4 \<and>
    gpr c' EBP = ebp \<and> (\<forall>i < length rs. gpr c' (rs ! i) = vs ! i) \<and> cells c' = (cells c)(errno := gpr c ESI) \<and>
    (\<forall>r. r \<notin> set rs \<and> r \<noteq> EBP \<and> r \<noteq> ESP \<longrightarrow> gpr c' r = gpr c r) \<and> cpu.more c' = cpu.more c"
  using assms
  by (elim insertE emptyE) (simp_all add: stub_after_def asm_simps fun_eq_iff less_Suc_eq all_conj_distrib)

text \<open>
  C33: All eighteen system call stubs that return keep the same protocol. When the trap is reached, \<^verbatim>\<open>eax\<close> holds the
  number of the call and the registers \<^verbatim>\<open>ebx\<close>, \<^verbatim>\<open>ecx\<close>, \<^verbatim>\<open>edx\<close>, \<^verbatim>\<open>esi\<close>, \<^verbatim>\<open>edi\<close> hold the arguments of the caller in order. If
  the kernel comes back with the stack, the frame and the frame pointer as they were, the stub returns to its caller with
  the kernel's \<^verbatim>\<open>eax\<close> as result, with the stack pointer and \<^verbatim>\<open>ebp\<close> of the caller and the argument registers restored, and
  has stored the kernel's \<^verbatim>\<open>esi\<close> in \<^verbatim>\<open>errno\<close> and nothing else in memory. A register that is not an argument register
  keeps what the kernel left in it.
\<close>

theorem stub_correct:
  assumes "(code, num, rs) \<in> set (stubs errno)" and "\<forall>j < length rs + 2. gpr c ESP - 4 * of_nat j \<noteq> errno"
  shows "\<exists>before after c1. code = before @ Intr 0x30 # after \<and> exec env before c = Ret () c1 \<and> gpr c1 EAX = num \<and>
    (\<forall>i < length rs. gpr c1 (rs ! i) = arg_cell i c) \<and>
    (\<forall>c2. frame_kept (gpr c ESP) (length rs) c1 c2 \<longrightarrow>
      (\<exists>c'. exec env after c2 = Ret () c' \<and> gpr c' EAX = gpr c2 EAX \<and> ip c' = cells c (gpr c ESP) \<and>
        gpr c' ESP = gpr c ESP + 4 \<and> gpr c' EBP = gpr c EBP \<and> (\<forall>r \<in> set rs. gpr c' r = gpr c r) \<and>
        cells c' = (cells c2)(errno := gpr c2 ESI) \<and>
        (\<forall>r. r \<notin> set rs \<and> r \<noteq> EBP \<and> r \<noteq> ESP \<longrightarrow> gpr c' r = gpr c2 r)))"
proof -
  note sch = stub_scheme [OF assms(1)]
  let ?sp = "gpr c ESP"
  obtain c1 where c1: "exec env (stub_before num rs) c = Ret () c1" "gpr c1 EAX = num"
    "\<forall>i < length rs. gpr c1 (rs ! i) = arg_cell i c" "gpr c1 ESP = ?sp - 4 - 4 * of_nat (length rs)" "gpr c1 EBP = ?sp - 4"
    "cells c1 (?sp - 4) = gpr c EBP" "cells c1 ?sp = cells c ?sp"
    "\<forall>i < length rs. cells c1 (?sp - 8 - 4 * of_nat i) = gpr c (rs ! i)"
    using stub_before_runs [OF sch(2), of env num c] by (elim exE conjE)
  have "\<exists>c'. exec env (stub_after errno rs) c2 = Ret () c' \<and> gpr c' EAX = gpr c2 EAX \<and> ip c' = cells c ?sp \<and>
      gpr c' ESP = ?sp + 4 \<and> gpr c' EBP = gpr c EBP \<and> (\<forall>r \<in> set rs. gpr c' r = gpr c r) \<and>
      cells c' = (cells c2)(errno := gpr c2 ESI) \<and> (\<forall>r. r \<notin> set rs \<and> r \<noteq> EBP \<and> r \<noteq> ESP \<longrightarrow> gpr c' r = gpr c2 r)"
    if k: "frame_kept ?sp (length rs) c1 c2" for c2
  proof -
    have s: "cells c2 (?sp - 4) = gpr c EBP" "cells c2 ?sp = cells c ?sp"
      "\<forall>i < length rs. cells c2 (?sp - 8 - 4 * of_nat i) = map (gpr c) rs ! i"
      using k c1 frame_kept_cells [OF k] by auto
    from k c1 have "gpr c2 ESP = ?sp - 4 - 4 * of_nat (length rs)" "gpr c2 EBP = ?sp - 4" by (auto simp: frame_kept_def)
    from stub_after_runs [OF sch(2) this s _ assms(2), of env] show ?thesis by (fastforce simp: in_set_conv_nth)
  qed
  then show ?thesis using sch(1) c1 by blast
qed

text \<open>
  The start-up code passes \<^verbatim>\<open>esi\<close> and \<^verbatim>\<open>edi\<close>, where \<^verbatim>\<open>execve\<close> has put the number and the array of arguments, to \<^verbatim>\<open>main\<close> on the
  stack, and ends the program with the result of \<^verbatim>\<open>main\<close> as exit status.
\<close>

lemma crt0_correct:
  "\<exists>c1. exec env (crt0_start @ crt0_fini) c =
      bindR (on_call env ''main'' c1) (\<lambda>_ c2. on_int env 0x30 (set_gpr EAX 0 (set_gpr EBX (gpr c2 EAX) c2))) \<and>
    cells c1 (gpr c1 ESP) = gpr c ESI \<and> cells c1 (gpr c1 ESP + 4) = gpr c EDI"
proof -
  let ?sp = "gpr c ESP - 4"
  let ?c1 = "push (gpr c ESI) (push (gpr c EDI) (set_gpr EBP ?sp (push (gpr c EBP) c)))"
  have f: "exec env crt0_fini c2 = on_int env 0x30 (set_gpr EAX 0 (set_gpr EBX (gpr c2 EAX) c2))" for c2
    by (cases "on_int env 0x30 (set_gpr EAX 0 (set_gpr EBX (gpr c2 EAX) c2))") (simp_all add: crt0_fini_def exec1_def asm_simps)
  have "exec env crt0_start c = on_call env ''main'' ?c1"
    by (cases "on_call env ''main'' ?c1") (simp_all add: crt0_start_def exec1_def push_def set_gpr_sel set_cell_sel)
  then show ?thesis unfolding exec_append f by (intro exI [of _ ?c1]) (simp add: asm_simps)
qed

definition cpu_demo :: cpu where
  "cpu_demo = \<lparr>gpr = (\<lambda>r. case r of ESP \<Rightarrow> 0xbfff0000 | EBP \<Rightarrow> 0xbfff0020 | _ \<Rightarrow> 5), seg = (\<lambda>_. 0x23), ip = 0x8048000, flags = 0x202,
     c_cr0 = 0x80000001, c_cr3 = 0x1000, gdtr = 0, idtr = 0, tr = 0x28, cells = (\<lambda>a. if a = 0xbfff0004 then 1 else a)\<rparr>"

definition env_demo :: "cpu env" where
  "env_demo = \<lparr>on_int = (\<lambda>_ c. Ret () c), on_call = (\<lambda>_ c. Ret () c)\<rparr>"

theorem stub_correct_witness:
  "\<exists>before after c1 :: cpu. stub_write 0x9000 = before @ Intr 0x30 # after \<and> exec env_demo before cpu_demo = Ret () c1 \<and>
     gpr c1 EAX = 13 \<and> gpr c1 EBX = 1"
proof -
  have "(stub_write 0x9000, 13, [EBX, ECX, EDX]) \<in> set (stubs 0x9000)" by (simp add: stubs_def)
  moreover have "\<forall>j < length [EBX, ECX, EDX] + 2. gpr cpu_demo ESP - 4 * of_nat j \<noteq> 0x9000"
    by (simp add: cpu_demo_def less_Suc_eq all_conj_distrib)
  ultimately obtain before after c1 where "stub_write 0x9000 = before @ Intr 0x30 # after" "exec env_demo before cpu_demo = Ret () c1"
    "gpr c1 EAX = 13" "\<forall>i < length [EBX, ECX, EDX]. gpr c1 ([EBX, ECX, EDX] ! i) = arg_cell i cpu_demo"
    using stub_correct [where c = cpu_demo and env = env_demo] by blast
  moreover from this(4) have "gpr c1 EBX = 1" by (force simp: arg_cell_def cpu_demo_def)
  ultimately show ?thesis by blast
qed

end
