(* ===== verification/Entry.thy ===== *)
theory Entry
  imports Interrupts I386
begin

text \<open>
  The assembler of the kernel, \<^verbatim>\<open>kernel/arch/i386\<close>: the entry and exit of interrupts (\<^verbatim>\<open>int_handler.s\<close>), the switch to a program
  (\<^verbatim>\<open>context_switch.s\<close>) and the loading of the descriptor tables. The lemmas connect the memory that the assembler
  builds with the records that the C handlers of the theory \<open>Interrupts\<close> receive.
\<close>

section \<open>int_handler.s\<close>

text \<open>
  The vectors for which the processor pushes an error code, as the macros list them. (Vector 21, which pushes one too,
  came with processors of much later date.)
\<close>

definition with_error_code :: "nat \<Rightarrow> bool" where
  "with_error_code v \<longleftrightarrow> v \<in> {8, 10, 11, 12, 13, 14, 17, 30}"

definition isr_stub :: "nat \<Rightarrow> instr list" where
  "isr_stub v = (if with_error_code v then [Push (Imm (of_nat v))] else [Push (Imm 0), Push (Imm (of_nat v))])"

definition ax_to_seg_regs :: "instr list" where
  "ax_to_seg_regs = [Ax_to_seg DS, Ax_to_seg ES, Ax_to_seg FS, Ax_to_seg GS]"

definition int_wrapper_entry :: "u32 \<Rightarrow> instr list" where
  "int_wrapper_entry frame_ptr =
     [Cli, Mov (Abs frame_ptr) (Reg ESP), Pushad, Seg_to_ax DS, Push (Reg EAX), Mov_ax 0x10] @ ax_to_seg_regs @
     [Mov (Reg EAX) (Reg ESP), Push (Reg EAX), Mov (Reg EAX) (Abs frame_ptr), Push (Reg EAX)]"

definition int_wrapper_exit :: "instr list" where
  "int_wrapper_exit = [Add ESP 0x8, Pop EAX] @ ax_to_seg_regs @ [Popad, Add ESP 0x8, Sti, Iretd]"

definition int_wrapper :: "u32 \<Rightarrow> instr list" where
  "int_wrapper frame_ptr = int_wrapper_entry frame_ptr @ Call ''general_handler'' # int_wrapper_exit"

text \<open>
  What the processor does on an interrupt: in user mode it changes to the kernel stack \<open>sp0\<close> and saves the old one first;
  the gates of the kernel clear the interrupt flag.
\<close>

definition take_user :: "nat \<Rightarrow> u32 \<Rightarrow> u32 \<Rightarrow> 'a cpu_scheme \<Rightarrow> 'a cpu_scheme" where
  "take_user v err sp0 c =
     (let c' = fold push [ucast (seg c SS), gpr c ESP, flags c, ucast (seg c CS), ip c] (set_seg SS 0x10 (set_gpr ESP sp0 c));
          c' = (set_seg CS 0x08 c')\<lparr>flags := flags c AND NOT IF_FLAG\<rparr>
      in if with_error_code v then push err c' else c')"

definition take_kernel :: "nat \<Rightarrow> u32 \<Rightarrow> 'a cpu_scheme \<Rightarrow> 'a cpu_scheme" where
  "take_kernel v err c =
     (let c' = (fold push [flags c, ucast (seg c CS), ip c] c)\<lparr>flags := flags c AND NOT IF_FLAG\<rparr>
      in if with_error_code v then push err c' else c')"

section \<open>context_switch.s\<close>

definition ret_to_ring3 :: "instr list" where
  "ret_to_ring3 =
     [Mov (Reg EAX) (Mem EDX 40), Set_cr3 EAX,
      Mov (Reg EAX) (Mem EDX 44), Push (Reg EAX), Mov (Reg EAX) (Mem EDX 24), Push (Reg EAX),
      Mov (Reg EAX) (Mem EDX 36), Pushf, Push (Reg EAX), Popf, Sti, Pushf, Pop EAX, Popf, Push (Reg EAX),
      Mov (Reg EAX) (Mem EDX 48), Push (Reg EAX), Mov (Reg EAX) (Mem EDX 32), Push (Reg EAX),
      Mov (Reg EAX) (Mem EDX 44), Ax_to_seg DS, Ax_to_seg GS, Ax_to_seg ES, Ax_to_seg FS,
      Mov (Reg EAX) (Mem EDX 0), Mov (Reg EBX) (Mem EDX 4), Mov (Reg ECX) (Mem EDX 8), Mov (Reg ESI) (Mem EDX 16),
      Mov (Reg EDI) (Mem EDX 20), Mov (Reg EBP) (Mem EDX 28), Push (Reg EAX), Mov (Reg EAX) (Mem EDX 12),
      Mov (Reg EDX) (Reg EAX), Pop EAX, Iretd]"

definition asm_context_switch :: "instr list" where
  "asm_context_switch =
     [Mov (Reg EBP) (Reg ESP), Mov (Reg EDX) (Mem EBP 0x4), Push (Mem EBP 0x8), Call ''tss_set_stack'', Add ESP 0x4] @ ret_to_ring3"

definition asm_syscall_return :: "instr list" where
  "asm_syscall_return = [Mov (Reg EBP) (Reg ESP), Mov (Reg EDX) (Mem EBP 0x4)] @ ret_to_ring3"

section \<open>Descriptor tables and the stack pointer\<close>

definition gdt_load :: "instr list" where
  "gdt_load =
     [Push (Reg EBP), Mov (Reg EBP) (Reg ESP), Push (Reg EBX), Mov (Reg EBX) (Mem EBP 0x8), Pushf, Cli, Lgdt EBX, Popf,
      Pop EBX, Far_jmp 0x08, Push (Reg EAX), Mov_ax 0x10, Ax_to_seg DS, Ax_to_seg ES, Ax_to_seg FS, Ax_to_seg GS, Pop EAX,
      Leave, Retn]"

definition idt_load :: "instr list" where
  "idt_load =
     [Push (Reg EBP), Mov (Reg EBP) (Reg ESP), Push (Reg EAX), Mov (Reg EAX) (Mem EBP 0x8), Pushf, Cli, Lidt EAX, Popf,
      Pop EAX, Leave, Retn]"

definition tss_flush :: "instr list" where
  "tss_flush = [Push (Reg EBP), Mov (Reg EBP) (Reg ESP), Push (Reg EAX), Mov_ax 0x28, Ltr, Pop EAX, Leave, Retn]"

definition set_stack_pointer :: "instr list" where
  "set_stack_pointer =
     [Push (Reg EBP), Mov (Reg EBP) (Reg ESP), Mov (Reg ESP) (Mem EBP 0x8), Push (Mem EBP 0x4), Mov (Reg EBP) (Reg ESP), Retn]"

definition get_stack_pointer :: "instr list" where
  "get_stack_pointer = [Push (Reg EBP), Mov (Reg EBP) (Reg ESP), Mov (Reg EAX) (Reg ESP), Leave, Retn]"

section \<open>The records in memory\<close>

definition frame_at :: "(u32 \<Rightarrow> u32) \<Rightarrow> u32 \<Rightarrow> int_frame" where
  "frame_at m a = \<lparr>int_number = m a, err_code = m (a + 4), f_eip = m (a + 8), f_cs = m (a + 12), f_eflags = m (a + 16),
     f_esp = m (a + 20), f_ss = m (a + 24)\<rparr>"

definition int_regs_at :: "(u32 \<Rightarrow> u32) \<Rightarrow> u32 \<Rightarrow> int_regs" where
  "int_regs_at m a = \<lparr>i_ds = m a, i_edi = m (a + 4), i_esi = m (a + 8), i_ebp = m (a + 12), i_esp = m (a + 16),
     i_ebx = m (a + 20), i_edx = m (a + 24), i_ecx = m (a + 28), i_eax = m (a + 32)\<rparr>"

definition task_regs_at :: "(u32 \<Rightarrow> u32) \<Rightarrow> u32 \<Rightarrow> task_regs" where
  "task_regs_at m p = \<lparr>eax = m p, ebx = m (p + 4), ecx = m (p + 8), edx = m (p + 12), esi = m (p + 16), edi = m (p + 20),
     esp = m (p + 24), ebp = m (p + 28), eip = m (p + 32), eflags = m (p + 36), reg_cr3 = m (p + 40), reg_ds = m (p + 44),
     reg_cs = m (p + 48)\<rparr>"

text \<open>What the handler is to see of an interrupted program.\<close>

definition user_frame :: "nat \<Rightarrow> u32 \<Rightarrow> 'a cpu_scheme \<Rightarrow> int_frame" where
  "user_frame v err c = \<lparr>int_number = of_nat v, err_code = (if with_error_code v then err else 0), f_eip = ip c,
     f_cs = ucast (seg c CS), f_eflags = flags c, f_esp = gpr c ESP, f_ss = ucast (seg c SS)\<rparr>"

definition user_regs :: "u32 \<Rightarrow> 'a cpu_scheme \<Rightarrow> int_regs" where
  "user_regs sp c = \<lparr>i_ds = with_ax (gpr c EAX) (seg c DS), i_edi = gpr c EDI, i_esi = gpr c ESI, i_ebp = gpr c EBP, i_esp = sp,
     i_ebx = gpr c EBX, i_edx = gpr c EDX, i_ecx = gpr c ECX, i_eax = gpr c EAX\<rparr>"

text \<open>The cells of the stack that lies below \<open>sp\<close>.\<close>

definition below :: "u32 \<Rightarrow> nat \<Rightarrow> u32 list" where
  "below sp n = map (\<lambda>j. sp - 4 * of_nat j) [0 ..< n]"

lemma below_20:
  assumes "a \<notin> set (below sp 20)"
  shows "sp \<noteq> a" "sp - 4 \<noteq> a" "sp - 8 \<noteq> a" "sp - 12 \<noteq> a" "sp - 16 \<noteq> a" "sp - 20 \<noteq> a" "sp - 24 \<noteq> a" "sp - 28 \<noteq> a"
    "sp - 32 \<noteq> a" "sp - 36 \<noteq> a" "sp - 40 \<noteq> a" "sp - 44 \<noteq> a" "sp - 48 \<noteq> a" "sp - 52 \<noteq> a" "sp - 56 \<noteq> a" "sp - 60 \<noteq> a"
    "sp - 64 \<noteq> a" "sp - 68 \<noteq> a" "sp - 72 \<noteq> a" "sp - 76 \<noteq> a"
  using assms by (auto simp: below_def upt_rec)

lemma ucast_with_ax [asm_simps]: "(ucast (with_ax v a) :: u16) = a"
proof (rule bit_word_eqI)
  fix n assume "n < LENGTH(16)"
  then have n: "n < 16" by simp
  have m: "push_bit 16 (mask 16) = (0xffff0000 :: u32)" by (simp add: mask_eq_exp_minus_1 push_bit_eq_mult)
  have "\<not> bit (push_bit 16 (mask 16) :: u32) n" using n by (simp only: bit_push_bit_iff) simp
  then have "\<not> bit (0xffff0000 :: u32) n" unfolding m .
  then show "bit (ucast (with_ax v a) :: u16) n = bit a n"
    using n by (simp add: with_ax_def bit_ucast_iff bit_or_iff bit_and_iff)
qed

lemma ucast_ucast_16 [asm_simps]: "(ucast (ucast (a :: u16) :: u32) :: u16) = a"
  by (rule bit_word_eqI) (simp add: bit_ucast_iff)

lemma below_mem:
  "sp - 4 \<in> set (below sp 20)" "sp - 8 \<in> set (below sp 20)" "sp - 12 \<in> set (below sp 20)" "sp - 24 \<in> set (below sp 20)"
  "sp - 28 \<in> set (below sp 20)" "sp - 32 \<in> set (below sp 20)" "sp - 36 \<in> set (below sp 20)" "sp - 44 \<in> set (below sp 20)"
  "sp - 48 \<in> set (below sp 20)" "sp - 52 \<in> set (below sp 20)" "sp - 56 \<in> set (below sp 20)"
  by (simp_all add: below_def upt_rec)

lemma all_regs: "(\<forall>r. P r) \<longleftrightarrow> P EAX \<and> P EBX \<and> P ECX \<and> P EDX \<and> P ESI \<and> P EDI \<and> P EBP \<and> P ESP"
  by (metis reg.exhaust)

lemma entry_runs:
  assumes "fp \<notin> set (below sp0 20)"
  shows "\<exists>c1. exec env (isr_stub v @ int_wrapper_entry fp) (take_user v err sp0 c) = Ret () c1 \<and>
    frame_at (cells c1) (cells c1 (gpr c1 ESP)) = user_frame v err c \<and>
    int_regs_at (cells c1) (cells c1 (gpr c1 ESP + 4)) = user_regs (sp0 - 28) c \<and>
    seg c1 DS = 0x10 \<and> seg c1 ES = 0x10 \<and> cpu.more c1 = cpu.more c"
  using below_20 [OF assms]
  by (cases "with_error_code v")
    (simp_all add: isr_stub_def int_wrapper_entry_def ax_to_seg_regs_def take_user_def asm_simps frame_at_def
      int_regs_at_def user_frame_def user_regs_def Let_def)

lemma kernel_entry_runs:
  assumes "fp \<notin> set (below (gpr c ESP) 20)"
  shows "\<exists>c1. exec env (isr_stub v @ int_wrapper_entry fp) (take_kernel v err c) = Ret () c1 \<and>
    gpr c1 ESP = gpr c ESP - 64 \<and> cells c1 (gpr c ESP - 56) = with_ax (gpr c EAX) (seg c DS) \<and>
    cells c1 (gpr c ESP - 52) = gpr c EDI \<and> cells c1 (gpr c ESP - 48) = gpr c ESI \<and> cells c1 (gpr c ESP - 44) = gpr c EBP \<and>
    cells c1 (gpr c ESP - 36) = gpr c EBX \<and> cells c1 (gpr c ESP - 32) = gpr c EDX \<and> cells c1 (gpr c ESP - 28) = gpr c ECX \<and>
    cells c1 (gpr c ESP - 24) = gpr c EAX \<and> cells c1 (gpr c ESP - 12) = ip c \<and> cells c1 (gpr c ESP - 8) = ucast (seg c CS) \<and>
    cells c1 (gpr c ESP - 4) = flags c"
  using below_20 [OF assms]
  by (cases "with_error_code v")
    (simp_all add: isr_stub_def int_wrapper_entry_def ax_to_seg_regs_def take_kernel_def asm_simps Let_def)

lemma kernel_exit_runs:
  assumes "gpr c ESP = sp - 64" and "cells c (sp - 8) AND 3 \<noteq> 3"
  shows "\<exists>c'. exec env int_wrapper_exit c = Ret () c' \<and> gpr c' ESP = sp \<and> gpr c' EDI = cells c (sp - 52) \<and>
    gpr c' ESI = cells c (sp - 48) \<and> gpr c' EBP = cells c (sp - 44) \<and> gpr c' EBX = cells c (sp - 36) \<and>
    gpr c' EDX = cells c (sp - 32) \<and> gpr c' ECX = cells c (sp - 28) \<and> gpr c' EAX = cells c (sp - 24) \<and>
    ip c' = cells c (sp - 12) \<and> seg c' CS = ucast (cells c (sp - 8)) \<and> flags c' = cells c (sp - 4) \<and>
    seg c' DS = ucast (cells c (sp - 56)) \<and> cells c' = cells c \<and> cpu.more c' = cpu.more c"
  using assms by (simp add: int_wrapper_exit_def ax_to_seg_regs_def asm_simps iret_def Let_def)

section \<open>What the handlers see\<close>

text \<open>
  The assembler hands the C handler exactly what it is declared to get. For every vector and every program that is
  interrupted, when \<^verbatim>\<open>general_handler\<close> is called its two arguments point to the records of the interrupt: the number,
  the error code of the processor or zero, the instruction pointer, flags and stack of the program, and all its
  general registers; the data segments are those of the kernel.
\<close>

lemma interrupt_entry_correct:
  assumes "fp \<notin> set (below sp0 20)"
  shows "\<exists>c1. exec env (isr_stub v @ int_wrapper fp) (take_user v err sp0 c) =
      bindR (on_call env ''general_handler'' c1) (\<lambda>_ c. exec env int_wrapper_exit c) \<and>
    frame_at (cells c1) (cells c1 (gpr c1 ESP)) = user_frame v err c \<and>
    int_regs_at (cells c1) (cells c1 (gpr c1 ESP + 4)) = user_regs (sp0 - 28) c \<and> seg c1 DS = 0x10 \<and> seg c1 ES = 0x10"
proof -
  obtain c1 where c1: "exec env (isr_stub v @ int_wrapper_entry fp) (take_user v err sp0 c) = Ret () c1"
    "frame_at (cells c1) (cells c1 (gpr c1 ESP)) = user_frame v err c"
    "int_regs_at (cells c1) (cells c1 (gpr c1 ESP + 4)) = user_regs (sp0 - 28) c" "seg c1 DS = 0x10" "seg c1 ES = 0x10"
    using entry_runs [OF assms, of env v err c] by (elim exE conjE)
  have "exec env (isr_stub v @ int_wrapper fp) (take_user v err sp0 c) =
      bindR (on_call env ''general_handler'' c1) (\<lambda>_ c. exec env int_wrapper_exit c)"
    unfolding int_wrapper_def append_assoc [symmetric] exec_append [where xs = "isr_stub v @ int_wrapper_entry fp"] c1(1)
    by (simp add: exec1_def)
  with c1 show ?thesis by blast
qed


section \<open>The way to a program\<close>

definition regs_cells :: "u32 \<Rightarrow> u32 list" where
  "regs_cells p = map (\<lambda>j. p + 4 * of_nat j) [0 ..< 13]"

text \<open>The processor runs in user mode with the registers \<open>R\<close> and with interrupts on.\<close>

definition runs_program :: "task_regs \<Rightarrow> 'a cpu_scheme \<Rightarrow> bool" where
  "runs_program R c \<longleftrightarrow> gpr c EAX = eax R \<and> gpr c EBX = ebx R \<and> gpr c ECX = ecx R \<and> gpr c EDX = edx R \<and> gpr c ESI = esi R \<and>
     gpr c EDI = edi R \<and> gpr c EBP = ebp R \<and> gpr c ESP = esp R \<and> ip c = eip R \<and> flags c = eflags R OR IF_FLAG \<and>
     c_cr3 c = reg_cr3 R \<and> seg c CS = ucast (reg_cs R) \<and> seg c SS = ucast (reg_ds R) \<and> seg c DS = ucast (reg_ds R) \<and>
     seg c ES = ucast (reg_ds R) \<and> seg c FS = ucast (reg_ds R) \<and> seg c GS = ucast (reg_ds R)"

definition apart :: "u32 \<Rightarrow> u32 \<Rightarrow> bool" where
  "apart p sp \<longleftrightarrow> (\<forall>a \<in> set (regs_cells p). \<forall>b \<in> set (below sp 20). a \<noteq> b)"

lemma apart_cells:
  assumes "apart p sp" and "a \<in> set (regs_cells p)"
  shows "a \<noteq> sp - 4" "a \<noteq> sp - 8" "a \<noteq> sp - 12" "a \<noteq> sp - 16" "a \<noteq> sp - 20" "a \<noteq> sp - 24"
  using assms by (auto simp: apart_def below_def upt_rec)

lemma regs_mem:
  "p \<in> set (regs_cells p)" "p + 4 \<in> set (regs_cells p)" "p + 8 \<in> set (regs_cells p)" "p + 12 \<in> set (regs_cells p)"
  "p + 16 \<in> set (regs_cells p)" "p + 20 \<in> set (regs_cells p)" "p + 24 \<in> set (regs_cells p)" "p + 28 \<in> set (regs_cells p)"
  "p + 32 \<in> set (regs_cells p)" "p + 36 \<in> set (regs_cells p)" "p + 40 \<in> set (regs_cells p)" "p + 44 \<in> set (regs_cells p)"
  "p + 48 \<in> set (regs_cells p)"
  by (simp_all add: regs_cells_def upt_rec)

lemma ret_to_ring3_runs:
  assumes "gpr c EDX = p" and "apart p (gpr c ESP)" and "reg_cs (task_regs_at (cells c) p) AND 3 = 3"
  shows "\<exists>c'. exec env ret_to_ring3 c = Ret () c' \<and> runs_program (task_regs_at (cells c) p) c'"
  using assms(1,3) apart_cells [OF assms(2)] regs_mem [of p]
  by (simp add: ret_to_ring3_def asm_simps runs_program_def task_regs_at_def iret_def Let_def)


lemma syscall_return_runs:
  assumes "p = cells c (gpr c ESP + 4)" and "apart p (gpr c ESP)" and "reg_cs (task_regs_at (cells c) p) AND 3 = 3"
  shows "\<exists>c'. exec env asm_syscall_return c = Ret () c' \<and> runs_program (task_regs_at (cells c) p) c'"
proof -
  let ?c1 = "set_gpr EDX p (set_gpr EBP (gpr c ESP) c)"
  have "exec env asm_syscall_return c = exec env ret_to_ring3 ?c1"
    using assms(1) by (simp add: asm_syscall_return_def exec1_def set_gpr_sel)
  then show ?thesis using ret_to_ring3_runs [of ?c1 p env] assms(2,3) by (simp add: set_gpr_sel)
qed

text \<open>
  C29: The registers of a program over a system call, from the trap to the return: when the kernel saves the registers
  as the handler does, stores a result and an error number, and leaves with \<^verbatim>\<open>syscall_return\<close>, the program goes on behind
  the trap with all its general registers, its stack pointer and its flags as they were, the result in \<^verbatim>\<open>eax\<close> and the
  error number in \<^verbatim>\<open>esi\<close>.
\<close>

theorem system_call_registers:
  assumes "fp \<notin> set (below sp0 20)"
  shows "\<exists>c1. exec env (isr_stub 48 @ int_wrapper_entry fp) (take_user 48 err sp0 c) = Ret () c1 \<and>
    (\<forall>p R v e ck. p = cells ck (gpr ck ESP + 4) \<and> apart p (gpr ck ESP) \<and> reg_cs R AND 3 = 3 \<and>
       task_regs_at (cells ck) p =
         (saved_regs (frame_at (cells c1) (cells c1 (gpr c1 ESP))) (int_regs_at (cells c1) (cells c1 (gpr c1 ESP + 4))) R)
           \<lparr>eax := v, esi := e\<rparr> \<longrightarrow>
       (\<exists>c'. exec env asm_syscall_return ck = Ret () c' \<and> gpr c' = (gpr c)(EAX := v, ESI := e) \<and> ip c' = ip c \<and>
          flags c' = flags c OR IF_FLAG \<and> c_cr3 c' = reg_cr3 R \<and> seg c' CS = ucast (reg_cs R) \<and> seg c' SS = ucast (reg_ds R)))"
proof -
  obtain c1 where c1: "exec env (isr_stub 48 @ int_wrapper_entry fp) (take_user 48 err sp0 c) = Ret () c1"
    "frame_at (cells c1) (cells c1 (gpr c1 ESP)) = user_frame 48 err c"
    "int_regs_at (cells c1) (cells c1 (gpr c1 ESP + 4)) = user_regs (sp0 - 28) c"
    using entry_runs [OF assms, of env 48 err c] by (elim exE conjE)
  have "\<exists>c'. exec env asm_syscall_return ck = Ret () c' \<and> gpr c' = (gpr c)(EAX := v, ESI := e) \<and> ip c' = ip c \<and>
      flags c' = flags c OR IF_FLAG \<and> c_cr3 c' = reg_cr3 R \<and> seg c' CS = ucast (reg_cs R) \<and> seg c' SS = ucast (reg_ds R)"
    if h: "p = cells ck (gpr ck ESP + 4)" "apart p (gpr ck ESP)" "reg_cs R AND 3 = 3"
      "task_regs_at (cells ck) p = (saved_regs (user_frame 48 err c) (user_regs (sp0 - 28) c) R)\<lparr>eax := v, esi := e\<rparr>"
    for p R v e ck
  proof -
    have "reg_cs (task_regs_at (cells ck) p) AND 3 = 3" using h(3,4) by (simp add: saved_regs_def)
    from syscall_return_runs [OF h(1,2) this, of env] obtain c' where c': "exec env asm_syscall_return ck = Ret () c'"
      "runs_program ((saved_regs (user_frame 48 err c) (user_regs (sp0 - 28) c) R)\<lparr>eax := v, esi := e\<rparr>) c'"
      unfolding h(4) by blast
    have "gpr c' r = ((gpr c)(EAX := v, ESI := e)) r" for r
      using c'(2) by (cases r) (simp_all add: runs_program_def saved_regs_def user_frame_def user_regs_def)
    with c' show ?thesis
      by (intro exI [of _ c']) (simp add: runs_program_def saved_regs_def user_frame_def fun_eq_iff)
  qed
  then show ?thesis unfolding c1(2,3) [symmetric] using c1(1) by blast
qed

section \<open>The tables and the stack pointer\<close>

text \<open>The routines return to their caller with its registers, and with the table loaded that the argument points to.\<close>

definition back_to_caller :: "'a cpu_scheme \<Rightarrow> 'a cpu_scheme \<Rightarrow> bool" where
  "back_to_caller c c' \<longleftrightarrow> gpr c' = (gpr c)(ESP := gpr c ESP + 4) \<and> ip c' = cells c (gpr c ESP) \<and> flags c' = flags c"

lemmas table_routines = gdt_load_def idt_load_def tss_flush_def back_to_caller_def fun_eq_iff all_regs

lemma gdt_load_runs:
  "\<exists>c'. exec env gdt_load c = Ret () c' \<and> back_to_caller c c' \<and> gdtr c' = cells c (gpr c ESP + 4) \<and> seg c' CS = 0x08 \<and>
     (\<forall>r. r \<notin> {CS, SS} \<longrightarrow> seg c' r = 0x10)"
proof -
  have s: "(\<forall>r. r \<notin> {CS, SS} \<longrightarrow> P r) \<longleftrightarrow> P DS \<and> P ES \<and> P FS \<and> P GS" for P by (metis insert_iff empty_iff sreg.distinct sreg.exhaust)
  show ?thesis unfolding s by (simp add: table_routines asm_simps) (simp add: add.commute)
qed

lemma idt_load_runs: "\<exists>c'. exec env idt_load c = Ret () c' \<and> back_to_caller c c' \<and> idtr c' = cells c (gpr c ESP + 4)"
  by (simp add: table_routines asm_simps) (simp add: add.commute)

lemma tss_flush_runs: "\<exists>c'. exec env tss_flush c = Ret () c' \<and> back_to_caller c c' \<and> tr c' = 0x28"
  by (simp add: table_routines asm_simps)

text \<open>
  \<^verbatim>\<open>set_stack_pointer\<close> returns to its caller on the new stack; \<^verbatim>\<open>ebp\<close> points into the new stack too, so the caller can
  not reach its local variables or return any more; \<^verbatim>\<open>do_exit\<close> keeps what it needs afterwards in a static variable.
\<close>

lemma set_stack_pointer_runs:
  "\<exists>c'. exec env set_stack_pointer c = Ret () c' \<and> gpr c' ESP = cells c (gpr c ESP + 4) \<and> gpr c' EBP = cells c (gpr c ESP + 4) - 4 \<and>
     (\<forall>r. r \<noteq> ESP \<and> r \<noteq> EBP \<longrightarrow> gpr c' r = gpr c r) \<and> ip c' = cells c (gpr c ESP)"
  by (simp add: set_stack_pointer_def asm_simps) (simp add: add.commute)

lemma get_stack_pointer_runs:
  "\<exists>c'. exec env get_stack_pointer c = Ret () c' \<and> gpr c' = (gpr c)(ESP := gpr c ESP + 4, EAX := gpr c ESP - 4) \<and> ip c' = cells c (gpr c ESP)"
  by (simp add: get_stack_pointer_def asm_simps fun_eq_iff)

section \<open>Examples\<close>

text \<open>
  A program at \<^verbatim>\<open>0x8048000\<close>, a kernel task with its stack at \<^verbatim>\<open>0xc0208000\<close>, and the registers of a program at
  \<^verbatim>\<open>0xc0300000\<close> that \<^verbatim>\<open>context_switch\<close> gets as argument.
\<close>

definition program_demo :: cpu where
  "program_demo = \<lparr>gpr = (\<lambda>r. case r of ESP \<Rightarrow> 0xbfff0000 | EAX \<Rightarrow> 18 | EBX \<Rightarrow> 3 | _ \<Rightarrow> 5), seg = (\<lambda>r. if r = CS then 0x1b else 0x23),
     ip = 0x8048000, flags = 0x202, c_cr0 = 0x80000001, c_cr3 = 0x1000, gdtr = 0, idtr = 0, tr = 0x28, cells = (\<lambda>_. 0)\<rparr>"

definition kernel_demo :: cpu where
  "kernel_demo = program_demo\<lparr>gpr := (\<lambda>r. case r of ESP \<Rightarrow> 0xc0208000 | EBX \<Rightarrow> 3 | _ \<Rightarrow> 6), seg := (\<lambda>r. if r = CS then 0x08 else 0x10),
     ip := 0xc0101000,
     cells := (\<lambda>a. if a = 0xc0208004 then 0xc0300000 else if a = 0xc0300030 then 0x1b else if a = 0xc0300020 then 0x8048000 else 0)\<rparr>"

definition quiet_env :: "cpu env" where
  "quiet_env = \<lparr>on_int = (\<lambda>_ c. Ret () c), on_call = (\<lambda>_ c. Ret () c)\<rparr>"

lemma demo_apart:
  "0xc0140000 \<notin> set (below 0xc0208000 20)" "apart 0xc0300000 0xc0208000"
  by (simp_all add: apart_def below_def regs_cells_def upt_rec)



definition store_regs :: "u32 \<Rightarrow> task_regs \<Rightarrow> (u32 \<Rightarrow> u32) \<Rightarrow> u32 \<Rightarrow> u32" where
  "store_regs p R m = m(p := eax R, p + 4 := ebx R, p + 8 := ecx R, p + 12 := edx R, p + 16 := esi R, p + 20 := edi R, p + 24 := esp R,
     p + 28 := ebp R, p + 32 := eip R, p + 36 := eflags R, p + 40 := reg_cr3 R, p + 44 := reg_ds R, p + 48 := reg_cs R)"

lemma task_regs_at_store: "task_regs_at (store_regs p R m) p = R"
  by (cases R) (simp add: task_regs_at_def store_regs_def)

theorem system_call_registers_witness:
  "\<exists>ck c'. exec quiet_env asm_syscall_return ck = Ret () c' \<and> gpr c' EAX = - 1 \<and> gpr c' ESI = 6 \<and> gpr c' EBX = 3 \<and>
    gpr c' ESP = 0xbfff0000 \<and> ip c' = 0x8048000"
proof -
  let ?R = "task_regs_at (cells kernel_demo) 0xc0300000"
  obtain c1 where "exec quiet_env (isr_stub 48 @ int_wrapper_entry 0xc0140000) (take_user 48 0 0xc0208000 program_demo) = Ret () c1"
    and all: "\<forall>p R v e ck. p = cells ck (gpr ck ESP + 4) \<and> apart p (gpr ck ESP) \<and> reg_cs R AND 3 = 3 \<and>
       task_regs_at (cells ck) p =
         (saved_regs (frame_at (cells c1) (cells c1 (gpr c1 ESP))) (int_regs_at (cells c1) (cells c1 (gpr c1 ESP + 4))) R)
           \<lparr>eax := v, esi := e\<rparr> \<longrightarrow>
       (\<exists>c'. exec quiet_env asm_syscall_return ck = Ret () c' \<and> gpr c' = (gpr program_demo)(EAX := v, ESI := e) \<and> ip c' = ip program_demo \<and>
          flags c' = flags program_demo OR IF_FLAG \<and> c_cr3 c' = reg_cr3 R \<and> seg c' CS = ucast (reg_cs R) \<and> seg c' SS = ucast (reg_ds R))"
    using system_call_registers [OF demo_apart(1), of quiet_env 0 program_demo] by (elim exE conjE)
  let ?S = "(saved_regs (frame_at (cells c1) (cells c1 (gpr c1 ESP))) (int_regs_at (cells c1) (cells c1 (gpr c1 ESP + 4))) ?R)
      \<lparr>eax := - 1, esi := 6\<rparr>"
  let ?k = "kernel_demo\<lparr>cells := store_regs 0xc0300000 ?S (cells kernel_demo)\<rparr>"
  have "0xc0300000 = cells ?k (gpr ?k ESP + 4)" by (simp add: kernel_demo_def store_regs_def)
  moreover have "apart 0xc0300000 (gpr ?k ESP)" using demo_apart(2) by (simp add: kernel_demo_def)
  moreover have "reg_cs ?R AND 3 = 3" by (simp add: kernel_demo_def task_regs_at_def)
  moreover have "task_regs_at (cells ?k) 0xc0300000 = ?S" using task_regs_at_store by simp
  ultimately obtain c' where "exec quiet_env asm_syscall_return ?k = Ret () c'" "gpr c' = (gpr program_demo)(EAX := - 1, ESI := 6)"
    "ip c' = ip program_demo" using all by blast
  then show ?thesis by (intro exI [of _ ?k] exI [of _ c']) (simp add: program_demo_def)
qed

end
