(* ===== verification/System_Calls.thy ===== *)
theory System_Calls
  imports Stubs Entry
begin

text \<open>
  System calls from the C function that a program calls to its return: the stub of the C library, the trap, the handler
  of the kernel and the way back are put together.
\<close>

section \<open>A program on top of the kernel\<close>

record 'm user_cpu = cpu + kernel :: 'm

text \<open>The processor after the way to a program; the assembler reaches such a state by \<open>ret_to_ring3_runs\<close>.\<close>

definition load_regs :: "task_regs \<Rightarrow> 'a cpu_scheme \<Rightarrow> 'a cpu_scheme" where
  "load_regs R c = c\<lparr>gpr := (\<lambda>r. case r of EAX \<Rightarrow> eax R | EBX \<Rightarrow> ebx R | ECX \<Rightarrow> ecx R | EDX \<Rightarrow> edx R | ESI \<Rightarrow> esi R | EDI \<Rightarrow> edi R
       | EBP \<Rightarrow> ebp R | ESP \<Rightarrow> esp R), seg := (\<lambda>r. if r = CS then ucast (reg_cs R) else ucast (reg_ds R)),
     ip := eip R, flags := eflags R OR IF_FLAG, c_cr3 := reg_cr3 R\<rparr>"

lemma load_regs_runs: "runs_program R (load_regs R c)"
  by (simp add: runs_program_def load_regs_def)

text \<open>
  The trap at the address before \<open>at\<close>: the handler gets the frame and the registers that the entry code builds; it
  comes back to the same program, or another task goes on (\<open>Iret\<close>). \<open>sp0\<close> is the kernel stack of the task.
\<close>

definition kernel_trap :: "nat \<Rightarrow> u32 \<Rightarrow> u32 \<Rightarrow> u32 \<Rightarrow> 'a machine_scheme user_cpu \<Rightarrow> (unit, 'a machine_scheme user_cpu) res" where
  "kernel_trap n at sp0 v c =
     (case general_handler n (user_frame (unat v) 0 (c\<lparr>ip := at\<rparr>)) (user_regs (sp0 - 28) c) (kernel c) of
        Ret _ m \<Rightarrow> Ret () (c\<lparr>kernel := m\<rparr>)
      | Iret m \<Rightarrow>
          (if actual_task m = actual_task (kernel c)
           then (case tcbs m (actual_task m) of
               None \<Rightarrow> Fault (actual_task m)
             | Some t \<Rightarrow> Ret () ((load_regs (t_regs t) c)\<lparr>kernel := m\<rparr>))
           else Iret (c\<lparr>kernel := m\<rparr>))
      | Panic x \<Rightarrow> Panic x
      | Fault a \<Rightarrow> Fault a
      | Timeout \<Rightarrow> Timeout)"

section \<open>lseek\<close>

lemma lseek_trap:
  fixes c :: "'a machine_scheme user_cpu"
  assumes "actual_task (kernel c) = p" and "p \<noteq> NULL" and "tcbs (kernel c) p = Some t" and "task_id t > 0" and "at < VM_KERN_START"
    and "gpr c EAX = 18" and "0 \<le> sint (gpr c EBX)" and "sint (gpr c EBX) < int (length (used_fd t))"
    and "fd_ptr = used_fd t ! nat (sint (gpr c EBX))" and "fd_ptr \<noteq> NULL" and "fds (kernel c) fd_ptr = Some f"
    and "vnodes (kernel c) (fd_vnode f) = Some v" and "v_type v = VFS_FILE"
    and "uint (v_size v) < 2 ^ 31" and "fd_position f \<le> v_size v"
  shows "\<exists>c'. kernel_trap n at sp0 0x30 c = Ret () c' \<and> cells c' = cells c \<and> (\<forall>r. r \<notin> {EAX, ESI} \<longrightarrow> gpr c' r = gpr c r) \<and>
    (case seek_target (fd_position f) (v_size v) (gpr c ECX) (gpr c EDX) of
       None \<Rightarrow> gpr c' EAX = - 1 \<and> gpr c' ESI = (if gpr c EDX \<le> 2 then ENXIO else EINVAL) \<and> fds (kernel c') = fds (kernel c)
     | Some z \<Rightarrow> gpr c' EAX = word_of_int z \<and> gpr c' ESI = gpr c ESI \<and>
         fds (kernel c') = (fds (kernel c))(fd_ptr \<mapsto> f\<lparr>fd_position := word_of_int z\<rparr>))"
proof -
  let ?F = "user_frame (unat (0x30 :: u32)) 0 (c\<lparr>ip := at\<rparr>)" and ?I = "user_regs (sp0 - 28) c" and ?m = "kernel c"
  have I: "i_eax ?I = gpr c EAX" "i_ebx ?I = gpr c EBX" "i_ecx ?I = gpr c ECX" "i_edx ?I = gpr c EDX" by (simp_all add: user_regs_def)
  have "in_program ?m p t ?F" "int_number ?F = 48" using assms(1-5) by (simp_all add: in_program_def user_frame_def)
  from lseek_system_call [OF this, of ?I, unfolded I, OF assms(6-15), of n]
  obtain m' where m': "general_handler n ?F ?I ?m = Iret m'" "actual_task m' = p"
    "case seek_target (fd_position f) (v_size v) (gpr c ECX) (gpr c EDX) of
       None \<Rightarrow> fds m' = fds ?m \<and> tcbs m' = (tcbs ?m)(p \<mapsto> t\<lparr>t_regs := (saved_regs ?F ?I (t_regs t))
           \<lparr>eax := - 1, esi := if gpr c EDX \<le> 2 then ENXIO else EINVAL\<rparr>\<rparr>)
     | Some z \<Rightarrow> fds m' = (fds ?m)(fd_ptr \<mapsto> f\<lparr>fd_position := word_of_int z\<rparr>) \<and>
         tcbs m' = (tcbs ?m)(p \<mapsto> t\<lparr>t_regs := (saved_regs ?F ?I (t_regs t))\<lparr>eax := word_of_int z\<rparr>\<rparr>)"
    by (elim exE conjE)
  have r: "(case tcbs m' (actual_task m') of None \<Rightarrow> Fault (actual_task m')
      | Some t \<Rightarrow> Ret () ((load_regs (t_regs t) c)\<lparr>kernel := m'\<rparr>)) = kernel_trap n at sp0 0x30 c"
    using m'(1,2) assms(1) by (simp add: kernel_trap_def)
  show ?thesis
  proof (cases "seek_target (fd_position f) (v_size v) (gpr c ECX) (gpr c EDX)")
    case None
    then have "tcbs m' (actual_task m') = Some (t\<lparr>t_regs := (saved_regs ?F ?I (t_regs t))
        \<lparr>eax := - 1, esi := if gpr c EDX \<le> 2 then ENXIO else EINVAL\<rparr>\<rparr>)" "fds m' = fds ?m" using m'(2,3) by simp_all
    then show ?thesis unfolding r [symmetric]
      by (simp add: None load_regs_def all_regs saved_regs_def user_regs_def user_frame_def)
  next
    case (Some z)
    then have "tcbs m' (actual_task m') = Some (t\<lparr>t_regs := (saved_regs ?F ?I (t_regs t))\<lparr>eax := word_of_int z\<rparr>\<rparr>)"
      "fds m' = (fds ?m)(fd_ptr \<mapsto> f\<lparr>fd_position := word_of_int z\<rparr>)" using m'(2,3) by simp_all
    then show ?thesis unfolding r [symmetric]
      by (simp add: Some load_regs_def all_regs saved_regs_def user_regs_def user_frame_def)
  qed
qed

text \<open>
  C34: The function \<^verbatim>\<open>lseek\<close> of the C library on top of the kernel, from the call to the return. With an open regular file
  it returns to its caller with the stack pointer and the registers of the caller; the result is the target and the
  position of the file has moved there when the target lies in the file; otherwise the result is -1, \<^verbatim>\<open>errno\<close> is set
  and no position has changed. After a success \<^verbatim>\<open>errno\<close> holds whatever \<^verbatim>\<open>esi\<close> was in the caller.
\<close>

theorem lseek_call_correct:
  fixes c :: "'a machine_scheme user_cpu"
  assumes "actual_task (kernel c) = p" and "p \<noteq> NULL" and "tcbs (kernel c) p = Some t" and "task_id t > 0" and "at < VM_KERN_START"
    and "0 \<le> sint (arg_cell 0 c)" and "sint (arg_cell 0 c) < int (length (used_fd t))"
    and "fd_ptr = used_fd t ! nat (sint (arg_cell 0 c))" and "fd_ptr \<noteq> NULL" and "fds (kernel c) fd_ptr = Some f"
    and "vnodes (kernel c) (fd_vnode f) = Some v" and "v_type v = VFS_FILE"
    and "uint (v_size v) < 2 ^ 31" and "fd_position f \<le> v_size v"
    and "\<forall>j < 5. gpr c ESP - 4 * of_nat j \<noteq> errno_addr" and "on_int env = kernel_trap n at sp0"
  shows "\<exists>c'. exec env (stub_lseek errno_addr) c = Ret () c' \<and> ip c' = cells c (gpr c ESP) \<and> gpr c' ESP = gpr c ESP + 4 \<and>
    (\<forall>r \<in> {EBX, ECX, EDX, EDI, EBP}. gpr c' r = gpr c r) \<and>
    (case seek_target (fd_position f) (v_size v) (arg_cell 1 c) (arg_cell 2 c) of
       None \<Rightarrow> gpr c' EAX = - 1 \<and> cells c' errno_addr = (if arg_cell 2 c \<le> 2 then ENXIO else EINVAL) \<and> fds (kernel c') = fds (kernel c)
     | Some z \<Rightarrow> gpr c' EAX = word_of_int z \<and> cells c' errno_addr = gpr c ESI \<and>
         fds (kernel c') = (fds (kernel c))(fd_ptr \<mapsto> f\<lparr>fd_position := word_of_int z\<rparr>))"
proof -
  let ?rs = "[EBX, ECX, EDX]" and ?sp = "gpr c ESP"
  have st: "(stub_lseek errno_addr, 18, ?rs) \<in> set (stubs errno_addr)" by (simp add: stubs_def)
  note code = stub_scheme [OF st]
  obtain c1 where c1: "exec env (stub_before 18 ?rs) c = Ret () c1" "gpr c1 EAX = 18"
    "\<forall>i < length ?rs. gpr c1 (?rs ! i) = arg_cell i c" "gpr c1 ESP = ?sp - 4 - 4 * of_nat (length ?rs)" "gpr c1 EBP = ?sp - 4"
    "cells c1 (?sp - 4) = gpr c EBP" "cells c1 ?sp = cells c ?sp" "\<forall>i < length ?rs. cells c1 (?sp - 8 - 4 * of_nat i) = gpr c (?rs ! i)"
    "\<forall>r. r \<notin> set ?rs \<union> {EAX, EBP, ESP} \<longrightarrow> gpr c1 r = gpr c r" "cpu.more c1 = cpu.more c"
    using stub_before_runs [OF code(2), of env 18 c] by (elim exE conjE)
  have args: "gpr c1 EBX = arg_cell 0 c" "gpr c1 ECX = arg_cell 1 c" "gpr c1 EDX = arg_cell 2 c"
    using c1(3) by (auto simp: less_Suc_eq all_conj_distrib numeral_2_eq_2)
  have k: "kernel c1 = kernel c" using c1(10) by (cases c1, cases c) simp
  from lseek_trap [where c = c1, unfolded args k, OF assms(1-5) c1(2) assms(6-14), of n sp0]
  obtain c2 where c2: "on_int env 0x30 c1 = Ret () c2" "cells c2 = cells c1" "\<forall>r. r \<notin> {EAX, ESI} \<longrightarrow> gpr c2 r = gpr c1 r"
    "case seek_target (fd_position f) (v_size v) (arg_cell 1 c) (arg_cell 2 c) of
       None \<Rightarrow> gpr c2 EAX = - 1 \<and> gpr c2 ESI = (if arg_cell 2 c \<le> 2 then ENXIO else EINVAL) \<and> fds (kernel c2) = fds (kernel c)
     | Some z \<Rightarrow> gpr c2 EAX = word_of_int z \<and> gpr c2 ESI = gpr c1 ESI \<and>
         fds (kernel c2) = (fds (kernel c))(fd_ptr \<mapsto> f\<lparr>fd_position := word_of_int z\<rparr>)"
    unfolding assms(16) by (elim exE conjE)
  have s: "\<forall>i < length ?rs. cells c2 (?sp - 8 - 4 * of_nat i) = map (gpr c) ?rs ! i"
    using c2(2) c1(8) by (metis nth_map)
  have "gpr c2 ESP = ?sp - 4 - 4 * of_nat (length ?rs)" "gpr c2 EBP = ?sp - 4" "cells c2 (?sp - 4) = gpr c EBP" "cells c2 ?sp = cells c ?sp"
    using c1 c2(2,3) by simp_all
  from stub_after_runs [OF code(2) this s _ _, of errno_addr env] assms(15)
  obtain c3 where c3: "exec env (stub_after errno_addr ?rs) c2 = Ret () c3" "gpr c3 EAX = gpr c2 EAX" "ip c3 = cells c ?sp"
    "gpr c3 ESP = ?sp + 4" "gpr c3 EBP = gpr c EBP" "\<forall>i < length ?rs. gpr c3 (?rs ! i) = map (gpr c) ?rs ! i"
    "cells c3 = (cells c2)(errno_addr := gpr c2 ESI)" "\<forall>r. r \<notin> set ?rs \<and> r \<noteq> EBP \<and> r \<noteq> ESP \<longrightarrow> gpr c3 r = gpr c2 r"
    "cpu.more c3 = cpu.more c2" by auto
  have run: "exec env (stub_lseek errno_addr) c = Ret () c3"
    unfolding code(1) exec_append using c1(1) c2(1) c3(1) by (simp add: exec1_def)
  have regs: "\<forall>r \<in> {EBX, ECX, EDX, EDI, EBP}. gpr c3 r = gpr c r"
    using c3(5,6,8) c2(3) c1(9) by (auto simp: less_Suc_eq all_conj_distrib)
  have "kernel c3 = kernel c2" using c3(9) by (cases c3, cases c2) simp
  moreover have "gpr c1 ESI = gpr c ESI" using c1(9) by simp
  ultimately show ?thesis using run regs c3(2-4,7) c2(4)
    by (intro exI [of _ c3]) (simp split: option.splits)
qed

definition caller_demo :: "machine user_cpu" where
  "caller_demo = \<lparr>gpr = (\<lambda>r. if r = ESP then 0xbfff0000 else 5), seg = (\<lambda>r. if r = CS then 0x1b else 0x23), ip = 0x8048000, flags = 0x202,
     c_cr0 = 0x80000001, c_cr3 = 0x1000, gdtr = 0, idtr = 0, tr = 0x28,
     cells = (\<lambda>a. if a = 0xbfff0000 then 0x8048100 else if a = 0xbfff0004 then 2 else if a = 0xbfff0008 then 100
       else if a = 0xbfff000c then 1 else 0), kernel = machine_demo\<rparr>"

theorem lseek_call_correct_witness:
  "\<exists>c'. exec \<lparr>on_int = kernel_trap 5 0x8049000 0xc0208000, on_call = (\<lambda>_ c. Ret () c)\<rparr> (stub_lseek 0x9000) caller_demo = Ret () c' \<and>
     gpr c' EAX = 700 \<and> ip c' = 0x8048100 \<and> map_option fd_position (fds (kernel c') 0xc0110200) = Some 700"
proof -
  let ?t = "(snd (snd file_demo))\<lparr>task_id := 2\<rparr>" and ?env = "\<lparr>on_int = kernel_trap 5 0x8049000 0xc0208000, on_call = (\<lambda>_ c. Ret () c)\<rparr>"
  have m: "kernel caller_demo = machine_demo" "gpr caller_demo ESP = 0xbfff0000" by (simp_all add: caller_demo_def)
  have args: "arg_cell 0 caller_demo = 2" "arg_cell 1 caller_demo = 100" "arg_cell 2 caller_demo = 1" "cells caller_demo 0xbfff0000 = 0x8048100"
    by (simp_all add: arg_cell_def caller_demo_def)
  have d: "fds machine_demo 0xc0110200 = Some (fst file_demo)" "vnodes machine_demo 0xc0120000 = Some (fst (snd file_demo))"
    by (simp_all add: machine_demo_def sys.defs sys_demo_def dev.defs)
  have k: "seek_target (fd_position (fst file_demo)) (v_size (fst (snd file_demo))) 100 1 = Some 700"
    by (simp add: seek_target_def file_demo_def)
  have e: "\<forall>j < 5. gpr caller_demo ESP - 4 * of_nat j \<noteq> (0x9000 :: u32)"
  proof (intro allI impI)
    fix j :: nat assume "j < 5"
    then have "j = 0 \<or> j = 1 \<or> j = 2 \<or> j = 3 \<or> j = 4" by presburger
    then show "gpr caller_demo ESP - 4 * of_nat j \<noteq> (0x9000 :: u32)" by (elim disjE) (simp_all add: m)
  qed
  have r: "actual_task machine_demo = 0xc0106000" "tcbs machine_demo 0xc0106000 = Some ?t" "0 < task_id ?t"
    using machine_demo_runs [of 48] by (simp_all add: in_program_def)
  have f: "0xc0110200 = used_fd ?t ! nat (sint (2 :: u32))" "sint (2 :: u32) < int (length (used_fd ?t))" "fd_vnode (fst file_demo) = 0xc0120000"
    "v_type (fst (snd file_demo)) = VFS_FILE" "uint (v_size (fst (snd file_demo))) < 2 ^ 31" "fd_position (fst file_demo) \<le> v_size (fst (snd file_demo))"
    by (simp_all add: file_demo_def)
  note L = lseek_call_correct [where c = caller_demo and env = ?env and n = 5 and at = "0x8049000" and ?sp0.0 = "0xc0208000" and errno_addr = "0x9000"
      and t = ?t and f = "fst file_demo" and v = "fst (snd file_demo)", unfolded m(1) args f(3), OF r(1) _ r(2,3) _ _ f(2) f(1) _ d f(4-6) e]
  then obtain c' where "exec ?env (stub_lseek 0x9000) caller_demo = Ret () c'" "ip c' = 0x8048100" "gpr c' EAX = word_of_int 700"
    "fds (kernel c') = (fds machine_demo)(0xc0110200 \<mapsto> (fst file_demo)\<lparr>fd_position := word_of_int 700\<rparr>)"
    unfolding k option.simps m(2) args(4) by auto
  then show ?thesis by (intro exI [of _ c']) simp
qed

end
