(* ===== verification/Libc_Print.thy ===== *)
theory Libc_Print
  imports Devices
begin

text \<open>
  Output of the C library: \<^verbatim>\<open>libc/stdio/printf.c\<close>, \<^verbatim>\<open>libc/stdio/perror.c\<close> and \<^verbatim>\<open>libc/string/strlen.c\<close>. A program
  reaches the kernel only through system calls; the functions of the library take them as an argument, a
  record with one field per call, and their theorems hold for all of them. The stubs of \<^verbatim>\<open>libc/arch/i386\<close> store
  what they find in \<^verbatim>\<open>esi\<close> into \<^verbatim>\<open>errno\<close> after every call, so each call also delivers a new \<^verbatim>\<open>errno\<close>.
\<close>

section \<open>Programs and system calls\<close>

record 'w os =
  os_write :: "int \<Rightarrow> u8 list \<Rightarrow> 'w \<Rightarrow> int \<times> u32 \<times> 'w"
  os_read :: "int \<Rightarrow> nat \<Rightarrow> 'w \<Rightarrow> (int \<times> u8 list) \<times> u32 \<times> 'w"
  os_sbrk :: "u32 \<Rightarrow> 'w \<Rightarrow> u32 \<times> u32 \<times> 'w"
  os_fork :: "'w \<Rightarrow> u32 \<times> u32 \<times> 'w"
  os_waitpid :: "u32 \<Rightarrow> 'w \<Rightarrow> int \<times> u32 \<times> 'w"
  os_execve :: "u8 list \<Rightarrow> u8 list list \<Rightarrow> 'w \<Rightarrow> (int \<times> u32 \<times> 'w) + 'w"
  os_exit :: "u32 \<Rightarrow> 'w \<Rightarrow> 'w"
  os_open :: "u8 list \<Rightarrow> u32 \<Rightarrow> 'w \<Rightarrow> int \<times> u32 \<times> 'w"
  os_close :: "int \<Rightarrow> 'w \<Rightarrow> int \<times> u32 \<times> 'w"
  os_remove :: "u8 list \<Rightarrow> 'w \<Rightarrow> int \<times> u32 \<times> 'w"
  os_mkdir :: "u8 list \<Rightarrow> u32 \<Rightarrow> 'w \<Rightarrow> int \<times> u32 \<times> 'w"
  os_rmdir :: "u8 list \<Rightarrow> 'w \<Rightarrow> int \<times> u32 \<times> 'w"
  os_readdir :: "int \<Rightarrow> 'w \<Rightarrow> (int \<times> u8 list) \<times> u32 \<times> 'w"

text \<open>The state of a program: its \<^verbatim>\<open>errno\<close> and the rest of the system.\<close>

record 'w proc =
  p_errno :: u32
  world :: 'w

definition trap :: "('w \<Rightarrow> 'r \<times> u32 \<times> 'w) \<Rightarrow> ('w, 'a) proc_scheme \<Rightarrow> ('r, ('w, 'a) proc_scheme) res" where
  "trap call s = (case call (world s) of (r, e, w) \<Rightarrow> Ret r (s\<lparr>p_errno := e, world := w\<rparr>))"

abbreviation (input) STDIN :: int where "STDIN \<equiv> 0"
abbreviation (input) STDOUT :: int where "STDOUT \<equiv> 1"
abbreviation (input) TERMINAL_RESOLUTION :: nat where "TERMINAL_RESOLUTION \<equiv> 1920"

text \<open>\<^verbatim>\<open>exit\<close> does not return: the program ends and the system goes on.\<close>

definition exit_program :: "'w os \<Rightarrow> u32 \<Rightarrow> ('w, 'b) proc_scheme \<Rightarrow> ('a, ('w, 'b) proc_scheme) res" where
  "exit_program os status s = Iret (s\<lparr>world := os_exit os status (world s)\<rparr>)"

section \<open>Numbers\<close>

definition pf_add_to_start :: "u8 list \<Rightarrow> u8 \<Rightarrow> nat \<Rightarrow> u8 list option" where
  "pf_add_to_start dest c last_idx =
     (if last_idx + 1 < length dest then Some ((shift_up last_idx dest)[0 := c, last_idx + 1 := 0]) else None)"

function pf_itoa_loop :: "nat \<Rightarrow> nat \<Rightarrow> nat \<Rightarrow> nat \<Rightarrow> u8 list \<Rightarrow> (nat \<times> u8 list) option" where
  "pf_itoa_loop n base max_len idx dest =
     (if base < 2 then None
      else if n > 0 \<and> idx < max_len then
        (case pf_add_to_start dest (digit_char (n mod base)) idx of
           None \<Rightarrow> None
         | Some dest \<Rightarrow> pf_itoa_loop (n div base) base max_len (idx + 1) dest)
      else Some (idx, dest))"
  by pat_completeness auto
termination by (relation "measure (\<lambda>(n, _). n)") auto

declare pf_itoa_loop.simps [simp del]

definition pf_itoa :: "u32 \<Rightarrow> u8 list \<Rightarrow> nat \<Rightarrow> nat \<Rightarrow> (nat \<times> u8 list) option" where
  "pf_itoa n dest base max_len =
     (if n = 0 then if dest = [] then None else Some (1, dest[0 := 0x30])
      else
        (let neg = sint n < 0; n = (if neg then - n else n) in
         case if sint n > 0 then pf_itoa_loop (unat n) base max_len 0 dest else Some (0, dest) of
           None \<Rightarrow> None
         | Some (idx, dest) \<Rightarrow>
             if neg then (case pf_add_to_start dest 0x2d idx of None \<Rightarrow> None | Some dest \<Rightarrow> Some (idx + 1, dest))
             else Some (idx, dest)))"

section \<open>printf\<close>

text \<open>
  The buffer and the number of characters in it. \<open>None\<close> is a write behind the buffer or an argument that is
  not there.
\<close>

type_synonym pf_buffer = "u8 list \<times> nat"

definition pf_char :: "u8 \<Rightarrow> pf_buffer \<Rightarrow> pf_buffer option" where
  "pf_char c b = (case b of (string, len) \<Rightarrow> if len < length string then Some (string[len := c], len + 1) else None)"

definition pf_number :: "u32 \<Rightarrow> nat \<Rightarrow> pf_buffer \<Rightarrow> pf_buffer option" where
  "pf_number n base b =
     (case b of (string, len) \<Rightarrow>
        case pf_itoa n (drop len string) base (TERMINAL_RESOLUTION - len) of
          None \<Rightarrow> None
        | Some (k, dest) \<Rightarrow> Some (take len string @ dest, len + k))"

fun pf_string :: "u8 list \<Rightarrow> pf_buffer \<Rightarrow> pf_buffer option" where
  "pf_string [] b = Some b"
| "pf_string (c # cs) b =
     (if snd b < TERMINAL_RESOLUTION then case pf_char c b of None \<Rightarrow> None | Some b \<Rightarrow> pf_string cs b else Some b)"

definition bindO :: "'a option \<Rightarrow> ('a \<Rightarrow> 'b option) \<Rightarrow> 'b option" where
  "bindO m f = (case m of None \<Rightarrow> None | Some x \<Rightarrow> f x)"

fun printf_loop :: "u8 list \<Rightarrow> karg list \<Rightarrow> pf_buffer \<Rightarrow> pf_buffer option" where
  "printf_loop [] args b = Some b"
| "printf_loop [c] args b =
     (if snd b < TERMINAL_RESOLUTION then if c = PERCENT then Some b else pf_char c b else Some b)"
| "printf_loop (c # d # fmt) args b =
     (if snd b < TERMINAL_RESOLUTION then
        if c = PERCENT then
          if d = PERCENT then bindO (pf_char PERCENT b) (printf_loop fmt args)
          else if d = 0x64 then
            (case args of Kint n # args \<Rightarrow> bindO (pf_number n 10 b) (printf_loop fmt args) | _ \<Rightarrow> None)
          else if d = 0x78 then
            (case args of Kint n # args \<Rightarrow> bindO (pf_number n 16 b) (printf_loop fmt args) | _ \<Rightarrow> None)
          else if d = 0x73 then
            (case args of
               Kstr str # args \<Rightarrow>
                 bindO (strlen str) (\<lambda>n. bindO (pf_string (take n str) b) (printf_loop fmt args))
             | _ \<Rightarrow> None)
          else printf_loop fmt args b
        else bindO (pf_char c b) (printf_loop (d # fmt) args)
      else Some b)"

text \<open>\<open>junk\<close> is what the stack holds where the buffer lies.\<close>

definition printf ::
  "'w os \<Rightarrow> u8 list \<Rightarrow> u8 list \<Rightarrow> karg list \<Rightarrow> ('w, 'a) proc_scheme \<Rightarrow> (int, ('w, 'a) proc_scheme) res" where
  "printf os junk format args s =
     (case bindO (strlen format) (\<lambda>n. printf_loop (take n format) args (junk, 0)) of
        None \<Rightarrow> Fault NULL
      | Some (string, string_len) \<Rightarrow>
          bindR (trap (os_write os STDOUT (take string_len string)) s) (\<lambda>_ s. Ret (int string_len) s))"

section \<open>perror\<close>

definition errno_str :: "string list" where
  "errno_str =
     ['''', ''Operation not permitted'', ''No such file or directory'', ''No such process'', ''Interrupted system call'',
      ''I/O error'', ''No such device or address'', ''Argument list too long'', ''Exec format error'', ''Bad file number'',
      ''No child processes'', ''Try again'', ''Out of memory'', ''Permission denied'', ''Bad address'',
      ''Block device required'', ''Device or resource busy'', ''File exists'', ''Cross-device link'', ''No such device'',
      ''Not a directory'', ''Is a directory'', ''Invalid argument'', ''File table overflow'', ''Too many open files'',
      ''Not a typewriter'', ''Text file busy'', ''File too large'', ''No space left on device'', ''Illegal seek'',
      ''Read-only file system'', ''Too many links'', ''Broken pipe'', ''Math argument out of domain of func'',
      ''Math result not representable'']"

definition ctext :: "string \<Rightarrow> u8 list" where
  "ctext cs = map of_char cs @ [0]"

definition cline :: "string \<Rightarrow> u8 list" where
  "cline cs = map of_char cs @ [0x0a, 0]"

text \<open>The index is signed: a negative \<^verbatim>\<open>errno\<close> reads in front of the table.\<close>

definition perror :: "'w os \<Rightarrow> u8 list \<Rightarrow> u8 list \<Rightarrow> ('w, 'a) proc_scheme \<Rightarrow> (unit, ('w, 'a) proc_scheme) res" where
  "perror os junk str s =
     bindR (if sint (p_errno s) < 35 then
              if sint (p_errno s) < 0 then Fault NULL
              else printf os junk (cline ''%s: %s'') [Kstr str, Kstr (ctext (errno_str ! unat (p_errno s)))] s
            else printf os junk (cline ''%s: Errno out of range: %d'') [Kstr str, Kint (p_errno s)] s) (\<lambda>_ s.
     Ret () s)"

section \<open>What printf prints\<close>

text \<open>The text of a number; the negation of the smallest one wraps, and no digit is printed.\<close>

definition int_text :: "nat \<Rightarrow> u32 \<Rightarrow> u8 list" where
  "int_text base n =
     (if n = 0 then [0x30]
      else if n = 0x80000000 then [0x2d]
      else if sint n < 0 then 0x2d # digits base (unat (- n))
      else digits base (unat n))"

fun expand :: "u8 list \<Rightarrow> karg list \<Rightarrow> u8 list option" where
  "expand [] args = Some []"
| "expand [c] args = Some (if c = PERCENT then [] else [c])"
| "expand (c # d # fmt) args =
     (if c = PERCENT then
        if d = PERCENT then map_option ((#) PERCENT) (expand fmt args)
        else if d = 0x64 then
          (case args of Kint n # args \<Rightarrow> map_option ((@) (int_text 10 n)) (expand fmt args) | _ \<Rightarrow> None)
        else if d = 0x78 then
          (case args of Kint n # args \<Rightarrow> map_option ((@) (int_text 16 n)) (expand fmt args) | _ \<Rightarrow> None)
        else if d = 0x73 then
          (case args of
             Kstr str # args \<Rightarrow> if 0 \<in> set str then map_option ((@) (cstr str)) (expand fmt args) else None
           | _ \<Rightarrow> None)
        else expand fmt args
      else map_option ((#) c) (expand (d # fmt) args))"

text \<open>\<open>holds b cs\<close>: the buffer is as long as the array in \<^verbatim>\<open>printf\<close> and begins with the characters \<open>cs\<close>.\<close>

definition holds :: "pf_buffer \<Rightarrow> u8 list \<Rightarrow> bool" where
  "holds b cs \<longleftrightarrow> length (fst b) = TERMINAL_RESOLUTION + 1 \<and> snd b = length cs \<and> take (length cs) (fst b) = cs"

lemma pf_char_holds:
  assumes "holds b cs" and "length cs \<le> TERMINAL_RESOLUTION"
  shows "\<exists>b'. pf_char c b = Some b' \<and> holds b' (cs @ [c])"
proof -
  obtain str where b: "b = (str, length cs)" "length str = 1921" "take (length cs) str = cs"
    using assms(1) by (cases b) (auto simp: holds_def)
  then have "take (length cs + 1) (str[length cs := c]) = cs @ [c]"
    using assms(2) by (simp add: take_Suc_conv_app_nth)
  then show ?thesis using b assms(2) by (simp add: pf_char_def holds_def)
qed

lemma pf_string_holds:
  assumes "holds b cs" and "length cs + length ds \<le> TERMINAL_RESOLUTION"
  shows "\<exists>b'. pf_string ds b = Some b' \<and> holds b' (cs @ ds)"
  using assms
proof (induction ds arbitrary: b cs)
  case (Cons d ds)
  obtain b' where b': "pf_char d b = Some b'" "holds b' (cs @ [d])"
    using pf_char_holds [OF Cons.prems(1), of d] Cons.prems(2) by auto
  moreover have "snd b < 1920" using Cons.prems by (simp add: holds_def)
  ultimately show ?case using Cons.IH [OF b'(2)] Cons.prems(2) by auto
qed simp

lemma pf_add_conv: "pf_add_to_start = add_to_start"
  by (simp add: fun_eq_iff pf_add_to_start_def add_to_start_def)

lemma pf_itoa_loop_conv:
  assumes "2 \<le> base" and "idx + length (digits base n) \<le> max_len" and "max_len + 1 \<le> length dest"
  shows "\<exists>d. pf_itoa_loop n base max_len idx dest = Some (idx + length (digits base n), d) \<and> length d = length dest \<and>
    take (idx + length (digits base n)) d = digits base n @ take idx dest"
  using assms
proof (induction n base max_len idx dest rule: pf_itoa_loop.induct)
  case (1 n base max_len idx dest)
  show ?case
  proof (cases "n = 0")
    case True
    then show ?thesis using "1.prems"(1) by (subst pf_itoa_loop.simps) (simp add: digits.simps)
  next
    case False
    let ?c = "digit_char (n mod base)" and ?q = "n div base"
    have dg: "digits base n = digits base ?q @ [?c]" using False "1.prems"(1) by (subst digits.simps) simp
    have i: "idx < max_len" "idx + 1 < length dest" using "1.prems"(2,3) dg by auto
    let ?d = "?c # take idx dest @ 0 # drop (idx + 2) dest"
    have ad: "pf_add_to_start dest ?c idx = Some ?d" using add_to_start_conv [OF i(2)] by (simp add: pf_add_conv)
    have ld: "length ?d = length dest" using i(2) by simp
    have "\<exists>d. pf_itoa_loop ?q base max_len (idx + 1) ?d = Some (idx + 1 + length (digits base ?q), d) \<and> length d = length ?d \<and>
        take (idx + 1 + length (digits base ?q)) d = digits base ?q @ take (idx + 1) ?d"
      by (rule "1.IH") (use False i "1.prems" ad dg ld in auto)
    moreover have "take (idx + 1) ?d = ?c # take idx dest" using i(2) by simp
    ultimately show ?thesis
      using False i "1.prems"(1) ad ld dg by (subst pf_itoa_loop.simps) auto
  qed
qed

lemma sint_zero: "sint (n :: u32) = 0 \<Longrightarrow> n = 0"
  using unat32_bound [of n] by (auto simp: sint_unat uint_0_iff split: if_splits)

lemma sint_minus_pos:
  assumes "sint (n :: u32) < 0" and "n \<noteq> 0x80000000"
  shows "0 < sint (- n)"
proof -
  have u: "unat n > 2147483648" using assms sint_unat [of n] by (auto simp: word_unat_eq_iff split: if_splits)
  then have "unat (- n) = 4294967296 - unat n" using unat_neg [of n] by fastforce
  then have "unat (- n) < 2147483648" "0 < unat (- n)" using u unat32_bound [of n] by linarith+
  then show ?thesis using sint_unat [of "- n"] by (metis of_nat_0_less_iff)
qed

lemma pf_itoa_conv:
  assumes "base = 10 \<or> base = 16" and "length (int_text base n) \<le> max_len" and "max_len + 1 \<le> length dest"
  shows "\<exists>d. pf_itoa n dest base max_len = Some (length (int_text base n), d) \<and> length d = length dest \<and>
    take (length (int_text base n)) d = int_text base n"
proof -
  have b: "2 \<le> base" using assms(1) by auto
  have ne: "dest \<noteq> []" using assms(3) by auto
  consider "n = 0" | "n = 0x80000000" | "n \<noteq> 0" "n \<noteq> 0x80000000" "sint n < 0" | "n \<noteq> 0" "0 < sint n"
    using sint_zero [of n] by fastforce
  then show ?thesis
  proof cases
    case 1
    then show ?thesis using ne by (cases dest) (auto simp: pf_itoa_def int_text_def)
  next
    case 2
    then have "int_text base n = [0x2d]" "sint n < 0" "- n = n" by (simp_all add: int_text_def sint_unat)
    moreover have "pf_add_to_start dest 0x2d 0 = Some (0x2d # 0 # drop 2 dest)"
      using add_to_start_conv [of 0 dest] assms(2,3) calculation(1) by (simp add: pf_add_conv numeral_2_eq_2)
    ultimately show ?thesis using 2 assms(2,3) by (simp add: pf_itoa_def)
  next
    case 3
    let ?m = "unat (- n)"
    have it: "int_text base n = 0x2d # digits base ?m" using 3 by (simp add: int_text_def)
    obtain d where d: "pf_itoa_loop ?m base max_len 0 dest = Some (length (digits base ?m), d)" "length d = length dest"
      "take (length (digits base ?m)) d = digits base ?m"
      using pf_itoa_loop_conv [OF b, of 0 ?m max_len dest] assms(2,3) it by auto
    have k: "length (digits base ?m) + 1 < length d" using d(2) assms(2,3) it by simp
    have "pf_add_to_start d 0x2d (length (digits base ?m)) =
        Some (0x2d # digits base ?m @ 0 # drop (length (digits base ?m) + 2) d)"
      using add_to_start_conv [OF k] d(3) by (simp add: pf_add_conv)
    then show ?thesis using 3 d it k sint_minus_pos [OF 3(3,2)] by (simp add: pf_itoa_def Let_def)
  next
    case 4
    then have it: "int_text base n = digits base (unat n)" by (auto simp: int_text_def sint_unat)
    have "\<not> sint n < 0" using 4 by simp
    then show ?thesis using pf_itoa_loop_conv [OF b, of 0 "unat n" max_len dest] assms(2,3) it 4 by (auto simp: pf_itoa_def Let_def)
  qed
qed

lemma pf_number_holds:
  assumes "holds b cs" and "base = 10 \<or> base = 16" and "length cs + length (int_text base n) \<le> TERMINAL_RESOLUTION"
  shows "\<exists>b'. pf_number n base b = Some b' \<and> holds b' (cs @ int_text base n)"
proof -
  obtain str where b: "b = (str, length cs)" "length str = 1921" "take (length cs) str = cs"
    using assms(1) by (cases b) (auto simp: holds_def)
  obtain d where d: "pf_itoa n (drop (length cs) str) base (1920 - length cs) = Some (length (int_text base n), d)"
    "length d = 1921 - length cs" "take (length (int_text base n)) d = int_text base n"
    using pf_itoa_conv [OF assms(2), of n "1920 - length cs" "drop (length cs) str"] assms(3) b(2)
    by (auto simp: le_diff_conv2)
  then show ?thesis using b assms(3) by (auto simp: pf_number_def holds_def)
qed

lemma bindO_step:
  assumes "\<exists>b'. m = Some b' \<and> holds b' (cs @ ds)" and "map_option ((@) ds) e = Some out"
    and "length cs + length out \<le> TERMINAL_RESOLUTION"
    and "\<And>b cs out. holds b cs \<Longrightarrow> e = Some out \<Longrightarrow> length cs + length out \<le> TERMINAL_RESOLUTION \<Longrightarrow>
      \<exists>b'. f b = Some b' \<and> holds b' (cs @ out)"
  shows "\<exists>b'. bindO m f = Some b' \<and> holds b' (cs @ out)"
proof -
  obtain b' out' where "m = Some b'" "holds b' (cs @ ds)" "e = Some out'" "out = ds @ out'" using assms(1,2) by auto
  then show ?thesis using assms(3) assms(4) [of b' "cs @ ds" out'] by (auto simp: bindO_def)
qed

lemma map_append_one: "map_option ((@) [c]) e = map_option ((#) c) e"
  by (cases e) simp_all

lemma printf_loop_holds:
  assumes "holds b cs" and "expand fmt args = Some out" and "length cs + length out \<le> TERMINAL_RESOLUTION"
  shows "\<exists>b'. printf_loop fmt args b = Some b' \<and> holds b' (cs @ out)"
  using assms
proof (induction fmt args arbitrary: b cs out rule: expand.induct)
  case (1 args)
  then show ?case by simp
next
  case (2 c args)
  then show ?case using pf_char_holds [OF 2(1), of c] by (cases "snd b < 1920"; cases b) (auto simp: holds_def split: if_splits)
next
  case (3 c d fmt args)
  show ?case
  proof (cases "snd b < 1920")
    case False
    then have "length out = 0" using "3.prems"(1,3) unfolding holds_def by linarith
    then have "out = []" by simp
    then show ?thesis using False "3.prems"(1) by simp
  next
    case room: True
    have len: "length cs \<le> 1920" using "3.prems"(3) by simp
    consider "c \<noteq> PERCENT" | "c = PERCENT" "d = PERCENT" | n rest where "c = PERCENT" "d = 0x64" "args = Kint n # rest"
      | n rest where "c = PERCENT" "d = 0x78" "args = Kint n # rest" | str rest where "c = PERCENT" "d = 0x73" "args = Kstr str # rest" "0 \<in> set str"
      | "c = PERCENT" "d \<notin> {PERCENT, 0x64, 0x78, 0x73}"
      using "3.prems"(2) by (auto split: if_splits list.splits karg.splits)
    then show ?thesis
    proof cases
      case 1
      have "\<exists>b'. bindO (pf_char c b) (printf_loop (d # fmt) args) = Some b' \<and> holds b' (cs @ out)"
        by (rule bindO_step [where ds = "[c]" and e = "expand (d # fmt) args"])
          (use pf_char_holds [OF "3.prems"(1) len, of c] "3.prems" "3.IH" 1 in \<open>simp_all add: map_append_one\<close>)
      then show ?thesis using 1 room by simp
    next
      case 2
      have "\<exists>b'. bindO (pf_char PERCENT b) (printf_loop fmt args) = Some b' \<and> holds b' (cs @ out)"
        by (rule bindO_step [where ds = "[PERCENT]" and e = "expand fmt args"])
          (use pf_char_holds [OF "3.prems"(1) len, of PERCENT] "3.prems" "3.IH" 2 in \<open>simp_all add: map_append_one\<close>)
      then show ?thesis using 2 room by simp
    next
      case (3 n rest)
      have "\<exists>b'. bindO (pf_number n 10 b) (printf_loop fmt rest) = Some b' \<and> holds b' (cs @ out)"
        by (rule bindO_step [where ds = "int_text 10 n" and e = "expand fmt rest"])
          (use pf_number_holds [OF "3.prems"(1), of 10 n] "3.prems" "3.IH" 3 in auto)
      then show ?thesis using 3 room by simp
    next
      case (4 n rest)
      have "\<exists>b'. bindO (pf_number n 16 b) (printf_loop fmt rest) = Some b' \<and> holds b' (cs @ out)"
        by (rule bindO_step [where ds = "int_text 16 n" and e = "expand fmt rest"])
          (use pf_number_holds [OF "3.prems"(1), of 16 n] "3.prems" "3.IH" 4 in auto)
      then show ?thesis using 4 room by simp
    next
      case (5 str rest)
      have t: "take (length (cstr str)) str = cstr str" by (metis cstr_def takeWhile_eq_take)
      have "\<exists>b'. bindO (pf_string (cstr str) b) (printf_loop fmt rest) = Some b' \<and> holds b' (cs @ out)"
        by (rule bindO_step [where ds = "cstr str" and e = "expand fmt rest"])
          (use pf_string_holds [OF "3.prems"(1), of "cstr str"] "3.prems" "3.IH" 5 in auto)
      then show ?thesis using 5 room t by (simp add: strlen_conv bindO_def)
    next
      case 6
      then show ?thesis using "3.prems" "3.IH" room by auto
    qed
  qed
qed

lemma printf_run:
  assumes "0 \<in> set format" and "expand (cstr format) args = Some out" and "length out \<le> TERMINAL_RESOLUTION"
    and "length junk = TERMINAL_RESOLUTION + 1"
  shows "printf os junk format args s =
    bindR (trap (os_write os STDOUT out) s) (\<lambda>_ s. Ret (int (length out)) s)"
proof -
  have "holds (junk, 0) []" using assms(4) by (simp add: holds_def)
  from printf_loop_holds [OF this assms(2)] obtain str where
    "printf_loop (cstr format) args (junk, 0) = Some (str, length out)" "take (length out) str = out"
    using assms(3) by (auto simp: holds_def)
  moreover have "take (length (cstr format)) format = cstr format" by (metis cstr_def takeWhile_eq_take)
  ultimately show ?thesis using assms(1) by (simp add: printf_def strlen_conv bindO_def)
qed

text \<open>
  C35: When the text of a format and its arguments fits the buffer of \<^verbatim>\<open>printf\<close>, \<^verbatim>\<open>printf\<close> writes exactly this text to
  the standard output, with one system call, and returns its length.
\<close>

theorem printf_correct:
  assumes "0 \<in> set format" and "expand (cstr format) args = Some out" and "length out \<le> TERMINAL_RESOLUTION"
    and "length junk = TERMINAL_RESOLUTION + 1"
  shows "printf os junk format args s =
    bindR (trap (os_write os STDOUT out) s) (\<lambda>_ s. Ret (int (length out)) s)"
  using assms by (rule printf_run)

text \<open>A system that only records what is written.\<close>

definition os_demo :: "u8 list list os" where
  "os_demo = \<lparr>os_write = (\<lambda>fd bs w. (int (length bs), 0, w @ [bs])), os_read = (\<lambda>_ _ w. ((0, []), 0, w)),
     os_sbrk = (\<lambda>_ w. (0, 12, w)), os_fork = (\<lambda>w. (2, 0, w)), os_waitpid = (\<lambda>_ w. (0, 0, w)), os_execve = (\<lambda>_ _ w. Inl (- 1, 2, w)), os_exit = (\<lambda>_ w. w),
     os_open = (\<lambda>_ _ w. (- 1, 2, w)), os_close = (\<lambda>_ w. (0, 0, w)), os_remove = (\<lambda>_ w. (- 1, 2, w)),
     os_mkdir = (\<lambda>_ _ w. (- 1, 17, w)), os_rmdir = (\<lambda>_ w. (- 1, 2, w)), os_readdir = (\<lambda>_ w. ((0, []), 0, w))\<rparr>"

theorem printf_correct_witness:
  "printf os_demo (replicate 1921 0) (cline ''Exit code: %d'') [Kint (- 5)] \<lparr>p_errno = 3, world = []\<rparr> =
     Ret 14 \<lparr>p_errno = 0, world = [map of_char ''Exit code: -5'' @ [0x0a]]\<rparr>"
  using printf_correct [of "cline ''Exit code: %d''" "[Kint (- 5)]" "map of_char ''Exit code: -5'' @ [0x0a]" "replicate 1921 0"
      os_demo "\<lparr>p_errno = 3, world = []\<rparr>"]
  by (simp add: cline_def int_text_def digits.simps digit_char_def sint_unat trap_def os_demo_def)

end
