(* ===== verification/Libc_Heap.thy ===== *)
theory Libc_Heap
  imports Libc_Print
begin

text \<open>
  The heap of the C library, \<^verbatim>\<open>libc/stdlib/malloc.c\<close> and \<^verbatim>\<open>libc/stdlib/free.c\<close>. The code was copied from the heap of the
  kernel; it takes its memory from \<^verbatim>\<open>sbrk\<close>, grows on demand, and returns where the kernel panics. The structures of a
  chunk and of a bin are the same in both headers.
\<close>

section \<open>Operations\<close>

record 'w uheap = "'w proc" +
  u_initialized :: bool
  u_bins :: "nat \<Rightarrow> bin"
  u_void_chunk :: ptr
  u_chunks :: "ptr \<rightharpoonup> chunk"
  u_heap_size :: u32
  u_stale :: "ptr \<Rightarrow> u32"

abbreviation (input) u_get_chunk :: "ptr \<Rightarrow> ('w, 'a) uheap_scheme \<Rightarrow> (chunk, ('w, 'a) uheap_scheme) res" where
  "u_get_chunk p s \<equiv> load u_chunks p s"

abbreviation (input) u_set_chunk ::
  "ptr \<Rightarrow> (chunk \<Rightarrow> chunk) \<Rightarrow> ('w, 'a) uheap_scheme \<Rightarrow> (unit, ('w, 'a) uheap_scheme) res" where
  "u_set_chunk p f s \<equiv> modify u_chunks u_chunks_update p f s"

abbreviation (input) DEFAULT_HEAP_SIZE :: u32 where "DEFAULT_HEAP_SIZE \<equiv> 8192"
abbreviation (input) EXPAND_SIZE_OFF :: u32 where "EXPAND_SIZE_OFF \<equiv> 4096"

definition u_set_bin :: "nat \<Rightarrow> (bin \<Rightarrow> bin) \<Rightarrow> ('w, 'a) uheap_scheme \<Rightarrow> ('w, 'a) uheap_scheme" where
  "u_set_bin i f s = s\<lparr>u_bins := (u_bins s)(i := f (u_bins s i))\<rparr>"

definition u_raw_chunk :: "ptr \<Rightarrow> ('w, 'a) uheap_scheme \<Rightarrow> chunk" where
  "u_raw_chunk p s =
     (case u_chunks s p of
        Some c \<Rightarrow> c
      | None \<Rightarrow> \<lparr>chunk_size = 0, chunk_free = False, prev_free = False,
          prev_size = u_stale s (p + 4), ch_prev = u_stale s (p + 8), ch_next = u_stale s (p + 12)\<rparr>)"

definition u_create_chunk :: "ptr \<Rightarrow> u32 \<Rightarrow> ('w, 'a) uheap_scheme \<Rightarrow> (ptr, ('w, 'a) uheap_scheme) res" where
  "u_create_chunk mem_addr aligned_size s =
     (let size = (if aligned_size < MINIMAL_CHUNK_SIZE then MINIMAL_CHUNK_SIZE else aligned_size)
      in Ret mem_addr (s\<lparr>u_chunks := (u_chunks s)(mem_addr \<mapsto> (u_raw_chunk mem_addr s)
           \<lparr>chunk_size := take_bit 30 size, chunk_free := False, prev_free := False\<rparr>)\<rparr>))"

definition u_malloc_init_bin :: "nat \<Rightarrow> u32 \<Rightarrow> ('w, 'a) uheap_scheme \<Rightarrow> ('w, 'a) uheap_scheme" where
  "u_malloc_init_bin i stored s =
     u_set_bin i (\<lambda>_. \<lparr>stored_size = stored, counter = 0, bin_first = NULL, bin_last = NULL\<rparr>) s"

text \<open>When there is no memory at all the program prints a message and ends.\<close>

definition u_malloc_init ::
  "'w os \<Rightarrow> u8 list \<Rightarrow> ('w, 'a) uheap_scheme \<Rightarrow> (unit, ('w, 'a) uheap_scheme) res" where
  "u_malloc_init os junk s =
     (let s = fold (\<lambda>i. u_malloc_init_bin i (32 + of_nat i * CHUNK_ALIGNMENT)) [0 ..< SIZEBINS] s;
          s = u_malloc_init_bin SORTEDBIN_IDX 0 s in
      bindR (trap (os_sbrk os DEFAULT_HEAP_SIZE) s) (\<lambda>heap_start s.
      bindR (trap (os_sbrk os 0) s) (\<lambda>heap_end s.
      if heap_start = NULL then
        bindR (perror os junk (ctext ''[ERROR] Failed to init malloc'') s) (\<lambda>_ s. exit_program os 1 s)
      else
        let heap_size = heap_end - heap_start in
        bindR (u_create_chunk heap_start heap_size s) (\<lambda>c s.
        bindR (u_set_chunk c (chunk_free_update (\<lambda>_. True)) (s\<lparr>u_void_chunk := c\<rparr>)) (\<lambda>_ s.
        Ret () (s\<lparr>u_heap_size := heap_size, u_initialized := True\<rparr>))))))"

definition u_pop_from_sizebin :: "nat \<Rightarrow> ('w, 'a) uheap_scheme \<Rightarrow> (ptr, ('w, 'a) uheap_scheme) res" where
  "u_pop_from_sizebin i s =
     (let chunk = bin_first (u_bins s i) in
      bindR (if counter (u_bins s i) > 1 then
               bindR (u_get_chunk chunk s) (\<lambda>c s. Ret () (u_set_bin i (bin_first_update (\<lambda>_. ch_next c)) s))
             else Ret () (u_set_bin i (bin_first_update (\<lambda>_. NULL)) s)) (\<lambda>_ s.
      Ret chunk (u_set_bin i (counter_update (\<lambda>n. n - 1)) s)))"

definition u_earse_from_sortedbin :: "ptr \<Rightarrow> ('w, 'a) uheap_scheme \<Rightarrow> (unit, ('w, 'a) uheap_scheme) res" where
  "u_earse_from_sortedbin chunk s =
     bindR (if counter (u_bins s SORTEDBIN_IDX) = 1 then Ret (NULL, NULL) s
            else bindR (u_get_chunk chunk s) (\<lambda>c s. Ret (ch_prev c, ch_next c) s))
       (\<lambda>(prev_chunk, next_chunk) s.
     bindR (if prev_chunk = NULL
            then Ret () (u_set_bin SORTEDBIN_IDX (bin_first_update (\<lambda>_. next_chunk)) s)
            else u_set_chunk prev_chunk (ch_next_update (\<lambda>_. next_chunk)) s) (\<lambda>_ s.
     bindR (if next_chunk = NULL
            then Ret () (u_set_bin SORTEDBIN_IDX (bin_last_update (\<lambda>_. prev_chunk)) s)
            else u_set_chunk next_chunk (ch_prev_update (\<lambda>_. prev_chunk)) s) (\<lambda>_ s.
     Ret () (u_set_bin SORTEDBIN_IDX (counter_update (\<lambda>n. n - 1)) s))))"

definition u_find_suitable_bin :: "u32 \<Rightarrow> ('w, 'a) uheap_scheme \<Rightarrow> nat option" where
  "u_find_suitable_bin sz s = find (\<lambda>i. stored_size (u_bins s i) = sz) [0 ..< SIZEBINS]"

definition u_push_to_sizebin :: "nat \<Rightarrow> ptr \<Rightarrow> ('w, 'a) uheap_scheme \<Rightarrow> (unit, ('w, 'a) uheap_scheme) res" where
  "u_push_to_sizebin i chunk s =
     bindR (u_set_chunk chunk (ch_next_update (\<lambda>_. bin_first (u_bins s i))) s) (\<lambda>_ s.
     Ret () (u_set_bin i (counter_update (\<lambda>n. n + 1)) (u_set_bin i (bin_first_update (\<lambda>_. chunk)) s)))"

definition u_sorted_place :: "u32 \<Rightarrow> ptr \<Rightarrow> ('w, 'a) uheap_scheme \<Rightarrow> (ptr + ptr, ('w, 'a) uheap_scheme) res" where
  "u_sorted_place sz tmp s =
     (if tmp = NULL then Ret (Inl NULL) s
      else bindR (u_get_chunk tmp s) (\<lambda>t s.
        if ch_next t \<noteq> NULL then
          (if chunk_size t \<le> sz then
             bindR (u_get_chunk (ch_next t) s) (\<lambda>n s.
             if chunk_size n \<ge> sz then Ret (Inl tmp) s else Ret (Inr (ch_next t)) s)
           else Ret (Inr (ch_next t)) s)
        else Ret (Inl NULL) s))"

definition u_sorted_link_front :: "ptr \<Rightarrow> ptr \<Rightarrow> ('w, 'a) uheap_scheme \<Rightarrow> (unit, ('w, 'a) uheap_scheme) res" where
  "u_sorted_link_front chunk tmp s =
     (let s = u_set_bin SORTEDBIN_IDX (bin_first_update (\<lambda>_. chunk)) s in
      bindR (u_set_chunk chunk (ch_next_update (\<lambda>_. tmp)) s) (\<lambda>_ s.
      bindR (u_set_chunk chunk (ch_prev_update (\<lambda>_. NULL)) s) (\<lambda>_ s.
      u_set_chunk tmp (ch_prev_update (\<lambda>_. chunk)) s)))"

definition u_sorted_link_back :: "ptr \<Rightarrow> ptr \<Rightarrow> ('w, 'a) uheap_scheme \<Rightarrow> (unit, ('w, 'a) uheap_scheme) res" where
  "u_sorted_link_back chunk tmp s =
     (let s = u_set_bin SORTEDBIN_IDX (bin_last_update (\<lambda>_. chunk)) s in
      bindR (u_set_chunk chunk (ch_next_update (\<lambda>_. NULL)) s) (\<lambda>_ s.
      bindR (u_set_chunk chunk (ch_prev_update (\<lambda>_. tmp)) s) (\<lambda>_ s.
      u_set_chunk tmp (ch_next_update (\<lambda>_. chunk)) s)))"

definition u_sorted_link_mid :: "ptr \<Rightarrow> ptr \<Rightarrow> ('w, 'a) uheap_scheme \<Rightarrow> (unit, ('w, 'a) uheap_scheme) res" where
  "u_sorted_link_mid chunk tmp s =
     bindR (u_set_chunk chunk (ch_prev_update (\<lambda>_. tmp)) s) (\<lambda>_ s.
     bindR (u_get_chunk tmp s) (\<lambda>t s.
     bindR (u_set_chunk chunk (ch_next_update (\<lambda>_. ch_next t)) s) (\<lambda>_ s.
     bindR (u_get_chunk tmp s) (\<lambda>t s.
     bindR (u_set_chunk (ch_next t) (ch_prev_update (\<lambda>_. chunk)) s) (\<lambda>_ s.
     u_set_chunk tmp (ch_next_update (\<lambda>_. chunk)) s)))))"

definition u_insert_in_sortedbin :: "ptr \<Rightarrow> ('w, 'a) uheap_scheme \<Rightarrow> (unit, ('w, 'a) uheap_scheme) res" where
  "u_insert_in_sortedbin chunk s =
     (let tmp = bin_first (u_bins s SORTEDBIN_IDX); n = counter (u_bins s SORTEDBIN_IDX) in
      bindR (u_get_chunk chunk s) (\<lambda>c s.
      bindR
       (if n = 0 then
          (let s = u_set_bin SORTEDBIN_IDX (bin_first_update (\<lambda>_. chunk)) s;
               s = u_set_bin SORTEDBIN_IDX (bin_last_update (\<lambda>_. chunk)) s in
           bindR (u_set_chunk chunk (ch_next_update (\<lambda>_. NULL)) s) (\<lambda>_ s.
           u_set_chunk chunk (ch_prev_update (\<lambda>_. NULL)) s))
        else if n = 1 then
          bindR (u_get_chunk tmp s) (\<lambda>t s.
          if chunk_size t > chunk_size c then u_sorted_link_front chunk tmp s
          else u_sorted_link_back chunk tmp s)
        else
          bindR (u_get_chunk tmp s) (\<lambda>t s.
          if chunk_size t > chunk_size c then u_sorted_link_front chunk tmp s
          else
            bindR (u_get_chunk (bin_last (u_bins s SORTEDBIN_IDX)) s) (\<lambda>l s.
            if chunk_size l \<le> chunk_size c
            then u_sorted_link_back chunk (bin_last (u_bins s SORTEDBIN_IDX)) s
            else
              bindR (chase {} (u_sorted_place (chunk_size c)) tmp s) (\<lambda>tmp s.
              if tmp = NULL then Ret () s else u_sorted_link_mid chunk tmp s))))
       (\<lambda>_ s. Ret () (u_set_bin SORTEDBIN_IDX (counter_update (\<lambda>n. n + 1)) s))))"

definition free :: "ptr \<Rightarrow> ('w, 'a) uheap_scheme \<Rightarrow> (unit, ('w, 'a) uheap_scheme) res" where
  "free ptr s =
     (if ptr = NULL then Ret () s
      else
        (let chunk = mem2chunk ptr in
         if \<not> u_initialized s then Ret () s
         else
           bindR (u_get_chunk chunk s) (\<lambda>c s.
           if chunk_free c then Ret () s
           else
             bindR (case u_find_suitable_bin (chunk_size c) s of
                      None \<Rightarrow> u_insert_in_sortedbin chunk s
                    | Some i \<Rightarrow> u_push_to_sizebin i chunk s) (\<lambda>_ s.
             let next_chunk = chunk + chunk_size c in
             bindR (if u_void_chunk s > next_chunk
                    then u_set_chunk next_chunk (\<lambda>n. n\<lparr>prev_free := True, prev_size := chunk_size c\<rparr>) s
                    else Ret () s) (\<lambda>_ s.
             u_set_chunk chunk (chunk_free_update (\<lambda>_. True)) s)))))"

definition u_split_chunk :: "ptr \<Rightarrow> u32 \<Rightarrow> ('w, 'a) uheap_scheme \<Rightarrow> (ptr, ('w, 'a) uheap_scheme) res" where
  "u_split_chunk chunk_to_split new_size s =
     bindR (u_get_chunk chunk_to_split s) (\<lambda>c s.
     bindR (if chunk_size c - new_size \<ge> MINIMAL_CHUNK_SIZE then
              (let old_size = chunk_size c in
               bindR (u_create_chunk chunk_to_split new_size s) (\<lambda>_ s.
               bindR (u_create_chunk (chunk_to_split + new_size) (old_size - new_size) s)
                 (\<lambda>chunk_to_free s. free (chunk2mem chunk_to_free) s)))
            else Ret () s) (\<lambda>_ s.
     Ret chunk_to_split s))"

definition u_fits :: "u32 \<Rightarrow> ptr \<Rightarrow> ('w, 'a) uheap_scheme \<Rightarrow> (ptr + ptr, ('w, 'a) uheap_scheme) res" where
  "u_fits sought_size tmp s =
     (if tmp = NULL then Ret (Inl NULL) s
      else bindR (u_get_chunk tmp s) (\<lambda>t s.
        if chunk_size t \<ge> sought_size then Ret (Inl tmp) s else Ret (Inr (ch_next t)) s))"

definition u_find_free_chunk :: "u32 \<Rightarrow> ('w, 'a) uheap_scheme \<Rightarrow> (ptr, ('w, 'a) uheap_scheme) res" where
  "u_find_free_chunk sought_size s =
     bindR (case find (\<lambda>i. stored_size (u_bins s i) = sought_size) [0 ..< SIZEBINS] of
              None \<Rightarrow> Ret NULL s
            | Some i \<Rightarrow> if counter (u_bins s i) > 0 then u_pop_from_sizebin i s else Ret NULL s) (\<lambda>found s.
     bindR (if found = NULL \<and> counter (u_bins s SORTEDBIN_IDX) > 0 then
              bindR (chase {} (u_fits sought_size) (bin_first (u_bins s SORTEDBIN_IDX)) s) (\<lambda>tmp s.
              if tmp \<noteq> NULL then bindR (u_earse_from_sortedbin tmp s) (\<lambda>_ s. Ret tmp s) else Ret NULL s)
            else Ret found s) (\<lambda>found s.
     if found \<noteq> NULL then
       bindR (u_split_chunk found sought_size s) (\<lambda>found s.
       bindR (u_get_chunk found s) (\<lambda>c s.
       bindR (u_set_chunk (found + chunk_size c) (\<lambda>a. a\<lparr>prev_free := False, prev_size := 0\<rparr>) s) (\<lambda>_ s.
       bindR (u_set_chunk found (chunk_free_update (\<lambda>_. False)) s) (\<lambda>_ s.
       Ret found s))))
     else Ret NULL s))"

definition u_set_void_chunk :: "ptr \<Rightarrow> u32 \<Rightarrow> ('w, 'a) uheap_scheme \<Rightarrow> (unit, ('w, 'a) uheap_scheme) res" where
  "u_set_void_chunk new_addr new_size s =
     bindR (u_create_chunk new_addr new_size s) (\<lambda>c s.
     u_set_chunk c (chunk_free_update (\<lambda>_. True)) (s\<lparr>u_void_chunk := c\<rparr>))"

definition expand_align :: "u32 \<Rightarrow> u32" where
  "expand_align n = (if n mod EXPAND_SIZE_OFF \<noteq> 0 then n - n mod EXPAND_SIZE_OFF + EXPAND_SIZE_OFF else n)"

definition heap_expand :: "'w os \<Rightarrow> u32 \<Rightarrow> ('w, 'a) uheap_scheme \<Rightarrow> (int, ('w, 'a) uheap_scheme) res" where
  "heap_expand os expand_size s =
     (let void_chunk_addr = u_void_chunk s in
      bindR (u_get_chunk void_chunk_addr s) (\<lambda>v s.
      let prev_size = chunk_size v; expand_size = expand_align expand_size in
      bindR (trap (os_sbrk os expand_size) s) (\<lambda>brk s.
      if brk = NULL then Ret (- 1) s
      else
        bindR (u_create_chunk void_chunk_addr (expand_size + prev_size) s) (\<lambda>c s.
        bindR (u_set_chunk c (chunk_free_update (\<lambda>_. True)) (s\<lparr>u_void_chunk := c\<rparr>)) (\<lambda>_ s.
        Ret 0 (s\<lparr>u_heap_size := u_heap_size s + expand_size\<rparr>))))))"

text \<open>The size of the void chunk is read before the heap grows and not again.\<close>

definition malloc :: "'w os \<Rightarrow> u8 list \<Rightarrow> u32 \<Rightarrow> ('w, 'a) uheap_scheme \<Rightarrow> (ptr, ('w, 'a) uheap_scheme) res" where
  "malloc os junk sz s =
     bindR (if u_initialized s then Ret () s else u_malloc_init os junk s) (\<lambda>_ s.
     let void_chunk = u_void_chunk s; aligned_size = align_request sz in
     bindR (u_find_free_chunk aligned_size s) (\<lambda>new_chunk s.
     if new_chunk \<noteq> NULL then Ret (chunk2mem new_chunk) s
     else
       bindR (u_get_chunk void_chunk s) (\<lambda>v s.
       let tmp_size = chunk_size v in
       bindR (if tmp_size \<ge> aligned_size then Ret 0 s else heap_expand os aligned_size s) (\<lambda>r s.
       if r < 0 then Ret NULL s
       else
         bindR (u_create_chunk void_chunk aligned_size s) (\<lambda>new_chunk s.
         bindR (u_set_void_chunk (void_chunk + aligned_size) (tmp_size - aligned_size) s) (\<lambda>_ s.
         if new_chunk = NULL then Ret NULL s else Ret (chunk2mem new_chunk) s))))))"

section \<open>The heap of the library against the heap of the kernel\<close>

text \<open>
  \<open>kview k u\<close> is the heap of the program, placed in the memory of a kernel \<open>k\<close>. \<open>kept k r u s\<close> relates
  the two heaps and fixes what the allocator does not touch; \<open>agrees R m m'\<close>: when \<open>m'\<close> returns, \<open>m\<close>
  returns the same value in a related state.
\<close>

definition kview :: "kheap \<Rightarrow> ('w, 'a) uheap_scheme \<Rightarrow> kheap" where
  "kview k u = k\<lparr>is_initialized := u_initialized u, bins := u_bins u, void_chunk := u_void_chunk u,
     chunks := u_chunks u, stale := u_stale u\<rparr>"

definition outside :: "('w, 'a) uheap_scheme \<Rightarrow> u32 \<times> 'w \<times> u32 \<times> 'a" where
  "outside u = (p_errno u, world u, u_heap_size u, uheap.more u)"

definition kept :: "kheap \<Rightarrow> u32 \<times> 'w \<times> u32 \<times> 'a \<Rightarrow> ('w, 'a) uheap_scheme \<Rightarrow> kheap \<Rightarrow> bool" where
  "kept k r u s \<longleftrightarrow> s = kview k u \<and> outside u = r"

definition agrees :: "('u \<Rightarrow> 's \<Rightarrow> bool) \<Rightarrow> ('a, 'u) res \<Rightarrow> ('a, 's) res \<Rightarrow> bool" where
  "agrees R m m' \<longleftrightarrow> (\<forall>y t. m' = Ret y t \<longrightarrow> (\<exists>u. m = Ret y u \<and> R u t))"

lemma agrees_bind:
  assumes "agrees R m m'" and "\<And>x u s. R u s \<Longrightarrow> agrees R (f x u) (f' x s)"
  shows "agrees R (bindR m f) (bindR m' f')"
  using assms unfolding agrees_def by (cases m') fastforce+

lemma agrees_Ret: "R u s \<Longrightarrow> agrees R (Ret x u) (Ret x s)"
  by (simp add: agrees_def)

lemma agrees_Panic: "agrees R m (Panic e)"
  by (simp add: agrees_def)

lemma agrees_if:
  "(b \<Longrightarrow> agrees R m m') \<Longrightarrow> (\<not> b \<Longrightarrow> agrees R n n') \<Longrightarrow> agrees R (if b then m else n) (if b then m' else n')"
  by simp

lemma agrees_chase:
  assumes "\<And>p. agrees R (body p u) (body' p s)" and "R u s"
  shows "agrees R (chase V body p u) (chase V body' p s)"
proof -
  have "chase V body p u = Ret r u" if "chase V body' p s = Ret r t" for r t
    using that assms(1)
  proof (induction V body' p s rule: chase.induct)
    case (1 V body' p s)
    consider w where "p \<notin> V" "body' p s = Ret (Inl r) w"
      | q w where "p \<notin> V" "body' p s = Ret (Inr q) w" "chase (insert p V) body' q s = Ret r t"
      using "1.prems"(1) by (auto simp: chase_Ret_conv [of V body' p s])
    then show ?case
    proof cases
      case 1
      with "1.prems"(2) obtain u' where "body p u = Ret (Inl r) u'" by (fastforce simp: agrees_def)
      with 1 show ?thesis by (simp add: chase.simps)
    next
      case 2
      with "1.prems"(2) obtain u' where b: "body p u = Ret (Inr q) u'" by (fastforce simp: agrees_def)
      have "chase (insert p V) body q u = Ret r u"
        using "1.IH" [OF 2(1,2) refl 2(3) "1.prems"(2)] .
      with 2 b show ?thesis by (simp add: chase.simps [of V])
    qed
  qed
  moreover have "t = s" if "chase V body' p s = Ret r t" for r t using chase_Ret_state [OF that] .
  ultimately show ?thesis using assms(2) by (simp add: agrees_def) blast
qed

lemma kept_sel:
  assumes "kept k r u s"
  shows "is_initialized s = u_initialized u" "bins s = u_bins u" "void_chunk s = u_void_chunk u"
    "chunks s = u_chunks u" "stale s = u_stale u"
  using assms by (simp_all add: kept_def kview_def)

lemma kept_upd:
  assumes "kept k r u s"
  shows "kept k r (u_chunks_update c u) (chunks_update c s)"
    "kept k r (u_void_chunk_update v u) (void_chunk_update v s)"
    "kept k r (u_bins_update b u) (bins_update b s)"
  using assms by (simp_all add: kept_def kview_def outside_def comp_def)

lemma agrees_load: "kept k r u s \<Longrightarrow> agrees (kept k r) (load u_chunks p u) (load chunks p s)"
  by (cases "u_chunks u p") (simp_all add: agrees_def load_def kept_sel(4))

lemma agrees_modify:
  "kept k r u s \<Longrightarrow> agrees (kept k r) (modify u_chunks u_chunks_update p f u) (modify chunks chunks_update p f s)"
  by (cases "u_chunks u p") (simp_all add: agrees_def modify_def kept_sel(4) kept_upd(1))

lemma kept_set_bin: "kept k r u s \<Longrightarrow> kept k r (u_set_bin i f u) (set_bin i f s)"
  by (simp add: u_set_bin_def set_bin_def kept_sel kept_upd)

lemmas sim_rules = agrees_bind agrees_Ret agrees_Panic agrees_load agrees_modify kept_set_bin agrees_if kept_upd

lemma raw_kept: "kept k r u s \<Longrightarrow> raw_chunk p s = u_raw_chunk p u"
  by (cases "u_chunks u p") (simp_all add: raw_chunk_def u_raw_chunk_def kept_sel(4,5))

lemma sim_create:
  "kept k r u s \<Longrightarrow> agrees (kept k r) (u_create_chunk a n u) (create_chunk a n s)"
  unfolding u_create_chunk_def create_chunk_def Let_def
  by (simp only: raw_kept kept_sel(4)) (intro agrees_Ret kept_upd, assumption)

lemma sim_pop:
  "kept k r u s \<Longrightarrow> agrees (kept k r) (u_pop_from_sizebin i u) (pop_from_sizebin i s)"
  unfolding u_pop_from_sizebin_def pop_from_sizebin_def Let_def
  by (auto simp: kept_sel intro!: sim_rules)

lemma sim_earse:
  "kept k r u s \<Longrightarrow> agrees (kept k r) (u_earse_from_sortedbin c u) (earse_from_sortedbin c s)"
  unfolding u_earse_from_sortedbin_def earse_from_sortedbin_def
  by (auto simp: kept_sel intro!: sim_rules)

lemma sim_push:
  "kept k r u s \<Longrightarrow> agrees (kept k r) (u_push_to_sizebin i c u) (push_to_sizebin i c s)"
  unfolding u_push_to_sizebin_def push_to_sizebin_def
  by (auto simp: kept_sel intro!: sim_rules)

lemma sim_place:
  "kept k r u s \<Longrightarrow> agrees (kept k r) (u_sorted_place n p u) (sorted_place n p s)"
  unfolding u_sorted_place_def sorted_place_def by (auto simp: kept_sel intro!: sim_rules)

lemma sim_fits:
  "kept k r u s \<Longrightarrow> agrees (kept k r) (u_fits n p u) (fits n p s)"
  unfolding u_fits_def fits_def by (auto simp: kept_sel intro!: sim_rules)

lemma sim_front:
  "kept k r u s \<Longrightarrow> agrees (kept k r) (u_sorted_link_front c p u) (sorted_link_front c p s)"
  unfolding u_sorted_link_front_def sorted_link_front_def Let_def by (auto simp: kept_sel intro!: sim_rules)

lemma sim_back:
  "kept k r u s \<Longrightarrow> agrees (kept k r) (u_sorted_link_back c p u) (sorted_link_back c p s)"
  unfolding u_sorted_link_back_def sorted_link_back_def Let_def by (auto simp: kept_sel intro!: sim_rules)

lemma sim_mid:
  "kept k r u s \<Longrightarrow> agrees (kept k r) (u_sorted_link_mid c p u) (sorted_link_mid c p s)"
  unfolding u_sorted_link_mid_def sorted_link_mid_def by (auto simp: kept_sel intro!: sim_rules)

lemma sim_insert:
  "kept k r u s \<Longrightarrow> agrees (kept k r) (u_insert_in_sortedbin c u) (insert_in_sortedbin c s)"
  unfolding u_insert_in_sortedbin_def insert_in_sortedbin_def Let_def
  by (auto simp: kept_sel intro!: sim_rules sim_front sim_back sim_mid sim_place agrees_chase)

lemma sim_free: "kept k r u s \<Longrightarrow> agrees (kept k r) (free p u) (kfree p s)"
  unfolding free_def kfree_def Let_def u_find_suitable_bin_def find_suitable_bin_def
  by (auto simp: kept_sel intro!: sim_rules sim_insert sim_push split: option.split)

lemma sim_split:
  "kept k r u s \<Longrightarrow> agrees (kept k r) (u_split_chunk c n u) (split_chunk c n s)"
  unfolding u_split_chunk_def split_chunk_def Let_def
  by (auto simp: kept_sel intro!: sim_rules sim_free sim_create)

lemma sim_find:
  "kept k r u s \<Longrightarrow> agrees (kept k r) (u_find_free_chunk n u) (find_free_chunk n s)"
  unfolding u_find_free_chunk_def find_free_chunk_def
  by (auto simp: kept_sel intro!: sim_rules sim_split sim_pop sim_earse sim_fits agrees_chase split: option.split)

lemma sim_void:
  "kept k r u s \<Longrightarrow> agrees (kept k r) (u_set_void_chunk a n u) (set_void_chunk a n s)"
  unfolding u_set_void_chunk_def set_void_chunk_def by (auto simp: kept_sel intro!: sim_rules sim_create)

lemma sim_carve:
  assumes "kept k r u s"
  shows "agrees (kept k r)
    (bindR (u_get_chunk v u) (\<lambda>c u.
       bindR (if chunk_size c \<ge> n then Ret 0 u else heap_expand os n u) (\<lambda>e u.
       if e < 0 then Ret NULL u
       else bindR (u_create_chunk v n u) (\<lambda>x u.
         bindR (u_set_void_chunk (v + n) (chunk_size c - n) u) (\<lambda>_ u.
         if x = NULL then Ret NULL u else Ret (chunk2mem x) u)))))
    (bindR (get_chunk v s) (\<lambda>c s.
       bindR (if chunk_size c \<ge> n then
                bindR (create_chunk v n s) (\<lambda>x s.
                bindR (set_void_chunk (v + n) (chunk_size c - n) s) (\<lambda>_ s. Ret x s))
              else Ret NULL s) (\<lambda>x s.
       if x = NULL then Panic e else Ret (chunk2mem x) s)))"
proof (intro agrees_bind agrees_load assms)
  fix c u s assume k: "kept k r u s"
  show "agrees (kept k r)
    (bindR (if chunk_size c \<ge> n then Ret 0 u else heap_expand os n u) (\<lambda>e u.
       if e < 0 then Ret NULL u
       else bindR (u_create_chunk v n u) (\<lambda>x u.
         bindR (u_set_void_chunk (v + n) (chunk_size c - n) u) (\<lambda>_ u.
         if x = NULL then Ret NULL u else Ret (chunk2mem x) u))))
    (bindR (if chunk_size c \<ge> n then
                bindR (create_chunk v n s) (\<lambda>x s.
                bindR (set_void_chunk (v + n) (chunk_size c - n) s) (\<lambda>_ s. Ret x s))
              else Ret NULL s) (\<lambda>x s.
       if x = NULL then Panic e else Ret (chunk2mem x) s))"
  proof (cases "chunk_size c \<ge> n")
    case True
    with k show ?thesis
      by (auto simp: bindR_assoc intro!: agrees_bind sim_create sim_void agrees_Panic agrees_Ret)
  qed (simp add: agrees_Panic)
qed

lemma sim_malloc:
  assumes "kept k r u s" and "u_initialized u"
  shows "agrees (kept k r) (malloc os junk n u) (kmalloc n s)"
proof -
  have "agrees (kept k r)
    (if x \<noteq> NULL then Ret (chunk2mem x) u else m)
    (bindR (if x = NULL then m' else Ret x s) (\<lambda>x s. if x = NULL then Panic e else Ret (chunk2mem x) s))"
    if "kept k r u s" "agrees (kept k r) m (bindR m' (\<lambda>x s. if x = NULL then Panic e else Ret (chunk2mem x) s))"
    for x u s m m' e
    using that by (simp add: agrees_Ret)
  note step = this
  show ?thesis
    unfolding malloc_def kmalloc_def Let_def
    apply (simp only: assms(2) kept_sel(1) [OF assms(1)] if_True bindR.simps kept_sel(3) [OF assms(1)])
    apply (rule agrees_bind [OF sim_find [OF assms(1)]])
    apply (rule step, assumption)
    apply (simp only: bindR_assoc)
    apply (erule sim_carve [unfolded bindR_assoc])
    done
qed

section \<open>Correctness\<close>

lemma kept_refl: "kept k (outside u) u (kview k u)"
  by (simp add: kept_def)

lemma malloc_kmalloc:
  assumes "u_initialized u" and "kmalloc n (kview k u) = Ret p s'"
  shows "\<exists>u'. malloc os junk n u = Ret p u' \<and> kview k u' = s' \<and> outside u' = outside u"
  using sim_malloc [OF kept_refl assms(1), where k = k and os = os and junk = junk and n = n] assms(2)
  by (auto simp: agrees_def kept_def)

lemma free_kfree:
  assumes "kfree p (kview k u) = Ret () s'"
  shows "\<exists>u'. free p u = Ret () u' \<and> kview k u' = s' \<and> outside u' = outside u"
  using sim_free [OF kept_refl, where k = k and p = p and u = u] assms by (auto simp: agrees_def kept_def)

text \<open>
  The laws of the allocator hold in programs too, for requests that the void chunk can serve, so that the heap
  does not grow.
\<close>

abbreviation u_live :: "kheap \<Rightarrow> ('w, 'a) uheap_scheme \<Rightarrow> ptr set" where
  "u_live k u \<equiv> live (kview k u)"

abbreviation u_usable :: "kheap \<Rightarrow> ('w, 'a) uheap_scheme \<Rightarrow> ptr \<Rightarrow> nat" where
  "u_usable k u \<equiv> usable (kview k u)"

abbreviation u_heap_inv :: "kheap \<Rightarrow> ('w, 'a) uheap_scheme \<Rightarrow> bool" where
  "u_heap_inv k u \<equiv> heap_inv (kview k u)"

definition malloc_fits :: "kheap \<Rightarrow> u32 \<Rightarrow> ('w, 'a) uheap_scheme \<Rightarrow> bool" where
  "malloc_fits k n u \<longleftrightarrow> kmalloc_fits n (kview k u) \<and>
     (\<exists>v. u_chunks u (u_void_chunk u) = Some v \<and> align_request n \<le> chunk_size v)"

lemma u_initialized: "u_heap_inv k u \<Longrightarrow> u_initialized u"
  by (auto simp: heap_inv_def heap_ok_def kview_def)

lemma malloc_cases:
  assumes "u_heap_inv k u" and "malloc_fits k n u"
  obtains p u' where "malloc os junk n u = Ret p u'" "kmalloc n (kview k u) = Ret p (kview k u')" "outside u' = outside u"
proof -
  have "\<not> the (chsize (kview k u) (void_chunk (kview k u))) < align_request n"
    using assms(2) by (auto simp: malloc_fits_def kview_def)
  then obtain p s' where "kmalloc n (kview k u) = Ret p s'"
    using kmalloc_cases [OF assms(1), of n] assms(2) by (auto simp: malloc_fits_def kmalloc_fits_def)
  with malloc_kmalloc [OF u_initialized [OF assms(1)] this, of os junk] that show thesis by auto
qed

interpretation uheap: allocator "malloc os junk" free "u_live k" "u_usable k" "u_heap_inv k" "malloc_fits k"
  for os junk k
proof unfold_locales
  fix s s' :: "('a, 'b) uheap_scheme" and n p
  assume a: "u_heap_inv k s" "malloc_fits k n s" "malloc os junk n s = Ret p s'"
  then have "kmalloc n (kview k s) = Ret p (kview k s')" by (metis malloc_cases res.inject(1))
  moreover have "kmalloc_fits n (kview k s)" using a(2) by (simp add: malloc_fits_def)
  ultimately show "p \<notin> u_live k s \<and> p \<noteq> NULL \<and> u_live k s' = insert p (u_live k s) \<and> unat n \<le> u_usable k s' p \<and>
      (\<forall>q \<in> u_live k s. u_usable k s' q = u_usable k s q) \<and> u_heap_inv k s'"
    using kheap.alloc_law [OF a(1), of n p "kview k s'"] by blast
next
  fix s :: "('a, 'b) uheap_scheme" and p
  assume "u_heap_inv k s" "p \<in> u_live k s"
  from kheap.release_law [OF this] show "\<exists>s'. free p s = Ret () s' \<and> u_heap_inv k s' \<and>
      u_live k s' = u_live k s - {p} \<and> (\<forall>q. u_usable k s' q = u_usable k s q)"
    using free_kfree by metis
qed

text \<open>
  C36: The heap of the C library behaves like the heap of the kernel. Whenever \<open>kmalloc\<close> or \<open>kfree\<close> returns on the same
  chunks, bins and void chunk, \<open>malloc\<close> and \<open>free\<close> return the same result and leave the same heap, without a
  system call. Where \<open>kfree\<close> stops the kernel, on a block that is already free or on a heap that was never set up,
  \<open>free\<close> returns and changes nothing.
\<close>

theorem libc_heap_equivalent:
  assumes "u_initialized u"
  shows "(\<forall>p s'. kmalloc n (kview k u) = Ret p s' \<longrightarrow>
      (\<exists>u'. malloc os junk n u = Ret p u' \<and> kview k u' = s' \<and> outside u' = outside u)) \<and>
    (\<forall>q s'. kfree q (kview k u) = Ret () s' \<longrightarrow>
      (\<exists>u'. free q u = Ret () u' \<and> kview k u' = s' \<and> outside u' = outside u)) \<and>
    (\<forall>q c. u_chunks u (mem2chunk q) = Some c \<and> chunk_free c \<longrightarrow> free q u = Ret () u)"
proof (intro conjI allI impI)
  fix p s' assume "kmalloc n (kview k u) = Ret p s'"
  from malloc_kmalloc [OF assms this] show "\<exists>u'. malloc os junk n u = Ret p u' \<and> kview k u' = s' \<and> outside u' = outside u" .
next
  fix q s' assume "kfree q (kview k u) = Ret () s'"
  from free_kfree [OF this] show "\<exists>u'. free q u = Ret () u' \<and> kview k u' = s' \<and> outside u' = outside u" .
next
  fix q c assume "u_chunks u (mem2chunk q) = Some c \<and> chunk_free c"
  then show "free q u = Ret () u" by (simp add: free_def load_Some Let_def)
qed


text \<open>
  C38: When the heap has to grow, its bookkeeping goes wrong. The size of the void chunk is read before the heap
  grows; afterwards the unserved part of the request is subtracted from that old size, which wraps around in the 30
  bits of the field. The new block itself is fine, but the void chunk behind it now claims almost a gibibyte, far more
  than the memory obtained from \<open>sbrk\<close>, and serves later requests from addresses beyond the program break.
\<close>

theorem malloc_growth_wraps:
  assumes "u_initialized u" and "u_bins u = empty_bins" and "unat n < 2 ^ 29" and "u_void_chunk u \<noteq> NULL"
    and "u_chunks u (u_void_chunk u) = Some v" and "chunk_size v < align_request n"
    and "os_sbrk os (expand_align (align_request n)) (world u) = (brk, e, w)" and "brk \<noteq> NULL"
  shows "\<exists>u' v'. malloc os junk n u = Ret (chunk2mem (u_void_chunk u)) u' \<and>
    u_heap_size u' = u_heap_size u + expand_align (align_request n) \<and>
    u_void_chunk u' = u_void_chunk u + align_request n \<and> u_chunks u' (u_void_chunk u') = Some v' \<and>
    unat (chunk_size v') = 2 ^ 30 - (unat (align_request n) - unat (chunk_size v))"
proof -
  let ?n = "align_request n" and ?c = "chunk_size v"
  have n: "good_size ?n" "unat ?n \<le> unat n + 24" using align_request_ok [of n] assms(3) by auto
  have lt: "unat ?c < unat ?n" using assms(6) by (simp add: word_less_nat_alt)
  have d: "unat (?c - ?n) = 2 ^ 32 - (unat ?n - unat ?c)"
    using lt unat32_bound [of ?n] by (simp add: unat_sub_if_size word_size)
  have "(2 ^ 32 - (unat ?n - unat ?c)) mod 2 ^ 30 = 2 ^ 30 - (unat ?n - unat ?c)"
    using lt n assms(3) by (intro mod_nat_eqI) auto
  then have t: "unat (take_bit 30 (?c - ?n)) = 2 ^ 30 - (unat ?n - unat ?c)"
    using lt by (simp add: take_bit_eq_mod unat_mod d)
  have big: "\<not> ?c - ?n < 16" using d n assms(3) by (simp add: word_less_nat_alt)
  have ne: "?n \<noteq> 0" using n by (auto simp: good_size_def)
  have "u_find_free_chunk ?n u = Ret NULL u"
    using assms(2) by (simp add: u_find_free_chunk_def empty_bins_def split: option.split)
  moreover have "\<not> ?n \<le> ?c" using assms(6) by simp
  ultimately show ?thesis
    using assms ne big t
    by (simp add: malloc_def heap_expand_def trap_def load_Some modify_Some u_create_chunk_def u_set_void_chunk_def Let_def)
qed

section \<open>Concrete heaps\<close>

text \<open>A program with a heap of 8 KiB that is still unused, and a system that grants memory.\<close>

definition uheap_demo :: "u8 list list uheap" where
  "uheap_demo = \<lparr>p_errno = 0, world = [], u_initialized = True, u_bins = empty_bins, u_void_chunk = 0x8000,
     u_chunks = [0x8000 \<mapsto> \<lparr>chunk_size = 0x2000, chunk_free = True, prev_free = False, prev_size = 0, ch_prev = 0, ch_next = 0\<rparr>],
     u_heap_size = 0x2000, u_stale = (\<lambda>_. 0)\<rparr>"

definition host_demo :: kheap where
  "host_demo = (kheap_demo 0x2000)\<lparr>kernel_end := 0x7000\<rparr>"

lemma uheap_demo_inv: "heap_inv (kview host_demo uheap_demo)"
proof -
  let ?s = "kview host_demo uheap_demo"
  note d = kview_def host_demo_def uheap_demo_def kheap_demo_simps
  have "sizebin_ok ?s i []" if "i < 5" for i using that by (simp add: sizebin_ok_def empty_bins_def d)
  moreover have "sortedbin_ok ?s []" by (simp add: sortedbin_ok_def empty_bins_def dlist_def d)
  ultimately have "heap_ok ?s [] (\<lambda>_. []) []" by (simp add: heap_ok_def heap_start_def d void_size_def)
  then show ?thesis unfolding heap_inv_def by blast
qed

lemma uheap_demo_end: "heap_end (kview host_demo uheap_demo) + 16 < 2 ^ 32"
  by (simp add: heap_end_def kview_def host_demo_def uheap_demo_def kheap_demo_simps)

theorem libc_heap_equivalent_witness:
  "u_initialized uheap_demo \<and> free 0x8008 uheap_demo = Ret () uheap_demo"
  using libc_heap_equivalent [of uheap_demo] by (simp add: uheap_demo_def mem2chunk_def)


theorem malloc_growth_wraps_witness:
  "\<exists>u' v'. malloc (os_demo\<lparr>os_sbrk := (\<lambda>_ w. (0xa000, 0, w))\<rparr>) [] 0x3000 uheap_demo = Ret 0x8008 u' \<and>
     u_heap_size u' = 0x6000 \<and> u_chunks u' (u_void_chunk u') = Some v' \<and> unat (chunk_size v') = 0x3fffeff0"
  using malloc_growth_wraps [of uheap_demo "0x3000" _ "os_demo\<lparr>os_sbrk := (\<lambda>_ w. (0xa000, 0, w))\<rparr>" "0xa000" 0 "[]" "[]"]
  by (simp add: uheap_demo_def chunk2mem_def align_request_def expand_align_def) blast

end
