(* ===== verification/Shell.thy ===== *)
theory Shell
  imports Libc_Heap
begin

text \<open>
  \<^verbatim>\<open>readline\<close> of the C library, the shell \<^verbatim>\<open>initrd/bin/shell.c\<close> and the other programs of \<^verbatim>\<open>initrd/bin\<close>. A line is the
  array of bytes that \<^verbatim>\<open>readline\<close> allocates; an entry of \<^verbatim>\<open>argv\<close> is an offset into it, or \<open>None\<close> for \<^verbatim>\<open>NULL\<close>.
  \<open>junk\<close> stands for what uninitialised memory holds.
\<close>

section \<open>readline\<close>

abbreviation (input) TERMINAL_MAX_LINE_LEN :: nat where "TERMINAL_MAX_LINE_LEN \<equiv> 1920"

text \<open>What a read leaves in the array it was given.\<close>

definition fill :: "u8 list \<Rightarrow> u8 list \<Rightarrow> u8 list" where
  "fill bytes buffer = take (length buffer) (bytes @ drop (length bytes) buffer)"

definition readline ::
  "'w os \<Rightarrow> u8 list \<Rightarrow> u8 list option \<Rightarrow> ('w, 'a) uheap_scheme \<Rightarrow> ((ptr \<times> u8 list) option, ('w, 'a) uheap_scheme) res" where
  "readline os junk prompt s =
     bindR (malloc os junk (of_nat (TERMINAL_MAX_LINE_LEN + 1)) s) (\<lambda>buffer s.
     bindR (if buffer = NULL then
              bindR (perror os junk (ctext ''readline failed to allocate buffer'') s) (\<lambda>_ s. exit_program os 1 s)
            else Ret () s) (\<lambda>_ s.
     bindR (case prompt of
              None \<Rightarrow> Ret () s
            | Some prompt \<Rightarrow>
                (case strlen prompt of
                   None \<Rightarrow> Fault NULL
                 | Some n \<Rightarrow> bindR (trap (os_write os STDOUT (take n prompt)) s) (\<lambda>_ s. Ret () s))) (\<lambda>_ s.
     bindR (trap (os_read os STDIN TERMINAL_MAX_LINE_LEN) s) (\<lambda>(len, bytes) s.
     if len < 0 then Ret None s
     else
       let line = fill bytes (take (TERMINAL_MAX_LINE_LEN + 1) junk) in
       if nat len < length line then Ret (Some (buffer, line[nat len := 0])) s else Fault buffer))))"

section \<open>The shell\<close>

abbreviation (input) MAX_ARGV :: nat where "MAX_ARGV \<equiv> 256"
abbreviation (input) QUOTE :: u8 where "QUOTE \<equiv> 0x22"
abbreviation (input) SPACE :: u8 where "SPACE \<equiv> 0x20"

definition print_help :: "'w os \<Rightarrow> u8 list \<Rightarrow> ('w, 'a) proc_scheme \<Rightarrow> (unit, ('w, 'a) proc_scheme) res" where
  "print_help os junk s =
     bindR (printf os junk (cline ''Basic user shell for TrytonOS:'') [] s) (\<lambda>_ s.
     bindR (printf os junk (cline ''type '?' to print this message'') [] s) (\<lambda>_ s.
     bindR (printf os junk (cline ''type '$' to get exit code of previous program'') [] s) (\<lambda>_ s.
     Ret () s)))"

type_synonym argv = "nat option list"

text \<open>
  A store outside an array, or a read outside the line, has no result: \<open>None\<close>.
\<close>

definition arr_set :: "'a list \<Rightarrow> nat \<Rightarrow> 'a \<Rightarrow> 'a list option" where
  "arr_set xs i x = (if i < length xs then Some (xs[i := x]) else None)"

function parse_loop ::
  "nat \<Rightarrow> nat \<Rightarrow> nat \<Rightarrow> nat \<Rightarrow> bool \<Rightarrow> u8 list \<Rightarrow> argv \<Rightarrow> (u8 list \<times> argv) option" where
  "parse_loop input_len i start argv_idx is_string input argv =
     (if i < input_len \<and> argv_idx < MAX_ARGV - 1 then
        if length input \<le> i then None
        else if input ! i = QUOTE \<or> is_string then
          if \<not> is_string then parse_loop input_len (i + 1) (start + 1) argv_idx True input argv
          else if input ! i = QUOTE
          then (case arr_set input i SPACE of
                  None \<Rightarrow> None
                | Some input \<Rightarrow> parse_loop input_len (i + 1) start argv_idx False input argv)
          else parse_loop input_len (i + 1) start argv_idx is_string input argv
        else if input ! i = SPACE then
          (case arr_set input i 0 of
             None \<Rightarrow> None
           | Some input \<Rightarrow>
               (case arr_set argv argv_idx (Some start) of
                  None \<Rightarrow> None
                | Some argv \<Rightarrow> parse_loop input_len (i + 1) (i + 1) (argv_idx + 1) is_string input argv))
        else if input ! i = 0 then
          (case arr_set argv argv_idx (Some start) of
             None \<Rightarrow> None
           | Some argv \<Rightarrow> map_option (Pair input) (arr_set argv (argv_idx + 1) None))
        else parse_loop input_len (i + 1) start argv_idx is_string input argv
      else map_option (Pair input) (arr_set argv argv_idx None))"
  by pat_completeness auto
termination by (relation "measure (\<lambda>(input_len, i, _). input_len - i)") auto

declare parse_loop.simps [simp del]

lemma arr_set_inside [simp]: "i < length xs \<Longrightarrow> arr_set xs i x = Some (xs[i := x])"
  by (simp add: arr_set_def)

definition parse_input :: "u8 list \<Rightarrow> argv \<Rightarrow> (u8 list \<times> argv) option" where
  "parse_input input argv =
     (case strlen input of None \<Rightarrow> None | Some n \<Rightarrow> parse_loop (n + 1) 0 0 0 False input argv)"

text \<open>The strings that an argument vector stands for, up to its first \<^verbatim>\<open>NULL\<close>.\<close>

fun arg_strings :: "u8 list \<Rightarrow> argv \<Rightarrow> u8 list list" where
  "arg_strings input (Some start # argv) = cstr (drop start input) # arg_strings input argv"
| "arg_strings input _ = []"

text \<open>
  \<^verbatim>\<open>fork\<close> returns twice; a run of the model is the run of one of the two processes. In the child, \<^verbatim>\<open>ret\<close> is
  returned without having been set when \<^verbatim>\<open>execve\<close> comes back with success.
\<close>

definition execute_program ::
  "'w os \<Rightarrow> u8 list \<Rightarrow> int \<Rightarrow> u8 list \<Rightarrow> argv \<Rightarrow> ('w, 'a) proc_scheme \<Rightarrow> (int, ('w, 'a) proc_scheme) res" where
  "execute_program os junk uninit input argv s =
     bindR (trap (os_fork os) s) (\<lambda>p s.
     if p = 0 then
       (case arg_strings input argv of
          [] \<Rightarrow> Fault NULL
        | path # _ \<Rightarrow>
            (case os_execve os path (arg_strings input argv) (world s) of
               Inr w \<Rightarrow> Iret (s\<lparr>world := w\<rparr>)
             | Inl (r, e, w) \<Rightarrow>
                 let s = s\<lparr>p_errno := e, world := w\<rparr> in
                 if r < 0 then
                   bindR (printf os junk (ctext ''Failed to execute %s'') [Kstr (path @ [0])] s) (\<lambda>_ s.
                   bindR (perror os junk (ctext '''') s) (\<lambda>_ s. exit_program os 1 s))
                 else Ret uninit s))
     else bindR (trap (os_waitpid os p) s) (\<lambda>ret s. Ret ret s))"

text \<open>One round of the loop in \<^verbatim>\<open>main\<close>; \<open>child_ret\<close> is the exit code of the last program.\<close>

definition shell_round ::
  "'w os \<Rightarrow> u8 list \<Rightarrow> argv \<Rightarrow> int \<Rightarrow> int \<Rightarrow> ('w, 'a) uheap_scheme \<Rightarrow> (int, ('w, 'a) uheap_scheme) res" where
  "shell_round os junk argv uninit child_ret s =
     bindR (readline os junk (Some (ctext ''# '')) s) (\<lambda>input_line s.
     case input_line of
       None \<Rightarrow> bindR (perror os junk (ctext '''') s) (\<lambda>_ s. Ret child_ret s)
     | Some (p, line) \<Rightarrow>
         if line ! 0 = 0 then Ret child_ret s
         else if line ! 0 = of_char (CHR ''$'') then
           bindR (printf os junk (cline ''Exit code: %d'') [Kint (word_of_int child_ret)] s) (\<lambda>_ s. Ret child_ret s)
         else if line ! 0 = of_char (CHR ''?'') then bindR (print_help os junk s) (\<lambda>_ s. Ret child_ret s)
         else
           (case parse_input line argv of
              None \<Rightarrow> Fault p
            | Some (line, argv) \<Rightarrow>
                bindR (execute_program os junk uninit line argv s) (\<lambda>child_ret s.
                bindR (if child_ret = 139
                       then bindR (printf os junk (cline ''Segmentation fault'') [] s) (\<lambda>_ s. Ret () s)
                       else Ret () s) (\<lambda>_ s.
                bindR (free p s) (\<lambda>_ s. Ret child_ret s)))))"

text \<open>The loop never ends; \<open>n\<close> is the number of rounds that are run.\<close>

fun shell_main ::
  "nat \<Rightarrow> 'w os \<Rightarrow> u8 list \<Rightarrow> argv \<Rightarrow> int \<Rightarrow> int \<Rightarrow> ('w, 'a) uheap_scheme \<Rightarrow> (int, ('w, 'a) uheap_scheme) res" where
  "shell_main 0 os junk argv uninit child_ret s = Timeout"
| "shell_main (Suc n) os junk argv uninit child_ret s =
     bindR (shell_round os junk argv uninit child_ret s) (\<lambda>child_ret s. shell_main n os junk argv uninit child_ret s)"

section \<open>What the shell makes of a line\<close>

text \<open>
  A reference for \<^verbatim>\<open>_parse_input\<close> without the array: \<open>w\<close> is the word read so far, \<open>k\<close> the number of its first characters
  that are dropped, one for each opening quote. A closing quote becomes a space of the word; the rest of a line after
  a quote that is not closed is lost.
\<close>

fun split_args :: "bool \<Rightarrow> nat \<Rightarrow> u8 list \<Rightarrow> u8 list \<Rightarrow> u8 list list" where
  "split_args q k w [] = (if q then [] else [drop k w])"
| "split_args q k w (c # cs) =
     (if q then
        if c = QUOTE then split_args False k (w @ [SPACE]) cs else split_args True k (w @ [c]) cs
      else if c = QUOTE then split_args True (k + 1) (w @ [c]) cs
      else if c = SPACE then drop k w # split_args False 0 [] cs
      else split_args False k (w @ [c]) cs)"

text \<open>The words between the spaces of a line.\<close>

fun words :: "u8 list \<Rightarrow> u8 list list" where
  "words [] = [[]]"
| "words (c # cs) = (if c = SPACE then [] # words cs else (c # hd (words cs)) # tl (words cs))"

lemma words_ne [simp]: "words cs \<noteq> []"
  by (cases cs) auto

lemma split_args_words:
  assumes "QUOTE \<notin> set cs"
  shows "split_args False 0 w cs = (w @ hd (words cs)) # tl (words cs)"
  using assms by (induction cs arbitrary: w) auto

text \<open>
  A loop that stands at the end of the word \<open>w\<close>, with the characters \<open>cs\<close> before it: the part of the line in front of the
  word stays, and the entries written from here on denote the words of the reference.
\<close>

definition parsed :: "u8 list \<Rightarrow> nat \<Rightarrow> argv \<Rightarrow> u8 list list \<Rightarrow> nat \<Rightarrow> (u8 list \<times> argv) option \<Rightarrow> bool" where
  "parsed pre idx argv ws n r \<longleftrightarrow>
     (\<exists>inp offs. r = Some (inp, take idx argv @ map Some offs @ None # drop (idx + length offs + 1) argv) \<and>
       take (length pre) inp = pre \<and> length inp = n \<and> map (\<lambda>a. cstr (drop a inp)) offs = take (255 - idx) ws)"

lemma parsed_end:
  assumes "idx \<le> 255" and "length argv = 256" and "ws = [] \<or> idx = 255" and "take (length pre) inp = pre" and "length inp = n"
  shows "parsed pre idx argv ws n (Some (inp, argv[idx := None]))"
  using assms by (auto simp: parsed_def upd_conv_take_nth_drop intro!: exI [of _ "[]"])

lemma parsed_last:
  assumes "idx < 255" and "length argv = 256" and "take (length pre) inp = pre" and "length inp = n"
    and "cstr (drop a inp) = w"
  shows "parsed pre idx argv [w] n (Some (inp, argv[idx := Some a, idx + 1 := None]))"
proof -
  have "argv[idx := Some a, idx + 1 := None] = take idx argv @ [Some a] @ None # drop (idx + 2) argv"
    using assms by (simp add: upd_conv_take_nth_drop take_Suc_conv_app_nth)
  moreover have "take (255 - idx) [w] = [w]" using assms(1) by simp
  ultimately show ?thesis unfolding parsed_def using assms by (intro exI [of _ inp] exI [of _ "[a]"]) simp
qed

lemma parsed_next:
  assumes "parsed (pre @ w @ [0]) (idx + 1) (argv[idx := Some (length pre + k)]) ws n r"
    and "idx < 255" and "length argv = 256" and "0 \<notin> set w" and "k \<le> length w"
  shows "parsed pre idx argv (drop k w # ws) n r"
proof -
  obtain inp offs where p: "r = Some (inp, take (idx + 1) (argv[idx := Some (length pre + k)]) @ map Some offs @
      None # drop (idx + 1 + length offs + 1) (argv[idx := Some (length pre + k)]))"
    "take (length (pre @ w @ [0])) inp = pre @ w @ [0]" "length inp = n"
    "map (\<lambda>a. cstr (drop a inp)) offs = take (255 - (idx + 1)) ws"
    using assms(1) unfolding parsed_def by blast
  obtain post where inp: "inp = pre @ w @ 0 # post"
    using p(2) by (metis append.assoc append_Cons append_Nil append_take_drop_id)
  have "0 \<notin> set (drop k w)" using assms(4) by (meson in_set_dropD)
  then have "cstr (drop (length pre + k) inp) = drop k w" using inp assms(5) by (simp add: cstr_append_zero)
  moreover have "take (idx + 1) (argv[idx := Some (length pre + k)]) = take idx argv @ [Some (length pre + k)]"
    using assms(2,3) by (simp add: take_Suc_conv_app_nth)
  moreover have "take (255 - idx) (drop k w # ws) = drop k w # take (255 - (idx + 1)) ws"
    using assms(2) by (simp add: take_Cons')
  ultimately show ?thesis
    unfolding parsed_def using p inp by (intro exI [of _ inp] exI [of _ "(length pre + k) # offs"]) simp
qed

lemma parse_loop_split:
  assumes "0 \<notin> set w" and "0 \<notin> set cs" and "k \<le> length w" and "idx \<le> 255" and "length argv = 256"
  shows "parsed pre idx argv (split_args q k w cs) (length pre + length w + length cs + 1 + length rest)
    (parse_loop (length pre + length w + length cs + 1) (length pre + length w) (length pre + k) idx q
      (pre @ w @ cs @ 0 # rest) argv)"
  using assms
proof (induction q k w cs arbitrary: pre idx argv rule: split_args.induct)
  case (1 q k w)
  let ?inp = "pre @ w @ 0 # rest"
  have d: "cstr (drop (length pre + k) ?inp) = drop k w"
    using "1.prems" cstr_append_zero [of "drop k w" rest] by (auto dest: in_set_dropD)
  consider "idx = 255" | "q" "idx < 255" | "\<not> q" "idx < 255" using "1.prems" by force
  then show ?case
  proof cases
    case 3
    with parsed_last [OF 3(2) "1.prems"(5) _ refl d, of pre] "1.prems" show ?thesis
      by (simp add: parse_loop.simps nth_append add.assoc)
  qed (use "1.prems" in \<open>simp_all add: parse_loop.simps nth_append parsed_end\<close>)
next
  case (2 q k w c cs)
  let ?inp = "pre @ w @ c # cs @ 0 # rest"
  have n: "?inp ! (length pre + length w) = c" by (simp add: nth_append)
  have u: "?inp[length pre + length w := x] = pre @ w @ x # cs @ 0 # rest" for x by (simp add: list_update_append)
  show ?case
  proof (cases "idx = 255")
    case True
    then show ?thesis using "2.prems" by (simp add: parse_loop.simps parsed_end)
  next
    case False
    then have i: "idx < 255" using "2.prems" by simp
    consider "q" "c = QUOTE" | "q" "c \<noteq> QUOTE" | "\<not> q" "c = QUOTE" | "\<not> q" "c = SPACE"
      | "\<not> q" "c \<noteq> QUOTE" "c \<noteq> SPACE" by blast
    then show ?thesis
    proof cases
      case a: 1
      from "2.IH"(1) [OF a, of idx argv pre] "2.prems" a i n u show ?thesis
        by (subst parse_loop.simps) simp
    next
      case a: 2
      from "2.IH"(2) [OF a, of idx argv pre] "2.prems" a i n u show ?thesis
        by (subst parse_loop.simps) simp
    next
      case a: 3
      from "2.IH"(3) [OF a, of idx argv pre] "2.prems" a i n u show ?thesis
        by (subst parse_loop.simps) simp
    next
      case a: 4
      from "2.IH"(4) [OF a(1) _ a(2), of "idx + 1" "argv[idx := Some (length pre + k)]" "pre @ w @ [0]"] "2.prems" a i n u
      show ?thesis
        by (subst parse_loop.simps) (simp add: parsed_next)
    next
      case a: 5
      from "2.IH"(5) [OF a, of idx argv pre] "2.prems" a i n u show ?thesis
        by (subst parse_loop.simps) simp
    qed
  qed
qed

lemma arg_strings_parsed: "arg_strings inp (map Some offs @ None # xs) = map (\<lambda>a. cstr (drop a inp)) offs"
  by (induction offs) auto

lemma parse_input_split:
  assumes "0 \<notin> set cs" and "length argv = 256"
  shows "\<exists>inp argv'. parse_input (cs @ 0 # rest) argv = Some (inp, argv') \<and> length argv' = 256 \<and>
    arg_strings inp argv' = take 255 (split_args False 0 [] cs)"
proof -
  let ?r = "parse_loop (length cs + 1) 0 0 0 False (cs @ 0 # rest) argv"
  have s: "strlen (cs @ 0 # rest) = Some (length cs)" using assms(1) by (simp add: strlen_conv cstr_append_zero)
  have "parsed [] 0 argv (split_args False 0 [] cs) (length cs + 1 + length rest) ?r"
    using parse_loop_split [of "[]" cs 0 0 argv "[]" False rest] assms by simp
  then obtain inp offs where r: "?r = Some (inp, map Some offs @ None # drop (length offs + 1) argv)"
    "map (\<lambda>a. cstr (drop a inp)) offs = take 255 (split_args False 0 [] cs)" by (auto simp: parsed_def)
  have "length offs \<le> 255" using arg_cong [OF r(2), of length] by simp
  then show ?thesis using r s assms(2) by (simp add: parse_input_def arg_strings_parsed)
qed

text \<open>
  C39: The shell splits a line at its spaces. For every line without quotation marks, \<open>parse_input\<close> leaves an argument vector
  that denotes exactly the words between the spaces of the line, in order, the first 255 of them when there are more;
  two spaces in a row give an empty argument. A store outside the line or outside the array of 256 entries would give
  no result, so none happens, whatever the line.
\<close>

theorem parse_input_words:
  assumes "0 \<notin> set cs" and "QUOTE \<notin> set cs" and "length argv = MAX_ARGV"
  shows "\<exists>inp argv'. parse_input (cs @ 0 # rest) argv = Some (inp, argv') \<and> length argv' = MAX_ARGV \<and>
    arg_strings inp argv' = take (MAX_ARGV - 1) (words cs)"
  using parse_input_split [OF assms(1,3), of rest] split_args_words [OF assms(2), of "[]"] by simp

lemma split_args_word:
  assumes "QUOTE \<notin> set a" and "SPACE \<notin> set a"
  shows "split_args False k w (a @ cs) = split_args False k (w @ a) cs"
  using assms by (induction a arbitrary: w) auto

lemma split_args_quoted: "QUOTE \<notin> set b \<Longrightarrow> split_args True k w (b @ cs) = split_args True k (w @ b) cs"
  by (induction b arbitrary: w) auto

text \<open>
  A quoted argument keeps its spaces, but the program receives one more: in a line of a command and a quoted string the
  closing quotation mark is replaced by a space that stays part of the argument.
\<close>

theorem quoted_argument_padded:
  assumes "0 \<notin> set (a @ b)" and "QUOTE \<notin> set (a @ b)" and "SPACE \<notin> set a" and "length argv = MAX_ARGV"
  shows "\<exists>inp argv'. parse_input (a @ SPACE # QUOTE # b @ QUOTE # 0 # rest) argv = Some (inp, argv') \<and>
    arg_strings inp argv' = [a, b @ [SPACE]]"
proof -
  let ?cs = "a @ SPACE # QUOTE # b @ [QUOTE]"
  have "split_args False 0 [] ?cs = [a, b @ [SPACE]]"
    using assms(2,3) by (simp add: split_args_word split_args_quoted)
  moreover have "0 \<notin> set ?cs" using assms(1) by simp
  ultimately show ?thesis using parse_input_split [of ?cs argv rest] assms(4) by auto
qed

theorem parse_input_words_witness:
  "\<exists>inp argv'. parse_input (map of_char ''cat  a'' @ [0, 7]) (replicate 256 None) = Some (inp, argv') \<and>
     arg_strings inp argv' = [map of_char ''cat'', [], map of_char ''a'']"
  using parse_input_words [of "map of_char ''cat  a''" "replicate 256 None" "[7]"] by auto

theorem quoted_argument_padded_witness:
  "\<exists>inp argv'. parse_input (map of_char ''echo'' @ [SPACE, QUOTE] @ map of_char ''a b'' @ [QUOTE, 0]) (replicate 256 None) =
     Some (inp, argv') \<and> arg_strings inp argv' = [map of_char ''echo'', map of_char ''a b'' @ [SPACE]]"
  using quoted_argument_padded [of "map of_char ''echo''" "map of_char ''a b''" "replicate 256 None" "[]"] by auto

end
