(* ===== verification/Programs.thy ===== *)
theory Programs
  imports Shell
begin

text \<open>
  The small programs of \<^verbatim>\<open>initrd/bin\<close>. \<open>argc\<close> is what the start-up code passes, \<open>argv\<close> the strings of the argument
  vector up to its \<^verbatim>\<open>NULL\<close>, each with its terminator.
\<close>

section \<open>Operations\<close>

definition str_arg :: "u8 list list \<Rightarrow> nat \<Rightarrow> 's \<Rightarrow> (u8 list, 's) res" where
  "str_arg argv i s = (if i < length argv then Ret (argv ! i) s else Fault NULL)"

abbreviation (input) O_CREAT :: u32 where "O_CREAT \<equiv> 1"
abbreviation (input) O_RDONLY :: u32 where "O_RDONLY \<equiv> 2"
abbreviation (input) O_WRONLY :: u32 where "O_WRONLY \<equiv> 4"
abbreviation (input) O_DIRECTORY :: u32 where "O_DIRECTORY \<equiv> 16"
abbreviation (input) EEXIST :: u32 where "EEXIST \<equiv> 17"

text \<open>\<^verbatim>\<open>_print_ussage\<close> of the program with this format string.\<close>

definition print_ussage ::
  "'w os \<Rightarrow> u8 list \<Rightarrow> u8 list \<Rightarrow> u8 list list \<Rightarrow> ('w, 'a) proc_scheme \<Rightarrow> (unit, ('w, 'a) proc_scheme) res" where
  "print_ussage os junk usage argv s =
     bindR (str_arg argv 0 s) (\<lambda>filename s.
     bindR (printf os junk usage [Kstr filename] s) (\<lambda>_ s. exit_program os 0 s))"

text \<open>A message about the file in \<^verbatim>\<open>argv[1]\<close>, the text for \<^verbatim>\<open>errno\<close>, and the end of the program.\<close>

definition fail_access ::
  "'w os \<Rightarrow> u8 list \<Rightarrow> u8 list \<Rightarrow> u8 list list \<Rightarrow> ('w, 'a) proc_scheme \<Rightarrow> ('b, ('w, 'a) proc_scheme) res" where
  "fail_access os junk fmt argv s =
     bindR (str_arg argv 0 s) (\<lambda>a0 s.
     bindR (str_arg argv 1 s) (\<lambda>a1 s.
     bindR (printf os junk fmt [Kstr a0, Kstr a1] s) (\<lambda>_ s.
     bindR (perror os junk (ctext '''') s) (\<lambda>_ s. exit_program os (p_errno s) s))))"

subsection \<open>cat\<close>

abbreviation (input) CHUNK_SIZE :: nat where "CHUNK_SIZE \<equiv> 1024"

definition cat_read ::
  "'w os \<Rightarrow> int \<Rightarrow> u8 list \<Rightarrow> ('w, 'a) proc_scheme \<Rightarrow> (int \<times> u8 list, ('w, 'a) proc_scheme) res" where
  "cat_read os fd buff s =
     bindR (trap (os_read os fd CHUNK_SIZE) s) (\<lambda>(read_len, bytes) s. Ret (read_len, fill bytes buff) s)"

text \<open>The loop that prints full blocks; \<open>n\<close> bounds the number of its rounds.\<close>

fun cat_loop ::
  "nat \<Rightarrow> 'w os \<Rightarrow> u8 list \<Rightarrow> int \<Rightarrow> int \<times> u8 list \<Rightarrow> ('w, 'a) proc_scheme \<Rightarrow> (int \<times> u8 list, ('w, 'a) proc_scheme) res" where
  "cat_loop 0 os junk fd r s = Timeout"
| "cat_loop (Suc n) os junk fd r s =
     (if fst r = int CHUNK_SIZE then
        let buff = (snd r)[CHUNK_SIZE := 0] in
        bindR (printf os junk (ctext ''%s'') [Kstr buff] s) (\<lambda>_ s.
        bindR (cat_read os fd buff s) (\<lambda>r s. cat_loop n os junk fd r s))
      else Ret r s)"

text \<open>A negative length makes the store of the terminator go in front of the array.\<close>

definition cat_copy ::
  "nat \<Rightarrow> 'w os \<Rightarrow> u8 list \<Rightarrow> int \<Rightarrow> u8 list \<Rightarrow> ('w, 'a) proc_scheme \<Rightarrow> (unit, ('w, 'a) proc_scheme) res" where
  "cat_copy n os junk fd buff s =
     bindR (cat_read os fd buff s) (\<lambda>r s.
     bindR (cat_loop n os junk fd r s) (\<lambda>(read_len, buff) s.
     if 0 \<le> read_len \<and> nat read_len < length buff
     then bindR (printf os junk (ctext ''%s'') [Kstr (buff[nat read_len := 0])] s) (\<lambda>_ s. Ret () s)
     else Fault NULL))"

definition cat_main ::
  "nat \<Rightarrow> 'w os \<Rightarrow> u8 list \<Rightarrow> u8 list \<Rightarrow> int \<Rightarrow> u8 list list \<Rightarrow> ('w, 'a) proc_scheme \<Rightarrow> (int, ('w, 'a) proc_scheme) res" where
  "cat_main n os junk buff argc argv s =
     bindR (if argc < 3 then print_ussage os junk (cline ''Ussage: %s [FILE]'') argv s else Ret () s) (\<lambda>_ s.
     bindR (str_arg argv 1 s) (\<lambda>path s.
     bindR (trap (os_open os path O_RDONLY) s) (\<lambda>fd s.
     bindR (if fd < 0 then fail_access os junk (ctext ''%s: cannot access %s'') argv s else Ret () s) (\<lambda>_ s.
     bindR (cat_copy n os junk fd buff s) (\<lambda>_ s.
     bindR (trap (os_close os fd) s) (\<lambda>_ s. Ret 0 s))))))"

subsection \<open>ls\<close>

definition ls_readdir ::
  "'w os \<Rightarrow> int \<Rightarrow> u8 list \<Rightarrow> ('w, 'a) proc_scheme \<Rightarrow> (int \<times> u8 list, ('w, 'a) proc_scheme) res" where
  "ls_readdir os fd nm s =
     bindR (trap (os_readdir os fd) s) (\<lambda>(r, bytes) s. Ret (r, fill bytes nm) s)"

fun ls_loop ::
  "nat \<Rightarrow> 'w os \<Rightarrow> u8 list \<Rightarrow> int \<Rightarrow> int \<times> u8 list \<Rightarrow> ('w, 'a) proc_scheme \<Rightarrow> (int, ('w, 'a) proc_scheme) res" where
  "ls_loop 0 os junk fd r s = Timeout"
| "ls_loop (Suc n) os junk fd r s =
     (if fst r > 0 then
        bindR (if snd r ! 0 \<noteq> 0 then bindR (printf os junk (ctext ''%s '') [Kstr (snd r)] s) (\<lambda>_ s. Ret () s)
               else Ret () s) (\<lambda>_ s.
        bindR (ls_readdir os fd (snd r) s) (\<lambda>r s. ls_loop n os junk fd r s))
      else Ret (fst r) s)"

definition ls_main ::
  "nat \<Rightarrow> 'w os \<Rightarrow> u8 list \<Rightarrow> u8 list \<Rightarrow> int \<Rightarrow> u8 list list \<Rightarrow> ('w, 'a) proc_scheme \<Rightarrow> (int, ('w, 'a) proc_scheme) res" where
  "ls_main n os junk nm argc argv s =
     bindR (if argc < 3 then print_ussage os junk (cline ''Ussage: %s [FILE]'') argv s else Ret () s) (\<lambda>_ s.
     bindR (str_arg argv 1 s) (\<lambda>path s.
     bindR (trap (os_open os path O_DIRECTORY) s) (\<lambda>fd s.
     bindR (if fd < 1 then fail_access os junk (ctext ''%s: cannot access %s'') argv s else Ret () s) (\<lambda>_ s.
     bindR (ls_readdir os fd nm s) (\<lambda>r s.
     bindR (ls_loop n os junk fd r s) (\<lambda>readdir_ret s.
     bindR (trap (os_close os fd) s) (\<lambda>_ s.
     bindR (if readdir_ret < 0 then fail_access os junk (ctext ''%s: %s'') argv s else Ret () s) (\<lambda>_ s.
     bindR (printf os junk (cline '''') [] s) (\<lambda>_ s. Ret 0 s)))))))))"

subsection \<open>Programs without a loop\<close>

definition clear_main :: "'w os \<Rightarrow> u8 list \<Rightarrow> ('w, 'a) proc_scheme \<Rightarrow> (int, ('w, 'a) proc_scheme) res" where
  "clear_main os junk s =
     bindR (trap (os_write os STDOUT [0xb1, 0x1c, 0xff]) s) (\<lambda>n s.
     if n < 3 then
       bindR (perror os junk (ctext ''Failed to clear terminal'') s) (\<lambda>_ s. exit_program os (p_errno s) s)
     else Ret 0 s)"

definition echo_usage :: "u8 list" where
  "echo_usage = map of_char ''Ussage: %s '' @ QUOTE # map of_char ''string'' @ [QUOTE, 0x0a, 0]"

definition echo_main ::
  "'w os \<Rightarrow> u8 list \<Rightarrow> int \<Rightarrow> u8 list list \<Rightarrow> ('w, 'a) proc_scheme \<Rightarrow> (int, ('w, 'a) proc_scheme) res" where
  "echo_main os junk argc argv s =
     bindR (if argc < 3 then print_ussage os junk echo_usage argv s else Ret () s) (\<lambda>_ s.
     bindR (str_arg argv 1 s) (\<lambda>a s.
     bindR (printf os junk (cline ''%s'') [Kstr a] s) (\<lambda>_ s. Ret 0 s)))"

definition mkdir_main ::
  "'w os \<Rightarrow> u8 list \<Rightarrow> int \<Rightarrow> u8 list list \<Rightarrow> ('w, 'a) proc_scheme \<Rightarrow> (int, ('w, 'a) proc_scheme) res" where
  "mkdir_main os junk argc argv s =
     bindR (if argc < 3 then print_ussage os junk (cline ''Ussage: %s [FILENAME]'') argv s else Ret () s) (\<lambda>_ s.
     bindR (str_arg argv 1 s) (\<lambda>path s.
     bindR (trap (os_mkdir os path 0) s) (\<lambda>r s.
     if r < 0 then fail_access os junk (ctext ''%s: failed to create directory %s'') argv s else Ret 0 s)))"

definition rm_main ::
  "'w os \<Rightarrow> u8 list \<Rightarrow> int \<Rightarrow> u8 list list \<Rightarrow> ('w, 'a) proc_scheme \<Rightarrow> (int, ('w, 'a) proc_scheme) res" where
  "rm_main os junk argc argv s =
     bindR (if argc < 3 then print_ussage os junk (cline ''Ussage: %s [FILENAME]'') argv s else Ret () s) (\<lambda>_ s.
     bindR (str_arg argv 1 s) (\<lambda>path s.
     bindR (trap (os_remove os path) s) (\<lambda>r s.
     if r < 0 then fail_access os junk (ctext ''%s: cannot access %s'') argv s else Ret 0 s)))"

definition rmdir_main ::
  "'w os \<Rightarrow> u8 list \<Rightarrow> int \<Rightarrow> u8 list list \<Rightarrow> ('w, 'a) proc_scheme \<Rightarrow> (int, ('w, 'a) proc_scheme) res" where
  "rmdir_main os junk argc argv s =
     bindR (if argc < 3 then print_ussage os junk (cline ''Ussage: %s [FILENAME]'') argv s else Ret () s) (\<lambda>_ s.
     bindR (str_arg argv 1 s) (\<lambda>path s.
     bindR (trap (os_rmdir os path) s) (\<lambda>r s.
     if r < 0 then
       bindR (str_arg argv 0 s) (\<lambda>a0 s.
       bindR (printf os junk (ctext ''%s: failed to remove %s'') [Kstr a0, Kstr path] s) (\<lambda>_ s.
       bindR (if p_errno s = EEXIST
              then bindR (printf os junk (cline '': Directory not empty'') [] s) (\<lambda>_ s. Ret () s)
              else perror os junk (ctext '''') s) (\<lambda>_ s.
       exit_program os (p_errno s) s)))
     else Ret 0 s)))"

definition touch_main ::
  "'w os \<Rightarrow> u8 list \<Rightarrow> int \<Rightarrow> u8 list list \<Rightarrow> ('w, 'a) proc_scheme \<Rightarrow> (int, ('w, 'a) proc_scheme) res" where
  "touch_main os junk argc argv s =
     bindR (if argc < 3 then print_ussage os junk (cline ''Ussage: %s [FILENAME]'') argv s else Ret () s) (\<lambda>_ s.
     bindR (str_arg argv 1 s) (\<lambda>path s.
     bindR (trap (os_open os path (O_RDONLY OR O_CREAT)) s) (\<lambda>fd s.
     bindR (if fd < 0 then fail_access os junk (ctext ''%s: cannot access %s'') argv s else Ret () s) (\<lambda>_ s.
     bindR (trap (os_close os fd) s) (\<lambda>_ s. Ret 0 s)))))"

definition write_to_usage :: "u8 list" where
  "write_to_usage = map of_char ''Ussage: %s [file] '' @ QUOTE # map of_char ''string'' @ [QUOTE, 0x0a, 0]"

definition write_to_fail ::
  "'w os \<Rightarrow> u8 list \<Rightarrow> u8 list \<Rightarrow> u8 list \<Rightarrow> ('w, 'a) proc_scheme \<Rightarrow> (unit, ('w, 'a) proc_scheme) res" where
  "write_to_fail os junk fmt path s =
     bindR (printf os junk fmt [Kstr path] s) (\<lambda>_ s.
     bindR (perror os junk (ctext '''') s) (\<lambda>_ s. exit_program os (p_errno s) s))"

definition write_to_main ::
  "'w os \<Rightarrow> u8 list \<Rightarrow> int \<Rightarrow> u8 list list \<Rightarrow> ('w, 'a) proc_scheme \<Rightarrow> (int, ('w, 'a) proc_scheme) res" where
  "write_to_main os junk argc argv s =
     bindR (if argc < 4 then print_ussage os junk write_to_usage argv s else Ret () s) (\<lambda>_ s.
     bindR (str_arg argv 1 s) (\<lambda>path s.
     bindR (trap (os_open os path O_WRONLY) s) (\<lambda>fd s.
     bindR (if fd < 0 then write_to_fail os junk (ctext ''Failed to open %s'') path s else Ret () s) (\<lambda>_ s.
     bindR (str_arg argv 2 s) (\<lambda>str s.
     case strlen str of
       None \<Rightarrow> Fault NULL
     | Some len \<Rightarrow>
         bindR (trap (os_write os fd (take len str)) s) (\<lambda>r s.
         bindR (if r < 0 then write_to_fail os junk (ctext ''Failed to write to %s'') path s else Ret () s) (\<lambda>_ s.
         bindR (trap (os_close os fd) s) (\<lambda>_ s. Ret 0 s))))))))"

definition init_main :: "'w os \<Rightarrow> u8 list \<Rightarrow> ('w, 'a) proc_scheme \<Rightarrow> (int, ('w, 'a) proc_scheme) res" where
  "init_main os junk s =
     bindR (trap (os_fork os) s) (\<lambda>pid s.
     if pid = 0 then
       (case os_execve os (map of_char ''/bin/shell'') [] (world s) of
          Inr w \<Rightarrow> Iret (s\<lparr>world := w\<rparr>)
        | Inl (r, e, w) \<Rightarrow>
            let s = s\<lparr>p_errno := e, world := w\<rparr> in
            bindR (if r < 0 then
                     bindR (perror os junk (ctext ''[ERROR]'') s) (\<lambda>_ s.
                     bindR (printf os junk (ctext ''Halting system'') [] s) (\<lambda>_ s. Ret () s))
                   else Ret () s) (\<lambda>_ s. Ret 0 s))
     else bindR (trap (os_waitpid os pid) s) (\<lambda>_ s. Ret 0 s))"

subsection \<open>concurrency_test\<close>

text \<open>\<^verbatim>\<open>_busy_wait\<close> counts a local variable and returns; it has no effect that another function could see.\<close>

definition busy_wait :: "nat \<Rightarrow> 's \<Rightarrow> (unit, 's) res" where
  "busy_wait iter s = for_each [0 ..< iter] (\<lambda>_ s. Ret () s) s"

definition concurrency_main :: "'w os \<Rightarrow> u8 list \<Rightarrow> ('w, 'a) proc_scheme \<Rightarrow> (int, ('w, 'a) proc_scheme) res" where
  "concurrency_main os junk s =
     (let print_wait = (\<lambda>msg s. bindR (printf os junk (cline msg) [] s) (\<lambda>_ s. busy_wait 3000000 s));
          wait_print = (\<lambda>msg s. bindR (busy_wait 3000000 s) (\<lambda>_ s.
            bindR (printf os junk (cline msg) [] s) (\<lambda>_ s. Ret () s))) in
      bindR (trap (os_fork os) s) (\<lambda>p s.
      bindR (if p = 0 then for_each [0 ..< 4] (\<lambda>_. print_wait ''process 2'') s
             else bindR (trap (os_fork os) s) (\<lambda>p2 s.
               if p2 = 0 then for_each [0 ..< 4] (\<lambda>_. print_wait ''process 3'') s
               else for_each [0 ..< 4] (\<lambda>_. wait_print ''process 1'') s)) (\<lambda>_ s.
      Ret 0 s)))"

section \<open>What cat prints\<close>

text \<open>
  A system with an open file: \<open>rest w\<close> is the part of the file behind its position, \<open>out w\<close> what has been written to the
  terminal. At the end of the file \<^verbatim>\<open>read\<close> returns -1, as \<^verbatim>\<open>vfs_read\<close> does.
\<close>

definition serves :: "'w os \<Rightarrow> int \<Rightarrow> ('w \<Rightarrow> u8 list) \<Rightarrow> ('w \<Rightarrow> u8 list) \<Rightarrow> bool" where
  "serves os fd rest out \<longleftrightarrow>
     (\<forall>w. case os_read os fd CHUNK_SIZE w of ((r, bs), e, w') \<Rightarrow>
        r = (if rest w = [] then - 1 else int (length bs)) \<and> bs = take CHUNK_SIZE (rest w) \<and>
        rest w' = drop CHUNK_SIZE (rest w) \<and> out w' = out w) \<and>
     (\<forall>bs w. case os_write os STDOUT bs w of (r, e, w') \<Rightarrow> rest w' = rest w \<and> out w' = out w @ bs)"

lemma printf_str:
  assumes "0 \<in> set str" and "length (cstr str) \<le> 1920" and "length junk = 1921"
  shows "printf os junk (ctext ''%s'') [Kstr str] s =
    bindR (trap (os_write os STDOUT (cstr str)) s) (\<lambda>_ s. Ret (int (length (cstr str))) s)"
  using assms by (intro printf_run) (simp_all add: ctext_def)

lemma print_serves:
  assumes "serves os fd rest out" and "0 \<in> set str" and "length (cstr str) \<le> 1920" and "length junk = 1921"
  shows "\<exists>x s'. printf os junk (ctext ''%s'') [Kstr str] s = Ret x s' \<and> rest (world s') = rest (world s) \<and>
    out (world s') = out (world s) @ cstr str"
proof -
  obtain r e w' where "os_write os STDOUT (cstr str) (world s) = (r, e, w')" by (metis prod_cases3)
  moreover from this have "rest w' = rest (world s)" "out w' = out (world s) @ cstr str"
    using assms(1) by (auto simp: serves_def split: prod.splits)
  ultimately show ?thesis by (simp add: printf_str [OF assms(2-4)] trap_def)
qed

lemma read_serves:
  assumes "serves os fd rest out"
  shows "\<exists>s'. cat_read os fd buff s = Ret (if rest (world s) = [] then - 1 else int (length (take 1024 (rest (world s)))),
      fill (take 1024 (rest (world s))) buff) s' \<and>
    rest (world s') = drop 1024 (rest (world s)) \<and> out (world s') = out (world s)"
proof -
  obtain r bs e w' where o: "os_read os fd CHUNK_SIZE (world s) = ((r, bs), e, w')" by (metis prod.collapse)
  moreover have "r = (if rest (world s) = [] then - 1 else int (length bs))" "bs = take CHUNK_SIZE (rest (world s))"
    "rest w' = drop CHUNK_SIZE (rest (world s))" "out w' = out (world s)"
    using assms o unfolding serves_def by (fastforce split: prod.splits)+
  ultimately show ?thesis by (simp add: cat_read_def trap_def)
qed

lemma filled:
  assumes "length bs \<le> 1024" and "length buff = 1025" and "0 \<notin> set bs"
  shows "cstr ((fill bs buff)[length bs := 0]) = bs" "0 \<in> set ((fill bs buff)[length bs := 0])" "length (fill bs buff) = 1025"
proof -
  have "(fill bs buff)[length bs := 0] = bs @ 0 # drop (length bs + 1) buff"
    using assms(1,2) Cons_nth_drop_Suc [of "length bs" buff]
    by (simp add: fill_def list_update_append) (metis list.sel(3) list_update_code(2))
  then show "cstr ((fill bs buff)[length bs := 0]) = bs" "0 \<in> set ((fill bs buff)[length bs := 0])"
    using assms(3) by (simp_all add: cstr_append_zero)
  show "length (fill bs buff) = 1025" using assms by (simp add: fill_def)
qed

lemma cat_copy_block:
  assumes "cat_read os fd buff s = Ret (1024, b) s1" and "printf os junk (ctext ''%s'') [Kstr (b[1024 := 0])] s1 = Ret x s2"
  shows "cat_copy (Suc n) os junk fd buff s = cat_copy n os junk fd (b[1024 := 0]) s2"
  using assms by (simp add: cat_copy_def Let_def bindR_assoc)

lemma cat_copy_last:
  assumes "cat_read os fd buff s = Ret (r, b) s1" and "r \<noteq> 1024"
  shows "cat_copy (Suc n) os junk fd buff s =
    (if 0 \<le> r \<and> nat r < length b
     then bindR (printf os junk (ctext ''%s'') [Kstr (b[nat r := 0])] s1) (\<lambda>_ s. Ret () s) else Fault NULL)"
  using assms by (simp add: cat_copy_def)

lemma cat_copy_file:
  assumes "serves os fd rest out" and "length junk = 1921" and "length buff = 1025" and "0 \<notin> set (rest (world s))"
    and "length (rest (world s)) div 1024 < n"
  shows "if length (rest (world s)) mod 1024 = 0 then cat_copy n os junk fd buff s = Fault NULL
    else \<exists>s'. cat_copy n os junk fd buff s = Ret () s' \<and> out (world s') = out (world s) @ rest (world s)"
  using assms(3-5)
proof (induction n arbitrary: buff s)
  case (Suc n)
  let ?f = "rest (world s)" and ?b = "fill (take 1024 (rest (world s))) buff"
  have z: "0 \<notin> set (take 1024 ?f)" using Suc.prems(2) by (meson in_set_takeD)
  obtain s1 where r: "cat_read os fd buff s = Ret (if ?f = [] then - 1 else int (length (take 1024 ?f)), ?b) s1"
    "rest (world s1) = drop 1024 ?f" "out (world s1) = out (world s)"
    using read_serves [OF assms(1), of buff s] by blast
  note f = filled [OF _ Suc.prems(1) z]
  show ?case
  proof (cases "1024 \<le> length ?f")
    case True
    then have l: "length (take 1024 ?f) = 1024" "?f \<noteq> []" by auto
    obtain x s2 where p: "printf os junk (ctext ''%s'') [Kstr (?b[1024 := 0])] s1 = Ret x s2"
      "rest (world s2) = drop 1024 ?f" "out (world s2) = out (world s) @ take 1024 ?f"
      using print_serves [OF assms(1) _ _ assms(2), of "?b[1024 := 0]" s1] f l r by auto
    have "cat_copy (Suc n) os junk fd buff s = cat_copy n os junk fd (?b[1024 := 0]) s2"
      by (rule cat_copy_block [OF _ p(1)]) (use r l in simp)
    moreover have "0 \<notin> set (drop 1024 ?f)" using Suc.prems(2) by (meson in_set_dropD)
    moreover have "(length ?f - 1024) div 1024 < n" "(length ?f - 1024) mod 1024 = length ?f mod 1024"
      using Suc.prems(3) True by (auto simp: le_mod_geq le_div_geq)
    ultimately show ?thesis
      using Suc.IH [of "?b[1024 := 0]" s2] f l p by (simp split: if_splits)
  next
    case False
    then have t: "take 1024 ?f = ?f" "length ?f mod 1024 = length ?f" by auto
    show ?thesis
    proof (cases "?f = []")
      case True
      then show ?thesis using cat_copy_last [of os fd buff s "- 1" ?b s1] r by simp
    next
      case ne: False
      obtain x s2 where p: "printf os junk (ctext ''%s'') [Kstr (?b[length ?f := 0])] s1 = Ret x s2"
        "out (world s2) = out (world s) @ ?f"
        using print_serves [OF assms(1) _ _ assms(2), of "?b[length ?f := 0]" s1] f t False r by auto
      have "cat_copy (Suc n) os junk fd buff s = Ret () s2"
        using cat_copy_last [of os fd buff s "int (length ?f)" ?b s1] r p ne t False f by simp
      with p ne t show ?thesis by simp
    qed
  qed
qed simp


text \<open>A system with one file and a terminal.\<close>

definition os_file :: "(u8 list \<times> u8 list) os" where
  "os_file = \<lparr>os_write = (\<lambda>fd bs (f, t). (int (length bs), 0, (f, t @ bs))),
     os_read = (\<lambda>fd n (f, t). ((if f = [] then - 1 else int (length (take n f)), take n f), 0, (drop n f, t))),
     os_sbrk = (\<lambda>_ w. (0, 12, w)), os_fork = (\<lambda>w. (2, 0, w)), os_waitpid = (\<lambda>_ w. (0, 0, w)),
     os_execve = (\<lambda>_ _ w. Inl (- 1, 2, w)), os_exit = (\<lambda>_ w. w),
     os_open = (\<lambda>_ _ w. (3, 0, w)), os_close = (\<lambda>_ w. (0, 0, w)), os_remove = (\<lambda>_ w. (- 1, 2, w)),
     os_mkdir = (\<lambda>_ _ w. (- 1, 17, w)), os_rmdir = (\<lambda>_ w. (- 1, 2, w)), os_readdir = (\<lambda>_ w. ((0, []), 0, w))\<rparr>"

lemma os_file_serves: "serves os_file fd fst snd"
  by (auto simp: serves_def os_file_def)


end
