(* ===== verification/Spec2Isabelle.thy ===== *)
theory Spec2Isabelle
  imports Prelude Dll Areas Transitions Ring_Lists Klib Pmm Frame_Histories Memory Paging Kmalloc Heap_Histories Vmalloc Vmm Vfs Filesystems File_Contents Tasks Run_Queues Scheduler Exit_Wait Waitpid Terminal Devices File_Syscalls Images Interrupts Boot
    I386 Bootstrap Stubs Entry System_Calls Libc_Print Libc_Heap Shell Programs
begin

text \<open>
  A verification development of POLX (TrytonOS), a small operating system for the i386: a kernel with paging, two heaps,
  a file tree, tasks and a terminal, a C library and the programs of its ramdisk. All names of files below are relative
  to \<^verbatim>\<open>src/src\<close>.

  \<^bold>\<open>How the program is modelled.\<close> A C function is a HOL function on an explicit state that returns an outcome of type
  \<open>res\<close> (theory \<open>Prelude\<close>): it returns a value and a state, stops the kernel (\<open>Panic\<close>), accesses memory to which no object
  belongs (\<open>Fault\<close>), leaves to user mode for good (\<open>Iret\<close>: \<^verbatim>\<open>context_switch\<close>, \<^verbatim>\<open>syscall_return\<close>, and \<^verbatim>\<open>exit\<close> in programs) or
  has used up the fuel of the model (\<open>Timeout\<close>). Machine integers are words of their width. Objects of one struct type
  form a typed store from addresses to records, so that aliasing, dangling pointers and \<^verbatim>\<open>NULL\<close> show; page tables and the
  contents of files and program images are bytes of physical memory behind the address translation of the machine. An
  object from \<^verbatim>\<open>kmalloc\<close> starts with whatever memory holds at its address (\<open>stale\<close>). The state grows with the layers:
  \<open>pmm\<close>, \<open>mmu\<close>, \<open>kheap\<close>, \<open>vmem\<close>, \<open>vmm\<close>, \<open>vfs\<close>, \<open>sched\<close>, \<open>dev\<close>, \<open>sys\<close> and \<open>machine\<close> extend each other, and an operation is
  polymorphic in the layers above its own; the state of a program is \<open>proc\<close>, extended by its heap \<open>uheap\<close>.

  \<^bold>\<open>The theories and what they show.\<close>
  \<^item> \<open>Prelude\<close>, \<open>Dll\<close>, \<open>Areas\<close>: outcomes, stores, loops that follow pointers; the locales \<open>dll_node\<close> (doubly linked lists in a
    store, interpreted for the sorted bin, the areas of vmalloc, the regions, the children of a directory and the run
    queues) and \<open>area_list\<close> (disjoint areas in order, interpreted for vmalloc and for regions).
  \<^item> \<open>Transitions\<close>, \<open>Frame_Histories\<close>, \<open>Heap_Histories\<close>: the states that a component reaches when its callers call it in any order;
    the locale \<open>guarded_system\<close> (an invariant of the start and of every call holds for ever) is interpreted for the physical
    memory manager with the frames its clients hold, and for the kernel heap.
  \<^item> \<open>Ring_Lists\<close> (\<^verbatim>\<open>include/kernel/klib/list.h\<close>): the macros for circular lists keep rings.
  \<^item> \<open>Klib\<close> (\<^verbatim>\<open>kernel/klib\<close> strings and the number printer): the printed text denotes the number; the string routines.
  \<^item> \<open>Pmm\<close> (\<^verbatim>\<open>kernel/memory/pmm.c\<close>): frames handed out are free, aligned and become used, the counter is exact, allocation
    ends although the code calls itself, pools are runs of free frames.
  \<^item> \<open>Memory\<close>, \<open>Paging\<close> (\<^verbatim>\<open>kernel/arch/i386/paging.c\<close>): mapping and unmapping change exactly one translation.
  \<^item> \<open>Kmalloc\<close> (\<^verbatim>\<open>kmalloc.c\<close>, \<^verbatim>\<open>kfree.c\<close>): the heap is tiled by chunks, the bins hold exactly the free ones; allocation and
    release keep this and the other blocks; blocks never overlap. The locale \<open>allocator\<close> is the interface of a heap.
  \<^item> \<open>Vmalloc\<close> (\<^verbatim>\<open>vmalloc.c\<close>, \<^verbatim>\<open>vfree.c\<close>, \<^verbatim>\<open>vmm_misc.c\<close>) and \<open>Vmm\<close> (\<^verbatim>\<open>kernel/memory/vmm.c\<close>): ordered lists of areas and regions
    stay ordered and disjoint; searches for holes; which areas are accepted as free.
  \<^item> \<open>Vfs\<close>, \<open>Filesystems\<close> (\<^verbatim>\<open>kernel/vfs\<close>): path lookup refines a walk in an abstract tree; adding and removing nodes; reading,
    writing and listing in ramfs and tarfs; the headers of the archive. \<open>File_Contents\<close> follows the frame of a ramfs file
    through the page tables: \<^verbatim>\<open>ramfs_write\<close> and \<^verbatim>\<open>ramfs_read\<close>, with the window they map and take down again, implement
    writing to and reading from a list of bytes.
  \<^item> \<open>Tasks\<close>, \<open>Run_Queues\<close>, \<open>Scheduler\<close>, \<open>Exit_Wait\<close>, \<open>Waitpid\<close> (\<^verbatim>\<open>kernel/cpu\<close>, \<^verbatim>\<open>kernel/ipc\<close>): the queues stay well formed and hold the tasks
    of their state and priority; timer switches serve a queue in turn; a task that waits falls asleep as
    the exit of its child expects it, and the exit wakes it.
  \<^item> \<open>Terminal\<close>, \<open>Devices\<close> (\<^verbatim>\<open>dev\<close>, \<^verbatim>\<open>kernel/vfs/dev_std*.c\<close>, \<^verbatim>\<open>kprintf.c\<close>): printing refines a screen of 25 rows with scrolling; a
    typed line reaches the reader.
  \<^item> \<open>File_Syscalls\<close>, \<open>Images\<close> (\<^verbatim>\<open>mmap.c\<close>, \<^verbatim>\<open>brk.c\<close>, \<^verbatim>\<open>elf_loader.c\<close>, \<^verbatim>\<open>execve.c\<close>, page faults): seeking, descriptors, refused mappings,
    faults that kill and faults that map, ELF headers read from bytes.
  \<^item> \<open>Interrupts\<close>, \<open>Boot\<close> (\<^verbatim>\<open>isr.c\<close>, \<^verbatim>\<open>idt.c\<close>, \<^verbatim>\<open>gdt.c\<close>, \<^verbatim>\<open>irq.c\<close>, \<^verbatim>\<open>tss.c\<close>, \<^verbatim>\<open>arch_init.c\<close>, \<^verbatim>\<open>main.c\<close>): the interrupt table, a timer
    interrupt that a program does not notice, a system call from the trap to the return; the boot sequence as a
    definition.
  \<^item> \<open>I386\<close>: a small model of the processor for the assembler files. \<open>Bootstrap\<close> (\<^verbatim>\<open>bootstrap.s\<close>): the loop over the frames ends
    and the kernel is mapped where it expects to be. \<open>Entry\<close> (\<^verbatim>\<open>int_handler.s\<close>, \<^verbatim>\<open>context_switch.s\<close>, \<^verbatim>\<open>gdt_load.s\<close>, \<^verbatim>\<open>idt_load.s\<close>,
    \<^verbatim>\<open>tss_flush.s\<close>, \<^verbatim>\<open>task_regs.s\<close>): the memory that the entry code builds is the records that the C handlers of \<open>Interrupts\<close>
    get, an interrupt of the kernel leaves no trace, a switch loads exactly the registers of the task. \<open>Stubs\<close>
    (\<^verbatim>\<open>libc/arch/i386\<close>): one protocol for all system call stubs, and the start-up code. \<open>System_Calls\<close>: stub, trap, handler
    and return together, for \<^verbatim>\<open>lseek\<close>.
  \<^item> \<open>Libc_Print\<close>, \<open>Libc_Heap\<close>, \<open>Shell\<close>, \<open>Programs\<close> (\<^verbatim>\<open>libc\<close>, \<^verbatim>\<open>initrd/bin\<close>): what \<^verbatim>\<open>printf\<close> prints; the heap of a program is
    simulated by the heap of the kernel, which makes it a second \<open>allocator\<close>, and goes wrong when it grows; how the
    shell splits a line; what \<^verbatim>\<open>cat\<close> prints.

  \<^bold>\<open>Bounds and fuel.\<close> \<^verbatim>\<open>pmm_get_frame\<close> calls itself; it stops within four calls or never, which is shown, and four are run; the
  loop of \<^verbatim>\<open>pmm_init\<close> has one round per frame. Loops over pointers (\<open>chase\<close>) need no fuel: a loop that returns to a pointer
  it has seen is \<open>Timeout\<close>. Exiting, switching, signal delivery and the destruction of tasks call each other, and some
  loops (\<^verbatim>\<open>write\<close>, \<^verbatim>\<open>cat\<close>, \<^verbatim>\<open>ls\<close>, the shell) need not end: these take a number \<open>n\<close>, and theorems about results state how
  large it must be. Hypotheses on sizes (a request below a gibibyte, heap ends below the top of the address space)
  are the ranges in which the 30-bit and 32-bit fields of the code can represent the values at all.

  \<^bold>\<open>Parameters.\<close> In the C library and the programs the system calls are a record of functions, \<open>os\<close>; a theorem holds for all
  of them, or names what it needs (\<open>serves\<close>). What uninitialised memory holds is an argument (\<open>junk\<close>, \<open>stale\<close>).

  \<^bold>\<open>Assembler.\<close> A routine is a list of instructions; \<open>exec\<close> runs straight-line code and \<open>run\<close> code with jumps, with a number of
  instructions as fuel, which \<open>bootstrap_correct\<close> gives as a function of the number of frames. Memory is a function from
  addresses to 32-bit cells, since the files access aligned words only. Called C functions and the kernel behind a
  trap are the record \<open>env\<close>; hypotheses say what they keep.

  \<^bold>\<open>Not modelled.\<close> The look-aside buffer of the processor (every access walks the tables); interrupts that arrive while C code
  of the kernel runs, beyond what the entry and exit code do; timing of devices; the parts of \<^verbatim>\<open>multiboot.h\<close> that the
  kernel does not read. Headers are modelled where they declare data or operations; prototypes have no model of their own.

  \<^bold>\<open>Limits.\<close> The boot sequence \<open>kernel_main\<close>, \<open>do_fork\<close> and \<open>do_execve\<close> are definitions whose parts have theorems, while no theorem
  spans one of them as a whole. The connection of a C library function with the kernel is shown for \<^verbatim>\<open>lseek\<close>; for the other
  calls \<open>Stubs\<close> and \<open>Interrupts\<close> give the two halves.
\<close>

end
